(* ===== verification/Prelude.thy ===== *)
theory Prelude
  imports Main "HOL-Library.Word" "HOL-Library.Monad_Syntax"
begin

unbundle bit_operations_syntax

text \<open>
  Shared vocabulary of the development: names for the machine integers of the
  Blackfin tool chain (a 32-bit target, so \<open>int\<close>, \<open>long\<close>, \<open>size_t\<close> and
  pointers are all 32 bits wide), the first-match search that stands for the
  \<open>for (i = 0; i < n; i++) if (...) { ...; break; }\<close> loops of the C sources,
  and the generic facts about lists, words and options that the component
  theories share.  The collections declared here gather the facts by use:
  \<open>arr\<close> for reads of updated arrays, \<open>hw\<close> for bus and register traffic,
  \<open>cdefs\<close> for the small definitions of constants.
\<close>

named_theorems arr \<open>reading an element of an updated array\<close>
named_theorems hw \<open>what an operation leaves on a bus or in a register file\<close>
named_theorems cdefs \<open>definitions of constants of the C sources\<close>

type_synonym u8 = "8 word"
type_synonym u16 = "16 word"
type_synonym u32 = "32 word"

section \<open>First match in an array\<close>

fun find_idx :: "('a \<Rightarrow> bool) \<Rightarrow> 'a list \<Rightarrow> nat option" where
  "find_idx P [] = None"
| "find_idx P (x # xs) = (if P x then Some 0 else map_option Suc (find_idx P xs))"

lemma find_idx_None_iff: "find_idx P xs = None \<longleftrightarrow> (\<forall>x\<in>set xs. \<not> P x)"
  by (induction xs) auto

lemma find_idx_SomeD:
  "find_idx P xs = Some i \<Longrightarrow> i < length xs \<and> P (xs ! i) \<and> (\<forall>j<i. \<not> P (xs ! j))"
proof (induction xs arbitrary: i)
  case Nil
  then show ?case by simp
next
  case (Cons x xs)
  show ?case
  proof (cases "P x")
    case True
    with Cons.prems show ?thesis by simp
  next
    case False
    with Cons.prems obtain k where k: "find_idx P xs = Some k" "i = Suc k" by auto
    with Cons.IH[OF k(1)] False show ?thesis
      by (auto simp: nth_Cons split: nat.splits)
  qed
qed

lemma find_idx_SomeI:
  "i < length xs \<Longrightarrow> P (xs ! i) \<Longrightarrow> (\<And>j. j < i \<Longrightarrow> \<not> P (xs ! j)) \<Longrightarrow> find_idx P xs = Some i"
proof (induction xs arbitrary: i)
  case Nil
  then show ?case by simp
next
  case (Cons x xs)
  show ?case
  proof (cases i)
    case 0
    with Cons.prems show ?thesis by simp
  next
    case (Suc k)
    with Cons.prems(3)[of 0] have "\<not> P x" by simp
    moreover have "find_idx P xs = Some k"
      using Cons.prems(1,2) Suc Cons.prems(3)[of "Suc _"] by (intro Cons.IH) auto
    ultimately show ?thesis using Suc by simp
  qed
qed

lemma find_idx_None_nth: "find_idx P xs = None \<Longrightarrow> i < length xs \<Longrightarrow> \<not> P (xs ! i)"
  by (simp add: find_idx_None_iff)

section \<open>Arrays\<close>

lemma nth_update_cases [arr]:
  "i < length xs \<Longrightarrow> xs[j := v] ! i = (if i = j then v else xs ! i)"
  by (simp add: nth_list_update)

section \<open>Words\<close>

lemma unat_add_no_wrap: "unat a + unat b < 2 ^ 32 \<Longrightarrow> unat (a + b :: u32) = unat a + unat b"
  by (simp add: unat_word_ariths)

lemma unat_diff_no_wrap: "b \<le> a \<Longrightarrow> unat (a - b :: u32) = unat a - unat b"
  by (simp add: unat_sub)

text \<open>Rounding up to a multiple of four, as \<open>(size + 3) & ~3\<close> does.\<close>

lemma and_3_mod_4: "x AND 3 = (x mod 4 :: u32)"
proof -
  have "x AND mask 2 = take_bit 2 x" by (simp only: take_bit_eq_mask)
  then show ?thesis by (simp add: mask_eq_exp_minus_1 take_bit_eq_mod)
qed

lemma unat_and_not_3: "unat (x AND NOT 3 :: u32) = 4 * (unat x div 4)"
proof -
  have "NOT x AND (x AND 3) = 0" by (rule bit_word_eqI) (auto simp: bit_simps)
  then have "x - (x AND 3) = x AND NOT (x AND 3)" by (rule disjunctive_diff_eq_and_not)
  also have "\<dots> = x AND NOT 3" by (rule bit_word_eqI) (auto simp: bit_and_iff bit_or_iff bit_not_iff)
  finally have "x AND NOT 3 = x - x mod 4" by (simp add: and_3_mod_4)
  moreover have "unat (x mod 4) = unat x mod 4" by (simp add: unat_mod)
  moreover have "x mod 4 \<le> x" by (simp add: word_le_nat_alt unat_mod)
  ultimately have "unat (x AND NOT 3) = unat x - unat x mod 4"
    by (simp add: unat_diff_no_wrap)
  then show ?thesis by (simp add: minus_mod_eq_mult_div)
qed

text \<open>Small non-negative \<open>int\<close>s: signed and unsigned readings agree.\<close>

lemma sint_small: "unat (w :: u32) < 2 ^ 31 \<Longrightarrow> sint w = int (unat w)"
proof -
  assume "unat w < 2 ^ 31"
  then have "uint w < 2 ^ 31" by (metis nat_less_numeral_power_cancel_iff unat_eq_nat_uint)
  moreover have "- (2 ^ 31) \<le> uint w" by (rule order_trans[of _ 0]) simp_all
  ultimately have "signed_take_bit 31 (uint w) = uint w" by (rule signed_take_bit_int_eq_self[rotated])
  then show ?thesis by (simp add: sint_uint)
qed

lemma sle_small:
  assumes "unat (a :: u32) < 2 ^ 31" "unat b < 2 ^ 31"
  shows "(a \<le>s b) = (unat a \<le> unat b)"
  using sint_small[OF assms(1)] sint_small[OF assms(2)] by (simp only: word_sle_eq of_nat_le_iff)

lemma and_7f: "(w :: u32) AND 0x7f = w mod 128"
proof -
  have "w AND mask 7 = take_bit 7 w" by (simp only: take_bit_eq_mask)
  then show ?thesis by (simp add: mask_eq_exp_minus_1 take_bit_eq_mod)
qed

lemma unat_incr: "unat w < 2 ^ 32 - 1 \<Longrightarrow> unat (w + 1 :: u32) = Suc (unat w)"
  using unat_add_no_wrap[of w 1] by simp

text \<open>The mask of one pin of a port.\<close>

lemma bit_pin [simp]: "n < 16 \<Longrightarrow> bit (push_bit n 1 :: u16) k \<longleftrightarrow> k = n"
  by (auto simp: bit_simps)

end
