(* ===== verification/Sram.thy ===== *)
theory Sram
  imports Prelude
begin

text \<open>
  The L1 SRAM allocator of \<open>src/src/blackfin_sram.c\<close>: the piece table
  (\<open>struct l1_sram_piece\<close>), first-fit allocation, largest-block allocation and
  release with coalescing.  A \<open>void *\<close>, a \<open>size_t\<close> and an \<open>int\<close> size are
  32-bit words; the comparison of an \<open>int\<close> size with a \<open>size_t\<close> is the unsigned
  one, as in C.  The table's length is the \<open>count\<close> (\<open>ARRAY_SIZE\<close>) every caller
  passes.

  The invariant \<open>sram_inv b e\<close> says that the pieces in use tile the region
  \<open>[b, e)\<close> exactly, that no two free pieces touch, and that a dead table entry
  never hides a later live one with the same address (which is what makes the
  first-match search in \<open>_l1_sram_free\<close> find the right piece).
\<close>

section \<open>The piece table and its operations\<close>

datatype slot_flag = SRAM_SLT_NULL | SRAM_SLT_FREE | SRAM_SLT_ALLOCATED

record l1_sram_piece =
  paddr :: u32
  psize :: u32
  pflag :: slot_flag
  ppid :: int

type_synonym bank = "l1_sram_piece list"

definition null_piece :: l1_sram_piece where
  "null_piece = \<lparr>paddr = 0, psize = 0, pflag = SRAM_SLT_NULL, ppid = 0\<rparr>"

text \<open>\<open>memset(&tbl, 0, sizeof(tbl))\<close> followed by one free piece for the whole region.\<close>

definition bank_init :: "nat \<Rightarrow> u32 \<Rightarrow> u32 \<Rightarrow> bank" where
  "bank_init count start len =
     (replicate count null_piece)
       [0 := null_piece\<lparr>paddr := start, psize := len, pflag := SRAM_SLT_FREE\<rparr>]"

definition align4 :: "u32 \<Rightarrow> u32" where
  "align4 sz = (sz + 3) AND NOT 3"

definition l1_sram_alloc :: "u32 \<Rightarrow> bank \<Rightarrow> int \<Rightarrow> u32 \<times> bank" where
  "l1_sram_alloc sz pfree cur =
     (if sz = 0 then (0, pfree)
      else let sz = align4 sz in
      case find_idx (\<lambda>p. pflag p = SRAM_SLT_FREE \<and> sz \<le> psize p) pfree of
        None \<Rightarrow> (0, pfree)
      | Some index \<Rightarrow>
          let addr = paddr (pfree ! index);
              pfree = pfree[index := (pfree ! index)\<lparr>pflag := SRAM_SLT_ALLOCATED, ppid := cur\<rparr>]
          in if sz < psize (pfree ! index)
             then (case find_idx (\<lambda>p. pflag p = SRAM_SLT_NULL) pfree of
                     None \<Rightarrow> (addr, pfree)
                   | Some i \<Rightarrow>
                       let pfree = pfree[i := (pfree ! i)\<lparr>ppid := 0, pflag := SRAM_SLT_FREE,
                             paddr := addr + sz, psize := psize (pfree ! index) - sz\<rparr>]
                       in (addr, pfree[index := (pfree ! index)\<lparr>psize := sz\<rparr>]))
             else (addr, pfree))"

text \<open>The search of \<open>_l1_sram_alloc_max\<close>: the loop variables are \<open>i\<close> and
  \<open>(best, index, addr)\<close>; \<open>index = -1\<close> is \<open>None\<close>.\<close>

fun alloc_max_scan :: "bank \<Rightarrow> nat \<Rightarrow> u32 \<times> nat option \<times> u32 \<Rightarrow> u32 \<times> nat option \<times> u32" where
  "alloc_max_scan [] i st = st"
| "alloc_max_scan (p # ps) i (best, index, addr) =
     (if pflag p = SRAM_SLT_FREE \<and> best < psize p
      then alloc_max_scan ps (Suc i) (psize p, Some i, paddr p)
      else alloc_max_scan ps (Suc i) (best, index, addr))"

text \<open>\<open>*psize\<close> is written only on success: \<open>None\<close> leaves it as it was.\<close>

definition l1_sram_alloc_max :: "bank \<Rightarrow> int \<Rightarrow> u32 \<times> u32 option \<times> bank" where
  "l1_sram_alloc_max pfree cur =
     (case alloc_max_scan pfree 0 (0, None, 0) of
        (best, None, addr) \<Rightarrow> (0, None, pfree)
      | (best, Some index, addr) \<Rightarrow>
          (addr, Some best,
           pfree[index := (pfree ! index)\<lparr>ppid := cur, pflag := SRAM_SLT_ALLOCATED\<rparr>]))"

text \<open>The two linking loops of \<open>_l1_sram_free\<close>.\<close>

definition link_next :: "nat \<Rightarrow> bank \<Rightarrow> bank" where
  "link_next index pfree =
     (case find_idx (\<lambda>p. paddr (pfree ! index) + psize (pfree ! index) = paddr p
                        \<and> pflag p = SRAM_SLT_FREE) pfree of
        None \<Rightarrow> pfree
      | Some i \<Rightarrow>
          let pfree = pfree[i := (pfree ! i)\<lparr>ppid := 0, pflag := SRAM_SLT_NULL\<rparr>]
          in pfree[index := (pfree ! index)
               \<lparr>psize := psize (pfree ! index) + psize (pfree ! i), pflag := SRAM_SLT_FREE\<rparr>])"

definition link_last :: "nat \<Rightarrow> bank \<Rightarrow> bank" where
  "link_last index pfree =
     (case find_idx (\<lambda>p. paddr p + psize p = paddr (pfree ! index)
                        \<and> pflag p = SRAM_SLT_FREE) pfree of
        None \<Rightarrow> pfree
      | Some i \<Rightarrow>
          let pfree = pfree[index := (pfree ! index)\<lparr>pflag := SRAM_SLT_NULL\<rparr>]
          in pfree[i := (pfree ! i)\<lparr>psize := psize (pfree ! i) + psize (pfree ! index)\<rparr>])"

definition l1_sram_free :: "u32 \<Rightarrow> bank \<Rightarrow> int \<times> bank" where
  "l1_sram_free addr pfree =
     (case find_idx (\<lambda>p. paddr p = addr) pfree of
        None \<Rightarrow> (-1, pfree)
      | Some index \<Rightarrow>
          if pflag (pfree ! index) \<noteq> SRAM_SLT_ALLOCATED then (-1, pfree)
          else let pfree = pfree[index := (pfree ! index)\<lparr>ppid := 0, pflag := SRAM_SLT_FREE\<rparr>]
               in (0, link_last index (link_next index pfree)))"

section \<open>Invariant and abstraction\<close>

definition live :: "l1_sram_piece \<Rightarrow> bool" where
  "live p \<longleftrightarrow> pflag p \<noteq> SRAM_SLT_NULL"

definition lo :: "l1_sram_piece \<Rightarrow> nat" where
  "lo p = unat (paddr p)"

definition hi :: "l1_sram_piece \<Rightarrow> nat" where
  "hi p = unat (paddr p) + unat (psize p)"

definition inv_range :: "nat \<Rightarrow> nat \<Rightarrow> bank \<Rightarrow> bool" where
  "inv_range b e pf \<longleftrightarrow>
     (\<forall>i<length pf. live (pf ! i) \<longrightarrow> b \<le> lo (pf ! i) \<and> lo (pf ! i) < hi (pf ! i) \<and> hi (pf ! i) \<le> e)"

definition inv_disj :: "bank \<Rightarrow> bool" where
  "inv_disj pf \<longleftrightarrow>
     (\<forall>i<length pf. \<forall>j<length pf. i \<noteq> j \<longrightarrow> live (pf ! i) \<longrightarrow> live (pf ! j) \<longrightarrow>
        hi (pf ! i) \<le> lo (pf ! j) \<or> hi (pf ! j) \<le> lo (pf ! i))"

definition inv_cover :: "nat \<Rightarrow> nat \<Rightarrow> bank \<Rightarrow> bool" where
  "inv_cover b e pf \<longleftrightarrow>
     (\<forall>a. b \<le> a \<longrightarrow> a < e \<longrightarrow> (\<exists>i<length pf. live (pf ! i) \<and> lo (pf ! i) \<le> a \<and> a < hi (pf ! i)))"

definition inv_shadow :: "bank \<Rightarrow> bool" where
  "inv_shadow pf \<longleftrightarrow>
     (\<forall>i<length pf. \<forall>j<length pf. i < j \<longrightarrow> \<not> live (pf ! i) \<longrightarrow> live (pf ! j) \<longrightarrow>
        paddr (pf ! i) \<noteq> paddr (pf ! j))"

definition inv_align :: "nat \<Rightarrow> bank \<Rightarrow> bool" where
  "inv_align b pf \<longleftrightarrow> (\<forall>i<length pf. live (pf ! i) \<longrightarrow> 4 dvd (lo (pf ! i) - b))"

definition inv_coal :: "bank \<Rightarrow> bool" where
  "inv_coal pf \<longleftrightarrow>
     (\<forall>i<length pf. \<forall>j<length pf. pflag (pf ! i) = SRAM_SLT_FREE \<longrightarrow>
        pflag (pf ! j) = SRAM_SLT_FREE \<longrightarrow> hi (pf ! i) \<noteq> lo (pf ! j))"

text \<open>Everything but coalescing: what each small step of an operation keeps.\<close>

definition sram_base :: "nat \<Rightarrow> nat \<Rightarrow> bank \<Rightarrow> bool" where
  "sram_base b e pf \<longleftrightarrow> 0 < b \<and> e < 2 ^ 32 \<and>
     inv_range b e pf \<and> inv_disj pf \<and> inv_cover b e pf \<and> inv_shadow pf \<and> inv_align b pf"

definition sram_inv :: "nat \<Rightarrow> nat \<Rightarrow> bank \<Rightarrow> bool" where
  "sram_inv b e pf \<longleftrightarrow> sram_base b e pf \<and> inv_coal pf"

text \<open>What a client sees: the allocated blocks as address ranges.\<close>

definition alloc_idx :: "bank \<Rightarrow> nat set" where
  "alloc_idx pf = {i. i < length pf \<and> pflag (pf ! i) = SRAM_SLT_ALLOCATED}"

definition bounds :: "bank \<Rightarrow> nat \<Rightarrow> nat \<times> nat" where
  "bounds pf i = (lo (pf ! i), hi (pf ! i))"

definition blocks :: "bank \<Rightarrow> (nat \<times> nat) set" where
  "blocks pf = bounds pf ` alloc_idx pf"

lemmas sram_base_defs = inv_range_def inv_disj_def inv_cover_def inv_shadow_def inv_align_def

section \<open>Small steps keep the base invariant\<close>

definition same_piece :: "l1_sram_piece \<Rightarrow> l1_sram_piece \<Rightarrow> bool" where
  "same_piece p q \<longleftrightarrow> live p = live q \<and> paddr p = paddr q \<and> psize p = psize q"

lemma same_piece_bounds: "same_piece p q \<Longrightarrow> lo p = lo q \<and> hi p = hi q"
  by (simp add: same_piece_def lo_def hi_def)

lemma sram_base_cong:
  assumes "length pf' = length pf" and "\<And>i. i < length pf \<Longrightarrow> same_piece (pf' ! i) (pf ! i)"
  shows "sram_base b e pf' = sram_base b e pf"
proof -
  have *: "live (pf' ! i) = live (pf ! i)" "paddr (pf' ! i) = paddr (pf ! i)"
    "lo (pf' ! i) = lo (pf ! i)" "hi (pf' ! i) = hi (pf ! i)" if "i < length pf" for i
    using assms(2)[OF that] by (auto simp: same_piece_def lo_def hi_def)
  show ?thesis
    unfolding sram_base_def sram_base_defs assms(1)
    by (simp add: * cong: conj_cong)
qed

text \<open>Rules to take the base invariant apart and put it together.\<close>

lemma sram_baseI:
  assumes "0 < b" "e < 2 ^ 32"
    "inv_range b e pf" "inv_disj pf" "inv_cover b e pf" "inv_shadow pf" "inv_align b pf"
  shows "sram_base b e pf"
  using assms by (simp add: sram_base_def)

lemma base_range:
  assumes "sram_base b e pf" "i < length pf" "live (pf ! i)"
  shows "b \<le> lo (pf ! i)" "lo (pf ! i) < hi (pf ! i)" "hi (pf ! i) \<le> e"
  using assms by (auto simp: sram_base_def inv_range_def)

lemma base_disj:
  assumes "sram_base b e pf" "i < length pf" "j < length pf" "i \<noteq> j"
    "live (pf ! i)" "live (pf ! j)"
  shows "hi (pf ! i) \<le> lo (pf ! j) \<or> hi (pf ! j) \<le> lo (pf ! i)"
  using assms by (auto simp: sram_base_def inv_disj_def)

lemma base_start_inj:
  assumes "sram_base b e pf" "i < length pf" "j < length pf"
    "live (pf ! i)" "live (pf ! j)" "lo (pf ! i) = lo (pf ! j)"
  shows "i = j"
  using base_disj[OF assms(1-3)] base_range[OF assms(1)] assms
  by (metis leD)

lemma base_cover:
  assumes "sram_base b e pf" "b \<le> a" "a < e"
  obtains i where "i < length pf" "live (pf ! i)" "lo (pf ! i) \<le> a" "a < hi (pf ! i)"
  using assms by (auto simp: sram_base_def inv_cover_def)

lemma base_shadow:
  assumes "sram_base b e pf" "i < j" "j < length pf" "\<not> live (pf ! i)" "live (pf ! j)"
  shows "paddr (pf ! i) \<noteq> paddr (pf ! j)"
  using assms by (auto simp: sram_base_def inv_shadow_def)

lemma base_align:
  assumes "sram_base b e pf" "i < length pf" "live (pf ! i)"
  shows "4 dvd (lo (pf ! i) - b)"
  using assms by (auto simp: sram_base_def inv_align_def)

text \<open>Fusing the piece \<open>d\<close> into its left neighbour \<open>k\<close>: the effect of one linking loop.\<close>

definition merge_step :: "nat \<Rightarrow> nat \<Rightarrow> nat \<Rightarrow> nat \<Rightarrow> bank \<Rightarrow> bank \<Rightarrow> bool" where
  "merge_step b e k d pf pf' \<longleftrightarrow>
     sram_base b e pf \<and> k < length pf \<and> d < length pf \<and> k \<noteq> d \<and>
     live (pf ! k) \<and> live (pf ! d) \<and> hi (pf ! k) = lo (pf ! d) \<and> length pf' = length pf \<and>
     live (pf' ! k) \<and> paddr (pf' ! k) = paddr (pf ! k) \<and>
     psize (pf' ! k) = psize (pf ! k) + psize (pf ! d) \<and>
     \<not> live (pf' ! d) \<and> paddr (pf' ! d) = paddr (pf ! d) \<and>
     (\<forall>i<length pf. i \<noteq> k \<longrightarrow> i \<noteq> d \<longrightarrow> same_piece (pf' ! i) (pf ! i))"

lemma merge_step_base:
  assumes "merge_step b e k d pf pf'"
  shows "sram_base b e pf" "length pf' = length pf" "k < length pf" "d < length pf" "k \<noteq> d"
    "live (pf ! k)" "live (pf ! d)" "hi (pf ! k) = lo (pf ! d)" "live (pf' ! k)" "\<not> live (pf' ! d)"
  using assms by (auto simp: merge_step_def)

lemma merge_step_rest:
  assumes "merge_step b e k d pf pf'" "i < length pf" "i \<noteq> k" "i \<noteq> d"
  shows "lo (pf' ! i) = lo (pf ! i)" "hi (pf' ! i) = hi (pf ! i)" "live (pf' ! i) = live (pf ! i)"
  using assms by (auto simp: merge_step_def same_piece_def lo_def hi_def)

lemma merge_step_paddr:
  assumes "merge_step b e k d pf pf'" "i < length pf"
  shows "paddr (pf' ! i) = paddr (pf ! i)"
  using assms by (cases "i = k"; cases "i = d") (auto simp: merge_step_def same_piece_def)

lemma merge_step_live:
  assumes "merge_step b e k d pf pf'" "i < length pf"
  shows "live (pf' ! i) \<longleftrightarrow> live (pf ! i) \<and> i \<noteq> d"
  using assms merge_step_rest(3)[OF assms(1)] merge_step_base[OF assms(1)]
  by (cases "i = k"; cases "i = d") auto

lemma merge_step_k:
  assumes m: "merge_step b e k d pf pf'"
  shows "lo (pf' ! k) = lo (pf ! k)" "hi (pf' ! k) = hi (pf ! d)"
proof -
  note mb = merge_step_base[OF m]
  show "lo (pf' ! k) = lo (pf ! k)" using merge_step_paddr[OF m mb(3)] by (simp add: lo_def)
  have "unat (psize (pf ! k)) + unat (psize (pf ! d)) < 2 ^ 32"
    using mb(1,8) base_range(3)[OF mb(1,4,7)] by (simp add: hi_def lo_def sram_base_def)
  then show "hi (pf' ! k) = hi (pf ! d)"
    using m mb(8) by (simp add: merge_step_def hi_def lo_def unat_add_no_wrap)
qed

lemma merge_step_outside:
  assumes m: "merge_step b e k d pf pf'" and i: "i < length pf" "i \<noteq> k" "i \<noteq> d" "live (pf ! i)"
  shows "hi (pf ! i) \<le> lo (pf ! k) \<or> hi (pf ! d) \<le> lo (pf ! i)"
proof -
  note mb = merge_step_base[OF m]
  show ?thesis
    using base_disj[OF mb(1) i(1) mb(3) i(2) i(4) mb(6)] base_disj[OF mb(1) i(1) mb(4) i(3) i(4) mb(7)]
      base_range[OF mb(1) i(1) i(4)] base_range[OF mb(1,4,7)] mb(8) by linarith
qed

lemma merge_step_disj:
  assumes m: "merge_step b e k d pf pf'"
  shows "inv_disj pf'"
  unfolding inv_disj_def merge_step_base(2)[OF m]
proof (intro allI impI)
  fix i j assume ij: "i < length pf" "j < length pf" "i \<noteq> j" "live (pf' ! i)" "live (pf' ! j)"
  have l: "live (pf ! i)" "live (pf ! j)" "i \<noteq> d" "j \<noteq> d"
    using merge_step_live[OF m] ij by auto
  consider "i = k" | "j = k" | "i \<noteq> k" "j \<noteq> k" by blast
  then show "hi (pf' ! i) \<le> lo (pf' ! j) \<or> hi (pf' ! j) \<le> lo (pf' ! i)"
  proof cases
    case 1
    then show ?thesis
      using merge_step_outside[OF m ij(2)] merge_step_rest[OF m ij(2)] merge_step_k[OF m] ij(3) l by auto
  next
    case 2
    then show ?thesis
      using merge_step_outside[OF m ij(1)] merge_step_rest[OF m ij(1)] merge_step_k[OF m] ij(3) l by auto
  next
    case 3
    then show ?thesis
      using base_disj[OF merge_step_base(1)[OF m] ij(1-3) l(1,2)]
        merge_step_rest[OF m ij(1)] merge_step_rest[OF m ij(2)] l by auto
  qed
qed

lemma merge_step_cover:
  assumes m: "merge_step b e k d pf pf'"
  shows "inv_cover b e pf'"
  unfolding inv_cover_def merge_step_base(2)[OF m]
proof (intro allI impI)
  note mb = merge_step_base[OF m]
  fix a assume "b \<le> a" "a < e"
  then obtain i where i: "i < length pf" "live (pf ! i)" "lo (pf ! i) \<le> a" "a < hi (pf ! i)"
    using base_cover[OF mb(1)] by blast
  have "lo (pf' ! k) \<le> a \<and> a < hi (pf' ! k)" if "i = k \<or> i = d"
    using that i merge_step_k[OF m] mb(8) base_range[OF mb(1,4,7)] base_range[OF mb(1,3,6)] by auto
  then show "\<exists>i<length pf. live (pf' ! i) \<and> lo (pf' ! i) \<le> a \<and> a < hi (pf' ! i)"
    using i merge_step_rest[OF m i(1)] mb(3,9) by (cases "i = k \<or> i = d") auto
qed

lemma merge_step_shadow:
  assumes m: "merge_step b e k d pf pf'"
  shows "inv_shadow pf'"
  unfolding inv_shadow_def merge_step_base(2)[OF m]
proof (intro allI impI)
  note mb = merge_step_base[OF m]
  fix i j assume ij: "i < length pf" "j < length pf" "i < j" "\<not> live (pf' ! i)" "live (pf' ! j)"
  have j: "live (pf ! j)" "j \<noteq> d" using merge_step_live[OF m ij(2)] ij(5) by auto
  have "paddr (pf ! i) \<noteq> paddr (pf ! j)"
  proof (cases "i = d")
    case True
    then show ?thesis using base_start_inj[OF mb(1) ij(1,2)] mb(7) j by (auto simp: lo_def)
  next
    case False
    then show ?thesis using merge_step_live[OF m ij(1)] ij(4) base_shadow[OF mb(1) ij(3,2)] j by auto
  qed
  then show "paddr (pf' ! i) \<noteq> paddr (pf' ! j)"
    using merge_step_paddr[OF m ij(1)] merge_step_paddr[OF m ij(2)] by simp
qed

lemma sram_base_merge:
  assumes m: "merge_step b e k d pf pf'"
  shows "sram_base b e pf'"
proof (rule sram_baseI)
  note mb = merge_step_base[OF m]
  show "0 < b" "e < 2 ^ 32" using mb(1) by (auto simp: sram_base_def)
  show "inv_range b e pf'"
    unfolding inv_range_def mb(2)
  proof (intro allI impI)
    fix i assume i: "i < length pf" "live (pf' ! i)"
    show "b \<le> lo (pf' ! i) \<and> lo (pf' ! i) < hi (pf' ! i) \<and> hi (pf' ! i) \<le> e"
      using merge_step_live[OF m i(1)] i(2) base_range[OF mb(1) i(1)] base_range[OF mb(1,3,6)]
        base_range[OF mb(1,4,7)] merge_step_rest[OF m i(1)] merge_step_k[OF m] mb(8)
      by (cases "i = k") auto
  qed
  show "inv_disj pf'" by (rule merge_step_disj[OF m])
  show "inv_cover b e pf'" by (rule merge_step_cover[OF m])
  show "inv_shadow pf'" by (rule merge_step_shadow[OF m])
  show "inv_align b pf'"
    unfolding inv_align_def mb(2)
    using merge_step_live[OF m] base_align[OF mb(1)] merge_step_paddr[OF m] by (simp add: lo_def)
qed

text \<open>Cutting the piece \<open>k\<close> in two, the tail going to the dead entry \<open>d\<close>: the
  slot update of \<open>_l1_sram_alloc\<close>.\<close>

definition split_step :: "nat \<Rightarrow> nat \<Rightarrow> nat \<Rightarrow> nat \<Rightarrow> u32 \<Rightarrow> bank \<Rightarrow> bank \<Rightarrow> bool" where
  "split_step b e k d sz pf pf' \<longleftrightarrow>
     sram_base b e pf \<and> k < length pf \<and> d < length pf \<and> k \<noteq> d \<and>
     live (pf ! k) \<and> \<not> live (pf ! d) \<and> (\<forall>i<d. live (pf ! i)) \<and>
     0 < unat sz \<and> 4 dvd unat sz \<and> unat sz < unat (psize (pf ! k)) \<and> length pf' = length pf \<and>
     live (pf' ! k) \<and> paddr (pf' ! k) = paddr (pf ! k) \<and> psize (pf' ! k) = sz \<and>
     live (pf' ! d) \<and> paddr (pf' ! d) = paddr (pf ! k) + sz \<and>
     psize (pf' ! d) = psize (pf ! k) - sz \<and>
     (\<forall>i<length pf. i \<noteq> k \<longrightarrow> i \<noteq> d \<longrightarrow> same_piece (pf' ! i) (pf ! i))"

lemma split_step_base:
  assumes "split_step b e k d sz pf pf'"
  shows "sram_base b e pf" "length pf' = length pf" "k < length pf" "d < length pf" "k \<noteq> d"
    "live (pf ! k)" "\<not> live (pf ! d)" "live (pf' ! k)" "live (pf' ! d)"
  using assms by (auto simp: split_step_def)

lemma split_step_rest:
  assumes "split_step b e k d sz pf pf'" "i < length pf" "i \<noteq> k" "i \<noteq> d"
  shows "lo (pf' ! i) = lo (pf ! i)" "hi (pf' ! i) = hi (pf ! i)" "live (pf' ! i) = live (pf ! i)"
    "paddr (pf' ! i) = paddr (pf ! i)"
  using assms by (auto simp: split_step_def same_piece_def lo_def hi_def)

lemma split_step_bounds:
  assumes m: "split_step b e k d sz pf pf'"
  shows "lo (pf' ! k) = lo (pf ! k)" "hi (pf' ! k) = lo (pf ! k) + unat sz"
    "lo (pf' ! d) = lo (pf ! k) + unat sz" "hi (pf' ! d) = hi (pf ! k)"
    "lo (pf ! k) + unat sz < hi (pf ! k)" "0 < unat sz"
proof -
  note mb = split_step_base[OF m]
  have sz: "unat sz < unat (psize (pf ! k))" "0 < unat sz" using m by (auto simp: split_step_def)
  show "lo (pf' ! k) = lo (pf ! k)" "hi (pf' ! k) = lo (pf ! k) + unat sz"
    using m by (auto simp: split_step_def lo_def hi_def)
  have "hi (pf ! k) < 2 ^ 32" using base_range(3)[OF mb(1,3,6)] mb(1) by (simp add: sram_base_def)
  then have "unat (paddr (pf ! k)) + unat sz < 2 ^ 32" using sz by (simp add: hi_def)
  then show l: "lo (pf' ! d) = lo (pf ! k) + unat sz"
    using m by (simp add: split_step_def lo_def unat_add_no_wrap)
  have "unat (psize (pf ! k) - sz) = unat (psize (pf ! k)) - unat sz"
    using sz by (intro unat_diff_no_wrap) (simp add: word_le_nat_alt)
  then show "hi (pf' ! d) = hi (pf ! k)" using m l sz by (simp add: split_step_def hi_def lo_def)
  show "lo (pf ! k) + unat sz < hi (pf ! k)" "0 < unat sz" using sz by (auto simp: lo_def hi_def)
qed

lemma split_step_live:
  assumes m: "split_step b e k d sz pf pf'" "i < length pf"
  shows "live (pf' ! i) \<longleftrightarrow> live (pf ! i) \<or> i = d"
  using assms split_step_rest(3)[OF assms(1)] split_step_base[OF assms(1)]
  by (cases "i = k"; cases "i = d") auto

lemma split_step_outside:
  assumes m: "split_step b e k d sz pf pf'" and i: "i < length pf" "i \<noteq> k" "i \<noteq> d" "live (pf' ! i)"
  shows "hi (pf' ! i) \<le> lo (pf ! k) \<or> hi (pf ! k) \<le> lo (pf' ! i)"
proof -
  note mb = split_step_base[OF m]
  have "live (pf ! i)" using split_step_rest(3)[OF m i(1-3)] i(4) by simp
  then show ?thesis
    using base_disj[OF mb(1) i(1) mb(3) i(2) _ mb(6)] split_step_rest[OF m i(1-3)] by simp
qed

lemma split_step_disj:
  assumes m: "split_step b e k d sz pf pf'"
  shows "inv_disj pf'"
  unfolding inv_disj_def split_step_base(2)[OF m]
proof (intro allI impI)
  note sb = split_step_bounds[OF m]
  fix i j assume ij: "i < length pf" "j < length pf" "i \<noteq> j" "live (pf' ! i)" "live (pf' ! j)"
  have out: "hi (pf' ! x) \<le> lo (pf' ! y) \<or> hi (pf' ! y) \<le> lo (pf' ! x)"
    if "x < length pf" "y \<in> {k, d}" "x \<notin> {k, d}" "live (pf' ! x)" for x y
    using split_step_outside[OF m that(1)] that sb by auto
  consider "i \<in> {k, d}" "j \<in> {k, d}" | "i \<notin> {k, d}" "j \<in> {k, d}" | "i \<in> {k, d}" "j \<notin> {k, d}"
    | "i \<notin> {k, d}" "j \<notin> {k, d}" by blast
  then show "hi (pf' ! i) \<le> lo (pf' ! j) \<or> hi (pf' ! j) \<le> lo (pf' ! i)"
  proof cases
    case 1
    then show ?thesis using ij(3) sb by auto
  next
    case 2
    then show ?thesis using out[OF ij(1)] ij(4) by blast
  next
    case 3
    then show ?thesis using out[OF ij(2)] ij(5) by blast
  next
    case 4
    then show ?thesis
      using base_disj[OF split_step_base(1)[OF m] ij(1-3)] split_step_rest[OF m ij(1)]
        split_step_rest[OF m ij(2)] ij(4,5) by auto
  qed
qed

lemma split_step_cover:
  assumes m: "split_step b e k d sz pf pf'"
  shows "inv_cover b e pf'"
  unfolding inv_cover_def split_step_base(2)[OF m]
proof (intro allI impI)
  note mb = split_step_base[OF m] and sb = split_step_bounds[OF m]
  fix a assume "b \<le> a" "a < e"
  then obtain i where i: "i < length pf" "live (pf ! i)" "lo (pf ! i) \<le> a" "a < hi (pf ! i)"
    using base_cover[OF mb(1)] by blast
  show "\<exists>i<length pf. live (pf' ! i) \<and> lo (pf' ! i) \<le> a \<and> a < hi (pf' ! i)"
  proof (cases "i = k")
    case True
    then have "lo (pf' ! k) \<le> a \<and> a < hi (pf' ! k) \<or> lo (pf' ! d) \<le> a \<and> a < hi (pf' ! d)"
      using i sb by auto
    then show ?thesis using mb by blast
  next
    case False
    moreover have "i \<noteq> d" using i mb by auto
    ultimately show ?thesis using split_step_rest[OF m i(1)] i by auto
  qed
qed

lemma split_step_shadow:
  assumes m: "split_step b e k d sz pf pf'"
  shows "inv_shadow pf'"
  unfolding inv_shadow_def split_step_base(2)[OF m]
proof (intro allI impI)
  note mb = split_step_base[OF m]
  fix i j assume ij: "i < length pf" "j < length pf" "i < j" "\<not> live (pf' ! i)" "live (pf' ! j)"
  have i: "\<not> live (pf ! i)" "i \<noteq> d" "i \<noteq> k" using split_step_live[OF m ij(1)] ij(4) mb(6) by auto
  then have "d < i" using m by (auto simp: split_step_def) (metis linorder_neqE_nat)
  then have j: "live (pf ! j)" "j \<noteq> d" using split_step_live[OF m ij(2)] ij(3,5) by auto
  have "paddr (pf' ! j) = paddr (pf ! j)"
    using split_step_rest(4)[OF m ij(2)] j m by (cases "j = k") (auto simp: split_step_def)
  then show "paddr (pf' ! i) \<noteq> paddr (pf' ! j)"
    using base_shadow[OF mb(1) ij(3,2) i(1) j(1)] split_step_rest(4)[OF m ij(1)] i by simp
qed

lemma sram_base_split:
  assumes m: "split_step b e k d sz pf pf'"
  shows "sram_base b e pf'"
proof (rule sram_baseI)
  note mb = split_step_base[OF m] and sb = split_step_bounds[OF m]
  note rk = base_range[OF mb(1,3,6)]
  show "0 < b" "e < 2 ^ 32" using mb(1) by (auto simp: sram_base_def)
  show "inv_range b e pf'"
    unfolding inv_range_def mb(2)
  proof (intro allI impI)
    fix i assume i: "i < length pf" "live (pf' ! i)"
    show "b \<le> lo (pf' ! i) \<and> lo (pf' ! i) < hi (pf' ! i) \<and> hi (pf' ! i) \<le> e"
      using rk sb split_step_rest[OF m i(1)] base_range[OF mb(1) i(1)] i(2)
      by (cases "i = k"; cases "i = d") auto
  qed
  show "inv_disj pf'" by (rule split_step_disj[OF m])
  show "inv_cover b e pf'" by (rule split_step_cover[OF m])
  show "inv_shadow pf'" by (rule split_step_shadow[OF m])
  show "inv_align b pf'"
    unfolding inv_align_def mb(2)
  proof (intro allI impI)
    fix i assume i: "i < length pf" "live (pf' ! i)"
    have "4 dvd (lo (pf ! k) - b) + unat sz"
      using base_align[OF mb(1,3,6)] m by (simp add: split_step_def)
    then have "4 dvd (lo (pf ! k) + unat sz) - b" using rk(1) by simp
    then show "4 dvd lo (pf' ! i) - b"
      using sb split_step_rest[OF m i(1)] base_align[OF mb(1) i(1)] base_align[OF mb(1,3,6)] i(2)
      by (cases "i = k"; cases "i = d") auto
  qed
qed

section \<open>Allocation\<close>

lemma unat_align4:
  assumes "unat sz \<le> 2 ^ 32 - 4"
  shows "unat (align4 sz) = 4 * ((unat sz + 3) div 4)"
proof -
  have "unat (sz + 3) = unat sz + 3" using assms by (simp add: unat_add_no_wrap)
  then show ?thesis by (simp only: align4_def unat_and_not_3)
qed

lemma align4_bounds:
  assumes "0 < unat sz" "unat sz \<le> 2 ^ 32 - 4"
  shows "unat sz \<le> unat (align4 sz)" "0 < unat (align4 sz)" "4 dvd unat (align4 sz)"
    "unat (align4 sz) < unat sz + 4"
proof -
  have *: "unat (align4 sz) = 4 * ((unat sz + 3) div 4)" by (rule unat_align4[OF assms(2)])
  show "unat sz \<le> unat (align4 sz)" "unat (align4 sz) < unat sz + 4" unfolding * by presburger+
  show "0 < unat (align4 sz)" "4 dvd unat (align4 sz)" unfolding * using assms(1) by auto
qed

definition mark :: "nat \<Rightarrow> int \<Rightarrow> bank \<Rightarrow> bank" where
  "mark i cur pf = pf[i := (pf ! i)\<lparr>pflag := SRAM_SLT_ALLOCATED, ppid := cur\<rparr>]"

definition carve :: "nat \<Rightarrow> nat \<Rightarrow> u32 \<Rightarrow> bank \<Rightarrow> bank" where
  "carve i k sz pf =
     (let pf1 = pf[k := (pf ! k)\<lparr>ppid := 0, pflag := SRAM_SLT_FREE,
                  paddr := paddr (pf ! i) + sz, psize := psize (pf ! i) - sz\<rparr>]
      in pf1[i := (pf1 ! i)\<lparr>psize := sz\<rparr>])"

lemma l1_sram_alloc_unfold:
  "l1_sram_alloc sz pf cur =
     (if sz = 0 then (0, pf)
      else case find_idx (\<lambda>p. pflag p = SRAM_SLT_FREE \<and> align4 sz \<le> psize p) pf of
        None \<Rightarrow> (0, pf)
      | Some i \<Rightarrow> (paddr (pf ! i),
          if align4 sz < psize (pf ! i)
          then case find_idx (\<lambda>p. pflag p = SRAM_SLT_NULL) (mark i cur pf) of
                 None \<Rightarrow> mark i cur pf | Some k \<Rightarrow> carve i k (align4 sz) (mark i cur pf)
          else mark i cur pf))"
  by (auto simp: l1_sram_alloc_def mark_def carve_def Let_def dest: find_idx_SomeD split: option.split)

lemma sram_inv_base: "sram_inv b e pf \<Longrightarrow> sram_base b e pf"
  by (simp add: sram_inv_def)

lemma coalD:
  assumes "inv_coal pf" "i < length pf" "j < length pf"
    "pflag (pf ! i) = SRAM_SLT_FREE" "pflag (pf ! j) = SRAM_SLT_FREE"
  shows "hi (pf ! i) \<noteq> lo (pf ! j)"
  using assms by (auto simp: inv_coal_def)

lemma mark_nth:
  assumes "i < length pf" "j < length pf"
  shows "lo (mark i cur pf ! j) = lo (pf ! j)" "hi (mark i cur pf ! j) = hi (pf ! j)"
    "paddr (mark i cur pf ! j) = paddr (pf ! j)" "psize (mark i cur pf ! j) = psize (pf ! j)"
    "pflag (mark i cur pf ! j) = (if j = i then SRAM_SLT_ALLOCATED else pflag (pf ! j))"
  using assms by (auto simp: mark_def arr lo_def hi_def)

lemma mark_swap:
  "pf[i := (pf ! i)\<lparr>ppid := cur, pflag := SRAM_SLT_ALLOCATED\<rparr>] = mark i cur pf"
  by (cases "pf ! i") (simp add: mark_def)

lemma length_mark [simp]: "length (mark i cur pf) = length pf"
  by (simp add: mark_def)

lemma mark_inv:
  assumes inv: "sram_inv b e pf" and i: "i < length pf" "pflag (pf ! i) = SRAM_SLT_FREE"
  shows "sram_inv b e (mark i cur pf)"
proof -
  have "sram_base b e (mark i cur pf) = sram_base b e pf"
    using i by (intro sram_base_cong) (auto simp: same_piece_def mark_nth live_def)
  moreover have "inv_coal (mark i cur pf)"
    using inv i unfolding sram_inv_def inv_coal_def by (auto simp: mark_nth split: if_splits)
  ultimately show ?thesis using inv by (simp add: sram_inv_def)
qed

lemma mark_blocks:
  assumes "i < length pf" "pflag (pf ! i) = SRAM_SLT_FREE"
  shows "blocks (mark i cur pf) = insert (lo (pf ! i), hi (pf ! i)) (blocks pf)"
proof -
  have "alloc_idx (mark i cur pf) = insert i (alloc_idx pf)"
    using assms by (auto simp: alloc_idx_def mark_nth)
  moreover have "bounds (mark i cur pf) j = bounds pf j" if "j \<in> insert i (alloc_idx pf)" for j
    using that assms by (auto simp: bounds_def mark_nth alloc_idx_def)
  ultimately show ?thesis
    unfolding blocks_def by (metis (no_types, lifting) bounds_def image_cong image_insert)
qed

lemma length_carve [simp]: "length (carve i k sz pf) = length pf"
  by (simp add: carve_def Let_def)

lemma carve_nth:
  assumes "i < length pf" "k < length pf" "i \<noteq> k" "j < length pf"
  shows "paddr (carve i k sz pf ! j) = (if j = k then paddr (pf ! i) + sz else paddr (pf ! j))"
    "psize (carve i k sz pf ! j) = (if j = i then sz else if j = k then psize (pf ! i) - sz else psize (pf ! j))"
    "pflag (carve i k sz pf ! j) = (if j = k then SRAM_SLT_FREE else pflag (pf ! j))"
  using assms by (auto simp: carve_def Let_def arr)

lemma carve_step:
  assumes base: "sram_base b e pf" and i: "i < length pf" "pflag (pf ! i) = SRAM_SLT_ALLOCATED"
    and k: "find_idx (\<lambda>p. pflag p = SRAM_SLT_NULL) pf = Some k"
    and sz: "0 < unat sz" "4 dvd unat sz" "sz < psize (pf ! i)"
  shows "split_step b e i k sz pf (carve i k sz pf)"
proof -
  have kf: "k < length pf" "pflag (pf ! k) = SRAM_SLT_NULL" "\<forall>j<k. pflag (pf ! j) \<noteq> SRAM_SLT_NULL"
    using find_idx_SomeD[OF k] by auto
  then have "i \<noteq> k" using i by auto
  with kf base i sz show ?thesis
    by (auto simp: split_step_def live_def same_piece_def carve_nth word_less_nat_alt)
qed

lemma carve_inv:
  assumes inv: "sram_inv b e pf" and i: "i < length pf" "pflag (pf ! i) = SRAM_SLT_ALLOCATED"
    and iso: "\<And>j. j < length pf \<Longrightarrow> pflag (pf ! j) = SRAM_SLT_FREE \<Longrightarrow> hi (pf ! i) \<noteq> lo (pf ! j)"
    and st: "split_step b e i k sz pf (carve i k sz pf)"
  shows "sram_inv b e (carve i k sz pf)"
proof -
  note sb = split_step_base[OF st] and bd = split_step_bounds[OF st]
  have fl: "pflag (carve i k sz pf ! j) = (if j = k then SRAM_SLT_FREE else pflag (pf ! j))"
    if "j < length pf" for j using carve_nth sb that by auto
  have "inv_coal (carve i k sz pf)"
    unfolding inv_coal_def length_carve
  proof (intro allI impI)
    fix x y assume xy: "x < length pf" "y < length pf"
      "pflag (carve i k sz pf ! x) = SRAM_SLT_FREE" "pflag (carve i k sz pf ! y) = SRAM_SLT_FREE"
    have nx: "x \<noteq> i" "y \<noteq> i" using xy fl i sb(5) by auto
    have old: "pflag (pf ! z) = SRAM_SLT_FREE \<and> live (pf ! z) \<and> lo (carve i k sz pf ! z) = lo (pf ! z)
        \<and> hi (carve i k sz pf ! z) = hi (pf ! z)"
      if "z \<in> {x, y}" "z \<noteq> k" for z
      using that xy fl nx split_step_rest[OF st] by (auto simp: live_def)
    show "hi (carve i k sz pf ! x) \<noteq> lo (carve i k sz pf ! y)"
    proof (cases "y = k")
      case True
      then show ?thesis
        using old[of x] bd base_disj[OF sb(1) xy(1) sb(3) nx(1) _ sb(6)]
          base_range[OF sb(1) xy(1)] by (cases "x = k") auto
    next
      case False
      then show ?thesis
        using old bd iso[OF xy(2)] inv xy coalD[of pf x y] by (cases "x = k") (auto simp: sram_inv_def)
    qed
  qed
  then show ?thesis using sram_base_split[OF st] by (simp add: sram_inv_def)
qed

lemma carve_blocks:
  assumes i: "i < length pf" "pflag (pf ! i) = SRAM_SLT_ALLOCATED"
    and st: "split_step b e i k sz pf (carve i k sz pf)"
  shows "blocks (carve i k sz pf) =
    insert (lo (pf ! i), lo (pf ! i) + unat sz) (bounds pf ` (alloc_idx pf - {i}))"
proof -
  note sb = split_step_base[OF st] and bd = split_step_bounds[OF st]
  have "alloc_idx (carve i k sz pf) = insert i (alloc_idx pf - {i})"
    using carve_nth(3)[OF sb(3,4,5)] sb i by (auto simp: alloc_idx_def live_def split: if_splits)
  moreover have "bounds (carve i k sz pf) ` (alloc_idx pf - {i}) = bounds pf ` (alloc_idx pf - {i})"
  proof (rule image_cong[OF refl])
    fix j assume j: "j \<in> alloc_idx pf - {i}"
    then have "j \<noteq> k" using sb(7) by (auto simp: alloc_idx_def live_def)
    then show "bounds (carve i k sz pf) j = bounds pf j"
      using j split_step_rest[OF st] by (auto simp: bounds_def alloc_idx_def)
  qed
  ultimately have "blocks (carve i k sz pf) =
      insert (bounds (carve i k sz pf) i) (bounds pf ` (alloc_idx pf - {i}))"
    unfolding blocks_def by (metis image_insert)
  then show ?thesis using bd by (simp add: bounds_def)
qed

text \<open>Success and failure of an allocation, in one statement over the table.\<close>

definition alloc_post :: "nat \<Rightarrow> nat \<Rightarrow> u32 \<Rightarrow> bank \<Rightarrow> u32 \<Rightarrow> bank \<Rightarrow> bool" where
  "alloc_post b e sz pf a pf' \<longleftrightarrow>
     (if a = 0
      then pf' = pf \<and> (\<forall>p\<in>set pf. pflag p = SRAM_SLT_FREE \<longrightarrow> psize p < align4 sz)
      else sram_inv b e pf' \<and>
        (\<exists>h. unat a + unat sz \<le> h \<and> b \<le> unat a \<and> h \<le> e \<and> 4 dvd (unat a - b) \<and>
           blocks pf' = insert (unat a, h) (blocks pf) \<and>
           (\<forall>(l, r)\<in>blocks pf. r \<le> unat a \<or> h \<le> l)))"

lemma free_piece_outside_blocks:
  assumes "sram_base b e pf" "i < length pf" "pflag (pf ! i) = SRAM_SLT_FREE" "(l, r) \<in> blocks pf"
  shows "r \<le> lo (pf ! i) \<or> hi (pf ! i) \<le> l"
  using assms base_disj[OF assms(1)] by (fastforce simp: blocks_def bounds_def alloc_idx_def live_def)

lemma alloc_whole:
  assumes inv: "sram_inv b e pf" and sz: "0 < unat sz" "unat sz \<le> 2 ^ 32 - 4"
    and i: "i < length pf" "pflag (pf ! i) = SRAM_SLT_FREE" "align4 sz \<le> psize (pf ! i)"
  shows "alloc_post b e sz pf (paddr (pf ! i)) (mark i cur pf)"
proof -
  note base = sram_inv_base[OF inv]
  have lv: "live (pf ! i)" using i by (simp add: live_def)
  note rg = base_range[OF base i(1) lv] and al = base_align[OF base i(1) lv]
  have "unat (align4 sz) \<le> unat (psize (pf ! i))" using i(3) by (simp add: word_le_nat_alt)
  moreover have "paddr (pf ! i) \<noteq> 0" using rg base by (auto simp: lo_def sram_base_def)
  moreover have "\<forall>(l, r)\<in>blocks pf. r \<le> lo (pf ! i) \<or> hi (pf ! i) \<le> l"
    using free_piece_outside_blocks[OF base i(1,2)] by blast
  ultimately show ?thesis
    using mark_inv[OF inv i(1,2)] mark_blocks[OF i(1,2)] rg al align4_bounds[OF sz]
    by (auto simp: alloc_post_def hi_def lo_def intro!: exI[of _ "hi (pf ! i)"])
qed

lemma alloc_part:
  assumes inv: "sram_inv b e pf" and sz: "0 < unat sz" "unat sz \<le> 2 ^ 32 - 4"
    and i: "i < length pf" "pflag (pf ! i) = SRAM_SLT_FREE" "align4 sz < psize (pf ! i)"
    and pf1: "pf1 = mark i cur pf" and k: "find_idx (\<lambda>p. pflag p = SRAM_SLT_NULL) pf1 = Some k"
  shows "alloc_post b e sz pf (paddr (pf ! i)) (carve i k (align4 sz) pf1)"
proof -
  note base = sram_inv_base[OF inv]
  have lv: "live (pf ! i)" using i by (simp add: live_def)
  note rg = base_range[OF base i(1) lv] and al = base_align[OF base i(1) lv]
  have i1: "i < length pf1" "pflag (pf1 ! i) = SRAM_SLT_ALLOCATED" "psize (pf1 ! i) = psize (pf ! i)"
    "lo (pf1 ! i) = lo (pf ! i)" "hi (pf1 ! i) = hi (pf ! i)"
    using i by (simp_all add: pf1 mark_nth)
  have inv1: "sram_inv b e pf1" unfolding pf1 by (rule mark_inv[OF inv i(1,2)])
  have st: "split_step b e i k (align4 sz) pf1 (carve i k (align4 sz) pf1)"
    using align4_bounds[OF sz] i i1 by (intro carve_step[OF sram_inv_base[OF inv1] i1(1,2) k]) auto
  have iso: "hi (pf1 ! i) \<noteq> lo (pf1 ! j)" if "j < length pf1" "pflag (pf1 ! j) = SRAM_SLT_FREE" for j
    using that i inv coalD[of pf i j] by (auto simp: pf1 mark_nth sram_inv_def split: if_splits)
  have "bounds pf1 ` (alloc_idx pf1 - {i}) = blocks pf"
    using i unfolding blocks_def
    by (intro image_cong) (auto simp: alloc_idx_def bounds_def pf1 mark_nth split: if_splits)
  then have bl: "blocks (carve i k (align4 sz) pf1) =
      insert (lo (pf ! i), lo (pf ! i) + unat (align4 sz)) (blocks pf)"
    using carve_blocks[OF i1(1,2) st] i1 by simp
  have nz: "paddr (pf ! i) \<noteq> 0" using rg base by (auto simp: lo_def sram_base_def)
  have "\<forall>(l, r)\<in>blocks pf. r \<le> lo (pf ! i) \<or> lo (pf ! i) + unat (align4 sz) \<le> l"
    using free_piece_outside_blocks[OF base i(1,2)] split_step_bounds(5)[OF st] i1 by fastforce
  then show ?thesis
    using carve_inv[OF inv1 i1(1,2) iso st] bl nz rg al align4_bounds[OF sz] split_step_bounds(5)[OF st] i1
    unfolding alloc_post_def lo_def[of "pf ! i", symmetric]
    by (auto intro!: exI[of _ "lo (pf ! i) + unat (align4 sz)"])
qed

lemma l1_sram_alloc_post:
  assumes inv: "sram_inv b e pf" and sz: "0 < unat sz" "unat sz \<le> 2 ^ 32 - 4"
    and r: "l1_sram_alloc sz pf cur = (a, pf')"
  shows "alloc_post b e sz pf a pf'"
proof (cases "find_idx (\<lambda>p. pflag p = SRAM_SLT_FREE \<and> align4 sz \<le> psize p) pf")
  case None
  moreover have "sz \<noteq> 0" using sz by auto
  ultimately have "a = 0" "pf' = pf" using r by (auto simp: l1_sram_alloc_unfold)
  then show ?thesis using None by (auto simp: alloc_post_def find_idx_None_iff)
next
  case (Some i)
  have "sz \<noteq> 0" using sz by auto
  with Some r show ?thesis
    using find_idx_SomeD[OF Some] alloc_whole[OF inv sz, of i cur] alloc_part[OF inv sz, of i]
    by (auto simp: l1_sram_alloc_unfold split: option.splits if_splits)
qed

section \<open>Release\<close>

definition coal_except :: "nat \<Rightarrow> bank \<Rightarrow> bool" where
  "coal_except x pf \<longleftrightarrow>
     (\<forall>i<length pf. \<forall>j<length pf. i \<noteq> x \<longrightarrow> j \<noteq> x \<longrightarrow> pflag (pf ! i) = SRAM_SLT_FREE \<longrightarrow>
        pflag (pf ! j) = SRAM_SLT_FREE \<longrightarrow> hi (pf ! i) \<noteq> lo (pf ! j))"

definition right_ok :: "nat \<Rightarrow> bank \<Rightarrow> bool" where
  "right_ok x pf \<longleftrightarrow> (\<forall>j<length pf. pflag (pf ! j) = SRAM_SLT_FREE \<longrightarrow> hi (pf ! x) \<noteq> lo (pf ! j))"

text \<open>The allocated pieces of two tables agree, index by index.\<close>

definition same_blocks :: "bank \<Rightarrow> bank \<Rightarrow> bool" where
  "same_blocks pf pf' \<longleftrightarrow> alloc_idx pf' = alloc_idx pf \<and> (\<forall>i\<in>alloc_idx pf. bounds pf' i = bounds pf i)"

lemma same_blocks_refl [simp]: "same_blocks pf pf"
  by (simp add: same_blocks_def)

lemma same_blocks_trans: "same_blocks p q \<Longrightarrow> same_blocks q r \<Longrightarrow> same_blocks p r"
  by (simp add: same_blocks_def)

lemma same_blocks_eq: "same_blocks pf pf' \<Longrightarrow> blocks pf' = blocks pf"
  by (auto simp: same_blocks_def blocks_def)

lemma end_addr_eq:
  assumes "sram_base b e pf" "x < length pf" "live (pf ! x)"
  shows "paddr (pf ! x) + psize (pf ! x) = q \<longleftrightarrow> hi (pf ! x) = unat q"
proof -
  have "hi (pf ! x) < 2 ^ 32" using assms base_range(3)[OF assms] by (simp add: sram_base_def)
  then have "unat (paddr (pf ! x) + psize (pf ! x)) = hi (pf ! x)"
    by (simp add: hi_def unat_add_no_wrap)
  then show ?thesis by (metis word_unat_eq_iff)
qed

definition absorb :: "nat \<Rightarrow> nat \<Rightarrow> bank \<Rightarrow> bank \<Rightarrow> bool" where
  "absorb k d pf pf' \<longleftrightarrow> length pf' = length pf \<and>
     pflag (pf' ! k) = SRAM_SLT_FREE \<and> paddr (pf' ! k) = paddr (pf ! k) \<and>
     psize (pf' ! k) = psize (pf ! k) + psize (pf ! d) \<and>
     pflag (pf' ! d) = SRAM_SLT_NULL \<and> paddr (pf' ! d) = paddr (pf ! d) \<and>
     (\<forall>i<length pf. i \<noteq> k \<longrightarrow> i \<noteq> d \<longrightarrow> pf' ! i = pf ! i)"

lemma absorb_merge:
  assumes "sram_base b e pf" "k < length pf" "d < length pf" "k \<noteq> d"
    "pflag (pf ! k) = SRAM_SLT_FREE" "pflag (pf ! d) = SRAM_SLT_FREE" "hi (pf ! k) = lo (pf ! d)"
    "absorb k d pf pf'"
  shows "merge_step b e k d pf pf'" "same_blocks pf pf'"
proof -
  show "merge_step b e k d pf pf'"
    using assms by (auto simp: merge_step_def absorb_def live_def same_piece_def)
  have f: "pflag (pf' ! i) = (if i = k then SRAM_SLT_FREE else if i = d then SRAM_SLT_NULL else pflag (pf ! i))"
    if "i < length pf" for i using that assms(8) by (auto simp: absorb_def)
  have "alloc_idx pf' = alloc_idx pf"
    using assms f unfolding alloc_idx_def by (auto simp: absorb_def split: if_splits)
  moreover have "pf' ! i = pf ! i" if "i \<in> alloc_idx pf" for i
    using that assms by (auto simp: alloc_idx_def absorb_def)
  ultimately show "same_blocks pf pf'" by (simp add: same_blocks_def bounds_def)
qed

lemma absorb_flag:
  assumes "absorb k d pf pf'" "i < length pf" "k \<noteq> d"
  shows "pflag (pf' ! i) = SRAM_SLT_FREE \<longleftrightarrow> i = k \<or> i \<noteq> d \<and> pflag (pf ! i) = SRAM_SLT_FREE"
  using assms by (cases "i = k"; cases "i = d") (auto simp: absorb_def)

lemma link_next_cases:
  assumes base: "sram_base b e pf" and x: "x < length pf" "pflag (pf ! x) = SRAM_SLT_FREE"
  obtains "link_next x pf = pf" "right_ok x pf"
  | i where "i < length pf" "i \<noteq> x" "pflag (pf ! i) = SRAM_SLT_FREE" "hi (pf ! x) = lo (pf ! i)"
      "absorb x i pf (link_next x pf)"
proof (cases "find_idx (\<lambda>p. paddr (pf ! x) + psize (pf ! x) = paddr p \<and> pflag p = SRAM_SLT_FREE) pf")
  case None
  have "live (pf ! x)" using x by (simp add: live_def)
  then have "right_ok x pf"
    using find_idx_None_nth[OF None] end_addr_eq[OF base x(1)] by (auto simp: right_ok_def lo_def)
  then show ?thesis using that(1) None by (simp add: link_next_def)
next
  case (Some i)
  have lx: "live (pf ! x)" using x by (simp add: live_def)
  have i: "i < length pf" "pflag (pf ! i) = SRAM_SLT_FREE" "hi (pf ! x) = lo (pf ! i)"
    using find_idx_SomeD[OF Some] end_addr_eq[OF base x(1) lx] by (auto simp: lo_def)
  moreover have "i \<noteq> x" using i base_range(2)[OF base x(1) lx] by auto
  moreover have "absorb x i pf (link_next x pf)"
    using Some x i \<open>i \<noteq> x\<close> by (auto simp: absorb_def link_next_def Let_def arr)
  ultimately show ?thesis using that(2) by blast
qed

lemma link_last_cases:
  assumes base: "sram_base b e pf" and x: "x < length pf" "pflag (pf ! x) = SRAM_SLT_FREE"
  obtains "link_last x pf = pf" "\<forall>i<length pf. pflag (pf ! i) = SRAM_SLT_FREE \<longrightarrow> hi (pf ! i) \<noteq> lo (pf ! x)"
  | i where "i < length pf" "i \<noteq> x" "pflag (pf ! i) = SRAM_SLT_FREE" "hi (pf ! i) = lo (pf ! x)"
      "absorb i x pf (link_last x pf)"
proof (cases "find_idx (\<lambda>p. paddr p + psize p = paddr (pf ! x) \<and> pflag p = SRAM_SLT_FREE) pf")
  case None
  have "\<forall>i<length pf. pflag (pf ! i) = SRAM_SLT_FREE \<longrightarrow> hi (pf ! i) \<noteq> lo (pf ! x)"
  proof (intro allI impI)
    fix i assume i: "i < length pf" "pflag (pf ! i) = SRAM_SLT_FREE"
    have li: "live (pf ! i)" using i by (simp add: live_def)
    show "hi (pf ! i) \<noteq> lo (pf ! x)"
      using find_idx_None_nth[OF None i(1)] i(2) end_addr_eq[OF base i(1) li] by (auto simp: lo_def)
  qed
  then show ?thesis using that(1) None by (simp add: link_last_def)
next
  case (Some i)
  have i: "i < length pf" "pflag (pf ! i) = SRAM_SLT_FREE" using find_idx_SomeD[OF Some] by auto
  have li: "live (pf ! i)" using i by (simp add: live_def)
  have adj: "hi (pf ! i) = lo (pf ! x)"
    using find_idx_SomeD[OF Some] end_addr_eq[OF base i(1) li] by (auto simp: lo_def)
  moreover have "i \<noteq> x" using adj base_range(2)[OF base i(1) li] by auto
  moreover have "absorb i x pf (link_last x pf)"
    using Some x i \<open>i \<noteq> x\<close> by (auto simp: absorb_def link_last_def Let_def arr)
  ultimately show ?thesis using that(2) i by blast
qed

lemma link_next_post:
  assumes base: "sram_base b e pf" and x: "x < length pf" "pflag (pf ! x) = SRAM_SLT_FREE"
    and co: "coal_except x pf"
  defines "pf' \<equiv> link_next x pf"
  shows "sram_base b e pf' \<and> length pf' = length pf \<and> pflag (pf' ! x) = SRAM_SLT_FREE \<and>
    coal_except x pf' \<and> right_ok x pf' \<and> same_blocks pf pf'"
  using base x
proof (cases rule: link_next_cases)
  case 1
  then show ?thesis using assms by simp
next
  case (2 i)
  note ab = 2(5)[folded pf'_def]
  note m = absorb_merge[OF base x(1) 2(1) 2(2)[symmetric] x(2) 2(3,4) ab]
  note fl = absorb_flag[OF ab _ 2(2)[symmetric]]
  have len: "length pf' = length pf" using ab by (simp add: absorb_def)
  have keep: "lo (pf' ! j) = lo (pf ! j) \<and> hi (pf' ! j) = hi (pf ! j) \<and> j \<noteq> i"
    if "j < length pf" "pflag (pf' ! j) = SRAM_SLT_FREE" "j \<noteq> x" for j
    using that fl merge_step_rest[OF m(1)] by auto
  have "coal_except x pf'"
    using co keep fl unfolding coal_except_def len by auto
  moreover have "right_ok x pf'"
    unfolding right_ok_def len
  proof (intro allI impI)
    fix j assume j: "j < length pf" "pflag (pf' ! j) = SRAM_SLT_FREE"
    show "hi (pf' ! x) \<noteq> lo (pf' ! j)"
    proof (cases "j = x")
      case True
      have "live (pf' ! x)" using j True by (simp add: live_def)
      then show ?thesis using base_range(2)[OF sram_base_merge[OF m(1)], of x] x(1) len True by simp
    next
      case False
      then show ?thesis
        using keep[OF j] co 2 fl[OF j(1)] j merge_step_k(2)[OF m(1)] by (auto simp: coal_except_def)
    qed
  qed
  ultimately show ?thesis
    using sram_base_merge[OF m(1)] m(2) len ab by (auto simp: absorb_def)
qed

lemma link_last_post:
  assumes base: "sram_base b e pf" and x: "x < length pf" "pflag (pf ! x) = SRAM_SLT_FREE"
    and co: "coal_except x pf" and ro: "right_ok x pf"
  shows "sram_inv b e (link_last x pf) \<and> same_blocks pf (link_last x pf)"
  using base x
proof (cases rule: link_last_cases)
  case 1
  have "inv_coal pf"
    unfolding inv_coal_def
  proof (intro allI impI)
    fix i j assume "i < length pf" "j < length pf" "pflag (pf ! i) = SRAM_SLT_FREE" "pflag (pf ! j) = SRAM_SLT_FREE"
    then show "hi (pf ! i) \<noteq> lo (pf ! j)"
      using co ro 1(2) by (cases "i = x"; cases "j = x") (auto simp: coal_except_def right_ok_def)
  qed
  then show ?thesis using 1 base by (simp add: sram_inv_def)
next
  case (2 i)
  note m = absorb_merge[OF base 2(1) x(1) 2(2,3) x(2) 2(4,5)]
  note fl = absorb_flag[OF 2(5) _ 2(2)]
  have len: "length (link_last x pf) = length pf" using 2(5) by (simp add: absorb_def)
  have keep: "lo (link_last x pf ! j) = lo (pf ! j) \<and> pflag (pf ! j) = SRAM_SLT_FREE \<and> j \<noteq> x \<and>
      hi (link_last x pf ! j) = (if j = i then hi (pf ! x) else hi (pf ! j))"
    if j: "j < length pf" "pflag (link_last x pf ! j) = SRAM_SLT_FREE" for j
  proof (cases "j = i")
    case True
    then show ?thesis using merge_step_k[OF m(1)] 2(2,3) by simp
  next
    case False
    then have "j \<noteq> x" "pflag (pf ! j) = SRAM_SLT_FREE" using fl[OF j(1)] j(2) by auto
    then show ?thesis using merge_step_rest[OF m(1) j(1) False] False by simp
  qed
  have "inv_coal (link_last x pf)"
    unfolding inv_coal_def len
  proof (intro allI impI)
    fix p q assume pq: "p < length pf" "q < length pf"
      "pflag (link_last x pf ! p) = SRAM_SLT_FREE" "pflag (link_last x pf ! q) = SRAM_SLT_FREE"
    note kp = keep[OF pq(1,3)] and kq = keep[OF pq(2,4)]
    show "hi (link_last x pf ! p) \<noteq> lo (link_last x pf ! q)"
    proof (cases "p = i")
      case True
      then show ?thesis using kp kq ro pq(2) by (simp add: right_ok_def)
    next
      case False
      then show ?thesis using kp kq co pq(1,2) by (simp add: coal_except_def)
    qed
  qed
  then show ?thesis using sram_base_merge[OF m(1)] m(2) by (simp add: sram_inv_def)
qed

definition release :: "nat \<Rightarrow> bank \<Rightarrow> bank" where
  "release i pf = pf[i := (pf ! i)\<lparr>ppid := 0, pflag := SRAM_SLT_FREE\<rparr>]"

lemma release_nth:
  assumes "i < length pf" "j < length pf"
  shows "lo (release i pf ! j) = lo (pf ! j)" "hi (release i pf ! j) = hi (pf ! j)"
    "paddr (release i pf ! j) = paddr (pf ! j)" "psize (release i pf ! j) = psize (pf ! j)"
    "pflag (release i pf ! j) = (if j = i then SRAM_SLT_FREE else pflag (pf ! j))"
  using assms by (auto simp: release_def arr lo_def hi_def)

lemma length_release [simp]: "length (release i pf) = length pf"
  by (simp add: release_def)

lemma release_base:
  assumes "sram_inv b e pf" "i < length pf" "pflag (pf ! i) = SRAM_SLT_ALLOCATED"
  shows "sram_base b e (release i pf)" "coal_except i (release i pf)"
proof -
  have "sram_base b e (release i pf) = sram_base b e pf"
    using assms by (intro sram_base_cong) (auto simp: same_piece_def release_nth live_def)
  then show "sram_base b e (release i pf)" using assms by (simp add: sram_inv_def)
  show "coal_except i (release i pf)"
    using assms by (auto simp: coal_except_def release_nth sram_inv_def dest: coalD)
qed

lemma blocks_start_inj:
  assumes "sram_inv b e pf" "(l, h) \<in> blocks pf" "(l, h') \<in> blocks pf"
  shows "h = h'"
proof -
  obtain i j where "i \<in> alloc_idx pf" "(l, h) = bounds pf i" "j \<in> alloc_idx pf" "(l, h') = bounds pf j"
    using assms(2,3) by (auto simp: blocks_def)
  then have "i < length pf" "j < length pf" "live (pf ! i)" "live (pf ! j)" "lo (pf ! i) = lo (pf ! j)"
    "h = hi (pf ! i)" "h' = hi (pf ! j)"
    by (auto simp: alloc_idx_def live_def bounds_def)
  then show ?thesis using base_start_inj[OF sram_inv_base[OF assms(1)], of i j] by simp
qed

lemma release_blocks:
  assumes inv: "sram_inv b e pf" and i: "i < length pf" "pflag (pf ! i) = SRAM_SLT_ALLOCATED"
  shows "blocks (release i pf) = {(l, h) \<in> blocks pf. l \<noteq> lo (pf ! i)}"
proof -
  have "lo (pf ! j) \<noteq> lo (pf ! i)" if "j \<in> alloc_idx pf" "j \<noteq> i" for j
    using base_start_inj[OF sram_inv_base[OF inv], of j i] that i by (auto simp: alloc_idx_def live_def)
  then have "{(l, h) \<in> blocks pf. l \<noteq> lo (pf ! i)} = bounds pf ` (alloc_idx pf - {i})"
    by (auto simp: blocks_def bounds_def)
  moreover have "alloc_idx (release i pf) = alloc_idx pf - {i}"
    using i by (auto simp: alloc_idx_def release_nth split: if_splits)
  moreover have "bounds (release i pf) ` (alloc_idx pf - {i}) = bounds pf ` (alloc_idx pf - {i})"
    using i by (intro image_cong) (auto simp: bounds_def release_nth alloc_idx_def)
  ultimately show ?thesis by (simp add: blocks_def)
qed

text \<open>The first table entry with the address of an allocated piece is that piece.\<close>

lemma free_finds:
  assumes inv: "sram_inv b e pf" and i: "i < length pf" "pflag (pf ! i) = SRAM_SLT_ALLOCATED"
  shows "find_idx (\<lambda>p. paddr p = paddr (pf ! i)) pf = Some i"
proof (rule find_idx_SomeI)
  show "i < length pf" "paddr (pf ! i) = paddr (pf ! i)" using i by auto
  fix j assume j: "j < i"
  have li: "live (pf ! i)" using i by (simp add: live_def)
  show "paddr (pf ! j) \<noteq> paddr (pf ! i)"
  proof (cases "live (pf ! j)")
    case True
    then show ?thesis
      using base_start_inj[OF sram_inv_base[OF inv], of j i] j i li by (auto simp: lo_def)
  next
    case False
    then show ?thesis using base_shadow[OF sram_inv_base[OF inv] j i(1)] li by simp
  qed
qed

lemma l1_sram_free_hit:
  assumes inv: "sram_inv b e pf" and i: "i < length pf" "pflag (pf ! i) = SRAM_SLT_ALLOCATED"
  shows "\<exists>pf'. l1_sram_free (paddr (pf ! i)) pf = (0, pf') \<and> sram_inv b e pf' \<and>
    blocks pf' = {(l, h) \<in> blocks pf. l \<noteq> lo (pf ! i)}"
proof -
  let ?r = "release i pf"
  have r: "i < length ?r" "pflag (?r ! i) = SRAM_SLT_FREE" using i by (auto simp: release_nth)
  note n = link_next_post[OF release_base(1)[OF inv i] r release_base(2)[OF inv i]]
  have r': "i < length (link_next i ?r)" using n i by simp
  note l = link_last_post[of b e "link_next i ?r" i]
  have "l1_sram_free (paddr (pf ! i)) pf = (0, link_last i (link_next i ?r))"
    using i by (simp add: l1_sram_free_def free_finds[OF inv i] release_def)
  moreover have "blocks (link_last i (link_next i ?r)) = {(l, h) \<in> blocks pf. l \<noteq> lo (pf ! i)}"
    using n l r' same_blocks_eq[of ?r "link_next i ?r"]
      same_blocks_eq[of "link_next i ?r" "link_last i (link_next i ?r)"]
    by (simp add: release_blocks[OF inv i])
  ultimately show ?thesis using n l r' by auto
qed

lemma block_entry:
  assumes "(unat addr, h) \<in> blocks pf"
  obtains i where "i < length pf" "pflag (pf ! i) = SRAM_SLT_ALLOCATED" "paddr (pf ! i) = addr"
  using assms by (auto simp: blocks_def bounds_def alloc_idx_def lo_def word_unat_eq_iff)

lemma l1_sram_free_miss:
  assumes "\<nexists>h. (unat addr, h) \<in> blocks pf"
  shows "l1_sram_free addr pf = (-1, pf)"
proof (cases "find_idx (\<lambda>p. paddr p = addr) pf")
  case None
  then show ?thesis by (simp add: l1_sram_free_def)
next
  case (Some i)
  have "i < length pf" "paddr (pf ! i) = addr" using find_idx_SomeD[OF Some] by auto
  then have "pflag (pf ! i) \<noteq> SRAM_SLT_ALLOCATED"
    using assms by (auto simp: blocks_def bounds_def alloc_idx_def lo_def)
  then show ?thesis using Some by (simp add: l1_sram_free_def)
qed

section \<open>Initial state, largest block, reachable states\<close>

lemma bank_init_nth:
  assumes "0 < n" "i < n"
  shows "bank_init n st len ! i =
    (if i = 0 then null_piece\<lparr>paddr := st, psize := len, pflag := SRAM_SLT_FREE\<rparr> else null_piece)"
  using assms by (auto simp: bank_init_def nth_list_update)

lemma length_bank_init [simp]: "length (bank_init n st len) = n"
  by (simp add: bank_init_def)

lemma bank_init_inv:
  assumes "0 < n" "0 < unat st" "0 < unat len" "unat st + unat len < 2 ^ 32"
  shows "sram_inv (unat st) (unat st + unat len) (bank_init n st len)"
proof -
  have f: "live (bank_init n st len ! i) \<longleftrightarrow> i = 0"
      "pflag (bank_init n st len ! i) = SRAM_SLT_FREE \<longleftrightarrow> i = 0" if "i < n" for i
    using that assms by (auto simp: bank_init_nth live_def null_piece_def)
  have z: "lo (bank_init n st len ! 0) = unat st" "hi (bank_init n st len ! 0) = unat st + unat len"
    using assms by (simp_all add: bank_init_nth lo_def hi_def)
  have "sram_base (unat st) (unat st + unat len) (bank_init n st len)"
    using assms f z by (intro sram_baseI) (auto simp: sram_base_defs)
  moreover have "inv_coal (bank_init n st len)" using f z assms by (auto simp: inv_coal_def)
  ultimately show ?thesis by (simp add: sram_inv_def)
qed

lemma bank_init_blocks: "0 < n \<Longrightarrow> blocks (bank_init n st len) = {}"
  by (auto simp: blocks_def alloc_idx_def bank_init_nth null_piece_def split: if_splits)

lemma alloc_max_scan_bound:
  "alloc_max_scan ps n (b0, i0, a0) = (best, index, addr) \<Longrightarrow>
     b0 \<le> best \<and> (\<forall>p\<in>set ps. pflag p = SRAM_SLT_FREE \<longrightarrow> psize p \<le> best)"
proof (induction ps arbitrary: n b0 i0 a0)
  case (Cons p ps)
  show ?case
  proof (cases "pflag p = SRAM_SLT_FREE \<and> b0 < psize p")
    case True
    then have "psize p \<le> best \<and> (\<forall>p\<in>set ps. pflag p = SRAM_SLT_FREE \<longrightarrow> psize p \<le> best)"
      using Cons.IH[of "Suc n" "psize p" "Some n" "paddr p"] Cons.prems by simp
    moreover have "b0 \<le> psize p" using True by (simp add: less_imp_le)
    ultimately show ?thesis by (auto intro: order_trans)
  next
    case False
    have "alloc_max_scan ps (Suc n) (b0, i0, a0) = (best, index, addr)"
      using Cons.prems False by (simp split: if_splits)
    then have "b0 \<le> best \<and> (\<forall>p\<in>set ps. pflag p = SRAM_SLT_FREE \<longrightarrow> psize p \<le> best)"
      by (rule Cons.IH)
    then show ?thesis using False by (auto simp: not_less intro: order_trans)
  qed
qed simp

lemma alloc_max_scan_index:
  "alloc_max_scan ps n (b0, i0, a0) = r \<Longrightarrow> r = (b0, i0, a0) \<or>
     (\<exists>k<length ps. r = (psize (ps ! k), Some (n + k), paddr (ps ! k)) \<and>
        pflag (ps ! k) = SRAM_SLT_FREE \<and> b0 < psize (ps ! k))"
proof (induction ps arbitrary: n b0 i0 a0)
  case (Cons p ps)
  show ?case
  proof (cases "pflag p = SRAM_SLT_FREE \<and> b0 < psize p")
    case True
    with Cons.prems Cons.IH[of "Suc n" "psize p" "Some n" "paddr p"]
    consider "r = (psize p, Some n, paddr p)"
      | k where "k < length ps" "r = (psize (ps ! k), Some (Suc n + k), paddr (ps ! k))"
        "pflag (ps ! k) = SRAM_SLT_FREE" "psize p < psize (ps ! k)" by auto
    then show ?thesis
    proof cases
      case 1
      then show ?thesis using True by (intro disjI2 exI[of _ 0]) simp
    next
      case (2 k)
      then show ?thesis using True by (intro disjI2 exI[of _ "Suc k"]) auto
    qed
  next
    case False
    with Cons.prems Cons.IH[of "Suc n" b0 i0 a0]
    consider "r = (b0, i0, a0)"
      | k where "k < length ps" "r = (psize (ps ! k), Some (Suc n + k), paddr (ps ! k))"
        "pflag (ps ! k) = SRAM_SLT_FREE" "b0 < psize (ps ! k)" by auto
    then show ?thesis
    proof cases
      case (2 k)
      then show ?thesis by (intro disjI2 exI[of _ "Suc k"]) auto
    qed simp
  qed
qed simp

lemma l1_sram_alloc_max_cases:
  assumes "l1_sram_alloc_max pf cur = (a, ps, pf')"
  obtains "a = 0" "ps = None" "pf' = pf" "\<forall>p\<in>set pf. pflag p = SRAM_SLT_FREE \<longrightarrow> psize p = 0"
  | i where "i < length pf" "pflag (pf ! i) = SRAM_SLT_FREE" "a = paddr (pf ! i)"
      "ps = Some (psize (pf ! i))" "pf' = mark i cur pf"
      "\<forall>p\<in>set pf. pflag p = SRAM_SLT_FREE \<longrightarrow> psize p \<le> psize (pf ! i)"
proof -
  obtain best index addr where r: "alloc_max_scan pf 0 (0, None, 0) = (best, index, addr)"
    by (metis prod_cases3)
  note bnd = alloc_max_scan_bound[OF r]
  from alloc_max_scan_index[OF r] consider "index = None" "best = 0"
    | k where "k < length pf" "best = psize (pf ! k)" "index = Some k" "addr = paddr (pf ! k)"
      "pflag (pf ! k) = SRAM_SLT_FREE" by auto
  then show ?thesis
  proof cases
    case 1
    then show ?thesis using that(1) assms r bnd by (auto simp: l1_sram_alloc_max_def)
  next
    case (2 k)
    then show ?thesis using that(2)[of k] assms r bnd by (auto simp: l1_sram_alloc_max_def mark_swap)
  qed
qed

text \<open>With nothing allocated, one free piece spans the region and every other entry is dead.\<close>

lemma all_free_single_piece:
  assumes inv: "sram_inv b e pf" and be: "b < e" and none: "blocks pf = {}"
  obtains i where "i < length pf" "pflag (pf ! i) = SRAM_SLT_FREE" "lo (pf ! i) = b" "hi (pf ! i) = e"
    "\<forall>j<length pf. j \<noteq> i \<longrightarrow> pflag (pf ! j) = SRAM_SLT_NULL"
proof -
  note base = sram_inv_base[OF inv]
  have fr: "pflag (pf ! i) = SRAM_SLT_FREE" if "i < length pf" "live (pf ! i)" for i
    using that none by (cases "pflag (pf ! i)") (auto simp: blocks_def alloc_idx_def live_def)
  obtain i where i: "i < length pf" "live (pf ! i)" "lo (pf ! i) \<le> b" "b < hi (pf ! i)"
    using base_cover[OF base order_refl be] by blast
  note ri = base_range[OF base i(1,2)]
  have top: "hi (pf ! i) = e"
  proof (rule ccontr)
    assume "hi (pf ! i) \<noteq> e"
    then have lt: "hi (pf ! i) < e" using ri by simp
    obtain j where j: "j < length pf" "live (pf ! j)" "lo (pf ! j) \<le> hi (pf ! i)" "hi (pf ! i) < hi (pf ! j)"
      using base_cover[OF base _ lt] ri by (metis less_imp_le_nat order.trans)
    have "i \<noteq> j" using j by auto
    then have "hi (pf ! i) = lo (pf ! j)"
      using base_disj[OF base i(1) j(1) _ i(2) j(2)] j ri by auto
    then show False using coalD[of pf i j] inv i j fr by (auto simp: sram_inv_def)
  qed
  have "pflag (pf ! j) = SRAM_SLT_NULL" if j: "j < length pf" "j \<noteq> i" for j
  proof (rule ccontr)
    assume "pflag (pf ! j) \<noteq> SRAM_SLT_NULL"
    then have "live (pf ! j)" by (simp add: live_def)
    then show False
      using base_disj[OF base j(1) i(1) j(2)] base_range[OF base j(1)] i ri top by auto
  qed
  then show ?thesis using that[of i] i ri fr top by auto
qed

definition ok_size :: "u32 \<Rightarrow> bool" where
  "ok_size sz \<longleftrightarrow> 0 < unat sz \<and> unat sz \<le> 2 ^ 32 - 4"

text \<open>The operations a bank goes through, as a step relation.\<close>

inductive bank_step :: "bank \<Rightarrow> bank \<Rightarrow> bool" where
  alloc: "ok_size sz \<Longrightarrow> l1_sram_alloc sz pf cur = (a, pf') \<Longrightarrow> bank_step pf pf'"
| alloc_max: "l1_sram_alloc_max pf cur = (a, ps, pf') \<Longrightarrow> bank_step pf pf'"
| free: "l1_sram_free addr pf = (r, pf') \<Longrightarrow> bank_step pf pf'"

inductive bank_reachable :: "nat \<Rightarrow> u32 \<Rightarrow> u32 \<Rightarrow> bank \<Rightarrow> bool" for n st len where
  init: "bank_reachable n st len (bank_init n st len)"
| step: "bank_reachable n st len pf \<Longrightarrow> bank_step pf pf' \<Longrightarrow> bank_reachable n st len pf'"

lemma l1_sram_alloc_inv:
  assumes "sram_inv b e pf" "ok_size sz" "l1_sram_alloc sz pf cur = (a, pf')"
  shows "sram_inv b e pf'"
  using l1_sram_alloc_post[OF assms(1) _ _ assms(3)] assms(1,2)
  by (auto simp: ok_size_def alloc_post_def split: if_splits)

lemma l1_sram_alloc_max_inv:
  assumes "sram_inv b e pf" "l1_sram_alloc_max pf cur = (a, ps, pf')"
  shows "sram_inv b e pf'"
  using assms(2) by (cases rule: l1_sram_alloc_max_cases) (auto simp: assms(1) mark_inv)

lemma l1_sram_free_inv:
  assumes "sram_inv b e pf" "l1_sram_free addr pf = (r, pf')"
  shows "sram_inv b e pf'"
proof (cases "\<exists>h. (unat addr, h) \<in> blocks pf")
  case True
  then obtain i where "i < length pf" "pflag (pf ! i) = SRAM_SLT_ALLOCATED" "paddr (pf ! i) = addr"
    using block_entry by blast
  then show ?thesis using l1_sram_free_hit[OF assms(1), of i] assms(2) by auto
next
  case False
  then show ?thesis using l1_sram_free_miss[of addr pf] assms by simp
qed

lemma bank_step_inv: "bank_step pf pf' \<Longrightarrow> sram_inv b e pf \<Longrightarrow> sram_inv b e pf'"
  by (induction rule: bank_step.induct)
    (auto intro: l1_sram_alloc_inv l1_sram_alloc_max_inv l1_sram_free_inv)

lemma bank_reachable_inv:
  assumes "bank_reachable n st len pf" "0 < n" "0 < unat st" "0 < unat len" "unat st + unat len < 2 ^ 32"
  shows "sram_inv (unat st) (unat st + unat len) pf"
  using assms by (induction rule: bank_reachable.induct) (auto intro: bank_init_inv bank_step_inv)

section \<open>The allocator as an interface\<close>

text \<open>
  What the drivers rely on when they take DMA buffers from L1 memory: the address
  ranges handed out are disjoint, and releasing one removes exactly that range.
\<close>

locale l1_allocator =
  fixes alloc :: "u32 \<Rightarrow> 's \<Rightarrow> int \<Rightarrow> u32 \<times> 's"
    and free :: "u32 \<Rightarrow> 's \<Rightarrow> int \<times> 's"
    and inv :: "'s \<Rightarrow> bool"
    and blks :: "'s \<Rightarrow> (nat \<times> nat) set"
  assumes alloc_fail: "alloc sz s cur = (0, s') \<Longrightarrow> inv s \<Longrightarrow> ok_size sz \<Longrightarrow> s' = s"
    and alloc_keeps: "alloc sz s cur = (a, s') \<Longrightarrow> inv s \<Longrightarrow> ok_size sz \<Longrightarrow> inv s'"
    and alloc_block: "alloc sz s cur = (a, s') \<Longrightarrow> a \<noteq> 0 \<Longrightarrow> inv s \<Longrightarrow> ok_size sz \<Longrightarrow>
      \<exists>h\<ge>unat a + unat sz. blks s' = insert (unat a, h) (blks s) \<and>
        (\<forall>(l, r)\<in>blks s. r \<le> unat a \<or> h \<le> l)"
    and block_inj: "inv s \<Longrightarrow> (l, h) \<in> blks s \<Longrightarrow> (l, h') \<in> blks s \<Longrightarrow> h = h'"
    and block_pos: "inv s \<Longrightarrow> (l, h) \<in> blks s \<Longrightarrow> l < h"
    and free_hit: "inv s \<Longrightarrow> (unat a, h) \<in> blks s \<Longrightarrow>
      \<exists>s'. free a s = (0, s') \<and> inv s' \<and> blks s' = {(l, r) \<in> blks s. l \<noteq> unat a}"
    and free_miss: "inv s \<Longrightarrow> \<nexists>h. (unat a, h) \<in> blks s \<Longrightarrow> free a s = (-1, s)"
begin

lemma alloc_fresh:
  assumes "alloc sz s cur = (a, s')" "a \<noteq> 0" "inv s" "ok_size sz"
  shows "\<nexists>h. (unat a, h) \<in> blks s"
proof
  assume "\<exists>h. (unat a, h) \<in> blks s"
  then obtain h where h: "(unat a, h) \<in> blks s" by blast
  obtain k where "unat a + unat sz \<le> k" "\<forall>(l, r)\<in>blks s. r \<le> unat a \<or> k \<le> l"
    using alloc_block[OF assms] by blast
  then show False using h block_pos[OF assms(3) h] assms(4) by (auto simp: ok_size_def)
qed

text \<open>Releasing what was just allocated gives back the old set of blocks.\<close>

lemma alloc_free:
  assumes "alloc sz s cur = (a, s1)" "a \<noteq> 0" "inv s" "ok_size sz"
  shows "\<exists>s2. free a s1 = (0, s2) \<and> inv s2 \<and> blks s2 = blks s"
proof -
  obtain h where h: "blks s1 = insert (unat a, h) (blks s)" using alloc_block[OF assms] by blast
  have "\<exists>s2. free a s1 = (0, s2) \<and> inv s2 \<and> blks s2 = {(l, r) \<in> blks s1. l \<noteq> unat a}"
    using free_hit[OF alloc_keeps[OF assms(1,3,4)]] h by blast
  moreover have "{(l, r) \<in> blks s1. l \<noteq> unat a} = blks s"
    using h alloc_fresh[OF assms] by auto
  ultimately show ?thesis by simp
qed

text \<open>Two buffers taken one after the other do not overlap, and releasing the
  second and then the first leaves the blocks as they were.\<close>

lemma two_buffers:
  assumes 1: "alloc sz s cur = (a, s1)" "a \<noteq> 0" and 2: "alloc sz s1 cur = (c, s2)" "c \<noteq> 0"
    and s: "inv s" "ok_size sz"
  shows "(unat a + unat sz \<le> unat c \<or> unat c + unat sz \<le> unat a) \<and>
    (\<exists>s3 s4. free c s2 = (0, s3) \<and> free a s3 = (0, s4) \<and> inv s4 \<and> blks s4 = blks s)"
proof -
  note i1 = alloc_keeps[OF 1(1) s]
  obtain h where h: "unat a + unat sz \<le> h" "blks s1 = insert (unat a, h) (blks s)"
    using alloc_block[OF 1 s] by blast
  obtain k where k: "unat c + unat sz \<le> k" "\<forall>(l, r)\<in>blks s1. r \<le> unat c \<or> k \<le> l"
    using alloc_block[OF 2 i1 s(2)] by blast
  have "h \<le> unat c \<or> k \<le> unat a" using h(2) k(2) by auto
  then have sep: "unat a + unat sz \<le> unat c \<or> unat c + unat sz \<le> unat a" using h(1) k(1) by linarith
  obtain s3 where s3: "free c s2 = (0, s3)" "inv s3" "blks s3 = blks s1"
    using alloc_free[OF 2 i1 s(2)] by blast
  have "\<exists>s4. free a s3 = (0, s4) \<and> inv s4 \<and> blks s4 = {(l, r) \<in> blks s3. l \<noteq> unat a}"
    using free_hit[OF s3(2)] h(2) s3(3) by blast
  moreover have "{(l, r) \<in> blks s3. l \<noteq> unat a} = blks s"
    using h(2) s3(3) alloc_fresh[OF 1 s] by auto
  ultimately show ?thesis using sep s3(1) by auto
qed

end

text \<open>The allocator of \<open>blackfin_sram.c\<close> provides the interface, for any region.\<close>

lemma l1_sram_alloc_block:
  assumes "l1_sram_alloc sz pf cur = (a, pf')" "a \<noteq> 0" "sram_inv b e pf" "ok_size sz"
  shows "\<exists>h\<ge>unat a + unat sz. blocks pf' = insert (unat a, h) (blocks pf) \<and>
    (\<forall>(l, r)\<in>blocks pf. r \<le> unat a \<or> h \<le> l)"
  using l1_sram_alloc_post[OF assms(3) _ _ assms(1)] assms(2,4)
  by (auto simp: ok_size_def alloc_post_def)

lemma l1_sram_free_block:
  assumes "sram_inv b e pf" "(unat a, h) \<in> blocks pf"
  shows "\<exists>pf'. l1_sram_free a pf = (0, pf') \<and> sram_inv b e pf' \<and>
    blocks pf' = {(l, r) \<in> blocks pf. l \<noteq> unat a}"
proof -
  obtain i where "i < length pf" "pflag (pf ! i) = SRAM_SLT_ALLOCATED" "paddr (pf ! i) = a"
    using block_entry[OF assms(2)] .
  then show ?thesis using l1_sram_free_hit[OF assms(1), of i] by (simp add: lo_def)
qed

lemma block_nonempty: "sram_inv b e pf \<Longrightarrow> (l, h) \<in> blocks pf \<Longrightarrow> l < h"
  using base_range(2)[OF sram_inv_base]
  by (auto simp: blocks_def bounds_def alloc_idx_def live_def)

lemma l1_sram_alloc_none:
  assumes "l1_sram_alloc sz pf cur = (0, pf')" "sram_inv b e pf" "ok_size sz"
  shows "pf' = pf"
  using l1_sram_alloc_post[OF assms(2) _ _ assms(1)] assms(3) by (auto simp: ok_size_def alloc_post_def)

interpretation l1: l1_allocator l1_sram_alloc l1_sram_free "sram_inv b e" blocks for b e
proof
  show "pf' = pf" if "l1_sram_alloc sz pf cur = (0, pf')" "sram_inv b e pf" "ok_size sz" for sz pf cur pf'
    using l1_sram_alloc_none that .
  show "sram_inv b e pf'" if "l1_sram_alloc sz pf cur = (a, pf')" "sram_inv b e pf" "ok_size sz"
    for sz pf cur a pf' using l1_sram_alloc_inv that(2,3,1) .
  show "\<exists>h\<ge>unat a + unat sz. blocks pf' = insert (unat a, h) (blocks pf) \<and>
      (\<forall>(l, r)\<in>blocks pf. r \<le> unat a \<or> h \<le> l)"
    if "l1_sram_alloc sz pf cur = (a, pf')" "a \<noteq> 0" "sram_inv b e pf" "ok_size sz" for sz pf cur a pf'
    using l1_sram_alloc_block that .
  show "h = h'" if "sram_inv b e pf" "(l, h) \<in> blocks pf" "(l, h') \<in> blocks pf" for pf l h h'
    using blocks_start_inj that .
  show "l < h" if "sram_inv b e pf" "(l, h) \<in> blocks pf" for pf l h using block_nonempty that .
  show "\<exists>pf'. l1_sram_free a pf = (0, pf') \<and> sram_inv b e pf' \<and>
      blocks pf' = {(l, r) \<in> blocks pf. l \<noteq> unat a}"
    if "sram_inv b e pf" "(unat a, h) \<in> blocks pf" for pf a h using l1_sram_free_block that .
  show "l1_sram_free a pf = (-1, pf)" if "sram_inv b e pf" "\<nexists>h. (unat a, h) \<in> blocks pf" for pf a
    using l1_sram_free_miss that(2) .
qed

section \<open>Properties\<close>

text \<open>
  C1.  Allocation is correct: from a well-formed table, a request of at most
  \<open>2^32 - 4\<close> bytes either fails, and then leaves the table as it was and no
  free piece was large enough, or returns a non-null address whose block holds
  the request, lies in the region, keeps the region's alignment, overlaps no
  block handed out before, and is the only block added; the table stays
  well-formed.
\<close>

theorem l1_sram_alloc_correct:
  assumes "sram_inv b e pf" and "0 < unat sz" and "unat sz \<le> 2 ^ 32 - 4"
    and "l1_sram_alloc sz pf cur = (a, pf')"
  shows "sram_inv b e pf' \<and>
    (if a = 0 then pf' = pf \<and> (\<forall>p\<in>set pf. pflag p = SRAM_SLT_FREE \<longrightarrow> unat (psize p) < unat sz + 4)
     else \<exists>h. unat a + unat sz \<le> h \<and> b \<le> unat a \<and> h \<le> e \<and> 4 dvd (unat a - b) \<and>
       blocks pf' = insert (unat a, h) (blocks pf) \<and>
       (\<forall>(l, r)\<in>blocks pf. r \<le> unat a \<or> h \<le> l))"
proof -
  have "unat p < unat sz + 4" if "p < align4 sz" for p
    using that align4_bounds(4)[OF assms(2,3)] by (simp add: word_less_nat_alt)
  then show ?thesis using l1_sram_alloc_post[OF assms] assms(1)
    by (auto simp: alloc_post_def split: if_splits)
qed

theorem l1_sram_alloc_correct_witness:
  "\<exists>pf'. l1_sram_alloc 10 (bank_init 16 0x1000 0x1000) 7 = (0x1000, pf') \<and> sram_inv 4096 8192 pf' \<and>
     (\<exists>h\<ge>4106. blocks pf' = {(4096, h)})"
proof -
  have i: "sram_inv 4096 8192 (bank_init 16 0x1000 0x1000)"
    using bank_init_inv[of 16 "0x1000" "0x1000"] by simp
  have "fst (l1_sram_alloc 10 (bank_init 16 0x1000 0x1000) 7) = 0x1000" by code_simp
  then obtain pf' where r: "l1_sram_alloc 10 (bank_init 16 0x1000 0x1000) 7 = (0x1000, pf')"
    by (metis prod.collapse)
  show ?thesis
    using l1_sram_alloc_correct[OF i _ _ r] r bank_init_blocks[of 16 "0x1000" "0x1000"] by fastforce
qed

text \<open>
  C2.  Release is correct: an address that starts an allocated block is released
  with result 0, and exactly that block goes; any other address is refused with
  -1 and nothing changes.  The table stays well-formed, so neighbouring free
  pieces are fused again.
\<close>

theorem l1_sram_free_correct:
  assumes "sram_inv b e pf" and "l1_sram_free addr pf = (r, pf')"
  shows "sram_inv b e pf' \<and>
    (if \<exists>h. (unat addr, h) \<in> blocks pf
     then r = 0 \<and> blocks pf' = {(l, h) \<in> blocks pf. l \<noteq> unat addr}
     else r = -1 \<and> pf' = pf)"
  using l1.free_hit[OF assms(1)] l1.free_miss[OF assms(1), of addr] assms by fastforce

theorem l1_sram_free_correct_witness:
  "\<exists>pf1 pf2. l1_sram_alloc 10 (bank_init 16 0x1000 0x1000) 7 = (0x1000, pf1) \<and>
     l1_sram_free 0x1000 pf1 = (0, pf2) \<and> blocks pf2 = {}"
proof -
  have i: "sram_inv 4096 8192 (bank_init 16 0x1000 0x1000)"
    using bank_init_inv[of 16 "0x1000" "0x1000"] by simp
  have "fst (l1_sram_alloc 10 (bank_init 16 0x1000 0x1000) 7) = 0x1000" by code_simp
  then obtain pf1 where r: "l1_sram_alloc 10 (bank_init 16 0x1000 0x1000) 7 = (0x1000, pf1)"
    by (metis prod.collapse)
  have sz: "ok_size 10" by (simp add: ok_size_def)
  obtain h where h: "blocks pf1 = {(4096, h)}"
    using l1_sram_alloc_block[OF r _ i sz] bank_init_blocks[of 16 "0x1000" "0x1000"] by auto
  obtain q pf2 where f: "l1_sram_free 0x1000 pf1 = (q, pf2)" by (metis prod.collapse)
  show ?thesis using l1_sram_free_correct[OF l1_sram_alloc_inv[OF i sz r] f] r f h by auto
qed



text \<open>
  The rounding \<open>(size + 3) & ~3\<close> wraps for the three largest sizes: such a
  request becomes a request for 0 bytes and is granted, although no bank can hold
  it; the block it gets is empty and the next request is given the same address.
\<close>

lemma l1_sram_alloc_wraps:
  "list_all (\<lambda>sz. let (a1, pf1) = l1_sram_alloc sz (bank_init 16 0x1000 0x1000) 7;
                     (a2, pf2) = l1_sram_alloc 4 pf1 8
                 in a1 = 0x1000 \<and> a2 = 0x1000 \<and> psize (pf1 ! 0) = 0)
     [0xFFFFFFFD, 0xFFFFFFFE, 0xFFFFFFFF]"
  by code_simp

end
