(* ===== verification/L1_Banks.thy ===== *)
theory L1_Banks
  imports Sram
begin

text \<open>
  The banks built on the piece table in \<open>src/src/blackfin_sram.c\<close>: scratchpad,
  data bank A, data bank B and instruction memory, their initialisation, the
  exported allocation and release functions, the dispatch of \<open>sram_free\<close> by
  address range, and the per-process list that \<open>sram_alloc_with_lsl\<close> and
  \<open>sram_free_with_lsl\<close> keep.  The memory map and the sizes of the static L1
  sections are constants of the board (linker script and headers outside the
  repository), so they are fields of a configuration record.  Spin locks only
  serialise the operations and are left out: each operation is one atomic step.
\<close>

section \<open>Configuration and state\<close>

record l1_cfg =
  CONFIG_L1_MAX_PIECE :: int
  L1_SCRATCH_START :: u32
  L1_SCRATCH_LENGTH :: u32
  L1_DATA_A_START :: u32
  L1_DATA_A_LENGTH :: u32
  data_A_static :: u32
  L1_DATA_B_START :: u32
  L1_DATA_B_LENGTH :: u32
  data_B_static :: u32
  L1_CODE_START :: u32
  L1_CODE_LENGTH :: u32
  code_static :: u32
  L1_INST_SRAM :: u32
  L1_DATA_A_SRAM :: u32
  L1_DATA_B_SRAM :: u32

text \<open>The piece count is clamped to \<open>16..1024\<close> by the preprocessor.\<close>

definition l1_max_piece :: "l1_cfg \<Rightarrow> nat" where
  "l1_max_piece c = (if CONFIG_L1_MAX_PIECE c < 16 then 16
     else if CONFIG_L1_MAX_PIECE c > 1024 then 1024 else nat (CONFIG_L1_MAX_PIECE c))"

record task =
  task_pid :: int
  task_mm :: nat

text \<open>\<open>sram_list m\<close> is \<open>mm->context.sram_list\<close> of address space \<open>m\<close>, newest
  entry first, each entry its address and length.\<close>

record l1_state =
  l1_ssram :: bank
  l1_data_A_sram :: bank
  l1_data_B_sram :: bank
  l1_inst_sram :: bank
  sram_list :: "nat \<Rightarrow> (u32 \<times> u32) list"

section \<open>Initialisation\<close>

definition l1sram_init :: "l1_cfg \<Rightarrow> l1_state \<Rightarrow> l1_state" where
  "l1sram_init c s =
     s\<lparr>l1_ssram := bank_init (l1_max_piece c) (L1_SCRATCH_START c) (L1_SCRATCH_LENGTH c)\<rparr>"

definition l1_data_sram_init :: "l1_cfg \<Rightarrow> l1_state \<Rightarrow> l1_state" where
  "l1_data_sram_init c s =
     (let s = (if L1_DATA_A_LENGTH c \<noteq> 0
               then s\<lparr>l1_data_A_sram := bank_init (l1_max_piece c)
                        (L1_DATA_A_START c + data_A_static c) (L1_DATA_A_LENGTH c - data_A_static c)\<rparr>
               else s)
      in if L1_DATA_B_LENGTH c \<noteq> 0
         then s\<lparr>l1_data_B_sram := bank_init (l1_max_piece c)
                  (L1_DATA_B_START c + data_B_static c) (L1_DATA_B_LENGTH c - data_B_static c)\<rparr>
         else s)"

definition l1_inst_sram_init :: "l1_cfg \<Rightarrow> l1_state \<Rightarrow> l1_state" where
  "l1_inst_sram_init c s =
     (if L1_CODE_LENGTH c \<noteq> 0
      then s\<lparr>l1_inst_sram := bank_init (l1_max_piece c)
               (L1_CODE_START c + code_static c) (L1_CODE_LENGTH c - code_static c)\<rparr>
      else s)"

section \<open>Data banks\<close>

definition l1_data_A_sram_alloc :: "l1_cfg \<Rightarrow> u32 \<Rightarrow> l1_state \<Rightarrow> int \<Rightarrow> u32 \<times> l1_state" where
  "l1_data_A_sram_alloc c sz s cur =
     (if L1_DATA_A_LENGTH c \<noteq> 0
      then case l1_sram_alloc sz (l1_data_A_sram s) cur of (addr, pf) \<Rightarrow> (addr, s\<lparr>l1_data_A_sram := pf\<rparr>)
      else (0, s))"

definition l1_data_A_sram_free :: "l1_cfg \<Rightarrow> u32 \<Rightarrow> l1_state \<Rightarrow> int \<times> l1_state" where
  "l1_data_A_sram_free c addr s =
     (if L1_DATA_A_LENGTH c \<noteq> 0
      then case l1_sram_free addr (l1_data_A_sram s) of (ret, pf) \<Rightarrow> (ret, s\<lparr>l1_data_A_sram := pf\<rparr>)
      else (-1, s))"

definition l1_data_B_sram_alloc :: "l1_cfg \<Rightarrow> u32 \<Rightarrow> l1_state \<Rightarrow> int \<Rightarrow> u32 \<times> l1_state" where
  "l1_data_B_sram_alloc c sz s cur =
     (if L1_DATA_B_LENGTH c \<noteq> 0
      then case l1_sram_alloc sz (l1_data_B_sram s) cur of (addr, pf) \<Rightarrow> (addr, s\<lparr>l1_data_B_sram := pf\<rparr>)
      else (0, s))"

definition l1_data_B_sram_free :: "l1_cfg \<Rightarrow> u32 \<Rightarrow> l1_state \<Rightarrow> int \<times> l1_state" where
  "l1_data_B_sram_free c addr s =
     (if L1_DATA_B_LENGTH c \<noteq> 0
      then case l1_sram_free addr (l1_data_B_sram s) of (ret, pf) \<Rightarrow> (ret, s\<lparr>l1_data_B_sram := pf\<rparr>)
      else (-1, s))"

definition l1_data_sram_alloc :: "l1_cfg \<Rightarrow> u32 \<Rightarrow> l1_state \<Rightarrow> int \<Rightarrow> u32 \<times> l1_state" where
  "l1_data_sram_alloc c sz s cur =
     (case l1_data_A_sram_alloc c sz s cur of
        (addr, s) \<Rightarrow> if addr = 0 then l1_data_B_sram_alloc c sz s cur else (addr, s))"

definition memset :: "u32 \<Rightarrow> u8 \<Rightarrow> u32 \<Rightarrow> (u32 \<Rightarrow> u8) \<Rightarrow> (u32 \<Rightarrow> u8)" where
  "memset addr v n mem = (\<lambda>x. if unat (x - addr) < unat n then v else mem x)"

definition l1_data_sram_zalloc ::
    "l1_cfg \<Rightarrow> u32 \<Rightarrow> l1_state \<Rightarrow> int \<Rightarrow> (u32 \<Rightarrow> u8) \<Rightarrow> u32 \<times> l1_state \<times> (u32 \<Rightarrow> u8)" where
  "l1_data_sram_zalloc c sz s cur mem =
     (case l1_data_sram_alloc c sz s cur of
        (addr, s) \<Rightarrow> (addr, s, if addr \<noteq> 0 then memset addr 0 sz mem else mem))"

definition l1_data_sram_free :: "l1_cfg \<Rightarrow> u32 \<Rightarrow> l1_state \<Rightarrow> int \<times> l1_state" where
  "l1_data_sram_free c addr s =
     (case l1_data_A_sram_free c addr s of
        (ret, s) \<Rightarrow> if ret = -1 then l1_data_B_sram_free c addr s else (ret, s))"

section \<open>Instruction bank and scratchpad\<close>

text \<open>The guard of \<open>l1_inst_sram_alloc\<close> tests the length of data bank A, not of the
  instruction bank; the model keeps it.\<close>

definition l1_inst_sram_alloc :: "l1_cfg \<Rightarrow> u32 \<Rightarrow> l1_state \<Rightarrow> int \<Rightarrow> u32 \<times> l1_state" where
  "l1_inst_sram_alloc c sz s cur =
     (if L1_DATA_A_LENGTH c \<noteq> 0
      then case l1_sram_alloc sz (l1_inst_sram s) cur of (addr, pf) \<Rightarrow> (addr, s\<lparr>l1_inst_sram := pf\<rparr>)
      else (0, s))"

definition l1_inst_sram_free :: "l1_cfg \<Rightarrow> u32 \<Rightarrow> l1_state \<Rightarrow> int \<times> l1_state" where
  "l1_inst_sram_free c addr s =
     (if L1_CODE_LENGTH c \<noteq> 0
      then case l1_sram_free addr (l1_inst_sram s) of (ret, pf) \<Rightarrow> (ret, s\<lparr>l1_inst_sram := pf\<rparr>)
      else (-1, s))"

definition l1sram_alloc :: "u32 \<Rightarrow> l1_state \<Rightarrow> int \<Rightarrow> u32 \<times> l1_state" where
  "l1sram_alloc sz s cur =
     (case l1_sram_alloc sz (l1_ssram s) cur of (addr, pf) \<Rightarrow> (addr, s\<lparr>l1_ssram := pf\<rparr>))"

definition l1sram_alloc_max :: "l1_state \<Rightarrow> int \<Rightarrow> u32 \<times> u32 option \<times> l1_state" where
  "l1sram_alloc_max s cur =
     (case l1_sram_alloc_max (l1_ssram s) cur of (addr, ps, pf) \<Rightarrow> (addr, ps, s\<lparr>l1_ssram := pf\<rparr>))"

definition l1sram_free :: "u32 \<Rightarrow> l1_state \<Rightarrow> int \<times> l1_state" where
  "l1sram_free addr s =
     (case l1_sram_free addr (l1_ssram s) of (ret, pf) \<Rightarrow> (ret, s\<lparr>l1_ssram := pf\<rparr>))"

section \<open>Dispatch by address, per-process lists\<close>

definition sram_free :: "l1_cfg \<Rightarrow> u32 \<Rightarrow> l1_state \<Rightarrow> int \<times> l1_state" where
  "sram_free c addr s =
     (if L1_CODE_LENGTH c \<noteq> 0 \<and> L1_CODE_START c \<le> addr \<and> addr < L1_CODE_START c + L1_CODE_LENGTH c
      then l1_inst_sram_free c addr s
      else if L1_DATA_A_LENGTH c \<noteq> 0 \<and> L1_DATA_A_START c \<le> addr
                \<and> addr < L1_DATA_A_START c + L1_DATA_A_LENGTH c
      then l1_data_A_sram_free c addr s
      else if L1_DATA_B_LENGTH c \<noteq> 0 \<and> L1_DATA_B_START c \<le> addr
                \<and> addr < L1_DATA_B_START c + L1_DATA_B_LENGTH c
      then l1_data_B_sram_free c addr s
      else (-1, s))"

text \<open>Unlinking the first entry with the address, as the pointer-to-pointer loop does.\<close>

fun unlink :: "u32 \<Rightarrow> (u32 \<times> u32) list \<Rightarrow> (u32 \<times> u32) list option" where
  "unlink addr [] = None"
| "unlink addr (x # xs) = (if fst x = addr then Some xs else map_option ((#) x) (unlink addr xs))"

definition sram_free_with_lsl :: "l1_cfg \<Rightarrow> u32 \<Rightarrow> task \<Rightarrow> l1_state \<Rightarrow> int \<times> l1_state" where
  "sram_free_with_lsl c addr t s =
     (case unlink addr (sram_list s (task_mm t)) of
        None \<Rightarrow> (-1, s)
      | Some rest \<Rightarrow>
          let s = snd (sram_free c addr s)
          in (0, s\<lparr>sram_list := (sram_list s)(task_mm t := rest)\<rparr>))"

text \<open>\<open>mem_ok\<close> says whether \<open>kmalloc\<close> of the list entry succeeded.\<close>

definition sram_alloc_with_lsl ::
    "l1_cfg \<Rightarrow> u32 \<Rightarrow> u32 \<Rightarrow> bool \<Rightarrow> task \<Rightarrow> l1_state \<Rightarrow> u32 \<times> l1_state" where
  "sram_alloc_with_lsl c sz flags mem_ok t s =
     (if \<not> mem_ok then (0, s)
      else
        let (addr, s) = (if flags AND L1_INST_SRAM c \<noteq> 0
                         then l1_inst_sram_alloc c sz s (task_pid t) else (0, s));
            (addr, s) = (if addr = 0 \<and> flags AND L1_DATA_A_SRAM c \<noteq> 0
                         then l1_data_A_sram_alloc c sz s (task_pid t) else (addr, s));
            (addr, s) = (if addr = 0 \<and> flags AND L1_DATA_B_SRAM c \<noteq> 0
                         then l1_data_B_sram_alloc c sz s (task_pid t) else (addr, s))
        in if addr = 0 then (0, s)
           else (addr, s\<lparr>sram_list := (sram_list s)(task_mm t := (addr, sz) # sram_list s (task_mm t))\<rparr>))"

section \<open>Invariant\<close>

text \<open>The three banks \<open>sram_free\<close> dispatches on, with uniform access.\<close>

datatype bank_id = CODE | DATA_A | DATA_B

fun bget :: "bank_id \<Rightarrow> l1_state \<Rightarrow> bank" where
  "bget CODE s = l1_inst_sram s"
| "bget DATA_A s = l1_data_A_sram s"
| "bget DATA_B s = l1_data_B_sram s"

fun bstart :: "bank_id \<Rightarrow> l1_cfg \<Rightarrow> u32" where
  "bstart CODE c = L1_CODE_START c"
| "bstart DATA_A c = L1_DATA_A_START c"
| "bstart DATA_B c = L1_DATA_B_START c"

fun blen :: "bank_id \<Rightarrow> l1_cfg \<Rightarrow> u32" where
  "blen CODE c = L1_CODE_LENGTH c"
| "blen DATA_A c = L1_DATA_A_LENGTH c"
| "blen DATA_B c = L1_DATA_B_LENGTH c"

fun bstatic :: "bank_id \<Rightarrow> l1_cfg \<Rightarrow> u32" where
  "bstatic CODE c = code_static c"
| "bstatic DATA_A c = data_A_static c"
| "bstatic DATA_B c = data_B_static c"

definition blo :: "l1_cfg \<Rightarrow> bank_id \<Rightarrow> nat" where
  "blo c k = unat (bstart k c) + unat (bstatic k c)"

definition bhi :: "l1_cfg \<Rightarrow> bank_id \<Rightarrow> nat" where
  "bhi c k = unat (bstart k c) + unat (blen k c)"

text \<open>What the memory map must satisfy: every bank is there, does not wrap, keeps some
  room after its static section, and the banks do not overlap.\<close>

definition cfg_ok :: "l1_cfg \<Rightarrow> bool" where
  "cfg_ok c \<longleftrightarrow>
     (\<forall>k. 0 < unat (bstart k c) \<and> unat (bstatic k c) < unat (blen k c) \<and> bhi c k < 2 ^ 32) \<and>
     (\<forall>j k. j \<noteq> k \<longrightarrow> bhi c j \<le> unat (bstart k c) \<or> bhi c k \<le> unat (bstart j c))"

definition l1_inv :: "l1_cfg \<Rightarrow> l1_state \<Rightarrow> bool" where
  "l1_inv c s \<longleftrightarrow> (\<forall>k. sram_inv (blo c k) (bhi c k) (bget k s))"

definition l1_blocks :: "l1_state \<Rightarrow> (nat \<times> nat) set" where
  "l1_blocks s = (\<Union>k. blocks (bget k s))"

text \<open>The addresses the processes' lists hold; every block belongs to exactly one entry
  of one list, and every entry is a block in use.\<close>

definition owned :: "l1_state \<Rightarrow> u32 set" where
  "owned s = (\<Union>m. fst ` set (sram_list s m))"

definition lsl_inv :: "l1_state \<Rightarrow> bool" where
  "lsl_inv s \<longleftrightarrow> fst ` l1_blocks s = unat ` owned s \<and>
     (\<forall>m. distinct (map fst (sram_list s m))) \<and>
     (\<forall>m n. m \<noteq> n \<longrightarrow> fst ` set (sram_list s m) \<inter> fst ` set (sram_list s n) = {})"

definition sys_ok :: "l1_cfg \<Rightarrow> l1_state \<Rightarrow> bool" where
  "sys_ok c s \<longleftrightarrow> cfg_ok c \<and> l1_inv c s"

text \<open>The operations of one bank under a common name, so that each fact is proved once.\<close>

fun balloc :: "bank_id \<Rightarrow> l1_cfg \<Rightarrow> u32 \<Rightarrow> l1_state \<Rightarrow> int \<Rightarrow> u32 \<times> l1_state" where
  "balloc CODE = l1_inst_sram_alloc"
| "balloc DATA_A = l1_data_A_sram_alloc"
| "balloc DATA_B = l1_data_B_sram_alloc"

fun bfree :: "bank_id \<Rightarrow> l1_cfg \<Rightarrow> u32 \<Rightarrow> l1_state \<Rightarrow> int \<times> l1_state" where
  "bfree CODE = l1_inst_sram_free"
| "bfree DATA_A = l1_data_A_sram_free"
| "bfree DATA_B = l1_data_B_sram_free"

fun bput :: "bank_id \<Rightarrow> bank \<Rightarrow> l1_state \<Rightarrow> l1_state" where
  "bput CODE pf s = s\<lparr>l1_inst_sram := pf\<rparr>"
| "bput DATA_A pf s = s\<lparr>l1_data_A_sram := pf\<rparr>"
| "bput DATA_B pf s = s\<lparr>l1_data_B_sram := pf\<rparr>"

text \<open>One process's allocations and releases, as steps of the whole allocator.\<close>

inductive lsl_step :: "l1_cfg \<Rightarrow> l1_state \<Rightarrow> l1_state \<Rightarrow> bool" for c where
  alloc: "ok_size sz \<Longrightarrow> sram_alloc_with_lsl c sz flags mem_ok t s = (a, s') \<Longrightarrow> lsl_step c s s'"
| free: "sram_free_with_lsl c a t s = (r, s') \<Longrightarrow> lsl_step c s s'"

inductive lsl_reachable :: "l1_cfg \<Rightarrow> l1_state \<Rightarrow> bool" for c where
  init: "sram_list s0 = (\<lambda>m. []) \<Longrightarrow>
    lsl_reachable c (l1_inst_sram_init c (l1_data_sram_init c (l1sram_init c s0)))"
| step: "lsl_reachable c s \<Longrightarrow> lsl_step c s s' \<Longrightarrow> lsl_reachable c s'"

section \<open>One bank at a time\<close>

lemma bget_bput [simp]: "bget j (bput k pf s) = (if j = k then pf else bget j s)"
  by (cases j; cases k) auto

lemma sram_list_bput [simp]: "sram_list (bput k pf s) = sram_list s"
  by (cases k) auto

lemma bput_bget [simp]: "bput k (bget k s) s = s"
  by (cases k) auto

lemma bget_sram_list [simp]: "bget k (s\<lparr>sram_list := l\<rparr>) = bget k s"
  by (cases k) auto

lemma cfg_ok_bank:
  assumes "cfg_ok c"
  shows "blen k c \<noteq> 0" "0 < blo c k" "blo c k < bhi c k" "bhi c k < 2 ^ 32"
proof -
  have "0 < unat (bstart k c)" "unat (bstatic k c) < unat (blen k c)" "bhi c k < 2 ^ 32"
    using assms by (auto simp: cfg_ok_def)
  then show "blen k c \<noteq> 0" "0 < blo c k" "blo c k < bhi c k" "bhi c k < 2 ^ 32"
    by (auto simp: blo_def bhi_def)
qed

lemma cfg_ok_lengths:
  "cfg_ok c \<Longrightarrow> L1_CODE_LENGTH c \<noteq> 0 \<and> L1_DATA_A_LENGTH c \<noteq> 0 \<and> L1_DATA_B_LENGTH c \<noteq> 0"
  using cfg_ok_bank(1)[of c CODE] cfg_ok_bank(1)[of c DATA_A] cfg_ok_bank(1)[of c DATA_B] by simp

lemma cfg_ok_disjoint:
  "cfg_ok c \<Longrightarrow> j \<noteq> k \<Longrightarrow> bhi c j \<le> unat (bstart k c) \<or> bhi c k \<le> unat (bstart j c)"
  unfolding cfg_ok_def by blast

lemma balloc_bank:
  "cfg_ok c \<Longrightarrow> balloc k c sz s cur =
     (case l1_sram_alloc sz (bget k s) cur of (a, pf) \<Rightarrow> (a, bput k pf s))"
  using cfg_ok_lengths[of c]
  by (cases k) (simp_all add: l1_inst_sram_alloc_def l1_data_A_sram_alloc_def l1_data_B_sram_alloc_def)

lemma bfree_bank:
  "cfg_ok c \<Longrightarrow> bfree k c a s = (case l1_sram_free a (bget k s) of (r, pf) \<Rightarrow> (r, bput k pf s))"
  using cfg_ok_lengths[of c]
  by (cases k) (simp_all add: l1_inst_sram_free_def l1_data_A_sram_free_def l1_data_B_sram_free_def)

lemma l1_inv_bput: "l1_inv c s \<Longrightarrow> sram_inv (blo c k) (bhi c k) pf \<Longrightarrow> l1_inv c (bput k pf s)"
  by (simp add: l1_inv_def)

lemma sys_okD: "sys_ok c s \<Longrightarrow> sram_inv (blo c k) (bhi c k) (bget k s)"
  by (simp add: sys_ok_def l1_inv_def)

lemma balloc_split:
  assumes "balloc k c sz s cur = (a, s')" "sys_ok c s"
  obtains pf where "l1_sram_alloc sz (bget k s) cur = (a, pf)" "s' = bput k pf s"
  using assms by (auto simp: balloc_bank sys_ok_def split: prod.splits)

text \<open>Every bank of the system provides the allocator interface.\<close>

interpretation bk: l1_allocator "balloc k c" "bfree k c" "sys_ok c" "\<lambda>s. blocks (bget k s)" for k c
proof
  show "s' = s" if "balloc k c sz s cur = (0, s')" "sys_ok c s" "ok_size sz" for sz s cur s'
    using balloc_split[OF that(1,2)] l1.alloc_fail[OF _ sys_okD[OF that(2), of k] that(3)]
    by (metis bput_bget)
  show "sys_ok c s'" if "balloc k c sz s cur = (a, s')" "sys_ok c s" "ok_size sz" for sz s cur a s'
    using balloc_split[OF that(1,2)] l1.alloc_keeps[OF _ sys_okD[OF that(2), of k] that(3)] that(2)
    by (metis l1_inv_bput sys_ok_def)
  show "\<exists>h\<ge>unat a + unat sz. blocks (bget k s') = insert (unat a, h) (blocks (bget k s)) \<and>
      (\<forall>(l, r)\<in>blocks (bget k s). r \<le> unat a \<or> h \<le> l)"
    if "balloc k c sz s cur = (a, s')" "a \<noteq> 0" "sys_ok c s" "ok_size sz" for sz s cur a s'
    using balloc_split[OF that(1,3)] l1.alloc_block[OF _ that(2) sys_okD[OF that(3), of k] that(4)]
    by (metis bget_bput)
  show "h = h'" if "sys_ok c s" "(l, h) \<in> blocks (bget k s)" "(l, h') \<in> blocks (bget k s)" for s l h h'
    using l1.block_inj[OF sys_okD[OF that(1)] that(2,3)] .
  show "l < h" if "sys_ok c s" "(l, h) \<in> blocks (bget k s)" for s l h
    using l1.block_pos[OF sys_okD[OF that(1)] that(2)] .
  show "\<exists>s'. bfree k c a s = (0, s') \<and> sys_ok c s' \<and>
      blocks (bget k s') = {(l, r) \<in> blocks (bget k s). l \<noteq> unat a}"
    if "sys_ok c s" "(unat a, h) \<in> blocks (bget k s)" for s a h
    using l1.free_hit[OF sys_okD[OF that(1)] that(2)] that(1)
    by (auto simp: bfree_bank sys_ok_def l1_inv_bput)
  show "bfree k c a s = (-1, s)" if "sys_ok c s" "\<nexists>h. (unat a, h) \<in> blocks (bget k s)" for s a
    using l1.free_miss[OF sys_okD[OF that(1)] that(2)] that(1) by (simp add: bfree_bank sys_ok_def)
qed

section \<open>The whole memory\<close>

lemma block_in_bank:
  assumes "sys_ok c s" "(l, h) \<in> blocks (bget k s)"
  shows "blo c k \<le> l \<and> h \<le> bhi c k"
  using sys_okD[OF assms(1), of k] base_range[OF sram_inv_base] assms(2)
  by (fastforce simp: blocks_def bounds_def alloc_idx_def live_def)

lemma in_bank_unique:
  assumes "cfg_ok c" "unat (bstart j c) \<le> x" "x < bhi c j" "unat (bstart k c) \<le> x" "x < bhi c k"
  shows "j = k"
  using cfg_ok_disjoint[OF assms(1), of j k] assms(2-) by linarith

lemma block_bank_unique:
  assumes "sys_ok c s" "(l, h) \<in> blocks (bget j s)" "(l, h') \<in> blocks (bget k s)"
  shows "j = k"
proof (rule in_bank_unique[of c j l k])
  show "cfg_ok c" using assms(1) by (simp add: sys_ok_def)
  show "unat (bstart j c) \<le> l" "l < bhi c j"
    using block_in_bank[OF assms(1,2)] bk.block_pos[OF assms(1,2)] by (auto simp: blo_def)
  show "unat (bstart k c) \<le> l" "l < bhi c k"
    using block_in_bank[OF assms(1,3)] bk.block_pos[OF assms(1,3)] by (auto simp: blo_def)
qed

lemma l1_blocks_iff: "x \<in> l1_blocks s \<longleftrightarrow> (\<exists>k. x \<in> blocks (bget k s))"
  by (simp add: l1_blocks_def)

lemma l1_blocks_inj:
  assumes "sys_ok c s" "(l, h) \<in> l1_blocks s" "(l, h') \<in> l1_blocks s"
  shows "h = h'"
  using assms block_bank_unique[OF assms(1)] bk.block_inj[OF assms(1)] unfolding l1_blocks_iff by metis

text \<open>The address ranges \<open>sram_free\<close> tests, on the bank's numbers.\<close>

lemma in_range_iff:
  assumes "cfg_ok c"
  shows "bstart k c \<le> a \<and> a < bstart k c + blen k c \<longleftrightarrow> unat (bstart k c) \<le> unat a \<and> unat a < bhi c k"
  using cfg_ok_bank(4)[OF assms, of k]
  by (simp add: word_le_nat_alt word_less_nat_alt bhi_def unat_add_no_wrap)

lemma sram_free_dispatch:
  assumes "cfg_ok c" "unat (bstart k c) \<le> unat a" "unat a < bhi c k"
  shows "sram_free c a s = bfree k c a s"
proof -
  have hit: "bstart j c \<le> a \<and> a < bstart j c + blen j c \<longleftrightarrow> j = k" for j
    unfolding in_range_iff[OF assms(1)] using in_bank_unique[OF assms(1) _ _ assms(2,3)] assms(2,3) by blast
  show ?thesis
    using hit[of CODE] hit[of DATA_A] hit[of DATA_B] cfg_ok_lengths[OF assms(1)]
    by (cases k) (auto simp: sram_free_def)
qed

lemma sram_free_hit:
  assumes "sys_ok c s" "(unat a, h) \<in> l1_blocks s"
  shows "\<exists>s'. sram_free c a s = (0, s') \<and> sys_ok c s' \<and> sram_list s' = sram_list s \<and>
    l1_blocks s' = {(l, r) \<in> l1_blocks s. l \<noteq> unat a}"
proof -
  obtain k where k: "(unat a, h) \<in> blocks (bget k s)" using assms(2) by (auto simp: l1_blocks_iff)
  have c: "cfg_ok c" using assms(1) by (simp add: sys_ok_def)
  have d: "sram_free c a s = bfree k c a s"
    using block_in_bank[OF assms(1) k] bk.block_pos[OF assms(1) k]
    by (intro sram_free_dispatch[OF c]) (auto simp: blo_def)
  obtain s' where s': "bfree k c a s = (0, s')" "sys_ok c s'"
      "blocks (bget k s') = {(l, r) \<in> blocks (bget k s). l \<noteq> unat a}"
    using bk.free_hit[OF assms(1) k] by blast
  then obtain pf where pf: "s' = bput k pf s" by (auto simp: bfree_bank[OF c] split: prod.splits)
  have other: "j \<noteq> k \<Longrightarrow> (unat a, r) \<notin> blocks (bget j s)" for j r
    using block_bank_unique[OF assms(1) k] by blast
  have bj: "blocks (bget j s') = {(l, r) \<in> blocks (bget j s). l \<noteq> unat a}" for j
    using s'(3) pf other[of j] by (cases "j = k") auto
  then have "l1_blocks s' = {(l, r) \<in> l1_blocks s. l \<noteq> unat a}" by (auto simp: l1_blocks_def)
  then show ?thesis using d s' pf by auto
qed

section \<open>Per-process lists\<close>

lemma unlink_None: "unlink a xs = None \<longleftrightarrow> a \<notin> fst ` set xs"
  by (induction xs) auto

lemma unlink_Some: "unlink a xs = Some ys \<Longrightarrow> distinct (map fst xs) \<Longrightarrow> ys = filter (\<lambda>x. fst x \<noteq> a) xs"
proof (induction xs arbitrary: ys)
  case (Cons x xs)
  show ?case
  proof (cases "fst x = a")
    case True
    then have "y \<in> set xs \<Longrightarrow> fst y \<noteq> a" for y
      using Cons.prems(2) by (metis distinct.simps(2) image_eqI list.simps(9) set_map)
    then show ?thesis using Cons.prems True by simp
  next
    case False
    then show ?thesis using Cons by auto
  qed
qed simp

text \<open>Either nothing was granted and nothing changed, or one bank granted the block.
  \<open>granted\<close> says so of an intermediate result of the three attempts.\<close>

definition granted :: "l1_cfg \<Rightarrow> u32 \<Rightarrow> int \<Rightarrow> l1_state \<Rightarrow> u32 \<times> l1_state \<Rightarrow> bool" where
  "granted c sz cur s r \<longleftrightarrow>
     (if fst r = 0 then snd r = s else \<exists>k. balloc k c sz s cur = r)"

lemma granted_start: "granted c sz cur s (0, s)"
  by (simp add: granted_def)

lemma granted_attempt:
  assumes "granted c sz cur s (a, s1)" "sys_ok c s" "ok_size sz"
  shows "granted c sz cur s (if a = 0 \<and> g then balloc k c sz s1 cur else (a, s1))"
  using assms bk.alloc_fail[of k c sz s cur] by (auto simp: granted_def) (metis prod.collapse)+

lemma sram_alloc_with_lsl_granted:
  assumes "sys_ok c s" "ok_size sz" "mem_ok"
  obtains r where "granted c sz (task_pid t) s r"
    "sram_alloc_with_lsl c sz flags mem_ok t s = (if fst r = 0 then (0, snd r) else (fst r, (snd r)
       \<lparr>sram_list := (sram_list (snd r))(task_mm t := (fst r, sz) # sram_list (snd r) (task_mm t))\<rparr>))"
proof -
  let ?att = "\<lambda>k g r. if fst r = 0 \<and> g then balloc k c sz (snd r) (task_pid t) else r"
  have att: "granted c sz (task_pid t) s r \<Longrightarrow> granted c sz (task_pid t) s (?att k g r)" for k g r
    using granted_attempt[OF _ assms(1,2), of "task_pid t" "fst r" "snd r" g k] by (auto split: if_splits)
  let ?r = "?att DATA_B (flags AND L1_DATA_B_SRAM c \<noteq> 0) (?att DATA_A (flags AND L1_DATA_A_SRAM c \<noteq> 0)
    (?att CODE (flags AND L1_INST_SRAM c \<noteq> 0) (0, s)))"
  have "granted c sz (task_pid t) s ?r" by (intro att granted_start)
  moreover have "sram_alloc_with_lsl c sz flags mem_ok t s =
      (if fst ?r = 0 then (0, snd ?r) else (fst ?r, (snd ?r)\<lparr>sram_list := (sram_list (snd ?r))
        (task_mm t := (fst ?r, sz) # sram_list (snd ?r) (task_mm t))\<rparr>))"
    using assms(3) by (simp add: sram_alloc_with_lsl_def Let_def split_beta)
  ultimately show thesis using that by blast
qed

lemma sram_alloc_with_lsl_cases:
  assumes "sram_alloc_with_lsl c sz flags mem_ok t s = (a, s')" "sys_ok c s" "ok_size sz"
  obtains (none) "a = 0" "s' = s"
  | (got) k s1 where "a \<noteq> 0" "balloc k c sz s (task_pid t) = (a, s1)" "sys_ok c s1"
      "s' = s1\<lparr>sram_list := (sram_list s)(task_mm t := (a, sz) # sram_list s (task_mm t))\<rparr>"
proof (cases mem_ok)
  case False
  then show thesis using assms(1) none by (simp add: sram_alloc_with_lsl_def)
next
  case True
  obtain r where r: "granted c sz (task_pid t) s r"
    "sram_alloc_with_lsl c sz flags mem_ok t s = (if fst r = 0 then (0, snd r) else (fst r, (snd r)
       \<lparr>sram_list := (sram_list (snd r))(task_mm t := (fst r, sz) # sram_list (snd r) (task_mm t))\<rparr>))"
    using sram_alloc_with_lsl_granted[OF assms(2,3) True] .
  show thesis
  proof (cases "fst r = 0")
    case True
    then show thesis using r assms(1) none by (simp add: granted_def)
  next
    case False
    then obtain k where k: "balloc k c sz s (task_pid t) = (fst r, snd r)" using r(1) by (auto simp: granted_def)
    have "sram_list (snd r) = sram_list s" using balloc_split[OF k assms(2)] by (metis sram_list_bput)
    then show thesis
      using False r(2) assms(1) k bk.alloc_keeps[OF k assms(2,3)] by (intro got[of k "snd r"]) auto
  qed
qed

lemma l1_blocks_sram_list [simp]: "l1_blocks (s\<lparr>sram_list := l\<rparr>) = l1_blocks s"
  by (simp add: l1_blocks_def)

lemma sys_ok_sram_list [simp]: "sys_ok c (s\<lparr>sram_list := l\<rparr>) = sys_ok c s"
  by (simp add: sys_ok_def l1_inv_def)

lemma balloc_l1_blocks:
  assumes "balloc k c sz s cur = (a, s1)" "a \<noteq> 0" "sys_ok c s" "ok_size sz"
  shows "\<exists>h\<ge>unat a + unat sz. l1_blocks s1 = insert (unat a, h) (l1_blocks s) \<and>
    (\<nexists>r. (unat a, r) \<in> l1_blocks s)"
proof -
  obtain h where h: "unat a + unat sz \<le> h" "blocks (bget k s1) = insert (unat a, h) (blocks (bget k s))"
    using bk.alloc_block[OF assms] by blast
  obtain pf where pf: "s1 = bput k pf s" using balloc_split[OF assms(1,3)] by blast
  have "x \<in> blocks (bget j s1) \<longleftrightarrow> x \<in> blocks (bget j s) \<or> (j = k \<and> x = (unat a, h))" for j x
    using pf h(2) by auto
  then have un: "l1_blocks s1 = insert (unat a, h) (l1_blocks s)"
    by (simp only: set_eq_iff l1_blocks_iff insert_iff) blast
  have "(unat a, r) \<notin> blocks (bget j s)" for j r
  proof
    assume b: "(unat a, r) \<in> blocks (bget j s)"
    have "j = k"
    proof (rule ccontr)
      assume "j \<noteq> k"
      then have "(unat a, r) \<in> blocks (bget j s1)" using b pf by simp
      then show False
        using block_bank_unique[OF bk.alloc_keeps[OF assms(1,3,4)]] h(2) \<open>j \<noteq> k\<close> by blast
    qed
    then show False using b bk.alloc_fresh[OF assms] by blast
  qed
  then show ?thesis using h(1) un by (auto simp: l1_blocks_iff)
qed

lemma init_banks:
  assumes "cfg_ok c" "s = l1_inst_sram_init c (l1_data_sram_init c (l1sram_init c s0))"
  shows "bget k s = bank_init (l1_max_piece c) (bstart k c + bstatic k c) (blen k c - bstatic k c)"
    "sram_list s = sram_list s0"
  using cfg_ok_lengths[OF assms(1)] unfolding assms(2)
  by (cases k; simp add: l1_inst_sram_init_def l1_data_sram_init_def l1sram_init_def)+

lemma init_sys_ok:
  assumes "cfg_ok c"
  shows "sys_ok c (l1_inst_sram_init c (l1_data_sram_init c (l1sram_init c s0)))"
    "l1_blocks (l1_inst_sram_init c (l1_data_sram_init c (l1sram_init c s0))) = {}"
proof -
  let ?s = "l1_inst_sram_init c (l1_data_sram_init c (l1sram_init c s0))"
  have n: "0 < l1_max_piece c" by (auto simp: l1_max_piece_def)
  have "sram_inv (blo c k) (bhi c k) (bget k ?s)" for k
  proof -
    have k: "0 < unat (bstart k c)" "unat (bstatic k c) < unat (blen k c)" "bhi c k < 2 ^ 32"
      using assms by (auto simp: cfg_ok_def)
    have st: "unat (bstart k c + bstatic k c) = blo c k"
      using k by (subst unat_add_no_wrap) (auto simp: blo_def bhi_def)
    have ln: "unat (blen k c - bstatic k c) = unat (blen k c) - unat (bstatic k c)"
      using k by (intro unat_diff_no_wrap) (simp add: word_le_nat_alt)
    show ?thesis
      using bank_init_inv[OF n, of "bstart k c + bstatic k c" "blen k c - bstatic k c"] k
      by (simp add: init_banks[OF assms refl] st ln) (simp add: blo_def bhi_def)
  qed
  then show "sys_ok c ?s" using assms by (simp add: sys_ok_def l1_inv_def)
  show "l1_blocks ?s = {}" by (simp add: l1_blocks_def init_banks[OF assms refl] bank_init_blocks[OF n])
qed

lemma owned_upd: "owned (s\<lparr>sram_list := l\<rparr>) = (\<Union>m. fst ` set (l m))"
  by (simp add: owned_def)

lemma lsl_invI:
  assumes "fst ` l1_blocks s = unat ` owned s" "\<And>m. distinct (map fst (sram_list s m))"
    "\<And>m n. m \<noteq> n \<Longrightarrow> fst ` set (sram_list s m) \<inter> fst ` set (sram_list s n) = {}"
  shows "lsl_inv s"
  using assms by (simp add: lsl_inv_def)

lemma lsl_invD:
  assumes "lsl_inv s"
  shows "fst ` l1_blocks s = unat ` owned s" "distinct (map fst (sram_list s m))"
    "m \<noteq> n \<Longrightarrow> fst ` set (sram_list s m) \<inter> fst ` set (sram_list s n) = {}"
  using assms by (simp_all add: lsl_inv_def)

lemma lsl_inv_alloc:
  assumes "sys_ok c s" "lsl_inv s" "balloc k c sz s cur = (a, s1)" "a \<noteq> 0" "ok_size sz"
  shows "lsl_inv (s1\<lparr>sram_list := (sram_list s)(m := (a, sz) # sram_list s m)\<rparr>)"
proof -
  let ?l = "(sram_list s)(m := (a, sz) # sram_list s m)"
  obtain h where h: "l1_blocks s1 = insert (unat a, h) (l1_blocks s)" "\<nexists>r. (unat a, r) \<in> l1_blocks s"
    using balloc_l1_blocks[OF assms(3,4,1,5)] by blast
  have "a \<notin> owned s" using h(2) lsl_invD(1)[OF assms(2)] by (metis imageE image_eqI prod.collapse)
  then have fresh: "a \<notin> fst ` set (sram_list s n)" for n by (simp add: owned_def)
  have l: "fst ` set (?l n) = fst ` set (sram_list s n) \<union> (if n = m then {a} else {})" for n by auto
  have own: "owned (s1\<lparr>sram_list := ?l\<rparr>) = insert a (owned s)"
    by (simp only: owned_upd l UN_Un_distrib) (simp add: owned_def)
  show ?thesis
  proof (rule lsl_invI)
    show "fst ` l1_blocks (s1\<lparr>sram_list := ?l\<rparr>) = unat ` owned (s1\<lparr>sram_list := ?l\<rparr>)"
      using lsl_invD(1)[OF assms(2)] h(1) own by simp
    show "distinct (map fst (sram_list (s1\<lparr>sram_list := ?l\<rparr>) n))" for n
      using lsl_invD(2)[OF assms(2)] fresh by simp
    show "fst ` set (sram_list (s1\<lparr>sram_list := ?l\<rparr>) n) \<inter> fst ` set (sram_list (s1\<lparr>sram_list := ?l\<rparr>) k) = {}"
      if "n \<noteq> k" for n k using lsl_invD(3)[OF assms(2) that] fresh that by auto
  qed
qed

lemma lsl_inv_free:
  assumes "lsl_inv s" "l1_blocks s1 = {(l, r) \<in> l1_blocks s. l \<noteq> unat a}"
    "a \<in> fst ` set (sram_list s m)"
  shows "lsl_inv (s1\<lparr>sram_list := (sram_list s)(m := filter (\<lambda>x. fst x \<noteq> a) (sram_list s m))\<rparr>)"
proof -
  let ?l = "(sram_list s)(m := filter (\<lambda>x. fst x \<noteq> a) (sram_list s m))"
  have other: "n \<noteq> m \<Longrightarrow> a \<notin> fst ` set (sram_list s n)" for n
    using lsl_invD(3)[OF assms(1)] assms(3) unfolding disjoint_iff by blast
  have l: "fst ` set (?l n) = fst ` set (sram_list s n) - {a}" for n
    using other[of n] by (cases "n = m") auto
  have own: "owned (s1\<lparr>sram_list := ?l\<rparr>) = owned s - {a}" 
    by (simp only: owned_upd l) (simp add: owned_def)
  have blk: "fst ` l1_blocks s1 = fst ` l1_blocks s - {unat a}" unfolding assms(2) by force
  show ?thesis
  proof (rule lsl_invI)
    show "fst ` l1_blocks (s1\<lparr>sram_list := ?l\<rparr>) = unat ` owned (s1\<lparr>sram_list := ?l\<rparr>)"
      using blk own lsl_invD(1)[OF assms(1)] 
      by (simp add: image_set_diff inj_def word_unat_eq_iff)
    show "distinct (map fst (sram_list (s1\<lparr>sram_list := ?l\<rparr>) n))" for n
      using lsl_invD(2)[OF assms(1)] by (simp add: distinct_map_filter)
    show "fst ` set (sram_list (s1\<lparr>sram_list := ?l\<rparr>) n) \<inter> fst ` set (sram_list (s1\<lparr>sram_list := ?l\<rparr>) k) = {}"
      if "n \<noteq> k" for n k using lsl_invD(3)[OF assms(1) that] l[of n] l[of k]
      by (simp del: fun_upd_apply set_filter) blast
  qed
qed

text \<open>Release through the list: the entry's owner gets 0 and the block really goes.\<close>

lemma sram_free_with_lsl_hit:
  assumes "sys_ok c s" "lsl_inv s" "a \<in> fst ` set (sram_list s (task_mm t))"
  shows "\<exists>s'. sram_free_with_lsl c a t s = (0, s') \<and> fst (sram_free c a s) = 0 \<and> sys_ok c s' \<and> lsl_inv s' \<and>
    l1_blocks s' = {(l, r) \<in> l1_blocks s. l \<noteq> unat a} \<and>
    sram_list s' = (sram_list s)(task_mm t := filter (\<lambda>x. fst x \<noteq> a) (sram_list s (task_mm t)))"
proof -
  let ?m = "task_mm t"
  have d: "fst ` l1_blocks s = unat ` owned s" "distinct (map fst (sram_list s ?m))"
    using assms(2) by (simp_all add: lsl_inv_def)
  have "unat a \<in> fst ` l1_blocks s" unfolding d(1) owned_def using assms(3) by blast
  then obtain h where "(unat a, h) \<in> l1_blocks s" by auto
  then obtain s1 where s1: "sram_free c a s = (0, s1)" "sys_ok c s1" "sram_list s1 = sram_list s"
      "l1_blocks s1 = {(l, r) \<in> l1_blocks s. l \<noteq> unat a}"
    using sram_free_hit[OF assms(1)] by blast
  obtain rest where "unlink a (sram_list s ?m) = Some rest"
    using assms(3) by (metis not_None_eq unlink_None)
  moreover from this have "rest = filter (\<lambda>x. fst x \<noteq> a) (sram_list s ?m)"
    using unlink_Some[OF _ d(2)] by blast
  ultimately have "sram_free_with_lsl c a t s =
      (0, s1\<lparr>sram_list := (sram_list s)(?m := filter (\<lambda>x. fst x \<noteq> a) (sram_list s ?m))\<rparr>)"
    using s1 by (simp add: sram_free_with_lsl_def)
  then show ?thesis using s1 lsl_inv_free[OF assms(2) s1(4) assms(3)] by simp
qed

lemma sram_free_with_lsl_miss:
  "a \<notin> fst ` set (sram_list s (task_mm t)) \<Longrightarrow> sram_free_with_lsl c a t s = (-1, s)"
  by (simp add: sram_free_with_lsl_def unlink_None[THEN iffD2])

lemma lsl_step_inv: "lsl_step c s s' \<Longrightarrow> sys_ok c s \<Longrightarrow> lsl_inv s \<Longrightarrow> sys_ok c s' \<and> lsl_inv s'"
proof (induction rule: lsl_step.induct)
  case (alloc sz flags mem_ok t s a s')
  show ?case
    using alloc.hyps(2) alloc.prems(1) alloc.hyps(1)
    by (cases rule: sram_alloc_with_lsl_cases)
      (auto simp: alloc.prems intro: lsl_inv_alloc[OF alloc.prems _ _ alloc.hyps(1)])
next
  case (free a t s r s')
  then show ?case
    using sram_free_with_lsl_hit[OF free.prems, of a t] sram_free_with_lsl_miss[of a s t c]
    by (cases "a \<in> fst ` set (sram_list s (task_mm t))") auto
qed

lemma lsl_reachable_inv: "lsl_reachable c s \<Longrightarrow> cfg_ok c \<Longrightarrow> sys_ok c s \<and> lsl_inv s"
proof (induction rule: lsl_reachable.induct)
  case (init s0)
  then show ?case
    using init_sys_ok[OF init(2), of s0] init_banks(2)[OF init(2) refl, of s0]
    by (simp add: lsl_inv_def owned_def)
next
  case (step s s')
  then show ?case using lsl_step_inv by blast
qed

section \<open>Zeroed allocation from the two data banks\<close>

lemma l1_data_sram_alloc_cases:
  assumes "l1_data_sram_alloc c sz s cur = (a, s')" "a \<noteq> 0" "sys_ok c s" "ok_size sz"
  obtains k where "balloc k c sz s cur = (a, s')"
proof -
  obtain b s1 where A: "balloc DATA_A c sz s cur = (b, s1)" by fastforce
  show thesis
  proof (cases "b = 0")
    case True
    then have "s1 = s" using bk.alloc_fail[OF _ assms(3,4), of DATA_A cur] A by simp
    then show thesis using that[of DATA_B] assms(1) A True by (simp add: l1_data_sram_alloc_def)
  next
    case False
    then show thesis using that[of DATA_A] assms(1) A by (simp add: l1_data_sram_alloc_def)
  qed
qed

text \<open>A new block overlaps no block of any bank.\<close>

lemma balloc_disjoint:
  assumes "balloc k c sz s cur = (a, s1)" "a \<noteq> 0" "sys_ok c s" "ok_size sz" "(l, h) \<in> l1_blocks s"
  shows "h \<le> unat a \<or> unat a + unat sz \<le> l"
proof -
  obtain j where j: "(l, h) \<in> blocks (bget j s)" using assms(5) by (auto simp: l1_blocks_iff)
  obtain g where g: "unat a + unat sz \<le> g" "blocks (bget k s1) = insert (unat a, g) (blocks (bget k s))"
      "\<forall>(l, r)\<in>blocks (bget k s). r \<le> unat a \<or> g \<le> l"
    using bk.alloc_block[OF assms(1-4)] by blast
  show ?thesis
  proof (cases "j = k")
    case True
    then show ?thesis using g j by force
  next
    case False
    have "blo c k \<le> unat a \<and> g \<le> bhi c k"
      using block_in_bank[OF bk.alloc_keeps[OF assms(1,3,4)], of "unat a" g k] g(2) by blast
    moreover have "blo c j \<le> l \<and> h \<le> bhi c j" using block_in_bank[OF assms(3) j] .
    moreover have "bhi c j \<le> unat (bstart k c) \<or> bhi c k \<le> unat (bstart j c)"
      using cfg_ok_disjoint False assms(3) by (simp add: sys_ok_def)
    ultimately show ?thesis using g(1) by (auto simp: blo_def)
  qed
qed

lemma balloc_top:
  assumes "balloc k c sz s cur = (a, s1)" "a \<noteq> 0" "sys_ok c s" "ok_size sz"
  shows "unat a + unat sz < 2 ^ 32"
proof -
  obtain g where g: "unat a + unat sz \<le> g" "blocks (bget k s1) = insert (unat a, g) (blocks (bget k s))"
    using bk.alloc_block[OF assms] by blast
  have "g \<le> bhi c k" using block_in_bank[OF bk.alloc_keeps[OF assms(1,3,4)], of "unat a" g k] g(2) by blast
  then show ?thesis using g(1) cfg_ok_bank(4)[of c k] assms(3) by (simp add: sys_ok_def)
qed

lemma memset_range:
  assumes "unat a + unat n < 2 ^ 32"
  shows "memset a v n mem x = (if unat a \<le> unat x \<and> unat x < unat a + unat n then v else mem x)"
proof -
  have "unat (x - a) < unat n \<longleftrightarrow> unat a \<le> unat x \<and> unat x < unat a + unat n"
  proof (cases "a \<le> x")
    case True
    then show ?thesis by (auto simp: unat_diff_no_wrap word_le_nat_alt)
  next
    case False
    then have lt: "unat x < unat a" by (simp add: word_le_nat_alt)
    have "unat (x - a) = 2 ^ 32 + unat x - unat a"
      using lt unsigned_less[of a] by (simp add: unat_sub_if_size word_size word_le_nat_alt)
    then show ?thesis using assms lt by linarith
  qed
  then show ?thesis by (simp add: memset_def)
qed

text \<open>A board like the BF537 STAMP, for the examples.\<close>

definition bf537_cfg :: l1_cfg where
  "bf537_cfg = \<lparr>CONFIG_L1_MAX_PIECE = 16, L1_SCRATCH_START = 0xFFB00000, L1_SCRATCH_LENGTH = 0x1000,
     L1_DATA_A_START = 0xFF800000, L1_DATA_A_LENGTH = 0x4000, data_A_static = 0x100,
     L1_DATA_B_START = 0xFF900000, L1_DATA_B_LENGTH = 0x4000, data_B_static = 0,
     L1_CODE_START = 0xFFA00000, L1_CODE_LENGTH = 0xC000, code_static = 0x2000,
     L1_INST_SRAM = 1, L1_DATA_A_SRAM = 2, L1_DATA_B_SRAM = 4\<rparr>"

definition boot :: "l1_cfg \<Rightarrow> l1_state" where
  "boot c = l1_inst_sram_init c (l1_data_sram_init c (l1sram_init c
     \<lparr>l1_ssram = [], l1_data_A_sram = [], l1_data_B_sram = [], l1_inst_sram = [], sram_list = \<lambda>m. []\<rparr>))"

lemma all_bank_id: "(\<forall>k. P k) \<longleftrightarrow> P CODE \<and> P DATA_A \<and> P DATA_B"
  by (metis bank_id.exhaust)

lemma bf537_cfg_ok: "cfg_ok bf537_cfg"
  by (simp add: cfg_ok_def all_bank_id bf537_cfg_def blo_def bhi_def)

lemma boot_reachable: "lsl_reachable c (boot c)"
  unfolding boot_def by (rule lsl_reachable.init) simp

lemma boot_inv: "sys_ok bf537_cfg (boot bf537_cfg)" "lsl_inv (boot bf537_cfg)"
  using lsl_reachable_inv[OF boot_reachable bf537_cfg_ok] by auto

section \<open>Properties\<close>



text \<open>
  Round trip: what \<open>sram_alloc_with_lsl\<close> grants from any reachable state,
  whichever bank it came from, is released by the same process through
  \<open>sram_free_with_lsl\<close>, and both the set of blocks and every process's list are
  then what they were before.
\<close>

lemma lsl_alloc_free_roundtrip:
  assumes "cfg_ok c" and "lsl_reachable c s" and "ok_size sz"
    and "sram_alloc_with_lsl c sz flags mem_ok t s = (a, s1)" and "a \<noteq> 0"
  shows "\<exists>s2. sram_free_with_lsl c a t s1 = (0, s2) \<and> l1_blocks s2 = l1_blocks s \<and> sram_list s2 = sram_list s"
proof -
  have i: "sys_ok c s" "lsl_inv s" using lsl_reachable_inv assms by blast+
  have i1: "sys_ok c s1" "lsl_inv s1" using lsl_step_inv[OF lsl_step.alloc[OF assms(3,4)] i] by auto
  from assms(4) i(1) assms(3) show ?thesis
  proof (cases rule: sram_alloc_with_lsl_cases)
    case (got k s')
    obtain h where h: "l1_blocks s' = insert (unat a, h) (l1_blocks s)" "\<nexists>r. (unat a, r) \<in> l1_blocks s"
      using balloc_l1_blocks[OF got(2,1) i(1) assms(3)] by blast
    have "unat a \<notin> fst ` l1_blocks s" using h(2) by (metis imageE prod.collapse)
    then have "a \<notin> owned s" using lsl_invD(1)[OF i(2)] by blast
    then have "x \<in> set (sram_list s (task_mm t)) \<Longrightarrow> fst x \<noteq> a" for x by (auto simp: owned_def)
    then have flt: "filter (\<lambda>x. fst x \<noteq> a) (sram_list s (task_mm t)) = sram_list s (task_mm t)"
      by (simp add: filter_id_conv)
    have "{(l, r) \<in> insert (unat a, h) (l1_blocks s). l \<noteq> unat a} = l1_blocks s" using h(2) by auto
    moreover have "a \<in> fst ` set (sram_list s1 (task_mm t))" using got(4) by simp
    ultimately show ?thesis
      using sram_free_with_lsl_hit[OF i1, of a t] got(4) h(1) flt by auto
  qed (use assms(5) in simp)
qed

text \<open>
  \<open>l1_data_sram_zalloc\<close> clears exactly the bytes it hands out: they read 0,
  every other byte of memory keeps its value, and in particular no byte of any
  block already in use, in any bank, is touched.
\<close>

lemma l1_data_sram_zalloc_clears:
  assumes "sys_ok c s" and "ok_size sz" and "l1_data_sram_zalloc c sz s cur mem = (a, s', mem')" and "a \<noteq> 0"
  shows "(\<forall>x. mem' x = (if unat a \<le> unat x \<and> unat x < unat a + unat sz then 0 else mem x)) \<and>
    (\<forall>(l, h)\<in>l1_blocks s. \<forall>x. l \<le> unat x \<longrightarrow> unat x < h \<longrightarrow> mem' x = mem x)"
proof -
  have r: "l1_data_sram_alloc c sz s cur = (a, s')" "mem' = memset a 0 sz mem"
    using assms(3,4) by (auto simp: l1_data_sram_zalloc_def split: prod.splits if_splits)
  obtain k where k: "balloc k c sz s cur = (a, s')"
    using l1_data_sram_alloc_cases[OF r(1) assms(4,1,2)] .
  have m: "mem' x = (if unat a \<le> unat x \<and> unat x < unat a + unat sz then 0 else mem x)" for x
    unfolding r(2) by (rule memset_range[OF balloc_top[OF k assms(4,1,2)]])
  show ?thesis using balloc_disjoint[OF k assms(4,1,2)] by (force simp: m)
qed

end
