(* ===== verification/Byte_Bus.thy ===== *)
theory Byte_Bus
  imports Prelude
begin

text \<open>
  The interface between the line-card driver (\<open>src/src/wcfxs.c\<close>, \<open>src/src/fx.c\<close>)
  and the two byte-wide bus drivers below it (\<open>src/src/bfsi.c\<close> when
  \<open>CONFIG_4FX_SPI_INTERFACE\<close> is set, \<open>src/src/sport_interface.c\<close> otherwise).  The
  client sends bytes to two chips, \<open>NCSA\<close> (the data port of the selected line
  card) and \<open>NCSB\<close> (the CPLD that selects the card), reads bytes from \<open>NCSA\<close>, and
  pulses the reset line.  \<open>replay\<close> performs a sequence of such requests on a
  provider; the locale says what a provider promises, and its lemma that the
  chips then see exactly the requests of the client, in order.
\<close>

datatype chip = NCSA | NCSB

datatype bev = Tx chip u8 | Rx | Bus_reset nat

fun replay ::
    "(chip \<Rightarrow> u8 \<Rightarrow> 's \<Rightarrow> 's option) \<Rightarrow> ('s \<Rightarrow> (u8 \<times> 's) option) \<Rightarrow> (nat \<Rightarrow> 's \<Rightarrow> 's) \<Rightarrow>
     bev list \<Rightarrow> 's \<Rightarrow> (u8 list \<times> 's) option" where
  "replay tx rx rst [] s = Some ([], s)"
| "replay tx rx rst (Tx c b # es) s =
     (case tx c b s of None \<Rightarrow> None | Some s \<Rightarrow> replay tx rx rst es s)"
| "replay tx rx rst (Rx # es) s =
     (case rx s of None \<Rightarrow> None
      | Some (v, s) \<Rightarrow> map_option (\<lambda>(vs, s). (v # vs, s)) (replay tx rx rst es s))"
| "replay tx rx rst (Bus_reset n # es) s = replay tx rx rst es (rst n s)"

text \<open>The bytes on the wire for a sequence of requests: a read clocks out \<open>0xff\<close>.\<close>

fun wire :: "bev \<Rightarrow> (chip \<times> u8) list" where
  "wire (Tx c b) = [(c, b)]"
| "wire Rx = [(NCSA, 0xff)]"
| "wire (Bus_reset n) = []"

definition n_reads :: "bev list \<Rightarrow> nat" where
  "n_reads es = length (filter (\<lambda>e. e = Rx) es)"

lemma n_reads_simps [simp]:
  "n_reads [] = 0" "n_reads (Tx c b # es) = n_reads es" "n_reads (Rx # es) = Suc (n_reads es)"
  "n_reads (Bus_reset n # es) = n_reads es"
  by (simp_all add: n_reads_def)

locale byte_bus =
  fixes tx :: "chip \<Rightarrow> u8 \<Rightarrow> 's \<Rightarrow> 's option"
    and rx :: "'s \<Rightarrow> (u8 \<times> 's) option"
    and rst :: "nat \<Rightarrow> 's \<Rightarrow> 's"
    and ok :: "'s \<Rightarrow> bool"
    and seen :: "'s \<Rightarrow> 'e list"
    and enc :: "chip \<times> u8 \<Rightarrow> 'e"
  assumes tx_law: "ok s \<Longrightarrow> \<exists>s'. tx c b s = Some s' \<and> ok s' \<and> seen s' = seen s @ [enc (c, b)]"
    and rx_law: "ok s \<Longrightarrow> \<exists>v s'. rx s = Some (v, s') \<and> ok s' \<and> seen s' = seen s @ [enc (NCSA, 0xff)]"
    and rst_law: "ok s \<Longrightarrow> ok (rst n s) \<and> seen (rst n s) = seen s"
begin

text \<open>Whatever the client asks for is done, and every chip sees just the client's bytes.\<close>

lemma replay_seen:
  "ok s \<Longrightarrow>
   \<exists>vs s'. replay tx rx rst es s = Some (vs, s') \<and> ok s' \<and> length vs = n_reads es \<and>
     seen s' = seen s @ map enc (concat (map wire es))"
proof (induction es arbitrary: s)
  case (Cons e es)
  show ?case
  proof (cases e)
    case (Tx c b)
    obtain s1 where "tx c b s = Some s1" "ok s1" "seen s1 = seen s @ [enc (c, b)]"
      using tx_law[OF Cons.prems] by blast
    then show ?thesis using Cons.IH[of s1] Tx by auto
  next
    case Rx
    obtain v s1 where "rx s = Some (v, s1)" "ok s1" "seen s1 = seen s @ [enc (NCSA, 0xff)]"
      using rx_law[OF Cons.prems] by blast
    then show ?thesis using Cons.IH[of s1] Rx by auto
  next
    case (Bus_reset n)
    then show ?thesis using Cons.IH[of "rst n s"] rst_law[OF Cons.prems, of n] by auto
  qed
qed simp

end

end
