(* ===== verification/Bfsi_Spi.thy ===== *)
theory Bfsi_Spi
  imports Byte_Bus
begin

text \<open>
  The SPI half of \<open>src/src/bfsi.c\<close>: single-byte transfers with a software
  controlled chip select, SPI and pin-mux set-up, and the reset line.

  The hardware is not code of the repository, so it is a parameter: \<open>dev\<close>
  gives the value a read of a memory-mapped register returns, as a function of
  all register traffic so far.  A driver function is a function on that traffic
  (the trace); what it does to the hardware is the events it appends.  Constants
  of the Blackfin headers are fields of a record.  The poll loops may never end
  on dead hardware: they take the number of polls allowed and return \<open>None\<close>
  when it runs out, and the theorems say when they do return.
\<close>

section \<open>Registers, traffic, constants\<close>

datatype mmr =
    SPI_CTRL | SPI_FLAG | SPI_STAT | SPI_TDBR | SPI_RDBR | SPI_BAUD | SPI_SHADOW
  | FIO_DIR | FIO_FLAG_C | FIO_FLAG_S
  | PORTF_FER | PORTG_FER | PORT_MUX | PORTFIO_DIR | PORTFIO_CLEAR | PORTFIO_SET
  | SPORT_RCLKDIV nat | SPORT_RFSDIV nat | SPORT_TCR1 nat | SPORT_TCR2 nat
  | SPORT_RCR1 nat | SPORT_RCR2 nat | SPORT_MTCS0 nat | SPORT_MRCS0 nat
  | SPORT_MCMC1 nat | SPORT_MCMC2 nat | SPORT_TCLKDIV nat | SPORT_TFSDIV nat
  | SPORT_STAT nat | SPORT_TX16 nat | SPORT_RX16 nat
  | DMA_PERIPHERAL_MAP nat | DMA_IRQ_STATUS nat | DMA_START_ADDR nat | DMA_X_COUNT nat
  | DMA_X_MODIFY nat | DMA_Y_COUNT nat | DMA_Y_MODIFY nat | DMA_CONFIG nat | DMA_CURR_ADDR nat
  | SIC_IMASK | CYCLES

datatype ev = W mmr u32 | R mmr | Udelay nat | Ndelay nat | Kcall string "u32 list"

type_synonym trace = "ev list"
type_synonym device = "trace \<Rightarrow> mmr \<Rightarrow> u32"

record bfin_hdr =
  RXS :: u16
  SPE :: u16
  MSTR :: u16
  CPOL :: u16
  CPHA :: u16
  SZ :: u16
  PJSE_SPI :: u16
  PFS4E_SPI :: u16
  PFS5E_SPI :: u16
  PFS6E_SPI :: u16
  PJCE_SPI :: u16
  PGTE :: u16
  PGRE :: u16
  PGSE :: u16
  IRFS :: u16
  IRCLK :: u16
  TSPEN :: u16
  RSPEN :: u16
  DMAEN :: u16
  WNR :: u16
  WDSIZE_8 :: u16
  DI_EN :: u16
  DI_SEL :: u16
  DMA2D :: u16

text \<open>Builds for the BF532 behave as for the BF533; on the BF537 \<open>BFSI_SPORT1\<close> is set.\<close>

datatype board = BF533 | BF537

definition wr :: "mmr \<Rightarrow> u32 \<Rightarrow> trace \<Rightarrow> trace" where
  "wr r v t = t @ [W r v]"

definition wr16 :: "mmr \<Rightarrow> u16 \<Rightarrow> trace \<Rightarrow> trace" where
  "wr16 r v t = t @ [W r (ucast v)]"

definition rd :: "device \<Rightarrow> mmr \<Rightarrow> trace \<Rightarrow> u32 \<times> trace" where
  "rd dev r t = (dev t r, t @ [R r])"

text \<open>\<open>write_X(read_X() | v)\<close> and \<open>write_X(read_X() & v)\<close> on 16-bit registers.\<close>

definition wr_or :: "device \<Rightarrow> mmr \<Rightarrow> u16 \<Rightarrow> trace \<Rightarrow> trace" where
  "wr_or dev r v t = (case rd dev r t of (x, t) \<Rightarrow> wr16 r (ucast x OR v) t)"

definition wr_and :: "device \<Rightarrow> mmr \<Rightarrow> u16 \<Rightarrow> trace \<Rightarrow> trace" where
  "wr_and dev r v t = (case rd dev r t of (x, t) \<Rightarrow> wr16 r (ucast x AND v) t)"

definition udelay :: "nat \<Rightarrow> trace \<Rightarrow> trace" where
  "udelay n t = t @ [Udelay n]"

definition seq :: "(trace \<Rightarrow> trace) list \<Rightarrow> trace \<Rightarrow> trace" where
  "seq fs t = fold (\<lambda>f. f) fs t"

lemma seq_Nil [simp]: "seq [] t = t"
  by (simp add: seq_def)

lemma seq_Cons [simp]: "seq (f # fs) t = seq fs (f t)"
  by (simp add: seq_def)

lemma seq_append [simp]: "seq (fs @ gs) t = seq gs (seq fs t)"
  by (simp add: seq_def)

section \<open>Byte transfers\<close>

fun wait_RXS :: "bfin_hdr \<Rightarrow> device \<Rightarrow> nat \<Rightarrow> trace \<Rightarrow> trace option" where
  "wait_RXS h dev 0 t = None"
| "wait_RXS h dev (Suc n) t =
     (case rd dev SPI_STAT t of (x, t) \<Rightarrow>
        if ucast x AND RXS h \<noteq> 0 then Some t else wait_RXS h dev n t)"

text \<open>\<open>1 << chip_select\<close> is an \<open>int\<close>, written to a 16-bit register.\<close>

definition bit16 :: "nat \<Rightarrow> u16" where
  "bit16 i = push_bit i 1"

definition bfsi_spi_write_8_bits ::
    "bfin_hdr \<Rightarrow> device \<Rightarrow> nat \<Rightarrow> nat \<Rightarrow> u8 \<Rightarrow> trace \<Rightarrow> trace option" where
  "bfsi_spi_write_8_bits h dev fuel chip_select bits t =
     (let (flag, t) = (if chip_select < 8 then (case rd dev SPI_FLAG t of (x, t) \<Rightarrow> (ucast x, t)) else (0, t));
          flag_enable = flag AND NOT (bit16 (chip_select + 8));
          t = (if chip_select < 8 then wr16 SPI_FLAG flag_enable t else wr16 FIO_FLAG_C (bit16 chip_select) t);
          t = wr16 SPI_TDBR (ucast bits) t;
          (_, t) = rd dev SPI_RDBR t
      in case wait_RXS h dev fuel t of
           None \<Rightarrow> None
         | Some t \<Rightarrow>
             Some (if chip_select < 8 then wr16 SPI_FLAG flag t else wr16 FIO_FLAG_S (bit16 chip_select) t))"

text \<open>For \<open>chip_select >= 8\<close> the local \<open>flag_enable\<close> is written to the FLAG register
  without ever having been assigned: \<open>junk\<close> is whatever its stack slot holds.\<close>

definition bfsi_spi_read_8_bits ::
    "bfin_hdr \<Rightarrow> device \<Rightarrow> nat \<Rightarrow> u16 \<Rightarrow> nat \<Rightarrow> trace \<Rightarrow> (u8 \<times> trace) option" where
  "bfsi_spi_read_8_bits h dev fuel junk chip_select t =
     (let (flag, t) = (if chip_select < 8 then (case rd dev SPI_FLAG t of (x, t) \<Rightarrow> (ucast x, t)) else (0, t));
          flag_enable = (if chip_select < 8 then flag AND NOT (bit16 (chip_select + 8)) else junk);
          t = (if chip_select < 8 then t else wr16 FIO_FLAG_C (bit16 chip_select) t);
          t = wr16 SPI_FLAG flag_enable t;
          t = wr16 SPI_TDBR 0xff t;
          (_, t) = rd dev SPI_RDBR t
      in case wait_RXS h dev fuel t of
           None \<Rightarrow> None
         | Some t \<Rightarrow>
             let (ret, t) = rd dev SPI_SHADOW t
             in Some (ucast (ucast ret :: u16),
                  if chip_select < 8 then wr16 SPI_FLAG flag t else wr16 FIO_FLAG_S (bit16 chip_select) t))"

section \<open>Set-up and reset\<close>

text \<open>What the BF537 pin multiplexer needs for one chip select.\<close>

definition cs_mux :: "bfin_hdr \<Rightarrow> device \<Rightarrow> nat \<Rightarrow> trace \<Rightarrow> trace" where
  "cs_mux h dev cs =
     (if cs = 1 then wr_or dev PORTF_FER 0x3c00
      else if cs = 2 \<or> cs = 3 then seq [wr_or dev PORT_MUX (PJSE_SPI h), wr_or dev PORTF_FER 0x3800]
      else if cs = 4 then seq [wr_or dev PORT_MUX (PFS4E_SPI h), wr_or dev PORTF_FER 0x3840]
      else if cs = 5 then seq [wr_or dev PORT_MUX (PFS5E_SPI h), wr_or dev PORTF_FER 0x3820]
      else if cs = 6 then seq [wr_or dev PORT_MUX (PFS6E_SPI h), wr_or dev PORTF_FER 0x3810]
      else if cs = 7 then seq [wr_or dev PORT_MUX (PJCE_SPI h), wr_or dev PORTF_FER 0x3800]
      else (\<lambda>t. t))"

text \<open>The static \<open>chip_select_mask\<close> accumulates over calls: it is passed in and returned.\<close>

definition bfsi_spi_init ::
    "bfin_hdr \<Rightarrow> board \<Rightarrow> device \<Rightarrow> u16 \<Rightarrow> u16 \<Rightarrow> u16 \<Rightarrow> trace \<Rightarrow> u16 \<times> trace" where
  "bfsi_spi_init h b dev baud new_chip_select_mask chip_select_mask t =
     (let chip_select_mask = chip_select_mask OR new_chip_select_mask;
          flag = 0xff00 OR (chip_select_mask AND 0xff);
          t = (if chip_select_mask AND 0xff00 \<noteq> 0 then wr_or dev FIO_DIR (chip_select_mask AND 0xff00) t else t);
          t = (if b = BF537
               then seq (map (\<lambda>cs. if chip_select_mask AND bit16 cs \<noteq> 0 then cs_mux h dev cs else (\<lambda>t. t)) [0..<8]) t
               else t);
          ctl_reg = SPE h OR MSTR h OR CPOL h OR CPHA h OR SZ h
      in (chip_select_mask,
          seq [wr16 SPI_FLAG flag, wr16 SPI_BAUD baud, wr16 SPI_CTRL ctl_reg] t))"

definition portf_reset :: "device \<Rightarrow> u16 \<Rightarrow> nat \<Rightarrow> trace \<Rightarrow> trace" where
  "portf_reset dev fer_mask pf =
     seq [wr_and dev PORTF_FER fer_mask, wr_or dev PORTFIO_DIR (bit16 pf),
          wr16 PORTFIO_CLEAR (bit16 pf), udelay 100, wr16 PORTFIO_SET (bit16 pf)]"

definition bfsi_reset :: "board \<Rightarrow> device \<Rightarrow> nat \<Rightarrow> trace \<Rightarrow> trace" where
  "bfsi_reset b dev reset_bit t =
     udelay 1000
       (case b of
          BF533 \<Rightarrow> seq [wr_or dev FIO_DIR (bit16 reset_bit), wr16 FIO_FLAG_C (bit16 reset_bit), udelay 100,
                        wr16 FIO_FLAG_S (bit16 reset_bit)] t
        | BF537 \<Rightarrow>
            if reset_bit = 1 then portf_reset dev 0xFBFF 10 t
            else if reset_bit = 4 then portf_reset dev 0xFFBF 6 t
            else if reset_bit = 5 then portf_reset dev 0xFFDF 5 t
            else if reset_bit = 6 then portf_reset dev 0xFFEF 4 t
            else t)"

section \<open>What the chips see\<close>

text \<open>
  The lines of the SPI bus as the traffic drives them: the FLAG register (low
  byte: output enables, high byte: levels of SPISEL0..7), the levels of the GPIO
  flags (driven through FIO_FLAG on the BF533 and PORTFIO on the BF537), and the transmit register.  A transfer starts when RDBR is read, and it
  is seen by every chip whose select line is low at that moment.
\<close>

record spi_lines =
  lflag :: u16
  lpf :: u16
  ltx :: u16

fun line_step :: "ev \<Rightarrow> spi_lines \<Rightarrow> spi_lines" where
  "line_step (W SPI_FLAG v) l = l\<lparr>lflag := ucast v\<rparr>"
| "line_step (W FIO_FLAG_C v) l = l\<lparr>lpf := lpf l AND NOT (ucast v)\<rparr>"
| "line_step (W FIO_FLAG_S v) l = l\<lparr>lpf := lpf l OR ucast v\<rparr>"
| "line_step (W PORTFIO_CLEAR v) l = l\<lparr>lpf := lpf l AND NOT (ucast v)\<rparr>"
| "line_step (W PORTFIO_SET v) l = l\<lparr>lpf := lpf l OR ucast v\<rparr>"
| "line_step (W SPI_TDBR v) l = l\<lparr>ltx := ucast v\<rparr>"
| "line_step _ l = l"

definition lines_of :: "spi_lines \<Rightarrow> trace \<Rightarrow> spi_lines" where
  "lines_of l t = fold line_step t l"

definition selected :: "spi_lines \<Rightarrow> nat \<Rightarrow> bool" where
  "selected l cs = (if cs < 8 then bit (lflag l) cs \<and> \<not> bit (lflag l) (cs + 8) else \<not> bit (lpf l) cs)"

text \<open>The transfers of a trace: the chips (among those wired, \<open>m\<close>) that listen, and the word.\<close>

fun xfers :: "nat set \<Rightarrow> spi_lines \<Rightarrow> trace \<Rightarrow> (nat set \<times> u16) list" where
  "xfers m l [] = []"
| "xfers m l (e # t) = (if e = R SPI_RDBR then [({cs \<in> m. selected l cs}, ltx l)] else []) @ xfers m (line_step e l) t"

text \<open>Documented behaviour of the SPI port the driver relies on: the FLAG register reads
  back what was written, and every transfer completes within \<open>fuel\<close> polls.\<close>

definition flag_readback :: "device \<Rightarrow> spi_lines \<Rightarrow> bool" where
  "flag_readback dev l \<longleftrightarrow> (\<forall>t. dev t SPI_FLAG = ucast (lflag (lines_of l t)))"

definition responsive :: "bfin_hdr \<Rightarrow> device \<Rightarrow> nat \<Rightarrow> bool" where
  "responsive h dev fuel \<longleftrightarrow>
     (\<forall>t. \<exists>n<fuel. ucast (dev (t @ replicate n (R SPI_STAT)) SPI_STAT) AND RXS h \<noteq> 0)"

text \<open>No chip is selected, and the wired chips below 8 have their SPISEL output enabled.\<close>

definition bus_idle :: "nat set \<Rightarrow> spi_lines \<Rightarrow> bool" where
  "bus_idle m l \<longleftrightarrow> m \<subseteq> {..<16} \<and> (\<forall>cs\<in>m. \<not> selected l cs \<and> (cs < 8 \<longrightarrow> bit (lflag l) cs))"

lemma lines_of_simps [hw]:
  "lines_of l [] = l" "lines_of l (t @ t') = lines_of (lines_of l t) t'"
  "lines_of l (e # t) = lines_of (line_step e l) t"
  by (simp_all add: lines_of_def)

lemma xfers_append [hw]: "xfers m l (t @ t') = xfers m l t @ xfers m (lines_of l t) t'"
  by (induction t arbitrary: l) (simp_all add: hw)

lemma lines_of_polls [hw]: "lines_of l (replicate n (R SPI_STAT)) = l"
  by (induction n) (simp_all add: hw)

lemma xfers_polls [hw]: "xfers m l (replicate n (R SPI_STAT)) = []"
  by (induction n) (simp_all add: hw)

lemma wait_RXS_ready:
  "\<exists>n<fuel. ucast (dev (t @ replicate n (R SPI_STAT)) SPI_STAT) AND RXS h \<noteq> 0 \<Longrightarrow>
   \<exists>n. wait_RXS h dev fuel t = Some (t @ replicate n (R SPI_STAT))"
proof (induction fuel arbitrary: t)
  case (Suc fuel)
  show ?case
  proof (cases "ucast (dev t SPI_STAT) AND RXS h = 0")
    case False
    then show ?thesis by (auto simp: rd_def intro!: exI[of _ 1])
  next
    case True
    from Suc.prems obtain n where n: "n < Suc fuel" "ucast (dev (t @ replicate n (R SPI_STAT)) SPI_STAT) AND RXS h \<noteq> 0"
      by blast
    with True obtain k where k: "n = Suc k" by (cases n) auto
    obtain i where "wait_RXS h dev fuel (t @ [R SPI_STAT]) = Some ((t @ [R SPI_STAT]) @ replicate i (R SPI_STAT))"
      using Suc.IH[of "t @ [R SPI_STAT]"] n k by auto
    then show ?thesis using True by (auto simp: rd_def intro!: exI[of _ "Suc i"])
  qed
qed simp

lemma responsive_wait:
  assumes "responsive h dev fuel"
  obtains n where "wait_RXS h dev fuel t = Some (t @ replicate n (R SPI_STAT))"
  using assms wait_RXS_ready[of fuel dev t h] unfolding responsive_def by blast

lemma bit_bit16 [simp]: "bit (bit16 i) j \<longleftrightarrow> i = j \<and> j < 16"
  by (auto simp: bit16_def bit_simps)

lemma ucast16 [simp]: "ucast (ucast (x :: u16) :: u32) = x"
  by (simp add: unsigned_ucast_eq take_bit_word_eq_self)

lemma bus_idleD:
  assumes "bus_idle m l" "c \<in> m"
  shows "c < 16" "c < 8 \<Longrightarrow> bit (lflag l) c \<and> bit (lflag l) (c + 8)" "8 \<le> c \<Longrightarrow> bit (lpf l) c"
  using assms by (auto simp: bus_idle_def selected_def split: if_splits)

lemma select_low:
  assumes "bus_idle m l" "cs \<in> m" "cs < 8"
  shows "{c \<in> m. selected (l\<lparr>lflag := lflag l AND NOT (bit16 (cs + 8)), ltx := x\<rparr>) c} = {cs}"
proof -
  have "selected (l\<lparr>lflag := lflag l AND NOT (bit16 (cs + 8)), ltx := x\<rparr>) c \<longleftrightarrow> c = cs" if "c \<in> m" for c
    using bus_idleD[OF assms(1) that] bus_idleD[OF assms(1,2)] assms(3)
    by (cases "c < 8") (auto simp: selected_def bit_simps)
  then show ?thesis using assms(2) by auto
qed

lemma select_high:
  assumes "bus_idle m l" "cs \<in> m" "8 \<le> cs"
  shows "{c \<in> m. selected (l\<lparr>lpf := lpf l AND NOT (bit16 cs), ltx := x\<rparr>) c} = {cs}"
proof -
  have "selected (l\<lparr>lpf := lpf l AND NOT (bit16 cs), ltx := x\<rparr>) c \<longleftrightarrow> c = cs" if "c \<in> m" for c
    using bus_idleD[OF assms(1) that] bus_idleD[OF assms(1,2)] assms(3)
    by (cases "c < 8") (auto simp: selected_def bit_simps)
  then show ?thesis using assms(2) by auto
qed

lemma restore_high:
  assumes "bus_idle m l" "cs \<in> m" "8 \<le> cs"
  shows "(lpf l AND NOT (bit16 cs)) OR bit16 cs = lpf l"
proof (rule bit_word_eqI)
  fix n assume "n < LENGTH(16)"
  moreover have "bit (lpf l) cs" "cs < 16" using bus_idleD[OF assms(1,2)] assms(3) by auto
  ultimately show "bit ((lpf l AND NOT (bit16 cs)) OR bit16 cs) n = bit (lpf l) n"
    by (auto simp: bit_simps)
qed

text \<open>The events of one transfer, with \<open>n\<close> polls, on each of the two kinds of select line.\<close>

definition low_xfer :: "u16 \<Rightarrow> nat \<Rightarrow> u16 \<Rightarrow> nat \<Rightarrow> trace \<Rightarrow> trace" where
  "low_xfer f cs b n fin = [R SPI_FLAG, W SPI_FLAG (ucast (f AND NOT (bit16 (cs + 8)))), W SPI_TDBR (ucast b), R SPI_RDBR]
     @ replicate n (R SPI_STAT) @ fin @ [W SPI_FLAG (ucast f)]"

definition high_xfer :: "nat \<Rightarrow> trace \<Rightarrow> u16 \<Rightarrow> nat \<Rightarrow> trace \<Rightarrow> trace" where
  "high_xfer cs mid b n fin = [W FIO_FLAG_C (ucast (bit16 cs))] @ mid @ [W SPI_TDBR (ucast b), R SPI_RDBR]
     @ replicate n (R SPI_STAT) @ fin @ [W FIO_FLAG_S (ucast (bit16 cs))]"

lemma low_xfer_seen:
  assumes "bus_idle m l" "cs \<in> m" "cs < 8" "fin = [] \<or> fin = [R SPI_SHADOW]"
  shows "xfers m l (low_xfer (lflag l) cs b n fin) = [({cs}, b)]"
    "lines_of l (low_xfer (lflag l) cs b n fin) = l\<lparr>ltx := b\<rparr>"
  using assms(4) select_low[OF assms(1-3), of b] by (auto simp: low_xfer_def hw)

lemma high_xfer_seen:
  assumes "bus_idle m l" "cs \<in> m" "8 \<le> cs"
  shows "xfers m l (high_xfer cs [] b n []) = [({cs}, b)]"
    "lines_of l (high_xfer cs [] b n []) = l\<lparr>ltx := b\<rparr>"
  using select_high[OF assms, of b] restore_high[OF assms] by (auto simp: high_xfer_def hw)

lemma bus_idle_ltx [simp]: "bus_idle m (l\<lparr>ltx := b\<rparr>) = bus_idle m l"
  by (simp add: bus_idle_def selected_def)

lemma readback_flag: "flag_readback dev l \<Longrightarrow> ucast (dev t SPI_FLAG) = lflag (lines_of l t)"
  by (simp add: flag_readback_def)

lemma spi_write_low:
  assumes "responsive h dev fuel" "flag_readback dev l" "cs < 8"
  shows "\<exists>n. bfsi_spi_write_8_bits h dev fuel cs b t = Some (t @ low_xfer (lflag (lines_of l t)) cs (ucast b) n [])"
  by (rule responsive_wait[OF assms(1), of "t @ [R SPI_FLAG, W SPI_FLAG (ucast (lflag (lines_of l t) AND NOT (bit16 (cs + 8)))),
      W SPI_TDBR (ucast (ucast b :: u16)), R SPI_RDBR]"])
    (use assms(3) readback_flag[OF assms(2), of t] in
      \<open>auto simp: bfsi_spi_write_8_bits_def rd_def wr16_def low_xfer_def\<close>)

lemma spi_write_high:
  assumes "responsive h dev fuel" "8 \<le> cs"
  shows "\<exists>n. bfsi_spi_write_8_bits h dev fuel cs b t = Some (t @ high_xfer cs [] (ucast b) n [])"
  by (rule responsive_wait[OF assms(1), of "t @ [W FIO_FLAG_C (ucast (bit16 cs)), W SPI_TDBR (ucast (ucast b :: u16)), R SPI_RDBR]"])
    (use assms(2) in \<open>auto simp: bfsi_spi_write_8_bits_def rd_def wr16_def high_xfer_def\<close>)

lemma spi_read_low:
  assumes "responsive h dev fuel" "flag_readback dev l" "cs < 8"
  shows "\<exists>n. bfsi_spi_read_8_bits h dev fuel junk cs t =
    Some (ucast (ucast (dev (t @ butlast (butlast (low_xfer (lflag (lines_of l t)) cs 0xff n [R SPI_SHADOW]))) SPI_SHADOW) :: u16),
      t @ low_xfer (lflag (lines_of l t)) cs 0xff n [R SPI_SHADOW])"
  by (rule responsive_wait[OF assms(1), of "t @ [R SPI_FLAG, W SPI_FLAG (ucast (lflag (lines_of l t) AND NOT (bit16 (cs + 8)))),
      W SPI_TDBR (ucast (0xff :: u16)), R SPI_RDBR]"])
    (use assms(3) readback_flag[OF assms(2), of t] in
      \<open>auto simp: bfsi_spi_read_8_bits_def rd_def wr16_def low_xfer_def butlast_append\<close>)

lemma spi_read_high:
  assumes "responsive h dev fuel" "8 \<le> cs"
  shows "\<exists>n v. bfsi_spi_read_8_bits h dev fuel junk cs t =
    Some (v, t @ high_xfer cs [W SPI_FLAG (ucast junk)] 0xff n [R SPI_SHADOW])"
  by (rule responsive_wait[OF assms(1), of "t @ [W FIO_FLAG_C (ucast (bit16 cs)), W SPI_FLAG (ucast junk), W SPI_TDBR (ucast (0xff :: u16)), R SPI_RDBR]"])
    (use assms(2) in \<open>auto simp: bfsi_spi_read_8_bits_def rd_def wr16_def high_xfer_def\<close>)

text \<open>The reset pulse leaves the select lines alone.\<close>

lemma bus_idle_pulse:
  assumes "bus_idle m l"
  shows "bus_idle m (l\<lparr>lpf := (lpf l AND NOT v) OR v\<rparr>)"
proof -
  have "\<not> selected (l\<lparr>lpf := (lpf l AND NOT v) OR v\<rparr>) c" if "c \<in> m" for c
    using bus_idleD[OF assms that] by (cases "c < 8") (auto simp: selected_def bit_simps)
  then show ?thesis using assms by (simp add: bus_idle_def)
qed

lemma bfsi_reset_seen:
  assumes "bus_idle m (lines_of l t)"
  shows "bus_idle m (lines_of l (bfsi_reset b dev n t)) \<and> xfers m l (bfsi_reset b dev n t) = xfers m l t"
  using assms bus_idle_pulse[OF assms]
  by (cases b) (simp_all add: bfsi_reset_def portf_reset_def wr_or_def wr_and_def rd_def wr16_def udelay_def hw)

section \<open>The SPI driver as a byte bus\<close>

text \<open>Chip select numbers of the SPI build: \<open>SPI_NCSA = 3\<close>, \<open>SPI_NCSB = 12\<close>.\<close>

fun spi_num :: "chip \<Rightarrow> nat" where
  "spi_num NCSA = 3"
| "spi_num NCSB = 12"

definition spi_ok :: "bfin_hdr \<Rightarrow> device \<Rightarrow> nat \<Rightarrow> spi_lines \<Rightarrow> trace \<Rightarrow> bool" where
  "spi_ok h dev fuel l t \<longleftrightarrow>
     responsive h dev fuel \<and> flag_readback dev l \<and> bus_idle {3, 12} (lines_of l t)"

lemma spi_write_seen:
  assumes "responsive h dev fuel" "flag_readback dev l" "bus_idle m (lines_of l t)" "cs \<in> m"
  shows "\<exists>t'. bfsi_spi_write_8_bits h dev fuel cs b t = Some (t @ t') \<and>
    xfers m (lines_of l t) t' = [({cs}, ucast b)] \<and>
    lines_of l (t @ t') = (lines_of l t)\<lparr>ltx := ucast b\<rparr>"
proof (cases "cs < 8")
  case True
  then show ?thesis
    using spi_write_low[OF assms(1,2) True, of b t] low_xfer_seen[OF assms(3,4) True] by (auto simp: hw)
next
  case False
  then show ?thesis
    using spi_write_high[OF assms(1), of cs b t] high_xfer_seen[OF assms(3,4)] by (auto simp: hw)
qed

lemma spi_read_seen:
  assumes "responsive h dev fuel" "flag_readback dev l" "bus_idle m (lines_of l t)" "cs \<in> m" "cs < 8"
  shows "\<exists>t' u v. bfsi_spi_read_8_bits h dev fuel junk cs t = Some (v, t @ t') \<and>
    t' = u @ [R SPI_SHADOW, W SPI_FLAG (ucast (lflag (lines_of l t)))] \<and> v = ucast (dev (t @ u) SPI_SHADOW) \<and>
    xfers m (lines_of l t) t' = [({cs}, 0xff)] \<and> lines_of l (t @ t') = (lines_of l t)\<lparr>ltx := 0xff\<rparr>"
proof -
  obtain n where n: "bfsi_spi_read_8_bits h dev fuel junk cs t =
      Some (ucast (ucast (dev (t @ butlast (butlast (low_xfer (lflag (lines_of l t)) cs 0xff n [R SPI_SHADOW]))) SPI_SHADOW) :: u16),
        t @ low_xfer (lflag (lines_of l t)) cs 0xff n [R SPI_SHADOW])"
    using spi_read_low[OF assms(1,2,5)] by blast
  let ?t' = "low_xfer (lflag (lines_of l t)) cs 0xff n [R SPI_SHADOW]"
  have "ucast (ucast x :: u16) = (ucast x :: u8)" for x :: u32
    by (rule bit_word_eqI) (simp add: bit_simps)
  moreover have "?t' = butlast (butlast ?t') @ [R SPI_SHADOW, W SPI_FLAG (ucast (lflag (lines_of l t)))]"
    by (simp add: low_xfer_def butlast_append)
  ultimately show ?thesis using n low_xfer_seen[OF assms(3-5), of "[R SPI_SHADOW]" "0xff" n] by (auto simp: hw)
qed

interpretation spi: byte_bus
  "\<lambda>c. bfsi_spi_write_8_bits h dev fuel (spi_num c)" "bfsi_spi_read_8_bits h dev fuel junk 3"
  "bfsi_reset b dev" "spi_ok h dev fuel l" "xfers {3, 12} l" "\<lambda>(c, b). ({spi_num c}, ucast b)"
  for h dev fuel junk b l
proof
  fix t c x n
  assume ok: "spi_ok h dev fuel l t"
  then have a: "responsive h dev fuel" "flag_readback dev l" "bus_idle {3, 12} (lines_of l t)"
    by (simp_all add: spi_ok_def)
  show "\<exists>t'. bfsi_spi_write_8_bits h dev fuel (spi_num c) x t = Some t' \<and> spi_ok h dev fuel l t' \<and>
      xfers {3, 12} l t' = xfers {3, 12} l t @ [case (c, x) of (c, b) \<Rightarrow> ({spi_num c}, ucast b)]"
    using spi_write_seen[OF a, of "spi_num c" x] a by (cases c) (auto simp: spi_ok_def hw)
  show "\<exists>v t'. bfsi_spi_read_8_bits h dev fuel junk 3 t = Some (v, t') \<and> spi_ok h dev fuel l t' \<and>
      xfers {3, 12} l t' = xfers {3, 12} l t @ [case (NCSA, 0xff :: u8) of (c, b) \<Rightarrow> ({spi_num c}, ucast b)]"
    using spi_read_seen[OF a, of 3 junk] a by (auto simp: spi_ok_def hw)
  show "spi_ok h dev fuel l (bfsi_reset b dev n t) \<and> xfers {3, 12} l (bfsi_reset b dev n t) = xfers {3, 12} l t"
    using bfsi_reset_seen[OF a(3)] a by (simp add: spi_ok_def)
qed

section \<open>Properties\<close>

text \<open>An SPI port that answers at once, for the examples.\<close>

definition demo_hdr :: bfin_hdr where
  "demo_hdr = \<lparr>RXS = 0x20, SPE = 0x4000, MSTR = 0x1000, CPOL = 0x800, CPHA = 0x400, SZ = 4,
     PJSE_SPI = 1, PFS4E_SPI = 0x40, PFS5E_SPI = 0x20, PFS6E_SPI = 0x10, PJCE_SPI = 2, PGTE = 0x800,
     PGRE = 0x400, PGSE = 0x200, IRFS = 0x200, IRCLK = 2, TSPEN = 1, RSPEN = 1, DMAEN = 1, WNR = 2,
     WDSIZE_8 = 0, DI_EN = 0x80, DI_SEL = 0x40, DMA2D = 0x10\<rparr>"

definition demo_lines :: spi_lines where
  "demo_lines = \<lparr>lflag = 0xff08, lpf = 0xf000, ltx = 0\<rparr>"

definition demo_dev :: device where
  "demo_dev t r = (if r = SPI_FLAG then ucast (lflag (lines_of demo_lines t))
     else if r = SPI_STAT then 0x20 else if r = SPI_SHADOW then 0x103 else 0)"

lemma demo_spi: "responsive demo_hdr demo_dev 1" "flag_readback demo_dev demo_lines"
    "bus_idle {3, 12} demo_lines"
proof -
  show "responsive demo_hdr demo_dev 1" by (simp add: responsive_def demo_hdr_def demo_dev_def)
  show "flag_readback demo_dev demo_lines" by (simp add: flag_readback_def demo_dev_def)
  have "\<not> selected demo_lines 3" "\<not> selected demo_lines 12" "bit (lflag demo_lines) 3" by code_simp+
  then show "bus_idle {3, 12} demo_lines" by (simp add: bus_idle_def)
qed

text \<open>
  On a GPIO select (8 to 15) \<open>bfsi_spi_read_8_bits\<close> writes its unassigned local
  \<open>flag_enable\<close> to the FLAG register and never restores it: when it returns, FLAG
  holds whatever that stack slot held, so the levels of all hardware selects are
  lost.
\<close>

lemma spi_read_gpio_clobbers_flag:
  assumes "responsive h dev fuel" and "8 \<le> cs"
  shows "\<exists>v t'. bfsi_spi_read_8_bits h dev fuel junk cs t = Some (v, t') \<and> lflag (lines_of l t') = junk"
  using spi_read_high[OF assms, of junk t] by (auto simp: high_xfer_def hw)

text \<open>
  C16.  The SPI driver carries the line-card driver's traffic faithfully: any
  sequence of writes, reads and resets the client requests is carried out without
  hanging, gives one value per read, and the two chips on the bus see exactly the
  requested bytes, each addressed to the right chip, in order.
\<close>

theorem spi_bus_refines:
  assumes "responsive h dev fuel" and "flag_readback dev l" and "bus_idle {3, 12} l"
  shows "\<exists>vs t. replay (\<lambda>c. bfsi_spi_write_8_bits h dev fuel (spi_num c)) (bfsi_spi_read_8_bits h dev fuel junk 3)
      (bfsi_reset b dev) es [] = Some (vs, t) \<and> length vs = n_reads es \<and>
    xfers {3, 12} l t = map (\<lambda>(c, b). ({spi_num c}, ucast b)) (concat (map wire es)) \<and>
    bus_idle {3, 12} (lines_of l t)"
proof -
  have "spi_ok h dev fuel l []" using assms by (simp add: spi_ok_def hw)
  from spi.replay_seen[OF this, of junk b es] show ?thesis by (auto simp: spi_ok_def)
qed

theorem spi_bus_refines_witness:
  "\<exists>vs t. replay (\<lambda>c. bfsi_spi_write_8_bits demo_hdr demo_dev 1 (spi_num c)) (bfsi_spi_read_8_bits demo_hdr demo_dev 1 0 3)
      (bfsi_reset BF533 demo_dev) [Bus_reset 4, Tx NCSB 1, Tx NCSA 0x60, Tx NCSA 2, Rx] [] = Some (vs, t) \<and>
    xfers {3, 12} demo_lines t = [({12}, 1), ({3}, 0x60), ({3}, 2), ({3}, 0xff)]"
  using spi_bus_refines[OF demo_spi, of 0 BF533 "[Bus_reset 4, Tx NCSB 1, Tx NCSA 0x60, Tx NCSA 2, Rx]"] by auto

end
