(* ===== verification/Bfsi_Sport.thy ===== *)
theory Bfsi_Sport
  imports Bfsi_Spi L1_Banks
begin

text \<open>
  The SPORT half of \<open>src/src/bfsi.c\<close>: set-up of the serial port and of the two
  autobuffer DMA channels over ping-pong buffers taken from L1 data bank A, the
  receive interrupt with its buffer selection and statistics, and shut-down.
  Register traffic goes to the trace of \<open>Bfsi_Spi\<close>; calls into the kernel
  (\<open>request_irq\<close>, \<open>dma_alloc_coherent\<close>, ...) are \<open>Kcall\<close> events whose result,
  where there is one, the parameter \<open>kern\<close> gives.  C \<open>int\<close>s are 32-bit words with
  signed comparisons.
\<close>

section \<open>State\<close>

definition PING :: u32 where "PING = 0"
definition PONG :: u32 where "PONG = 1"

definition TC :: u32 where "TC = 1024"
definition LTC :: nat where "LTC = 10"

record bfsi =
  btr :: trace
  l1m :: l1_state
  iTxBuffer1 :: u32
  iRxBuffer1 :: u32
  samples_per_chunk :: u32
  internalclock :: bool
  bfsi_debug :: bool
  init_ok :: bool
  readchunk_first :: u32
  readchunk_second :: u32
  readchunk_didntswap :: u32
  lastreadpingpong :: u32
  bad_x :: "u32 list"
  last_x :: "u32 list"
  log_readchunk :: u32
  writechunk_first :: u32
  writechunk_second :: u32
  writechunk_didntswap :: u32
  lastwritepingpong :: u32
  isr_cycles_last :: u32
  isr_cycles_worst :: u32
  isr_cycles_average :: u32
  isr_between_prev :: u32
  isr_between_worst :: u32
  isr_between_diff :: u32
  isr_between_difflastskip :: u32
  isr_between_skip :: u32
  bfsi_freeze :: u32

type_synonym kernel = "trace \<Rightarrow> string \<Rightarrow> u32"

definition bdo :: "(trace \<Rightarrow> trace) \<Rightarrow> bfsi \<Rightarrow> bfsi" where
  "bdo f s = s\<lparr>btr := f (btr s)\<rparr>"

definition kcall :: "string \<Rightarrow> u32 list \<Rightarrow> trace \<Rightarrow> trace" where
  "kcall f args t = t @ [Kcall f args]"

definition wr_or32 :: "device \<Rightarrow> mmr \<Rightarrow> u32 \<Rightarrow> trace \<Rightarrow> trace" where
  "wr_or32 dev r v t = (case rd dev r t of (x, t) \<Rightarrow> wr r (x OR v) t)"

definition wr_and32 :: "device \<Rightarrow> mmr \<Rightarrow> u32 \<Rightarrow> trace \<Rightarrow> trace" where
  "wr_and32 dev r v t = (case rd dev r t of (x, t) \<Rightarrow> wr r (x AND v) t)"

text \<open>What the two buildable boards use: SPORT number, receive and transmit DMA channel,
  their peripheral maps, and the interrupt mask bit.\<close>

fun sport_no :: "board \<Rightarrow> nat" where "sport_no BF533 = 0" | "sport_no BF537 = 1"
fun rx_dma :: "board \<Rightarrow> nat" where "rx_dma BF533 = 1" | "rx_dma BF537 = 5"
fun tx_dma :: "board \<Rightarrow> nat" where "tx_dma BF533 = 2" | "tx_dma BF537 = 6"
fun rx_map :: "board \<Rightarrow> u16" where "rx_map BF533 = 0x1000" | "rx_map BF537 = 0x5000"
fun tx_map :: "board \<Rightarrow> u16" where "tx_map BF533 = 0x2000" | "tx_map BF537 = 0x6000"
fun irq_bit :: "board \<Rightarrow> u32" where "irq_bit BF533 = 0x200" | "irq_bit BF537 = 0x80"

section \<open>Set-up\<close>

definition sport_regs :: "bfin_hdr \<Rightarrow> nat \<Rightarrow> bool \<Rightarrow> trace \<Rightarrow> trace" where
  "sport_regs h n ic =
     seq ((if ic then [wr16 (SPORT_RCLKDIV n) 24, wr16 (SPORT_RFSDIV n) 255] else [wr16 (SPORT_RFSDIV n) 255]) @
       [wr16 (SPORT_TCR2 n) 7, wr16 (SPORT_TCR1 n) 0, wr16 (SPORT_RCR2 n) 7,
        wr16 (SPORT_RCR1 n) (if ic then IRFS h OR IRCLK h else IRFS h),
        wr (SPORT_MTCS0 n) 0xFF, wr (SPORT_MRCS0 n) 0xFF, wr16 (SPORT_MCMC1 n) 0, wr16 (SPORT_MCMC2 n) 0x1c])"

definition init_sport0 :: "bfin_hdr \<Rightarrow> bool \<Rightarrow> trace \<Rightarrow> trace" where
  "init_sport0 h ic = sport_regs h 0 ic"

definition init_sport1 :: "bfin_hdr \<Rightarrow> device \<Rightarrow> bool \<Rightarrow> trace \<Rightarrow> trace" where
  "init_sport1 h dev ic =
     seq [wr_or dev PORT_MUX (PGTE h OR PGRE h OR PGSE h), wr_or dev PORTG_FER 0xFF00, sport_regs h 1 ic]"

text \<open>Both buffers are taken by the same code; nothing checks for a null result.\<close>

definition alloc_chunks :: "l1_cfg \<Rightarrow> kernel \<Rightarrow> int \<Rightarrow> bfsi \<Rightarrow> u32 \<times> bfsi" where
  "alloc_chunks c kern cur s =
     (let sz = 2 * samples_per_chunk s * 8
      in if L1_DATA_A_LENGTH c \<noteq> 0
         then case l1_data_A_sram_alloc c sz (l1m s) cur of (a, m) \<Rightarrow> (a, s\<lparr>l1m := m\<rparr>)
         else (kern (btr s) ''dma_alloc_coherent'', bdo (kcall ''dma_alloc_coherent'' [sz]) s))"

definition dma_2d :: "nat \<Rightarrow> u32 \<Rightarrow> u32 \<Rightarrow> trace \<Rightarrow> trace" where
  "dma_2d ch start n = seq [wr (DMA_START_ADDR ch) start, wr16 (DMA_X_COUNT ch) (ucast (n * 8)),
     wr16 (DMA_X_MODIFY ch) 1, wr16 (DMA_Y_MODIFY ch) 1, wr16 (DMA_Y_COUNT ch) 2]"

definition init_dma_wc ::
    "bfin_hdr \<Rightarrow> board \<Rightarrow> l1_cfg \<Rightarrow> device \<Rightarrow> kernel \<Rightarrow> int \<Rightarrow> bfsi \<Rightarrow> bfsi" where
  "init_dma_wc h b c dev kern cur s =
     (let s = bdo (seq [wr16 (DMA_PERIPHERAL_MAP (rx_dma b)) (rx_map b), wr_or dev (DMA_IRQ_STATUS (rx_dma b)) 2]) s;
          (rxb, s) = alloc_chunks c kern cur s;
          s = s\<lparr>iRxBuffer1 := rxb\<rparr>;
          s = bdo (seq [dma_2d (rx_dma b) rxb (samples_per_chunk s),
                wr16 (DMA_CONFIG (rx_dma b)) (WNR h OR WDSIZE_8 h OR DI_EN h OR 0x1000 OR DI_SEL h OR DMA2D h),
                wr16 (DMA_PERIPHERAL_MAP (tx_dma b)) (tx_map b),
                wr16 (DMA_CONFIG (tx_dma b)) (WDSIZE_8 h OR 0x1000 OR DMA2D h)]) s;
          (txb, s) = alloc_chunks c kern cur s;
          s = s\<lparr>iTxBuffer1 := txb\<rparr>
      in bdo (dma_2d (tx_dma b) txb (samples_per_chunk s)) s)"

text \<open>\<open>request_irq\<close> gives 0 on success; the result of the function is 0 or \<open>-EBUSY\<close>.\<close>

definition init_sport_interrupts :: "board \<Rightarrow> device \<Rightarrow> kernel \<Rightarrow> bfsi \<Rightarrow> int \<times> bfsi" where
  "init_sport_interrupts b dev kern s =
     (let r = kern (btr s) ''request_irq'';
          s = bdo (kcall ''request_irq'' [of_nat (sport_no b)]) s
      in if r \<noteq> 0 then (-16, s) else (0, bdo (wr_or32 dev SIC_IMASK (irq_bit b)) s))"

definition enable_dma_sport :: "bfin_hdr \<Rightarrow> board \<Rightarrow> device \<Rightarrow> trace \<Rightarrow> trace" where
  "enable_dma_sport h b dev =
     seq [wr_or dev (DMA_CONFIG (tx_dma b)) (DMAEN h), wr_or dev (DMA_CONFIG (rx_dma b)) (DMAEN h),
          wr_or dev (SPORT_TCR1 (sport_no b)) (TSPEN h), wr_or dev (SPORT_RCR1 (sport_no b)) (RSPEN h)]"

definition disable_sport :: "bfin_hdr \<Rightarrow> board \<Rightarrow> device \<Rightarrow> trace \<Rightarrow> trace" where
  "disable_sport h b dev =
     seq [wr_and dev (SPORT_TCR1 (sport_no b)) (NOT (TSPEN h)), wr_and dev (SPORT_RCR1 (sport_no b)) (NOT (RSPEN h)),
          wr_and dev (DMA_CONFIG (tx_dma b)) (NOT (DMAEN h)), wr_and dev (DMA_CONFIG (rx_dma b)) (NOT (DMAEN h)),
          wr_and32 dev SIC_IMASK (NOT (irq_bit b))]"

definition bfsi_sport_init ::
    "bfin_hdr \<Rightarrow> board \<Rightarrow> l1_cfg \<Rightarrow> device \<Rightarrow> kernel \<Rightarrow> int \<Rightarrow> u32 \<Rightarrow> bool \<Rightarrow> bfsi \<Rightarrow> int \<times> bfsi" where
  "bfsi_sport_init h b c dev kern cur samples debug s =
     (let s = (if debug then bdo (seq [kcall ''create_proc_read_entry'' [0], kcall ''create_proc_read_entry'' [1],
                 kcall ''create_proc_read_entry'' [2]]) (s\<lparr>bfsi_debug := True\<rparr>) else s);
          s = s\<lparr>samples_per_chunk := samples\<rparr>;
          s = bdo (case b of BF533 \<Rightarrow> init_sport0 h (internalclock s) | BF537 \<Rightarrow> init_sport1 h dev (internalclock s)) s;
          s = init_dma_wc h b c dev kern cur s;
          s = bdo (enable_dma_sport h b dev) s;
          (r, s) = init_sport_interrupts b dev kern s
      in if r \<noteq> 0 then (0, s\<lparr>init_ok := False\<rparr>) else (1, s\<lparr>init_ok := True\<rparr>))"

definition release_chunks :: "l1_cfg \<Rightarrow> u32 \<Rightarrow> bfsi \<Rightarrow> bfsi" where
  "release_chunks c a s =
     (if L1_DATA_A_LENGTH c \<noteq> 0 then s\<lparr>l1m := snd (l1_data_A_sram_free c a (l1m s))\<rparr>
      else bdo (kcall ''dma_free_coherent'' [2 * samples_per_chunk s * 8, a]) s)"

definition bfsi_sport_close :: "bfin_hdr \<Rightarrow> board \<Rightarrow> l1_cfg \<Rightarrow> device \<Rightarrow> bfsi \<Rightarrow> bfsi" where
  "bfsi_sport_close h b c dev s =
     (let s = bdo (disable_sport h b dev) s;
          s = (if init_ok s then bdo (kcall ''free_irq'' [of_nat (sport_no b)]) s else s);
          s = release_chunks c (iTxBuffer1 s) s;
          s = release_chunks c (iRxBuffer1 s) s
      in bdo (seq [kcall ''remove_proc_entry'' [0], kcall ''remove_proc_entry'' [1], kcall ''remove_proc_entry'' [2]]) s)"

section \<open>The receive interrupt\<close>

definition isr_write_processing :: "board \<Rightarrow> device \<Rightarrow> bfsi \<Rightarrow> u32 \<times> bfsi" where
  "isr_write_processing b dev s =
     (let (cur, t) = rd dev (DMA_CURR_ADDR (tx_dma b)) (btr s);
          s = s\<lparr>btr := t\<rparr>;
          x = cur - iTxBuffer1 s;
          (writechunk, writepingpong, s) =
            (if 8 * samples_per_chunk s \<le>s x
             then (iTxBuffer1 s, PING, s\<lparr>writechunk_first := writechunk_first s + 1\<rparr>)
             else (iTxBuffer1 s + samples_per_chunk s * 8, PONG, s\<lparr>writechunk_second := writechunk_second s + 1\<rparr>));
          s = (if writepingpong = lastwritepingpong s
               then s\<lparr>writechunk_didntswap := writechunk_didntswap s + 1\<rparr> else s)
      in (writechunk, s\<lparr>lastwritepingpong := writepingpong\<rparr>))"

definition isr_read_processing :: "board \<Rightarrow> device \<Rightarrow> bfsi \<Rightarrow> u32 \<times> bfsi" where
  "isr_read_processing b dev s =
     (let (cur, t) = rd dev (DMA_CURR_ADDR (rx_dma b)) (btr s);
          s = s\<lparr>btr := t\<rparr>;
          x = cur - iRxBuffer1 s;
          (readchunk, readpingpong, s) =
            (if 8 * samples_per_chunk s \<le>s (x AND 0x7f)
             then (iRxBuffer1 s, PING, s\<lparr>readchunk_first := readchunk_first s + 1\<rparr>)
             else (iRxBuffer1 s + samples_per_chunk s * 8, PONG, s\<lparr>readchunk_second := readchunk_second s + 1\<rparr>));
          s = s\<lparr>log_readchunk := readchunk, last_x := tl (last_x s) @ [x]\<rparr>;
          s = (if readpingpong = lastreadpingpong s
               then s\<lparr>readchunk_didntswap := readchunk_didntswap s + 1, bad_x := last_x s\<rparr> else s)
      in (readchunk, s\<lparr>lastreadpingpong := readpingpong\<rparr>))"

text \<open>The installed callback is a function on the client's state, or \<open>None\<close> for \<open>NULL\<close>.\<close>

definition sport_rx_isr ::
    "board \<Rightarrow> device \<Rightarrow> (u32 \<Rightarrow> u32 \<Rightarrow> 'a \<Rightarrow> 'a) option \<Rightarrow> bfsi \<times> 'a \<Rightarrow> bfsi \<times> 'a" where
  "sport_rx_isr b dev cb = (\<lambda>(s, a).
     let (start_cycles, t) = rd dev CYCLES (btr s);
         s = s\<lparr>btr := wr16 (DMA_IRQ_STATUS (rx_dma b)) 1 t\<rparr>;
         s = s\<lparr>isr_between_diff := start_cycles - isr_between_prev s, isr_between_prev := start_cycles\<rparr>;
         s = (if isr_between_worst s < isr_between_diff s then s\<lparr>isr_between_worst := isr_between_diff s\<rparr> else s);
         s = (if 800000 < isr_between_diff s
              then s\<lparr>isr_between_skip := isr_between_skip s + 1, isr_between_difflastskip := isr_between_diff s\<rparr>
              else s);
         (read_samples, s) = isr_read_processing b dev s;
         (write_samples, s) = isr_write_processing b dev s;
         a = (case cb of None \<Rightarrow> a | Some f \<Rightarrow> if bfsi_freeze s = 0 then f read_samples write_samples a else a);
         s = s\<lparr>isr_cycles_average := drop_bit LTC ((TC - 1) * isr_cycles_average s + push_bit 1 (isr_cycles_last s) + TC)\<rparr>;
         s = (if isr_cycles_worst s < isr_cycles_last s then s\<lparr>isr_cycles_worst := isr_cycles_last s\<rparr> else s);
         (end_cycles, t) = rd dev CYCLES (btr s)
     in (s\<lparr>btr := t, isr_cycles_last := end_cycles - start_cycles\<rparr>, a))"

definition proc_write_bfsi_reset :: "bfsi \<Rightarrow> bfsi" where
  "proc_write_bfsi_reset s = s\<lparr>isr_cycles_worst := 0, isr_between_worst := 0, isr_between_skip := 0,
     isr_between_difflastskip := 0, readchunk_first := 0, readchunk_second := 0, readchunk_didntswap := 0,
     writechunk_first := 0, writechunk_second := 0, writechunk_didntswap := 0, bad_x := replicate 5 0\<rparr>"

definition proc_write_bfsi_freeze :: "u32 \<Rightarrow> bfsi \<Rightarrow> bfsi" where
  "proc_write_bfsi_freeze new_freeze s = s\<lparr>bfsi_freeze := new_freeze\<rparr>"

section \<open>Buffer selection\<close>

lemma read_chunk:
  "fst (isr_read_processing b dev s) =
     (if 8 * samples_per_chunk s \<le>s ((dev (btr s) (DMA_CURR_ADDR (rx_dma b)) - iRxBuffer1 s) AND 0x7f)
      then iRxBuffer1 s else iRxBuffer1 s + samples_per_chunk s * 8)"
  by (simp add: isr_read_processing_def rd_def Let_def split_beta)

lemma write_chunk:
  "fst (isr_write_processing b dev s) =
     (if 8 * samples_per_chunk s \<le>s (dev (btr s) (DMA_CURR_ADDR (tx_dma b)) - iTxBuffer1 s)
      then iTxBuffer1 s else iTxBuffer1 s + samples_per_chunk s * 8)"
  by (simp add: isr_write_processing_def rd_def Let_def split_beta)

text \<open>What the read step leaves for the write step.\<close>

lemma read_frame:
  "btr (snd (isr_read_processing b dev s)) = btr s @ [R (DMA_CURR_ADDR (rx_dma b))]"
  "iTxBuffer1 (snd (isr_read_processing b dev s)) = iTxBuffer1 s"
  "samples_per_chunk (snd (isr_read_processing b dev s)) = samples_per_chunk s"
  "bfsi_freeze (snd (isr_read_processing b dev s)) = bfsi_freeze s"
  "bfsi_freeze (snd (isr_write_processing b dev s)) = bfsi_freeze s"
  by (simp_all add: isr_read_processing_def isr_write_processing_def rd_def Let_def split_beta)

text \<open>The half of the ping-pong buffer that byte offset \<open>i\<close> of the DMA is not in.\<close>

lemma offset_word: "unat (of_nat i :: u32) = i mod 2 ^ 32"
  by (simp add: unat_of_nat)

lemma read_half:
  assumes "i \<le> 128"
  shows "((64 :: u32) \<le>s (of_nat i AND 0x7f)) = (64 \<le> i mod 128)"
proof -
  have "unat (of_nat i AND 0x7f :: u32) = i mod 128"
    using assms by (simp add: and_7f unat_mod offset_word)
  moreover have "unat (64 :: u32) = 64" by simp
  ultimately show ?thesis by (subst sle_small) auto
qed

lemma write_half:
  assumes "j < 128"
  shows "((64 :: u32) \<le>s of_nat j) = (64 \<le> j)"
proof -
  have "unat (of_nat j :: u32) = j" using assms by (simp add: offset_word)
  moreover have "unat (64 :: u32) = 64" by simp
  ultimately show ?thesis using assms by (subst sle_small) auto
qed

text \<open>The addresses the interrupt passes to the callback, for chunks of eight samples.\<close>

lemma isr_callback_args:
  assumes "bfsi_freeze s = 0"
  shows "snd (sport_rx_isr b dev (Some (\<lambda>r w a. (r, w))) (s, a)) =
    (let s1 = s\<lparr>btr := btr s @ [R CYCLES, W (DMA_IRQ_STATUS (rx_dma b)) 1]\<rparr>
     in (fst (isr_read_processing b dev s1),
         fst (isr_write_processing b dev (s1\<lparr>btr := btr s1 @ [R (DMA_CURR_ADDR (rx_dma b))]\<rparr>))))"
  using assms
  by (simp add: sport_rx_isr_def Let_def split_beta rd_def wr16_def read_chunk write_chunk read_frame)

section \<open>Counters\<close>

text \<open>\<open>pp_ok n f g d lst\<close>: after \<open>n\<close> interrupts \<open>f\<close> and \<open>g\<close> count the two halves, and
  they drift apart by at most the number \<open>d\<close> of missed swaps, plus one.\<close>

definition pp_ok :: "nat \<Rightarrow> u32 \<Rightarrow> u32 \<Rightarrow> u32 \<Rightarrow> u32 \<Rightarrow> bool" where
  "pp_ok n f g d lst \<longleftrightarrow> unat f + unat g = n \<and> unat d \<le> n \<and>
     (if lst = PING then unat g \<le> unat f + unat d \<and> unat f \<le> unat g + unat d + 1
      else lst = PONG \<and> unat g \<le> unat f + unat d + 1 \<and> unat f \<le> unat g + unat d)"

lemma pp_ok_step:
  assumes "pp_ok n f g d lst" "Suc n < 2 ^ 32"
  shows "pp_ok (Suc n) (f + 1) g (if PING = lst then d + 1 else d) PING"
    "pp_ok (Suc n) f (g + 1) (if PONG = lst then d + 1 else d) PONG"
proof -
  have b: "unat f < 2 ^ 32 - 1" "unat g < 2 ^ 32 - 1" "unat d < 2 ^ 32 - 1"
    using assms by (auto simp: pp_ok_def)
  show "pp_ok (Suc n) (f + 1) g (if PING = lst then d + 1 else d) PING"
    "pp_ok (Suc n) f (g + 1) (if PONG = lst then d + 1 else d) PONG"
    using assms(1) b[THEN unat_incr] by (auto simp: pp_ok_def PING_def PONG_def split: if_splits)
qed

lemma PING_PONG [simp]: "PING \<noteq> PONG" "PONG \<noteq> PING"
  by (simp_all add: PING_def PONG_def)

definition read_pp :: "nat \<Rightarrow> bfsi \<Rightarrow> bool" where
  "read_pp n s = pp_ok n (readchunk_first s) (readchunk_second s) (readchunk_didntswap s) (lastreadpingpong s)"

definition write_pp :: "nat \<Rightarrow> bfsi \<Rightarrow> bool" where
  "write_pp n s = pp_ok n (writechunk_first s) (writechunk_second s) (writechunk_didntswap s) (lastwritepingpong s)"

lemma read_pp_step:
  assumes "read_pp n s" "Suc n < 2 ^ 32"
  shows "read_pp (Suc n) (snd (isr_read_processing b dev s))"
  using pp_ok_step[OF assms(1)[unfolded read_pp_def] assms(2)]
  by (simp add: read_pp_def isr_read_processing_def rd_def Let_def split: if_splits)

lemma write_pp_step:
  assumes "write_pp n s" "Suc n < 2 ^ 32"
  shows "write_pp (Suc n) (snd (isr_write_processing b dev s))"
  using pp_ok_step[OF assms(1)[unfolded write_pp_def] assms(2)]
  by (simp add: write_pp_def isr_write_processing_def rd_def Let_def split: if_splits)

lemma write_pp_read: "write_pp n (snd (isr_read_processing b dev s)) = write_pp n s"
  by (simp add: write_pp_def isr_read_processing_def rd_def Let_def)

lemma read_pp_write: "read_pp n (snd (isr_write_processing b dev s)) = read_pp n s"
  by (simp add: read_pp_def isr_write_processing_def rd_def Let_def)

text \<open>The interrupt is the read step and the write step, plus bookkeeping of other fields.\<close>

lemma pp_frame [simp]:
  "read_pp n (s\<lparr>btr := t\<rparr>) = read_pp n s" "write_pp n (s\<lparr>btr := t\<rparr>) = write_pp n s"
  "read_pp n (s\<lparr>isr_between_diff := x, isr_between_prev := y\<rparr>) = read_pp n s"
  "write_pp n (s\<lparr>isr_between_diff := x, isr_between_prev := y\<rparr>) = write_pp n s"
  "read_pp n (s\<lparr>isr_between_worst := x\<rparr>) = read_pp n s" "write_pp n (s\<lparr>isr_between_worst := x\<rparr>) = write_pp n s"
  "read_pp n (s\<lparr>isr_between_skip := x, isr_between_difflastskip := y\<rparr>) = read_pp n s"
  "write_pp n (s\<lparr>isr_between_skip := x, isr_between_difflastskip := y\<rparr>) = write_pp n s"
  "read_pp n (s\<lparr>isr_cycles_average := x\<rparr>) = read_pp n s" "write_pp n (s\<lparr>isr_cycles_average := x\<rparr>) = write_pp n s"
  "read_pp n (s\<lparr>isr_cycles_worst := x\<rparr>) = read_pp n s" "write_pp n (s\<lparr>isr_cycles_worst := x\<rparr>) = write_pp n s"
  "read_pp n (s\<lparr>btr := t, isr_cycles_last := x\<rparr>) = read_pp n s"
  "write_pp n (s\<lparr>btr := t, isr_cycles_last := x\<rparr>) = write_pp n s"
  by (simp_all add: read_pp_def write_pp_def)

lemma isr_pp:
  assumes "read_pp n s" "write_pp n s" "Suc n < 2 ^ 32"
  shows "read_pp (Suc n) (fst (sport_rx_isr b dev cb (s, a))) \<and> write_pp (Suc n) (fst (sport_rx_isr b dev cb (s, a)))"
  using assms
  by (simp add: sport_rx_isr_def Let_def split_beta read_pp_write write_pp_read read_pp_step write_pp_step
      if_distrib[of "read_pp _"] if_distrib[of "write_pp _"])

lemma isr_run_pp:
  "read_pp n (fst sa) \<Longrightarrow> write_pp n (fst sa) \<Longrightarrow> n + length devs < 2 ^ 32 \<Longrightarrow>
   read_pp (n + length devs) (fst (fold (\<lambda>dev. sport_rx_isr b dev cb) devs sa)) \<and>
   write_pp (n + length devs) (fst (fold (\<lambda>dev. sport_rx_isr b dev cb) devs sa))"
proof (induction devs arbitrary: n sa)
  case (Cons dev devs)
  obtain s a where sa: "sa = (s, a)" by (cases sa)
  show ?case
    using Cons.IH[of "Suc n" "sport_rx_isr b dev cb sa"] isr_pp[of n s b dev cb a] Cons.prems
    by (simp add: sa)
qed simp

section \<open>The cycle average\<close>

lemma average_bound:
  assumes "unat (avg :: u32) \<le> 2 * L + 1024" "unat lst \<le> L" "L < 2096640"
  shows "unat (drop_bit LTC ((TC - 1) * avg + push_bit 1 lst + TC)) \<le> 2 * L + 1024"
proof -
  have p: "push_bit 1 lst = 2 * lst" by (simp add: push_bit_eq_mult)
  have "unat (2 * lst) = 2 * unat lst" using assms by (simp add: unat_word_ariths)
  moreover have "unat (1023 * avg) = 1023 * unat avg" using assms by (simp add: unat_word_ariths)
  ultimately have v: "unat (1023 * avg + 2 * lst + 1024) = 1023 * unat avg + 2 * unat lst + 1024"
    using assms by (simp add: unat_word_ariths)
  have "1023 * unat avg \<le> 1023 * (2 * L + 1024)" using assms(1) by (rule mult_le_mono2)
  then have "1023 * unat avg + 2 * unat lst + 1024 \<le> 1024 * (2 * L + 1024)"
    using assms(2) by (simp add: algebra_simps)
  then have "(1023 * unat avg + 2 * unat lst + 1024) div 1024 \<le> 2 * L + 1024" by (simp add: div_le_mono)
  moreover have "drop_bit LTC ((TC - 1) * avg + push_bit 1 lst + TC) = (1023 * avg + 2 * lst + 1024) div 1024"
    by (simp add: TC_def LTC_def p drop_bit_eq_div mult.commute)
  ultimately show ?thesis using v by (simp only: unat_div) simp
qed

lemma cycles_frame:
  "isr_cycles_average (snd (isr_read_processing b dev s)) = isr_cycles_average s"
  "isr_cycles_average (snd (isr_write_processing b dev s)) = isr_cycles_average s"
  "isr_cycles_last (snd (isr_read_processing b dev s)) = isr_cycles_last s"
  "isr_cycles_last (snd (isr_write_processing b dev s)) = isr_cycles_last s"
  by (simp_all add: isr_read_processing_def isr_write_processing_def rd_def Let_def split_beta)

lemma isr_average:
  "isr_cycles_average (fst (sport_rx_isr b dev cb (s, a))) =
     drop_bit LTC ((TC - 1) * isr_cycles_average s + push_bit 1 (isr_cycles_last s) + TC)"
  by (simp add: sport_rx_isr_def Let_def split_beta cycles_frame
      if_distrib[of isr_cycles_average] if_distrib[of isr_cycles_last])

section \<open>Set-up and shut-down of the buffers\<close>

lemma bdo_frame [simp]:
  "l1m (bdo f s) = l1m s" "samples_per_chunk (bdo f s) = samples_per_chunk s" "init_ok (bdo f s) = init_ok s"
  "iRxBuffer1 (bdo f s) = iRxBuffer1 s" "iTxBuffer1 (bdo f s) = iTxBuffer1 s" "internalclock (bdo f s) = internalclock s"
  "btr (bdo f s) = f (btr s)"
  by (simp_all add: bdo_def)

lemma alloc_chunks_bank:
  assumes "L1_DATA_A_LENGTH c \<noteq> 0"
  shows "alloc_chunks c kern cur s = (fst (l1_data_A_sram_alloc c (16 * samples_per_chunk s) (l1m s) cur),
    s\<lparr>l1m := snd (l1_data_A_sram_alloc c (16 * samples_per_chunk s) (l1m s) cur)\<rparr>)"
  using assms by (simp add: alloc_chunks_def Let_def split_beta mult.commute)

lemma init_dma_wc_l1:
  assumes "L1_DATA_A_LENGTH c \<noteq> 0" "l1_data_A_sram_alloc c (16 * samples_per_chunk s) (l1m s) cur = (a, m1)"
    "l1_data_A_sram_alloc c (16 * samples_per_chunk s) m1 cur = (d, m2)"
  shows "l1m (init_dma_wc h b c dev kern cur s) = m2" "iRxBuffer1 (init_dma_wc h b c dev kern cur s) = a"
    "iTxBuffer1 (init_dma_wc h b c dev kern cur s) = d"
  using assms(2,3) by (simp_all add: init_dma_wc_def Let_def split_beta alloc_chunks_bank[OF assms(1)])

lemma bfsi_sport_init_l1:
  assumes "L1_DATA_A_LENGTH c \<noteq> 0" "l1_data_A_sram_alloc c (16 * samples) (l1m s) cur = (a, m1)"
    "l1_data_A_sram_alloc c (16 * samples) m1 cur = (d, m2)"
    "bfsi_sport_init h b c dev kern cur samples dbg s = (r, s')"
  shows "l1m s' = m2 \<and> iRxBuffer1 s' = a \<and> iTxBuffer1 s' = d"
proof -
  define s0 where "s0 = (if dbg then bdo (seq [kcall ''create_proc_read_entry'' [0], kcall ''create_proc_read_entry'' [1],
    kcall ''create_proc_read_entry'' [2]]) (s\<lparr>bfsi_debug := True\<rparr>) else s)\<lparr>samples_per_chunk := samples\<rparr>"
  define s1 where "s1 = bdo (case b of BF533 \<Rightarrow> init_sport0 h (internalclock s0) | BF537 \<Rightarrow> init_sport1 h dev (internalclock s0)) s0"
  have s1: "samples_per_chunk s1 = samples" "l1m s1 = l1m s" by (simp_all add: s1_def s0_def)
  have "(r, s') = (let (r, s) = init_sport_interrupts b dev kern (bdo (enable_dma_sport h b dev) (init_dma_wc h b c dev kern cur s1))
      in if r \<noteq> 0 then (0, s\<lparr>init_ok := False\<rparr>) else (1, s\<lparr>init_ok := True\<rparr>))"
    using assms(4) unfolding bfsi_sport_init_def Let_def s1_def s0_def by (rule sym)
  then show ?thesis
    using init_dma_wc_l1[OF assms(1), of s1 cur a m1 d m2 h b dev kern] assms(2,3) s1
    by (auto simp: init_sport_interrupts_def Let_def split: if_splits)
qed

lemma bfsi_sport_close_l1:
  assumes "L1_DATA_A_LENGTH c \<noteq> 0"
  shows "l1m (bfsi_sport_close h b c dev s) =
    snd (l1_data_A_sram_free c (iRxBuffer1 s) (snd (l1_data_A_sram_free c (iTxBuffer1 s) (l1m s))))"
  using assms by (simp add: bfsi_sport_close_def release_chunks_def Let_def)

text \<open>The last value written to a register.\<close>

fun last_written :: "mmr \<Rightarrow> trace \<Rightarrow> u32 option" where
  "last_written r [] = None"
| "last_written r (W q v # t) = (case last_written r t of None \<Rightarrow> if q = r then Some v else None | x \<Rightarrow> x)"
| "last_written r (_ # t) = last_written r t"

lemma last_written_append [simp]:
  "last_written r (t @ t') = (case last_written r t' of None \<Rightarrow> last_written r t | x \<Rightarrow> x)"
  by (induction r t rule: last_written.induct) (auto split: option.splits)

lemma and_not_16: "(ucast (x AND NOT m :: u16) :: u32) AND ucast m = 0"
  by (rule bit_word_eqI) (auto simp: bit_simps)

lemma disable_sport_off:
  "\<exists>v. last_written (DMA_CONFIG (rx_dma b)) (disable_sport h b dev t) = Some v \<and> v AND ucast (DMAEN h) = 0"
  "\<exists>v. last_written (DMA_CONFIG (tx_dma b)) (disable_sport h b dev t) = Some v \<and> v AND ucast (DMAEN h) = 0"
  by (cases b; simp add: disable_sport_def wr_and_def wr_and32_def rd_def wr16_def wr_def and_not_16)+

section \<open>Properties\<close>

definition demo_bfsi :: bfsi where
  "demo_bfsi = \<lparr>btr = [], l1m = boot bf537_cfg, iTxBuffer1 = 0, iRxBuffer1 = 0, samples_per_chunk = 0,
     internalclock = False, bfsi_debug = False, init_ok = False, readchunk_first = 0, readchunk_second = 0,
     readchunk_didntswap = 0, lastreadpingpong = 0, bad_x = replicate 5 0, last_x = replicate 5 0,
     log_readchunk = 0, writechunk_first = 0, writechunk_second = 0, writechunk_didntswap = 0,
     lastwritepingpong = 0, isr_cycles_last = 0, isr_cycles_worst = 0, isr_cycles_average = 0,
     isr_between_prev = 0, isr_between_worst = 0, isr_between_diff = 0, isr_between_difflastskip = 0,
     isr_between_skip = 0, bfsi_freeze = 0\<rparr>"

text \<open>
  C18.  The two addresses the interrupt hands to the callback are never in the half
  of the buffer the DMA is working on.  With chunks of eight samples (two halves of
  64 bytes), receive DMA at offset \<open>i\<close> (0 to 128) and transmit DMA at offset \<open>j\<close>
  (below 128), the callback is called with the start of the other half of each
  buffer.
\<close>

theorem isr_chunks_avoid_dma:
  assumes "samples_per_chunk s = 8" and "bfsi_freeze s = 0" and "i \<le> 128" and "j < 128"
    and "t = btr s @ [R CYCLES, W (DMA_IRQ_STATUS (rx_dma b)) 1]"
    and "dev t (DMA_CURR_ADDR (rx_dma b)) = iRxBuffer1 s + of_nat i"
    and "dev (t @ [R (DMA_CURR_ADDR (rx_dma b))]) (DMA_CURR_ADDR (tx_dma b)) = iTxBuffer1 s + of_nat j"
  shows "snd (sport_rx_isr b dev (Some (\<lambda>r w a. (r, w))) (s, a)) =
    (if i mod 128 < 64 then iRxBuffer1 s + 64 else iRxBuffer1 s,
     if j < 64 then iTxBuffer1 s + 64 else iTxBuffer1 s)"
  using isr_callback_args[OF assms(2)] assms(1,5-7) read_half[OF assms(3)] write_half[OF assms(4)]
  by (simp add: Let_def read_chunk write_chunk)

theorem isr_chunks_avoid_dma_witness:
  "snd (sport_rx_isr BF533 (\<lambda>t r. if r = DMA_CURR_ADDR 1 then 0x1040 else if r = DMA_CURR_ADDR 2 then 0x200e else 0)
      (Some (\<lambda>r w a. (r, w))) (demo_bfsi\<lparr>samples_per_chunk := 8, iRxBuffer1 := 0x1000, iTxBuffer1 := 0x2000\<rparr>, (0, 0)))
    = (0x1000, 0x2040)"
  using isr_chunks_avoid_dma[of "demo_bfsi\<lparr>samples_per_chunk := 8, iRxBuffer1 := 0x1000, iTxBuffer1 := 0x2000\<rparr>" 64 14 _ BF533
      "\<lambda>t r. if r = DMA_CURR_ADDR 1 then 0x1040 else if r = DMA_CURR_ADDR 2 then 0x200e else 0"]
  by (simp add: demo_bfsi_def)

text \<open>
  The receive side tests the DMA position with a mask written out for chunks
  of eight samples: for any chunk size from 16 samples up the test never holds,
  and the second half of the buffer is handed out on every interrupt, wherever the
  DMA is.
\<close>

lemma isr_read_other_chunk_sizes:
  assumes "16 \<le> unat (samples_per_chunk s)" and "unat (samples_per_chunk s) < 2 ^ 28"
  shows "fst (isr_read_processing b dev s) = iRxBuffer1 s + samples_per_chunk s * 8"
proof -
  let ?x = "(dev (btr s) (DMA_CURR_ADDR (rx_dma b)) - iRxBuffer1 s) AND 0x7f"
  have x: "unat ?x < 128" by (simp add: and_7f unat_mod)
  have n: "unat (8 * samples_per_chunk s) = 8 * unat (samples_per_chunk s)"
    using assms(2) by (simp add: unat_word_ariths)
  have "\<not> 8 * samples_per_chunk s \<le>s ?x" using x n assms by (subst sle_small) auto
  then show ?thesis by (simp add: read_chunk)
qed

text \<open>
  The statistics say what the documentation reads into them: after a reset
  through \<open>/proc/bfsi_reset\<close> and any number of interrupts below \<open>2^32\<close>, on each
  side every interrupt is counted in exactly one half, and the two counts differ by
  at most one more than the number of missed swaps; so while \<open>didntswap\<close> stands
  still at 0 they differ by at most one.
\<close>

lemma pingpong_counters:
  assumes "lastreadpingpong s = PING \<or> lastreadpingpong s = PONG"
    and "lastwritepingpong s = PING \<or> lastwritepingpong s = PONG" and "length devs < 2 ^ 32"
    and "s' = fst (fold (\<lambda>dev. sport_rx_isr b dev cb) devs (proc_write_bfsi_reset s, a))"
  shows "unat (readchunk_first s') + unat (readchunk_second s') = length devs \<and>
    unat (readchunk_first s') \<le> unat (readchunk_second s') + unat (readchunk_didntswap s') + 1 \<and>
    unat (readchunk_second s') \<le> unat (readchunk_first s') + unat (readchunk_didntswap s') + 1 \<and>
    unat (writechunk_first s') + unat (writechunk_second s') = length devs \<and>
    unat (writechunk_first s') \<le> unat (writechunk_second s') + unat (writechunk_didntswap s') + 1 \<and>
    unat (writechunk_second s') \<le> unat (writechunk_first s') + unat (writechunk_didntswap s') + 1"
proof -
  have z: "pp_ok 0 0 0 0 PING" "pp_ok 0 0 0 0 PONG" by (simp_all add: pp_ok_def)
  have "read_pp 0 (proc_write_bfsi_reset s)" "write_pp 0 (proc_write_bfsi_reset s)"
    using assms(1,2) z by (auto simp: read_pp_def write_pp_def proc_write_bfsi_reset_def)
  then have "read_pp (length devs) s'" "write_pp (length devs) s'"
    using isr_run_pp[of 0 "(proc_write_bfsi_reset s, a)" devs b cb] assms(3,4) by auto
  then show ?thesis by (auto simp: read_pp_def write_pp_def pp_ok_def split: if_splits)
qed

text \<open>
  The cycle average neither overflows nor runs away: as long as every
  interrupt takes at most \<open>L\<close> cycles with \<open>L\<close> below about two million (a
  millisecond is 400000), the stored average stays at most \<open>2L + 1024\<close>, so the
  value \<open>/proc/bfsi\<close> shows, half of it, exceeds the worst interrupt by at most 512
  cycles.  (The rounding term added is a whole unit and not the half unit the
  comment names, which is why it can exceed it at all.)
\<close>

lemma isr_cycles_average_bounded:
  assumes "unat (isr_cycles_average s) \<le> 2 * L + 1024" and "unat (isr_cycles_last s) \<le> L" and "L < 2096640"
  shows "unat (drop_bit 1 (isr_cycles_average (fst (sport_rx_isr b dev cb (s, a))))) \<le> L + 512 \<and>
    unat (isr_cycles_average (fst (sport_rx_isr b dev cb (s, a)))) \<le> 2 * L + 1024"
proof -
  let ?s = "fst (sport_rx_isr b dev cb (s, a))"
  have "isr_cycles_average ?s = drop_bit LTC ((TC - 1) * isr_cycles_average s + push_bit 1 (isr_cycles_last s) + TC)"
    by (rule isr_average)
  then have b: "unat (isr_cycles_average ?s) \<le> 2 * L + 1024" using average_bound[OF assms] by simp
  have "unat (drop_bit 1 (isr_cycles_average ?s)) = unat (isr_cycles_average ?s) div 2"
    by (simp add: drop_bit_eq_div unat_div)
  then show ?thesis using b by linarith
qed

text \<open>
  C32.  Set-up and shut-down balance: when both buffers can be allocated, the
  receive and transmit buffers of \<open>bfsi_sport_init\<close> lie apart in data bank A, each
  long enough for two chunks of eight channels; \<open>bfsi_sport_close\<close> turns both DMA
  channels off and gives both buffers back, so the bank's blocks are what they
  were before.
\<close>

theorem bfsi_sport_init_close:
  assumes "sys_ok c (l1m s)" and "ok_size (16 * samples)"
    and "l1_data_A_sram_alloc c (16 * samples) (l1m s) cur = (a, m1)" and "a \<noteq> 0"
    and "l1_data_A_sram_alloc c (16 * samples) m1 cur = (d, m2)" and "d \<noteq> 0"
    and "bfsi_sport_init h b c dev kern cur samples dbg s = (r, s1)" and "s2 = bfsi_sport_close h b c dev s1"
  shows "(unat (iRxBuffer1 s1) + unat (16 * samples) \<le> unat (iTxBuffer1 s1) \<or>
      unat (iTxBuffer1 s1) + unat (16 * samples) \<le> unat (iRxBuffer1 s1)) \<and>
    blocks (l1_data_A_sram (l1m s2)) = blocks (l1_data_A_sram (l1m s)) \<and>
    (\<exists>v. last_written (DMA_CONFIG (rx_dma b)) (btr s2) = Some v \<and> v AND ucast (DMAEN h) = 0) \<and>
    (\<exists>v. last_written (DMA_CONFIG (tx_dma b)) (btr s2) = Some v \<and> v AND ucast (DMAEN h) = 0)"
proof -
  have l: "L1_DATA_A_LENGTH c \<noteq> 0" using cfg_ok_lengths assms(1) by (simp add: sys_ok_def)
  have i: "l1m s1 = m2" "iRxBuffer1 s1 = a" "iTxBuffer1 s1 = d"
    using bfsi_sport_init_l1[OF l assms(3,5,7)] by auto
  have "(unat a + unat (16 * samples) \<le> unat d \<or> unat d + unat (16 * samples) \<le> unat a) \<and>
      (\<exists>m3 m4. bfree DATA_A c d m2 = (0, m3) \<and> bfree DATA_A c a m3 = (0, m4) \<and> sys_ok c m4 \<and>
        blocks (bget DATA_A m4) = blocks (bget DATA_A (l1m s)))"
    by (rule bk.two_buffers[OF _ assms(4) _ assms(6,1,2)]) (use assms(3,5) in simp_all)
  moreover have "l1m s2 = snd (l1_data_A_sram_free c a (snd (l1_data_A_sram_free c d m2)))"
    using bfsi_sport_close_l1[OF l, of h b dev s1] i assms(8) by simp
  moreover have "last_written r (btr s2) = last_written r (disable_sport h b dev (btr s1))" for r
    using l by (simp add: assms(8) bfsi_sport_close_def release_chunks_def Let_def kcall_def)
  ultimately show ?thesis using i disable_sport_off[of b h dev "btr s1"] by auto
qed

theorem bfsi_sport_init_close_witness:
  "blocks (l1_data_A_sram (l1m (bfsi_sport_close demo_hdr BF537 bf537_cfg (\<lambda>t r. 0)
     (snd (bfsi_sport_init demo_hdr BF537 bf537_cfg (\<lambda>t r. 0) (\<lambda>t f. 0) 1 8 False demo_bfsi)))))
   = blocks (l1_data_A_sram (boot bf537_cfg))"
proof -
  let ?A = "l1_data_A_sram_alloc bf537_cfg (16 * 8)"
  let ?i = "bfsi_sport_init demo_hdr BF537 bf537_cfg (\<lambda>t r. 0) (\<lambda>t f. 0) 1 8 False demo_bfsi"
  have l: "l1m demo_bfsi = boot bf537_cfg" by (simp add: demo_bfsi_def)
  have "fst (?A (boot bf537_cfg) 1) = 0xFF800100" "fst (?A (snd (?A (boot bf537_cfg) 1)) 1) = 0xFF800180"
    by code_simp+
  then obtain m1 m2 where a: "?A (l1m demo_bfsi) 1 = (0xFF800100, m1)" "?A m1 1 = (0xFF800180, m2)"
    unfolding l by (metis prod.collapse snd_conv)
  have k: "ok_size (16 * 8)" by (simp add: ok_size_def)
  have o: "sys_ok bf537_cfg (l1m demo_bfsi)" using boot_inv(1) l by simp
  have "?i = (fst ?i, snd ?i)" by simp
  from bfsi_sport_init_close[OF o k a(1) _ a(2) _ this refl] show ?thesis unfolding l by simp
qed

end
