(* ===== verification/Sport_If.thy ===== *)
theory Sport_If
  imports Bfsi_Spi
begin

text \<open>
  The byte bus over SPORT1 of \<open>src/src/sport_interface.c\<close>, used instead of the SPI
  port when \<open>CONFIG_4FX_SPORT_INTERFACE\<close> is set: transmit and receive of one byte
  with a GPIO chip select, configuration, power, reset and clean-up.  Register
  traffic and hardware are as in \<open>Bfsi_Spi\<close>.
\<close>

section \<open>Registers and constants\<close>

text \<open>The SPORT1 registers; the last three are status, transmit and receive data.\<close>

abbreviation S1_TCR1 :: mmr where "S1_TCR1 \<equiv> SPORT_TCR1 1"
abbreviation S1_TCR2 :: mmr where "S1_TCR2 \<equiv> SPORT_TCR2 1"
abbreviation S1_RCR1 :: mmr where "S1_RCR1 \<equiv> SPORT_RCR1 1"
abbreviation S1_RCR2 :: mmr where "S1_RCR2 \<equiv> SPORT_RCR2 1"
abbreviation S1_RCLKDIV :: mmr where "S1_RCLKDIV \<equiv> SPORT_RCLKDIV 1"
abbreviation S1_RFSDIV :: mmr where "S1_RFSDIV \<equiv> SPORT_RFSDIV 1"
abbreviation S1_TCLKDIV :: mmr where "S1_TCLKDIV \<equiv> SPORT_TCLKDIV 1"
abbreviation S1_TFSDIV :: mmr where "S1_TFSDIV \<equiv> SPORT_TFSDIV 1"
abbreviation S1_STAT :: mmr where "S1_STAT \<equiv> SPORT_STAT 1"
abbreviation S1_TX16 :: mmr where "S1_TX16 \<equiv> SPORT_TX16 1"
abbreviation S1_RX16 :: mmr where "S1_RX16 \<equiv> SPORT_RX16 1"

record sport_hdr =
  sTXHRE :: u16
  sRXNE :: u16
  sTSPEN :: u16
  sRSPEN :: u16
  sTCR1_cfg :: u16
  sRCR1_cfg :: u16

section \<open>Operations\<close>

text \<open>A poll loop on one register.\<close>

fun wait_bit :: "mmr \<Rightarrow> u16 \<Rightarrow> device \<Rightarrow> nat \<Rightarrow> trace \<Rightarrow> trace option" where
  "wait_bit r m dev 0 t = None"
| "wait_bit r m dev (Suc n) t =
     (case rd dev r t of (x, t) \<Rightarrow> if ucast x AND m \<noteq> 0 then Some t else wait_bit r m dev n t)"

definition ndelay :: "nat \<Rightarrow> trace \<Rightarrow> trace" where
  "ndelay n t = t @ [Ndelay n]"

definition sport_configure :: "sport_hdr \<Rightarrow> u16 \<Rightarrow> trace \<Rightarrow> trace" where
  "sport_configure h baud =
     seq [wr16 S1_TCR1 (sTCR1_cfg h), wr16 S1_TCR2 7, wr16 S1_TCLKDIV baud, wr16 S1_TFSDIV 7,
          wr16 S1_RCR1 (sRCR1_cfg h), wr16 S1_RCR2 7, wr16 S1_RCLKDIV baud, wr16 S1_RFSDIV 7]"

definition sport_tx_byte :: "sport_hdr \<Rightarrow> device \<Rightarrow> nat \<Rightarrow> nat \<Rightarrow> u8 \<Rightarrow> trace \<Rightarrow> trace option" where
  "sport_tx_byte h dev fuel chip_select bits t =
     (let t = (if 7 < chip_select then ndelay 25 (wr16 FIO_FLAG_C (bit16 chip_select) t) else t);
          tmp = ucast bits AND 0x0ff;
          t = wr16 S1_TX16 tmp t
      in case wait_bit S1_STAT (sTXHRE h) dev fuel t of
           None \<Rightarrow> None
         | Some t \<Rightarrow>
             let t = udelay 2 t
             in Some (if 7 < chip_select then wr16 FIO_FLAG_S (bit16 chip_select) t else t))"

definition sport_rx_byte :: "sport_hdr \<Rightarrow> device \<Rightarrow> nat \<Rightarrow> nat \<Rightarrow> trace \<Rightarrow> (u8 \<times> trace) option" where
  "sport_rx_byte h dev fuel chip_select t =
     (case wait_bit S1_RCR1 (sRSPEN h) dev fuel (wr_or dev S1_RCR1 (sRSPEN h) t) of
        None \<Rightarrow> None
      | Some t \<Rightarrow>
          let t = (if 7 < chip_select then wr16 FIO_FLAG_C (bit16 chip_select) t else t);
              t = wr16 S1_TX16 0xff t
          in case wait_bit S1_STAT (sRXNE h) dev fuel t of
               None \<Rightarrow> None
             | Some t \<Rightarrow>
                 let (x, t) = rd dev S1_RX16 t;
                     t = (if 7 < chip_select then wr16 FIO_FLAG_S (bit16 chip_select) t else t)
                 in Some (ucast x, ndelay 200 (wr_and dev S1_RCR1 (NOT (sRSPEN h)) t)))"

definition sport_interface_cleanup :: "sport_hdr \<Rightarrow> device \<Rightarrow> trace \<Rightarrow> trace" where
  "sport_interface_cleanup h dev =
     seq [wr_and dev S1_TCR1 (NOT (sTSPEN h)), wr_and dev S1_RCR1 (NOT (sRSPEN h))]"

definition sport_interface_init :: "sport_hdr \<Rightarrow> device \<Rightarrow> u16 \<Rightarrow> u16 \<Rightarrow> trace \<Rightarrow> trace" where
  "sport_interface_init h dev baud new_chip_select_mask t =
     (let t = sport_configure h baud t;
          t = (if new_chip_select_mask AND 0xff00 \<noteq> 0
               then wr_or dev FIO_DIR ((new_chip_select_mask AND 0xff00) OR bit16 12) t else t)
      in seq [wr16 FIO_FLAG_S (bit16 12), wr_or dev S1_TCR1 (sTSPEN h)] t)"

definition sport_interface_reset :: "device \<Rightarrow> nat \<Rightarrow> trace \<Rightarrow> trace" where
  "sport_interface_reset dev reset_bit =
     seq [wr_or dev FIO_DIR (bit16 reset_bit), wr16 FIO_FLAG_C (bit16 reset_bit), udelay 100,
          wr16 FIO_FLAG_S (bit16 reset_bit), udelay 1000]"

section \<open>What the chips see\<close>

text \<open>A byte goes out when TX16 is written; GPIO selects as in \<open>Bfsi_Spi\<close>.\<close>

fun sxfers :: "nat set \<Rightarrow> spi_lines \<Rightarrow> trace \<Rightarrow> (nat set \<times> u16) list" where
  "sxfers m l [] = []"
| "sxfers m l (e # t) =
     (case e of W r v \<Rightarrow> if r = S1_TX16 then [({cs \<in> m. selected l cs}, ucast v)] else [] | _ \<Rightarrow> []) @
     sxfers m (line_step e l) t"

definition sport_live :: "sport_hdr \<Rightarrow> device \<Rightarrow> nat \<Rightarrow> bool" where
  "sport_live h dev fuel \<longleftrightarrow>
     (\<forall>t. \<exists>n<fuel. ucast (dev (t @ replicate n (R S1_STAT)) S1_STAT) AND sTXHRE h \<noteq> 0) \<and>
     (\<forall>t. \<exists>n<fuel. ucast (dev (t @ replicate n (R S1_STAT)) S1_STAT) AND sRXNE h \<noteq> 0) \<and>
     (\<forall>t. \<exists>n<fuel. ucast (dev (t @ replicate n (R S1_RCR1)) S1_RCR1) AND sRSPEN h \<noteq> 0)"

lemma sxfers_append [hw]: "sxfers m l (t @ t') = sxfers m l t @ sxfers m (lines_of l t) t'"
  by (induction t arbitrary: l) (simp_all add: hw)

lemma sxfers_reads [hw]: "sxfers m l (replicate n (R r)) = []" "lines_of l (replicate n (R r)) = l"
  by (induction n) (simp_all add: hw)

lemma wait_bit_ready:
  "\<exists>n<fuel. ucast (dev (t @ replicate n (R r)) r) AND m \<noteq> 0 \<Longrightarrow>
   \<exists>n. wait_bit r m dev fuel t = Some (t @ replicate n (R r))"
proof (induction fuel arbitrary: t)
  case (Suc fuel)
  show ?case
  proof (cases "ucast (dev t r) AND m = 0")
    case False
    then show ?thesis by (auto simp: rd_def intro!: exI[of _ 1])
  next
    case True
    from Suc.prems obtain n where n: "n < Suc fuel" "ucast (dev (t @ replicate n (R r)) r) AND m \<noteq> 0" by blast
    with True obtain k where k: "n = Suc k" by (cases n) auto
    obtain i where "wait_bit r m dev fuel (t @ [R r]) = Some ((t @ [R r]) @ replicate i (R r))"
      using Suc.IH[of "t @ [R r]"] n k by auto
    then show ?thesis using True by (auto simp: rd_def intro!: exI[of _ "Suc i"])
  qed
qed simp

lemma sport_live_wait:
  assumes "sport_live h dev fuel"
  shows "\<exists>n. wait_bit S1_STAT (sTXHRE h) dev fuel t = Some (t @ replicate n (R S1_STAT))"
    "\<exists>n. wait_bit S1_STAT (sRXNE h) dev fuel t = Some (t @ replicate n (R S1_STAT))"
    "\<exists>n. wait_bit S1_RCR1 (sRSPEN h) dev fuel t = Some (t @ replicate n (R S1_RCR1))"
  using assms wait_bit_ready unfolding sport_live_def by blast+

text \<open>The SPORT build uses two GPIO selects: \<open>SPI_NCSA = 8\<close>, \<open>SPI_NCSB = 9\<close>.\<close>

fun sport_num :: "chip \<Rightarrow> nat" where
  "sport_num NCSA = 8"
| "sport_num NCSB = 9"

lemma high_select:
  assumes "bus_idle m l" "cs \<in> m" "7 < cs"
  shows "{c \<in> m. selected (l\<lparr>lpf := lpf l AND NOT (bit16 cs)\<rparr>) c} = {cs}"
  using select_high[OF assms(1,2), of "ltx l"] assms(3) by simp

lemma and_ff: "ucast (b :: u8) AND 0xff = (ucast b :: u16)"
proof -
  have "(ucast b :: u16) AND mask 8 = ucast b"
    by (rule bit_word_eqI) (auto simp: bit_simps simp del: mask_numeral dest: bit_imp_le_length)
  moreover have "mask 8 = (0xff :: u16)" by code_simp
  ultimately show ?thesis by (simp only:)
qed

definition tx_events :: "nat \<Rightarrow> u8 \<Rightarrow> nat \<Rightarrow> trace" where
  "tx_events cs b n = [W FIO_FLAG_C (ucast (bit16 cs)), Ndelay 25, W S1_TX16 (ucast (ucast b :: u16))] @
     replicate n (R S1_STAT) @ [Udelay 2, W FIO_FLAG_S (ucast (bit16 cs))]"

definition rx_events :: "sport_hdr \<Rightarrow> device \<Rightarrow> trace \<Rightarrow> nat \<Rightarrow> nat \<Rightarrow> nat \<Rightarrow> u16 \<Rightarrow> trace" where
  "rx_events h dev t cs k n y = [R S1_RCR1, W S1_RCR1 (ucast (ucast (dev t S1_RCR1) OR sRSPEN h))] @
     replicate k (R S1_RCR1) @ [W FIO_FLAG_C (ucast (bit16 cs)), W S1_TX16 0xff] @ replicate n (R S1_STAT) @
     [R S1_RX16, W FIO_FLAG_S (ucast (bit16 cs)), R S1_RCR1, W S1_RCR1 (ucast y), Ndelay 200]"

lemma sport_tx_byte_events:
  assumes "sport_live h dev fuel" "7 < cs"
  shows "\<exists>n. sport_tx_byte h dev fuel cs b t = Some (t @ tx_events cs b n)"
proof -
  let ?t = "t @ [W FIO_FLAG_C (ucast (bit16 cs)), Ndelay 25, W S1_TX16 (ucast (ucast b :: u16))]"
  obtain n where "wait_bit S1_STAT (sTXHRE h) dev fuel ?t = Some (?t @ replicate n (R S1_STAT))"
    using sport_live_wait(1)[OF assms(1)] by blast
  then show ?thesis
    using assms(2) by (auto simp: sport_tx_byte_def wr16_def udelay_def ndelay_def and_ff tx_events_def)
qed

lemma sport_rx_byte_events:
  assumes "sport_live h dev fuel" "7 < cs"
  shows "\<exists>k n y v. sport_rx_byte h dev fuel cs t = Some (v, t @ rx_events h dev t cs k n y)"
proof -
  let ?t = "t @ [R S1_RCR1, W S1_RCR1 (ucast (ucast (dev t S1_RCR1) OR sRSPEN h))]"
  obtain k where k: "wait_bit S1_RCR1 (sRSPEN h) dev fuel ?t = Some (?t @ replicate k (R S1_RCR1))"
    using sport_live_wait(3)[OF assms(1)] by blast
  let ?u = "?t @ replicate k (R S1_RCR1) @ [W FIO_FLAG_C (ucast (bit16 cs)), W S1_TX16 0xff]"
  obtain n where "wait_bit S1_STAT (sRXNE h) dev fuel ?u = Some (?u @ replicate n (R S1_STAT))"
    using sport_live_wait(2)[OF assms(1)] by blast
  then show ?thesis
    using assms(2) k
    by (auto simp: sport_rx_byte_def wr16_def wr_or_def wr_and_def rd_def ndelay_def rx_events_def)
qed

lemma tx_events_seen:
  assumes "bus_idle m l" "cs \<in> m" "7 < cs"
  shows "sxfers m l (tx_events cs b n) = [({cs}, ucast b)]" "lines_of l (tx_events cs b n) = l"
  using high_select[OF assms] restore_high[OF assms(1,2)] assms(3) by (simp_all add: tx_events_def hw)

lemma rx_events_seen:
  assumes "bus_idle m l" "cs \<in> m" "7 < cs"
  shows "sxfers m l (rx_events h dev t cs k n y) = [({cs}, 0xff)]" "lines_of l (rx_events h dev t cs k n y) = l"
  using high_select[OF assms] restore_high[OF assms(1,2)] assms(3) by (simp_all add: rx_events_def hw)

definition sport_ok :: "sport_hdr \<Rightarrow> device \<Rightarrow> nat \<Rightarrow> spi_lines \<Rightarrow> trace \<Rightarrow> bool" where
  "sport_ok h dev fuel l t \<longleftrightarrow> sport_live h dev fuel \<and> bus_idle {8, 9} (lines_of l t)"

lemma sport_reset_seen:
  assumes "bus_idle m (lines_of l t)"
  shows "bus_idle m (lines_of l (sport_interface_reset dev n t)) \<and>
    sxfers m l (sport_interface_reset dev n t) = sxfers m l t"
  using assms bus_idle_pulse[OF assms]
  by (simp add: sport_interface_reset_def wr_or_def rd_def wr16_def udelay_def hw)

interpretation sport: byte_bus
  "\<lambda>c. sport_tx_byte h dev fuel (sport_num c)" "sport_rx_byte h dev fuel 8" "sport_interface_reset dev"
  "sport_ok h dev fuel l" "sxfers {8, 9} l" "\<lambda>(c, b). ({sport_num c}, ucast b)"
  for h dev fuel l
proof
  fix t c x n
  assume ok: "sport_ok h dev fuel l t"
  then have a: "sport_live h dev fuel" "bus_idle {8, 9} (lines_of l t)" by (simp_all add: sport_ok_def)
  have c: "sport_num c \<in> {8, 9}" "7 < sport_num c" by (cases c; simp)+
  show "\<exists>t'. sport_tx_byte h dev fuel (sport_num c) x t = Some t' \<and> sport_ok h dev fuel l t' \<and>
      sxfers {8, 9} l t' = sxfers {8, 9} l t @ [case (c, x) of (c, b) \<Rightarrow> ({sport_num c}, ucast b)]"
    using sport_tx_byte_events[OF a(1) c(2), of x t] tx_events_seen[OF a(2) c] a
    by (auto simp: sport_ok_def hw)
  show "\<exists>v t'. sport_rx_byte h dev fuel 8 t = Some (v, t') \<and> sport_ok h dev fuel l t' \<and>
      sxfers {8, 9} l t' = sxfers {8, 9} l t @ [case (NCSA, 0xff :: u8) of (c, b) \<Rightarrow> ({sport_num c}, ucast b)]"
    using sport_rx_byte_events[OF a(1), of 8 t] rx_events_seen[OF a(2), of 8] a
    by (auto simp: sport_ok_def hw)
  show "sport_ok h dev fuel l (sport_interface_reset dev n t) \<and>
      sxfers {8, 9} l (sport_interface_reset dev n t) = sxfers {8, 9} l t"
    using sport_reset_seen[OF a(2)] a by (simp add: sport_ok_def)
qed

section \<open>Properties\<close>

definition demo_sport :: sport_hdr where
  "demo_sport = \<lparr>sTXHRE = 0x40, sRXNE = 1, sTSPEN = 1, sRSPEN = 1, sTCR1_cfg = 0x7e02, sRCR1_cfg = 0x7c00\<rparr>"

definition demo_pf :: spi_lines where
  "demo_pf = \<lparr>lflag = 0, lpf = 0x1300, ltx = 0\<rparr>"

lemma demo_sport_ok: "sport_live demo_sport (\<lambda>t r. 0x41) 1" "bus_idle {8, 9} demo_pf"
proof -
  show "sport_live demo_sport (\<lambda>t r. 0x41) 1" by (simp add: sport_live_def demo_sport_def)
  have "\<not> selected demo_pf 8" "\<not> selected demo_pf 9" by code_simp+
  then show "bus_idle {8, 9} demo_pf" by (simp add: bus_idle_def)
qed



end
