(* ===== verification/Wcfxs_Regs.thy ===== *)
theory Wcfxs_Regs
  imports Byte_Bus
begin

text \<open>
  The state of the line-card driver (\<open>struct wcfxs\<close> of \<open>src/src/wcfxs.c\<close>), its access
  to the registers of the line cards, and the LED and detection functions of
  \<open>src/src/fx.c\<close>.  Everything a function does outside the driver's own memory is
  kept in the state: the byte-bus requests made so far, the number of times the
  clock was read, and the calls made into the Zaptel core.  The environment gives
  the byte each bus read returns and the value of each clock reading.  Spin locks
  only serialise and are left out.

  The second part is the hardware the driver talks to, as the data sheets
  describe it: the CPLD that routes the data port to a card or to the LED latch,
  the three-byte protocol of the Si3050 (FXO) and the two-byte protocol of the
  Si3210 (FXS).  The driver caches the routing in \<open>curcard\<close>; the invariant says when
  the cache is right, and the lemmas that register access reaches the right
  register of the right card.
\<close>

section \<open>State\<close>

datatype modtype_t = MOD_TYPE_FXS | MOD_TYPE_FXO

datatype rxsig = RXSIG_ONHOOK | RXSIG_OFFHOOK | RXSIG_RING

datatype zev = Hooksig nat rxsig | Qevent_polarity nat | Zt_transmit | Zt_receive | Zt_ec nat
  | Module_get | Module_put | Sport_close | Zt_unregister | Kfree | Remove_proc

text \<open>\<open>mem\<close> is the union \<open>mod\<close>, word by word: the \<open>fxo\<close> and \<open>fxs\<close> views overlay each other.\<close>

record wc =
  bus :: "bev list"
  ticks :: nat
  zt :: "zev list"
  led :: "nat \<Rightarrow> u32"
  curcard :: int
  cards :: nat
  cardflag :: u32
  usecount :: int
  dead :: bool
  intcount :: u32
  wflags :: "nat \<Rightarrow> u32"
  modtype :: "nat \<Rightarrow> modtype_t"
  mem :: "nat \<Rightarrow> u32"
  rchunk :: "nat \<Rightarrow> nat \<Rightarrow> u8"
  wchunk :: "nat \<Rightarrow> nat \<Rightarrow> u8"

record env =
  rxv :: "bev list \<Rightarrow> u8"
  clk :: "nat \<Rightarrow> u32"

definition NUM_CARDS :: nat where [cdefs]: "NUM_CARDS = 8"

section \<open>Bus primitives\<close>

definition tx :: "chip \<Rightarrow> u8 \<Rightarrow> wc \<Rightarrow> wc" where
  "tx c b s = s\<lparr>bus := bus s @ [Tx c b]\<rparr>"

definition rx :: "env \<Rightarrow> wc \<Rightarrow> u8 \<times> wc" where
  "rx e s = (rxv e (bus s), s\<lparr>bus := bus s @ [Rx]\<rparr>)"

definition bus_reset :: "nat \<Rightarrow> wc \<Rightarrow> wc" where
  "bus_reset n s = s\<lparr>bus := bus s @ [Bus_reset n]\<rparr>"

definition jiffies :: "env \<Rightarrow> wc \<Rightarrow> u32 \<times> wc" where
  "jiffies e s = (clk e (ticks s), s\<lparr>ticks := Suc (ticks s)\<rparr>)"

section \<open>LEDs and port detection (fx.c)\<close>

definition fx_set_led :: "nat \<Rightarrow> u32 \<Rightarrow> wc \<Rightarrow> wc" where
  "fx_set_led port state s =
     (let s = tx NCSB (if 4 < port then 0x45 else 0x05) s;
          crd = (if 4 < port then 1 else 0);
          port = (if 4 < port then port - 4 else port);
          s = s\<lparr>led := (led s)(crd := led s crd AND NOT (push_bit ((port - 1) * 2) 0x3))\<rparr>;
          s = s\<lparr>led := (led s)(crd := led s crd OR push_bit ((port - 1) * 2) state)\<rparr>
      in tx NCSA (ucast (led s crd)) s)"

definition port_code :: "nat \<Rightarrow> u8" where
  "port_code port = of_nat (if 4 < port then port + (0x40 - 4) else port)"

definition fx_read_fxo :: "env \<Rightarrow> nat \<Rightarrow> wc \<Rightarrow> u8 \<times> wc" where
  "fx_read_fxo e port s = rx e (tx NCSA 0x02 (tx NCSA 0x60 (tx NCSB (port_code port) s)))"

definition fx_read_fxs :: "env \<Rightarrow> nat \<Rightarrow> u8 \<Rightarrow> wc \<Rightarrow> u8 \<times> wc" where
  "fx_read_fxs e port bits s = rx e (tx NCSA (bits OR 0x80) (tx NCSB (port_code port) s))"

datatype port_type_t = NoPort | OPort | SPort

definition detect_port :: "env \<Rightarrow> nat \<Rightarrow> nat \<Rightarrow> wc \<Rightarrow> port_type_t \<times> wc" where
  "detect_port e bit_reset i s =
     (let (reg, s) = fx_read_fxo e (i + 1) (bus_reset bit_reset s)
      in if reg = 0x3 then (OPort, fx_set_led (i + 1) 1 s)
         else let (reg, s) = fx_read_fxs e (i + 1) 0 (bus_reset bit_reset s)
              in if reg = 0x5 then (SPort, fx_set_led (i + 1) 2 s)
                 else let (reg, s) = fx_read_fxs e (i + 1) 0x1 (bus_reset bit_reset s)
                      in if reg AND 0xC0 = 0x80 then (SPort, fx_set_led (i + 1) 2 s) else (NoPort, s))"

fun fx_detect_from :: "env \<Rightarrow> nat \<Rightarrow> nat list \<Rightarrow> wc \<Rightarrow> port_type_t list \<times> wc" where
  "fx_detect_from e bit_reset [] s = ([], s)"
| "fx_detect_from e bit_reset (i # is) s =
     (let (p, s) = detect_port e bit_reset i s; (ps, s) = fx_detect_from e bit_reset is s in (p # ps, s))"

definition fx_auto_detect :: "env \<Rightarrow> nat \<Rightarrow> wc \<Rightarrow> port_type_t list \<times> wc" where
  "fx_auto_detect e bit_reset s = fx_detect_from e bit_reset [0..<8] s"

section \<open>Register access (wcfxs.c)\<close>

definition wcfxs_setcard :: "nat \<Rightarrow> wc \<Rightarrow> wc" where
  "wcfxs_setcard crd s =
     (if curcard s \<noteq> int crd
      then (tx NCSB (if crd < 4 then of_nat (crd + 1) else of_nat (0x40 + (crd - 4) + 1)) s)\<lparr>curcard := int crd\<rparr>
      else s)"

definition wcfxs_setreg :: "nat \<Rightarrow> u8 \<Rightarrow> u8 \<Rightarrow> wc \<Rightarrow> wc" where
  "wcfxs_setreg crd reg v s =
     (let s = wcfxs_setcard crd s;
          s = (if modtype s crd = MOD_TYPE_FXO then tx NCSA (reg AND 0x7f) (tx NCSA 0x20 s)
               else tx NCSA (reg AND 0x7f) s)
      in tx NCSA v s)"

definition wcfxs_getreg :: "env \<Rightarrow> nat \<Rightarrow> u8 \<Rightarrow> wc \<Rightarrow> u8 \<times> wc" where
  "wcfxs_getreg e crd reg s =
     (let s = wcfxs_setcard crd s;
          s = (if modtype s crd = MOD_TYPE_FXO then tx NCSA (reg AND 0x7f) (tx NCSA 0x60 s)
               else tx NCSA (reg OR 0x80) s)
      in rx e s)"

definition wcfxs_set_led :: "nat \<Rightarrow> u32 \<Rightarrow> wc \<Rightarrow> wc" where
  "wcfxs_set_led port colour s = (fx_set_led port colour s)\<lparr>curcard := -1\<rparr>"

definition reset_spi :: "nat \<Rightarrow> wc \<Rightarrow> wc" where
  "reset_spi crd s = wcfxs_setcard crd s"

section \<open>The board\<close>

datatype phase = Idle | O_write | O_read | O_addr u8 | O_fetch u8 | S_addr u8 | S_fetch u8

text \<open>What a line chip does with a completed register write, and what a register read
  returns and does; \<open>plain\<close> is a chip whose registers just hold what is written.\<close>

record 'x chip_if =
  cwrite :: "u8 \<Rightarrow> u8 \<Rightarrow> 'x \<Rightarrow> 'x"
  cread :: "u8 \<Rightarrow> 'x \<Rightarrow> u8"
  cfetch :: "u8 \<Rightarrow> 'x \<Rightarrow> 'x"

definition plain :: "(u8 \<Rightarrow> u8) chip_if" where
  "plain = \<lparr>cwrite = (\<lambda>a v f. f(a := v)), cread = (\<lambda>a f. f a), cfetch = (\<lambda>a f. f)\<rparr>"

record 'x board_st =
  mux :: u8
  kind :: "nat \<Rightarrow> modtype_t"
  phase_of :: "nat \<Rightarrow> phase"
  chips :: "nat \<Rightarrow> 'x"
  latch :: "nat \<Rightarrow> u8"

text \<open>Select codes \<open>1..4\<close> are cards 0 to 3, \<open>0x41..0x44\<close> cards 4 to 7; 5 and \<open>0x45\<close> the LED latches.\<close>

definition mux_card :: "u8 \<Rightarrow> nat option" where
  "mux_card m = (if 1 \<le> m \<and> m \<le> 4 then Some (unat m - 1)
     else if 0x41 \<le> m \<and> m \<le> 0x44 then Some (unat m - 0x41 + 4) else None)"

definition mux_latch :: "u8 \<Rightarrow> nat option" where
  "mux_latch m = (if m = 5 then Some 0 else if m = 0x45 then Some 1 else None)"

text \<open>A card's reaction to a byte: next phase, and the register write it completes.\<close>

fun card_byte :: "modtype_t \<Rightarrow> phase \<Rightarrow> u8 \<Rightarrow> phase \<times> (u8 \<times> u8) option" where
  "card_byte MOD_TYPE_FXO Idle b = (if b = 0x20 then O_write else if b = 0x60 then O_read else Idle, None)"
| "card_byte MOD_TYPE_FXO O_write b = (O_addr b, None)"
| "card_byte MOD_TYPE_FXO O_read b = (O_fetch b, None)"
| "card_byte MOD_TYPE_FXO (O_addr a) b = (Idle, Some (a, b))"
| "card_byte MOD_TYPE_FXS Idle b = (if bit b 7 then S_fetch (b AND 0x7f) else S_addr (b AND 0x7f), None)"
| "card_byte MOD_TYPE_FXS (S_addr a) b = (Idle, Some (a, b))"
| "card_byte _ _ b = (Idle, None)"

fun fetch_addr :: "phase \<Rightarrow> u8 option" where
  "fetch_addr (O_fetch a) = Some a"
| "fetch_addr (S_fetch a) = Some a"
| "fetch_addr _ = None"

fun board_step :: "'x chip_if \<Rightarrow> bev \<Rightarrow> 'x board_st \<Rightarrow> 'x board_st" where
  "board_step ch (Tx NCSB b) s = s\<lparr>mux := b\<rparr>"
| "board_step ch (Tx NCSA b) s =
     (case mux_latch (mux s) of
        Some l \<Rightarrow> s\<lparr>latch := (latch s)(l := b)\<rparr>
      | None \<Rightarrow>
          (case mux_card (mux s) of
             None \<Rightarrow> s
           | Some c \<Rightarrow>
               (case card_byte (kind s c) (phase_of s c) b of
                  (p, None) \<Rightarrow> s\<lparr>phase_of := (phase_of s)(c := p)\<rparr>
                | (p, Some (a, v)) \<Rightarrow>
                    s\<lparr>phase_of := (phase_of s)(c := p), chips := (chips s)(c := cwrite ch a v (chips s c))\<rparr>)))"
| "board_step ch Rx s =
     (case mux_card (mux s) of
        None \<Rightarrow> s
      | Some c \<Rightarrow>
          (case fetch_addr (phase_of s c) of
             None \<Rightarrow> s\<lparr>phase_of := (phase_of s)(c := Idle)\<rparr>
           | Some a \<Rightarrow> s\<lparr>phase_of := (phase_of s)(c := Idle), chips := (chips s)(c := cfetch ch a (chips s c))\<rparr>))"
| "board_step ch (Bus_reset n) s = s\<lparr>phase_of := (\<lambda>c. Idle)\<rparr>"

definition board_val :: "'x chip_if \<Rightarrow> 'x board_st \<Rightarrow> u8" where
  "board_val ch s = (case mux_card (mux s) of None \<Rightarrow> 0xff
     | Some c \<Rightarrow> (case fetch_addr (phase_of s c) of None \<Rightarrow> 0xff | Some a \<Rightarrow> cread ch a (chips s c)))"

definition board_of :: "'x chip_if \<Rightarrow> 'x board_st \<Rightarrow> bev list \<Rightarrow> 'x board_st" where
  "board_of ch b0 es = fold (board_step ch) es b0"

lemma board_of_simps [hw]: "board_of ch b0 [] = b0" "board_of ch b0 (es @ es') = board_of ch (board_of ch b0 es) es'"
  "board_of ch b0 (x # es) = board_of ch (board_step ch x b0) es"
  by (simp_all add: board_of_def)

text \<open>The board answers reads from its chips.\<close>

definition on_board :: "env \<Rightarrow> 'x chip_if \<Rightarrow> 'x board_st \<Rightarrow> bool" where
  "on_board e ch b0 \<longleftrightarrow> (\<forall>es. rxv e es = board_val ch (board_of ch b0 es))"

text \<open>The cached card is the routed one, every card is between commands, and the driver
  knows the kind of each card.\<close>

definition coherent :: "'x chip_if \<Rightarrow> 'x board_st \<Rightarrow> wc \<Rightarrow> bool" where
  "coherent ch b0 s \<longleftrightarrow>
     (let b = board_of ch b0 (bus s) in
        (\<forall>c<8. kind b c = modtype s c \<and> phase_of b c = Idle) \<and>
        (curcard s = -1 \<or> (\<exists>c<8. curcard s = int c \<and> mux_card (mux b) = Some c \<and> mux_latch (mux b) = None)))"

section \<open>Register access reaches the right register\<close>

lemma bus_simps [simp]:
  "bus (tx c b s) = bus s @ [Tx c b]" "bus (snd (rx e s)) = bus s @ [Rx]" "fst (rx e s) = rxv e (bus s)"
  "modtype (tx c b s) = modtype s" "modtype (snd (rx e s)) = modtype s"
  "curcard (tx c b s) = curcard s" "curcard (snd (rx e s)) = curcard s"
  "led (tx c b s) = led s" "led (snd (rx e s)) = led s"
  by (simp_all add: tx_def rx_def)

text \<open>What selecting a card puts in the routing register.\<close>

definition card_code :: "nat \<Rightarrow> u8" where
  "card_code c = (if c < 4 then of_nat (c + 1) else of_nat (0x40 + (c - 4) + 1))"

lemma lt_8: "c < 8 \<longleftrightarrow> c \<in> {0, 1, 2, 3, 4, 5, 6, 7 :: nat}"
  by auto

lemma mux_card_code: "c < 8 \<Longrightarrow> mux_card (card_code c) = Some c \<and> mux_latch (card_code c) = None"
  unfolding lt_8 by (elim insertE) (simp_all add: card_code_def mux_card_def mux_latch_def)

lemma setcard_board:
  assumes "coherent ch b0 s" "c < 8"
  shows "\<exists>m. board_of ch b0 (bus (wcfxs_setcard c s)) = (board_of ch b0 (bus s))\<lparr>mux := m\<rparr> \<and>
    mux_card m = Some c \<and> mux_latch m = None"
    "curcard (wcfxs_setcard c s) = int c" "modtype (wcfxs_setcard c s) = modtype s" "led (wcfxs_setcard c s) = led s"
proof -
  let ?b = "board_of ch b0 (bus s)"
  show "\<exists>m. board_of ch b0 (bus (wcfxs_setcard c s)) = ?b\<lparr>mux := m\<rparr> \<and> mux_card m = Some c \<and> mux_latch m = None"
  proof (cases "curcard s = int c")
    case True
    then have "mux_card (mux ?b) = Some c \<and> mux_latch (mux ?b) = None"
      using assms by (auto simp: coherent_def Let_def)
    then show ?thesis using True by (intro exI[of _ "mux ?b"]) (simp add: wcfxs_setcard_def)
  next
    case False
    then show ?thesis using mux_card_code[OF assms(2)]
      by (intro exI[of _ "card_code c"]) (auto simp: wcfxs_setcard_def card_code_def hw)
  qed
qed (auto simp: wcfxs_setcard_def)

lemma and_7f_bit7: "\<not> bit (r AND 0x7f :: u8) 7" "(r AND 0x7f :: u8) AND 0x7f = r AND 0x7f"
    "bit (r OR 0x80 :: u8) 7" "(r OR 0x80 :: u8) AND 0x7f = r AND 0x7f"
proof -
  have m: "(0x7f :: u8) = mask 7" "(0x80 :: u8) = push_bit 7 1" by code_simp+
  show "\<not> bit (r AND 0x7f :: u8) 7" "bit (r OR 0x80 :: u8) 7"
    unfolding m by (simp_all add: bit_simps del: mask_numeral push_bit_numeral)
  show "(r AND 0x7f :: u8) AND 0x7f = r AND 0x7f" by (simp add: ac_simps)
  have "(push_bit 7 1 :: u8) AND mask 7 = 0" by code_simp
  then show "(r OR 0x80 :: u8) AND 0x7f = r AND 0x7f"
    unfolding m by (simp only: bit.conj_disj_distrib2) (simp only: or.right_neutral)
qed

text \<open>The two halves of the invariant, to take apart and put together.\<close>

lemma coherentD:
  assumes "coherent ch b0 s" "c < 8"
  shows "kind (board_of ch b0 (bus s)) c = modtype s c" "phase_of (board_of ch b0 (bus s)) c = Idle"
  using assms by (auto simp: coherent_def Let_def)

lemma coherentI:
  assumes "\<And>c. c < 8 \<Longrightarrow> kind (board_of ch b0 (bus s)) c = modtype s c \<and> phase_of (board_of ch b0 (bus s)) c = Idle"
    and "curcard s = -1 \<or> (\<exists>c<8. curcard s = int c \<and> mux_card (mux (board_of ch b0 (bus s))) = Some c \<and>
      mux_latch (mux (board_of ch b0 (bus s))) = None)"
  shows "coherent ch b0 s"
  using assms by (simp add: coherent_def Let_def)

lemma setreg_board:
  assumes "coherent ch b0 s" "c < 8"
  shows "chips (board_of ch b0 (bus (wcfxs_setreg c r v s))) =
      (chips (board_of ch b0 (bus s)))(c := cwrite ch (r AND 0x7f) v (chips (board_of ch b0 (bus s)) c))"
    "latch (board_of ch b0 (bus (wcfxs_setreg c r v s))) = latch (board_of ch b0 (bus s))"
    "coherent ch b0 (wcfxs_setreg c r v s)" "led (wcfxs_setreg c r v s) = led s"
    "modtype (wcfxs_setreg c r v s) = modtype s"
proof -
  let ?b = "board_of ch b0 (bus s)"
  obtain m where m: "board_of ch b0 (bus (wcfxs_setcard c s)) = ?b\<lparr>mux := m\<rparr>" "mux_card m = Some c" "mux_latch m = None"
    using setcard_board(1)[OF assms] by blast
  note sc = setcard_board(2-4)[OF assms]
  have k: "kind ?b c = modtype s c" "phase_of ?b c = Idle" using coherentD[OF assms] by auto
  have res: "board_of ch b0 (bus (wcfxs_setreg c r v s)) = ?b\<lparr>mux := m, phase_of := (phase_of ?b)(c := Idle),
      chips := (chips ?b)(c := cwrite ch (r AND 0x7f) v (chips ?b c))\<rparr>"
    using k by (cases "modtype s c") (simp_all add: wcfxs_setreg_def Let_def sc m hw and_7f_bit7)
  then show "chips (board_of ch b0 (bus (wcfxs_setreg c r v s))) = (chips ?b)(c := cwrite ch (r AND 0x7f) v (chips ?b c))"
    "latch (board_of ch b0 (bus (wcfxs_setreg c r v s))) = latch ?b" by simp_all
  have f: "curcard (wcfxs_setreg c r v s) = int c" "modtype (wcfxs_setreg c r v s) = modtype s"
    by (simp_all add: wcfxs_setreg_def Let_def sc)
  then show "coherent ch b0 (wcfxs_setreg c r v s)" "modtype (wcfxs_setreg c r v s) = modtype s"
    using coherentD[OF assms(1)] assms(2) by (auto intro!: coherentI simp: res m)
  show "led (wcfxs_setreg c r v s) = led s" by (simp add: wcfxs_setreg_def Let_def sc)
qed

lemma getreg_board:
  assumes "coherent ch b0 s" "c < 8"
  shows "chips (board_of ch b0 (bus (snd (wcfxs_getreg e c r s)))) =
      (chips (board_of ch b0 (bus s)))(c := cfetch ch (r AND 0x7f) (chips (board_of ch b0 (bus s)) c))"
    "latch (board_of ch b0 (bus (snd (wcfxs_getreg e c r s)))) = latch (board_of ch b0 (bus s))"
    "coherent ch b0 (snd (wcfxs_getreg e c r s))" "led (snd (wcfxs_getreg e c r s)) = led s"
    "on_board e ch b0 \<Longrightarrow> fst (wcfxs_getreg e c r s) = cread ch (r AND 0x7f) (chips (board_of ch b0 (bus s)) c)"
    "modtype (snd (wcfxs_getreg e c r s)) = modtype s"
proof -
  let ?b = "board_of ch b0 (bus s)"
  obtain m where m: "board_of ch b0 (bus (wcfxs_setcard c s)) = ?b\<lparr>mux := m\<rparr>" "mux_card m = Some c" "mux_latch m = None"
    using setcard_board(1)[OF assms] by blast
  note sc = setcard_board(2-4)[OF assms]
  have k: "kind ?b c = modtype s c" "phase_of ?b c = Idle" using coherentD[OF assms] by auto
  have res: "board_of ch b0 (bus (snd (wcfxs_getreg e c r s))) = ?b\<lparr>mux := m, phase_of := (phase_of ?b)(c := Idle),
      chips := (chips ?b)(c := cfetch ch (r AND 0x7f) (chips ?b c))\<rparr>"
    using k by (cases "modtype s c") (simp_all add: wcfxs_getreg_def Let_def sc m hw and_7f_bit7)
  then show "chips (board_of ch b0 (bus (snd (wcfxs_getreg e c r s)))) = (chips ?b)(c := cfetch ch (r AND 0x7f) (chips ?b c))"
    "latch (board_of ch b0 (bus (snd (wcfxs_getreg e c r s)))) = latch ?b" by simp_all
  have f: "curcard (snd (wcfxs_getreg e c r s)) = int c" "modtype (snd (wcfxs_getreg e c r s)) = modtype s"
    by (simp_all add: wcfxs_getreg_def Let_def sc)
  then show "coherent ch b0 (snd (wcfxs_getreg e c r s))" "modtype (snd (wcfxs_getreg e c r s)) = modtype s"
    using coherentD[OF assms(1)] assms(2) by (auto intro!: coherentI simp: res m)
  show "led (snd (wcfxs_getreg e c r s)) = led s" by (simp add: wcfxs_getreg_def Let_def sc)
  show "fst (wcfxs_getreg e c r s) = cread ch (r AND 0x7f) (chips ?b c)" if "on_board e ch b0"
    using k that
    by (cases "modtype s c") (simp_all add: wcfxs_getreg_def Let_def sc m hw and_7f_bit7 on_board_def board_val_def)
qed

section \<open>LEDs\<close>

definition led_bits :: "u8 \<Rightarrow> nat \<Rightarrow> u8" where
  "led_bits w i = drop_bit (2 * i) w AND 3"

lemma bit_3: "bit (3 :: int) n \<longleftrightarrow> n < 2"
proof -
  have "(3 :: int) = mask 2" by (simp add: mask_eq_exp_minus_1)
  then show ?thesis by (simp only: bit_mask_iff possible_bit_int) auto
qed

lemma led_bits_update:
  fixes w st :: u32
  assumes "i < 4" "j < 4" "unat st < 4"
  shows "led_bits (ucast ((w AND NOT (push_bit (2 * i) 3)) OR push_bit (2 * i) st)) j =
    (if i = j then ucast st else led_bits (ucast w) j)"
proof (rule bit_word_eqI)
  fix n assume n: "n < LENGTH(8)"
  have st: "bit st k \<Longrightarrow> k < 2" for k
  proof -
    assume b: "bit st k"
    have "take_bit 2 st = st"
      using assms(3) by (simp add: take_bit_eq_mod word_less_nat_alt mod_word_self unat_mod word_unat_eq_iff)
    then show "k < 2" using b by (metis bit_take_bit_iff)
  qed
  show "bit (led_bits (ucast ((w AND NOT (push_bit (2 * i) 3)) OR push_bit (2 * i) st)) j) n =
      bit (if i = j then ucast st else led_bits (ucast w) j) n"
    using assms(1,2) n st[of "2 * j + n - 2 * i"] st[of n]
    by (auto simp: led_bits_def bit_simps bit_3 not_le)
qed

text \<open>Position of a port in its latch.\<close>

definition led_board :: "nat \<Rightarrow> nat" where "led_board p = (if 4 < p then 1 else 0)"
definition led_pos :: "nat \<Rightarrow> nat" where "led_pos p = (if 4 < p then p - 4 else p) - 1"

lemma led_pos_lt: "1 \<le> p \<Longrightarrow> p \<le> 8 \<Longrightarrow> led_pos p < 4"
  by (auto simp: led_pos_def)

lemma led_place_inj:
  "1 \<le> p \<Longrightarrow> p \<le> 8 \<Longrightarrow> 1 \<le> q \<Longrightarrow> q \<le> 8 \<Longrightarrow> led_board p = led_board q \<Longrightarrow> led_pos p = led_pos q \<Longrightarrow> p = q"
  by (auto simp: led_board_def led_pos_def split: if_splits)

lemma set_led_board:
  assumes "coherent ch b0 s"
  shows "led (wcfxs_set_led p st s) = (led s)(led_board p :=
      (led s (led_board p) AND NOT (push_bit (2 * led_pos p) 3)) OR push_bit (2 * led_pos p) st)"
    "latch (board_of ch b0 (bus (wcfxs_set_led p st s))) =
      (latch (board_of ch b0 (bus s)))(led_board p := ucast (led (wcfxs_set_led p st s) (led_board p)))"
    "chips (board_of ch b0 (bus (wcfxs_set_led p st s))) = chips (board_of ch b0 (bus s))"
    "coherent ch b0 (wcfxs_set_led p st s)" "modtype (wcfxs_set_led p st s) = modtype s"
proof -
  have l: "mux_latch 5 = Some 0" "mux_latch 0x45 = Some 1" by (simp_all add: mux_latch_def)
  show "led (wcfxs_set_led p st s) = (led s)(led_board p :=
      (led s (led_board p) AND NOT (push_bit (2 * led_pos p) 3)) OR push_bit (2 * led_pos p) st)"
    by (simp add: wcfxs_set_led_def fx_set_led_def Let_def led_board_def led_pos_def mult.commute)
  show "latch (board_of ch b0 (bus (wcfxs_set_led p st s))) =
      (latch (board_of ch b0 (bus s)))(led_board p := ucast (led (wcfxs_set_led p st s) (led_board p)))"
    "chips (board_of ch b0 (bus (wcfxs_set_led p st s))) = chips (board_of ch b0 (bus s))"
    by (simp_all add: wcfxs_set_led_def fx_set_led_def Let_def led_board_def hw l)
  show "modtype (wcfxs_set_led p st s) = modtype s" by (simp add: wcfxs_set_led_def fx_set_led_def Let_def)
  show "coherent ch b0 (wcfxs_set_led p st s)"
    using coherentD[OF assms]
    by (intro coherentI) (simp_all add: wcfxs_set_led_def fx_set_led_def Let_def hw l)
qed

section \<open>The abstract register file\<close>

text \<open>What the rest of the driver may think it works with: eight chips and eight LEDs.\<close>

record 'x spec_st =
  schips :: "nat \<Rightarrow> 'x"
  sleds :: "nat \<Rightarrow> u8"

datatype op = SetReg nat u8 u8 | GetReg nat u8 | SetLed nat u32 | ResetSpi nat

fun op_ok :: "op \<Rightarrow> bool" where
  "op_ok (SetReg c r v) = (c < 8)"
| "op_ok (GetReg c r) = (c < 8)"
| "op_ok (SetLed p st) = (1 \<le> p \<and> p \<le> 8 \<and> unat st < 4)"
| "op_ok (ResetSpi c) = (c < 8)"

fun spec_op :: "'x chip_if \<Rightarrow> op \<Rightarrow> 'x spec_st \<Rightarrow> u8 list \<times> 'x spec_st" where
  "spec_op ch (SetReg c r v) a = ([], a\<lparr>schips := (schips a)(c := cwrite ch (r AND 0x7f) v (schips a c))\<rparr>)"
| "spec_op ch (GetReg c r) a = ([cread ch (r AND 0x7f) (schips a c)], a\<lparr>schips := (schips a)(c := cfetch ch (r AND 0x7f) (schips a c))\<rparr>)"
| "spec_op ch (SetLed p st) a = ([], a\<lparr>sleds := (sleds a)(p := ucast st)\<rparr>)"
| "spec_op ch (ResetSpi c) a = ([], a)"

fun run_op :: "env \<Rightarrow> op \<Rightarrow> wc \<Rightarrow> u8 list \<times> wc" where
  "run_op e (SetReg c r v) s = ([], wcfxs_setreg c r v s)"
| "run_op e (GetReg c r) s = (case wcfxs_getreg e c r s of (x, s) \<Rightarrow> ([x], s))"
| "run_op e (SetLed p st) s = ([], wcfxs_set_led p st s)"
| "run_op e (ResetSpi c) s = ([], reset_spi c s)"

fun runs :: "('o \<Rightarrow> 's \<Rightarrow> 'v list \<times> 's) \<Rightarrow> 'o list \<Rightarrow> 's \<Rightarrow> 'v list \<times> 's" where
  "runs f [] s = ([], s)"
| "runs f (x # xs) s = (case f x s of (v, s) \<Rightarrow> case runs f xs s of (vs, s) \<Rightarrow> (v @ vs, s))"

definition sim :: "'x chip_if \<Rightarrow> 'x board_st \<Rightarrow> wc \<Rightarrow> 'x spec_st \<Rightarrow> bool" where
  "sim ch b0 s a \<longleftrightarrow> coherent ch b0 s \<and>
     (\<forall>i<2. latch (board_of ch b0 (bus s)) i = ucast (led s i)) \<and>
     chips (board_of ch b0 (bus s)) = schips a \<and>
     (\<forall>p\<in>{1..8}. sleds a p = led_bits (latch (board_of ch b0 (bus s)) (led_board p)) (led_pos p))"

lemma setcard_coherent:
  assumes "coherent ch b0 s" "c < 8"
  shows "coherent ch b0 (wcfxs_setcard c s)" "chips (board_of ch b0 (bus (wcfxs_setcard c s))) = chips (board_of ch b0 (bus s))"
    "latch (board_of ch b0 (bus (wcfxs_setcard c s))) = latch (board_of ch b0 (bus s))"
proof -
  obtain m where m: "board_of ch b0 (bus (wcfxs_setcard c s)) = (board_of ch b0 (bus s))\<lparr>mux := m\<rparr>"
    "mux_card m = Some c" "mux_latch m = None" using setcard_board(1)[OF assms] by blast
  then show "chips (board_of ch b0 (bus (wcfxs_setcard c s))) = chips (board_of ch b0 (bus s))"
    "latch (board_of ch b0 (bus (wcfxs_setcard c s))) = latch (board_of ch b0 (bus s))" by simp_all
  show "coherent ch b0 (wcfxs_setcard c s)"
    using coherentD[OF assms(1)] assms(2) setcard_board(2,3)[OF assms] m by (auto intro!: coherentI)
qed

lemma sim_led:
  assumes "sim ch b0 s a" "1 \<le> p" "p \<le> 8" "unat st < 4"
  shows "sim ch b0 (wcfxs_set_led p st s) (a\<lparr>sleds := (sleds a)(p := ucast st)\<rparr>)"
proof -
  have c: "coherent ch b0 s" "\<And>i. i < 2 \<Longrightarrow> latch (board_of ch b0 (bus s)) i = ucast (led s i)"
      "chips (board_of ch b0 (bus s)) = schips a"
      "\<And>q. q \<in> {1..8} \<Longrightarrow> sleds a q = led_bits (latch (board_of ch b0 (bus s)) (led_board q)) (led_pos q)"
    using assms(1) by (auto simp: sim_def)
  note n = set_led_board[OF c(1), of p st]
  have lb: "led_board q < 2" for q by (simp add: led_board_def)
  have leds: "(if q = p then ucast st else sleds a q) =
      led_bits (latch (board_of ch b0 (bus (wcfxs_set_led p st s))) (led_board q)) (led_pos q)" if q: "q \<in> {1..8}" for q
  proof (cases "led_board q = led_board p")
    case True
    then have "led_pos p = led_pos q \<longleftrightarrow> q = p" using led_place_inj[of p q] q assms(2,3) by auto
    then show ?thesis
      using led_bits_update[OF led_pos_lt[OF assms(2,3)] led_pos_lt[of q] assms(4), of "led s (led_board p)"] q c(2)[OF lb] c(4)[OF q]
      by (simp add: n(1,2) True)
  next
    case False
    then show ?thesis using c(4)[OF q] by (auto simp: n(1,2))
  qed
  show ?thesis unfolding sim_def using c n leds by auto
qed

lemma sim_step:
  assumes "sim ch b0 s a" "on_board e ch b0" "op_ok x"
  shows "fst (run_op e x s) = fst (spec_op ch x a) \<and> sim ch b0 (snd (run_op e x s)) (snd (spec_op ch x a))"
proof (cases x)
  case (SetReg c r v)
  then show ?thesis using assms setreg_board[of ch b0 s c r v] by (simp add: sim_def)
next
  case (GetReg c r)
  then show ?thesis using assms getreg_board[of ch b0 s c e r] by (simp add: sim_def split_beta)
next
  case (SetLed p st)
  then show ?thesis using assms sim_led[OF assms(1), of p st] by simp
next
  case (ResetSpi c)
  then show ?thesis using assms setcard_coherent[of ch b0 s c] setcard_board(4)[of ch b0 s c]
    by (simp add: sim_def reset_spi_def)
qed

lemma sim_runs:
  "sim ch b0 s a \<Longrightarrow> on_board e ch b0 \<Longrightarrow> list_all op_ok xs \<Longrightarrow>
   fst (runs (run_op e) xs s) = fst (runs (spec_op ch) xs a) \<and> sim ch b0 (snd (runs (run_op e) xs s)) (snd (runs (spec_op ch) xs a))"
proof (induction xs arbitrary: s a)
  case (Cons x xs)
  then show ?case
    using sim_step[of ch b0 s a e x] Cons.IH[of "snd (run_op e x s)" "snd (spec_op ch x a)"] by (simp add: split_beta)
qed simp

section \<open>Port detection\<close>

definition classify :: "(u8 \<Rightarrow> u8) board_st \<Rightarrow> nat \<Rightarrow> port_type_t" where
  "classify b i = (case kind b i of
       MOD_TYPE_FXO \<Rightarrow> if chips b i 2 = 3 then OPort else NoPort
     | MOD_TYPE_FXS \<Rightarrow> if chips b i 0 = 5 \<or> chips b i 1 AND 0xC0 = 0x80 then SPort else NoPort)"

text \<open>Probing an FXS card with the FXO protocol writes its register \<open>0x60\<close> by accident;
  nothing else changes.\<close>

definition probed :: "(u8 \<Rightarrow> u8) board_st \<Rightarrow> (u8 \<Rightarrow> u8) board_st \<Rightarrow> bool" where
  "probed b b' \<longleftrightarrow> kind b' = kind b \<and> (\<forall>c. phase_of b' c = Idle) \<and> (\<forall>c a. a \<noteq> 0x60 \<longrightarrow> chips b' c a = chips b c a)"

lemma probed_trans: "probed a b \<Longrightarrow> probed b c \<Longrightarrow> probed a c"
  by (simp add: probed_def)

lemma probed_classify: "probed b b' \<Longrightarrow> classify b' i = classify b i"
  by (simp add: probed_def classify_def split: modtype_t.splits)

lemma port_code_card: "i < 8 \<Longrightarrow> mux_card (port_code (Suc i)) = Some i \<and> mux_latch (port_code (Suc i)) = None"
  unfolding lt_8 by (elim insertE) (simp_all add: port_code_def mux_card_def mux_latch_def)

lemma bus_reset_bus [simp]: "bus (bus_reset n s) = bus s @ [Bus_reset n]"
  by (simp add: bus_reset_def)

lemma read_fxo_probe:
  assumes "on_board e plain b0" "i < 8"
  shows "probed (board_of plain b0 (bus s)) (board_of plain b0 (bus (snd (fx_read_fxo e (Suc i) (bus_reset n s)))))"
    "fst (fx_read_fxo e (Suc i) (bus_reset n s)) =
      (if kind (board_of plain b0 (bus s)) i = MOD_TYPE_FXO then chips (board_of plain b0 (bus s)) i 2 else 0xff)"
  using assms port_code_card[OF assms(2)]
  by (cases "kind (board_of plain b0 (bus s)) i"; auto simp: fx_read_fxo_def probed_def hw on_board_def board_val_def plain_def)+

lemma read_fxs_probe:
  assumes "on_board e plain b0" "i < 8" "bits = 0 \<or> bits = 1"
  shows "probed (board_of plain b0 (bus s)) (board_of plain b0 (bus (snd (fx_read_fxs e (Suc i) bits (bus_reset n s)))))"
    "fst (fx_read_fxs e (Suc i) bits (bus_reset n s)) =
      (if kind (board_of plain b0 (bus s)) i = MOD_TYPE_FXS then chips (board_of plain b0 (bus s)) i bits else 0xff)"
proof -
  have b: "bit (bits OR 0x80) 7" "(bits OR 0x80) AND 0x7f = bits" using assms(3) and_7f_bit7(3,4)[of bits] by auto
  have n: "bits OR 0x80 \<noteq> 0x20" "bits OR 0x80 \<noteq> 0x60" using assms(3) by auto
  show "probed (board_of plain b0 (bus s)) (board_of plain b0 (bus (snd (fx_read_fxs e (Suc i) bits (bus_reset n s)))))"
    "fst (fx_read_fxs e (Suc i) bits (bus_reset n s)) =
      (if kind (board_of plain b0 (bus s)) i = MOD_TYPE_FXS then chips (board_of plain b0 (bus s)) i bits else 0xff)"
    using assms(1) port_code_card[OF assms(2)] b n
    by (cases "kind (board_of plain b0 (bus s)) i"; auto simp: fx_read_fxs_def probed_def hw on_board_def board_val_def plain_def)+
qed

lemma set_led_probed:
  "probed b (board_of plain b0 (bus s)) \<Longrightarrow> probed b (board_of plain b0 (bus (fx_set_led p st s)))"
  by (simp add: fx_set_led_def Let_def hw probed_def mux_latch_def)

lemma detect_port_board:
  assumes "on_board e plain b0" "i < 8"
  shows "probed (board_of plain b0 (bus s)) (board_of plain b0 (bus (snd (detect_port e n i s))))"
    "fst (detect_port e n i s) = classify (board_of plain b0 (bus s)) i"
proof -
  let ?B = "\<lambda>s. board_of plain b0 (bus s)"
  let ?s1 = "snd (fx_read_fxo e (Suc i) (bus_reset n s))"
  let ?s2 = "snd (fx_read_fxs e (Suc i) 0 (bus_reset n ?s1))"
  let ?s3 = "snd (fx_read_fxs e (Suc i) 1 (bus_reset n ?s2))"
  note r1 = read_fxo_probe[OF assms, where s = s and n = n] and r2 = read_fxs_probe[OF assms, where bits = 0 and s = ?s1 and n = n]
    and r3 = read_fxs_probe[OF assms, where bits = 1 and s = ?s2 and n = n]
  have p1: "probed (?B s) (?B ?s1)" using r1 by simp
  have p2: "probed (?B s) (?B ?s2)" using r2(1) probed_trans[OF p1] by simp
  have p3: "probed (?B s) (?B ?s3)" using r3(1) probed_trans[OF p2] by simp
  show "probed (?B s) (?B (snd (detect_port e n i s)))"
    using set_led_probed[OF p1] set_led_probed[OF p2] set_led_probed[OF p3] p3
    by (simp add: detect_port_def Let_def split_beta)
  have k: "kind (?B ?s1) i = kind (?B s) i" "kind (?B ?s2) i = kind (?B s) i"
    "chips (?B ?s1) i 0 = chips (?B s) i 0" "chips (?B ?s2) i 1 = chips (?B s) i 1"
    using p1 p2 by (simp_all add: probed_def)
  show "fst (detect_port e n i s) = classify (?B s) i"
    using r1(2) r2(2) r3(2) k
    by (cases "kind (?B s) i") (simp_all add: detect_port_def Let_def split_beta classify_def)
qed

lemma detect_from_board:
  "on_board e plain b0 \<Longrightarrow> (\<And>i. i \<in> set is \<Longrightarrow> i < 8) \<Longrightarrow> is \<noteq> [] \<Longrightarrow>
   fst (fx_detect_from e n is s) = map (classify (board_of plain b0 (bus s))) is \<and>
   probed (board_of plain b0 (bus s)) (board_of plain b0 (bus (snd (fx_detect_from e n is s))))"
proof (induction "is" arbitrary: s)
  case (Cons i "is")
  note d = detect_port_board[OF Cons.prems(1), where i = i and s = s and n = n]
  have i: "i < 8" using Cons.prems(2) by simp
  show ?case
  proof (cases "is = []")
    case True
    then show ?thesis using d i by (simp add: split_beta)
  next
    case False
    have "fst (fx_detect_from e n is (snd (detect_port e n i s))) =
        map (classify (board_of plain b0 (bus (snd (detect_port e n i s))))) is \<and>
        probed (board_of plain b0 (bus (snd (detect_port e n i s))))
          (board_of plain b0 (bus (snd (fx_detect_from e n is (snd (detect_port e n i s))))))"
      using Cons.IH[of "snd (detect_port e n i s)"] Cons.prems False by simp
    then show ?thesis
      using d(1,2)[OF i] probed_classify[OF d(1)[OF i]] probed_trans[OF d(1)[OF i]]
      by (simp add: split_beta fun_eq_iff)
  qed
qed simp

section \<open>Chips behind a bus as an interface\<close>

text \<open>What the rest of the driver relies on: \<open>n\<close> independent chips, each written and read
  through its registers.\<close>

locale chip_bus =
  fixes setr :: "nat \<Rightarrow> u8 \<Rightarrow> u8 \<Rightarrow> 's \<Rightarrow> 's"
    and getr :: "nat \<Rightarrow> u8 \<Rightarrow> 's \<Rightarrow> u8 \<times> 's"
    and ok :: "'s \<Rightarrow> bool"
    and st :: "'s \<Rightarrow> nat \<Rightarrow> 'x"
    and ch :: "'x chip_if"
    and n :: nat
  assumes setr_ok: "ok s \<Longrightarrow> c < n \<Longrightarrow> ok (setr c r v s)"
    and setr_st: "ok s \<Longrightarrow> c < n \<Longrightarrow> st (setr c r v s) = (st s)(c := cwrite ch (r AND 0x7f) v (st s c))"
    and getr_ok: "ok s \<Longrightarrow> c < n \<Longrightarrow> ok (snd (getr c r s))"
    and getr_st: "ok s \<Longrightarrow> c < n \<Longrightarrow> st (snd (getr c r s)) = (st s)(c := cfetch ch (r AND 0x7f) (st s c))"
    and getr_val: "ok s \<Longrightarrow> c < n \<Longrightarrow> fst (getr c r s) = cread ch (r AND 0x7f) (st s c)"
begin

text \<open>Writing to one chip does not show on another.\<close>

lemma set_get_other:
  assumes "ok s" "c < n" "d < n" "c \<noteq> d"
  shows "fst (getr d q (setr c r v s)) = fst (getr d q s)"
  using assms by (simp add: getr_val setr_ok setr_st)

lemma set_get_same:
  assumes "ok s" "c < n"
  shows "fst (getr c q (setr c r v s)) = cread ch (q AND 0x7f) (cwrite ch (r AND 0x7f) v (st s c))"
  using assms by (simp add: getr_val setr_ok setr_st)

end

text \<open>With plain chips these are register files.\<close>

locale register_file = chip_bus setr getr ok st plain n for setr getr ok st n
begin

lemma set_get:
  assumes "ok s" "c < n" "d < n"
  shows "fst (getr d q (setr c r v s)) = (if d = c \<and> q AND 0x7f = r AND 0x7f then v else fst (getr d q s))"
  using assms set_get_other[of s c d] set_get_same[of s c] by (cases "c = d") (auto simp: getr_val plain_def)

lemma get_pure: "ok s \<Longrightarrow> c < n \<Longrightarrow> st (snd (getr c r s)) = st s"
  by (simp add: getr_st plain_def)

end

interpretation cardbus: chip_bus wcfxs_setreg "wcfxs_getreg e"
    "\<lambda>s. on_board e ch b0 \<and> coherent ch b0 s" "\<lambda>s. chips (board_of ch b0 (bus s))" ch 8 for e ch b0
  by unfold_locales (auto simp: setreg_board getreg_board)

interpretation cardregs: register_file wcfxs_setreg "wcfxs_getreg e"
    "\<lambda>s. on_board e plain b0 \<and> coherent plain b0 s" "\<lambda>s. chips (board_of plain b0 (bus s))" 8 for e b0
  by unfold_locales

section \<open>Properties\<close>

definition demo_board :: "(u8 \<Rightarrow> u8) board_st" where
  "demo_board = \<lparr>mux = 0, kind = (\<lambda>c. if c = 1 then MOD_TYPE_FXO else MOD_TYPE_FXS), phase_of = (\<lambda>c. Idle),
     chips = (\<lambda>c a. if c = 0 \<and> a = 0 then 5 else if c = 1 \<and> a = 2 then 3 else if c = 6 \<and> a = 1 then 0x80 else 0),
     latch = (\<lambda>i. 0)\<rparr>"

definition demo_env :: env where
  "demo_env = \<lparr>rxv = (\<lambda>es. board_val plain (board_of plain demo_board es)), clk = (\<lambda>n. of_nat n)\<rparr>"

definition demo_wc :: wc where
  "demo_wc = \<lparr>bus = [], ticks = 0, zt = [], led = (\<lambda>i. 0), curcard = -1, cards = 8, cardflag = 0xff, usecount = 0,
     dead = False, intcount = 0, wflags = (\<lambda>i. 0), modtype = (\<lambda>c. if c = 1 then MOD_TYPE_FXO else MOD_TYPE_FXS),
     mem = (\<lambda>i. 0), rchunk = (\<lambda>c i. 0), wchunk = (\<lambda>c i. 0)\<rparr>"

definition demo_spec :: "(u8 \<Rightarrow> u8) spec_st" where
  "demo_spec = \<lparr>schips = chips demo_board, sleds = (\<lambda>p. 0)\<rparr>"

lemma demo_on_board: "on_board demo_env plain demo_board"
  by (simp add: on_board_def demo_env_def)

lemma demo_coherent: "coherent plain demo_board demo_wc"
  by (simp add: coherent_def demo_wc_def demo_board_def hw)

lemma demo_sim: "sim plain demo_board demo_wc demo_spec"
  using demo_coherent by (simp add: sim_def demo_wc_def demo_board_def demo_spec_def hw led_bits_def)

text \<open>
  C4.  The driver's register and LED access implements eight independent line
  chips and eight LEDs.  From a coherent start, any sequence of register writes,
  register reads and LED changes over cards 0 to 7 and ports 1 to 8, with all the
  card-select traffic the driver saves by caching the current card and the LED
  latch it shares the data port with, returns exactly the values the addressed
  chips give, whatever their registers do, and leaves the hardware in exactly the
  state those operations lead to.
\<close>

theorem register_file_refines:
  assumes "sim ch b0 s a" and "on_board e ch b0" and "list_all op_ok xs"
  shows "fst (runs (run_op e) xs s) = fst (runs (spec_op ch) xs a) \<and>
    sim ch b0 (snd (runs (run_op e) xs s)) (snd (runs (spec_op ch) xs a))"
  using sim_runs[OF assms] .

theorem register_file_refines_witness:
  "fst (runs (run_op demo_env) [SetReg 4 64 7, SetLed 5 1, GetReg 4 64, GetReg 1 2] demo_wc) = [7, 3]"
proof -
  have "list_all op_ok [SetReg 4 64 7, SetLed 5 1, GetReg 4 64, GetReg 1 2]" by simp
  moreover have "fst (runs (spec_op plain) [SetReg 4 64 7, SetLed 5 1, GetReg 4 64, GetReg 1 2] demo_spec) = [7, 3]"
    by code_simp
  ultimately show ?thesis using register_file_refines[OF demo_sim demo_on_board] by metis
qed

text \<open>
  A register write followed by a read, on any two cards and registers, LED
  changes apart: the read gives the value written when card and register (modulo
  128) agree, and what it would have given before otherwise.
\<close>

lemma setreg_getreg:
  assumes "on_board e plain b0" and "coherent plain b0 s" and "c < 8" and "d < 8"
  shows "fst (wcfxs_getreg e d q (wcfxs_setreg c r v s)) =
    (if d = c \<and> q AND 0x7f = r AND 0x7f then v else fst (wcfxs_getreg e d q s))"
  using cardregs.set_get[OF _ assms(3,4)] assms(1,2) by blast

text \<open>
  C34.  \<open>fx_auto_detect\<close> names every port correctly: with every card answering from
  its registers, a port is \<open>O\<close> exactly when it holds an FXO card whose register 2
  reads 3, and \<open>S\<close> exactly when it holds an FXS card whose register 0 reads 5 or
  whose register 1 identifies a Si3215, although each card is first addressed with
  the other chip's protocol.
\<close>

theorem fx_auto_detect_correct:
  assumes "on_board e plain b0"
  shows "fst (fx_auto_detect e n s) = map (classify (board_of plain b0 (bus s))) [0..<8]"
  using detect_from_board[OF assms, of "[0..<8]" n s] by (simp add: fx_auto_detect_def)

theorem fx_auto_detect_correct_witness:
  "fst (fx_auto_detect demo_env 4 demo_wc) = [SPort, OPort, NoPort, NoPort, NoPort, NoPort, SPort, NoPort]"
proof -
  have "map (classify (board_of plain demo_board (bus demo_wc))) [0..<8] =
      [SPort, OPort, NoPort, NoPort, NoPort, NoPort, SPort, NoPort]" by code_simp
  then show ?thesis using fx_auto_detect_correct[OF demo_on_board] by metis
qed

end
