(* ===== verification/Wcfxs_Indirect.thy ===== *)
theory Wcfxs_Indirect
  imports Wcfxs_Regs
begin

text \<open>
  The indirect registers of the ProSLIC (Si3210/Si3215) in \<open>src/src/wcfxs.c\<close>: the
  table of initial values, address translation for the Si3215, the bounded wait for
  the access window, write, read, initialisation and verification.  Register
  numbers come from \<open>proslic.h\<close>, which is not in the repository, and are fields of
  the parameter record, with the module parameters.

  The second part is the chip behind it: writing \<open>IAA\<close> after \<open>IDA_LO\<close>/\<open>IDA_HI\<close> stores the
  pair, writing \<open>IAA\<close> alone fetches; for a number of status reads afterwards the chip
  is busy and accesses are lost, which is what the wait is for.
\<close>

section \<open>Parameters and table\<close>

record params =
  IDA_LO :: u8
  IDA_HI :: u8
  IAA :: u8
  I_STATUS :: u8
  LOOP_I_LIMIT :: u8
  HZ :: u32
  debug :: int
  robust :: bool
  timingonly :: bool
  lowpower :: int
  boostringer :: bool
  opermode :: nat
  fxshonormode :: bool
  loopback :: bool
  loopcurrent :: int

record alpha =
  address :: u8
  altaddr :: u8
  initial :: u16

definition ireg_entry :: "u8 \<Rightarrow> u8 \<Rightarrow> u16 \<Rightarrow> alpha" where
  "ireg_entry a b i = \<lparr>address = a, altaddr = b, initial = i\<rparr>"

text \<open>The names of the registers are only printed and left out.\<close>

definition indirect_regs :: "alpha list" where
  "indirect_regs =
    [ireg_entry 0 255 0x55C2, ireg_entry 1 255 0x51E6, ireg_entry 2 255 0x4B85, ireg_entry 3 255 0x4937,
     ireg_entry 4 255 0x3333, ireg_entry 5 255 0x0202, ireg_entry 6 255 0x0202, ireg_entry 7 255 0x0198,
     ireg_entry 8 255 0x0198, ireg_entry 9 255 0x0611, ireg_entry 10 255 0x0202, ireg_entry 11 255 0x00E5,
     ireg_entry 12 255 0x0A1C, ireg_entry 13 0 0x7B30, ireg_entry 14 1 0x0063, ireg_entry 15 2 0x0000,
     ireg_entry 16 3 0x7870, ireg_entry 17 4 0x007D, ireg_entry 18 5 0x0000, ireg_entry 19 6 0x0000,
     ireg_entry 20 7 0x7EF0, ireg_entry 21 8 0x0160, ireg_entry 22 9 0x0000, ireg_entry 23 255 0x2000,
     ireg_entry 24 255 0x2000, ireg_entry 25 255 0x0000, ireg_entry 26 13 0x2000, ireg_entry 27 14 0x4000,
     ireg_entry 28 15 0x1000, ireg_entry 29 16 0x3600, ireg_entry 30 17 0x1000, ireg_entry 31 18 0x0200,
     ireg_entry 32 19 0x07C0, ireg_entry 33 20 0x2600, ireg_entry 34 21 0x1B80, ireg_entry 35 22 0x8000,
     ireg_entry 36 23 0x0320, ireg_entry 37 24 0x008C, ireg_entry 38 25 0x0100, ireg_entry 39 26 0x0010,
     ireg_entry 40 27 0x0C00, ireg_entry 41 64 0x0C00, ireg_entry 42 255 0x1000, ireg_entry 43 66 0x1000]"

section \<open>Operations\<close>

fun wait_loop :: "env \<Rightarrow> params \<Rightarrow> nat \<Rightarrow> nat \<Rightarrow> wc \<Rightarrow> wc" where
  "wait_loop e k c 0 s = s"
| "wait_loop e k c (Suc n) s =
     (case wcfxs_getreg e c (I_STATUS k) s of (data, s) \<Rightarrow> if data = 0 then s else wait_loop e k c n s)"

text \<open>The result is 0 on every path, time-out included.\<close>

definition wait_access :: "env \<Rightarrow> params \<Rightarrow> nat \<Rightarrow> wc \<Rightarrow> int \<times> wc" where
  "wait_access e k c s = (0, wait_loop e k c 6000 s)"

definition translate_3215 :: "u8 \<Rightarrow> u8" where
  "translate_3215 addr =
     (case find_idx (\<lambda>a. address a = addr) indirect_regs of
        None \<Rightarrow> addr | Some x \<Rightarrow> altaddr (indirect_regs ! x))"

definition FLAG_3215 :: u32 where "FLAG_3215 = 1"

definition is_3215 :: "wc \<Rightarrow> nat \<Rightarrow> bool" where
  "is_3215 s c \<longleftrightarrow> wflags s c AND FLAG_3215 \<noteq> 0"

definition wcfxs_proslic_setreg_indirect ::
    "env \<Rightarrow> params \<Rightarrow> nat \<Rightarrow> u8 \<Rightarrow> u16 \<Rightarrow> wc \<Rightarrow> int \<times> wc" where
  "wcfxs_proslic_setreg_indirect e k c addr data s =
     (let addr = (if is_3215 s c then translate_3215 addr else addr)
      in if is_3215 s c \<and> addr = 255 then (0, s)
         else let (w, s) = wait_access e k c s
              in if w = 0
                 then (0, wcfxs_setreg c (IAA k) addr
                        (wcfxs_setreg c (IDA_HI k) (ucast (drop_bit 8 (data AND 0xFF00)))
                          (wcfxs_setreg c (IDA_LO k) (ucast (data AND 0xFF)) s)))
                 else (-1, s))"

definition wcfxs_proslic_getreg_indirect :: "env \<Rightarrow> params \<Rightarrow> nat \<Rightarrow> u8 \<Rightarrow> wc \<Rightarrow> int \<times> wc" where
  "wcfxs_proslic_getreg_indirect e k c addr s =
     (let addr = (if is_3215 s c then translate_3215 addr else addr)
      in if is_3215 s c \<and> addr = 255 then (0, s)
         else let (w, s) = wait_access e k c s
              in if w = 0
                 then let s = wcfxs_setreg c (IAA k) addr s; (w, s) = wait_access e k c s
                      in if w = 0
                         then let (data1, s) = wcfxs_getreg e c (IDA_LO k) s;
                                  (data2, s) = wcfxs_getreg e c (IDA_HI k) s
                              in (uint (ucast data1 OR push_bit 8 (ucast data2) :: u32), s)
                         else (-1, s)
                 else (-1, s))"

fun init_indirect_from :: "env \<Rightarrow> params \<Rightarrow> nat \<Rightarrow> alpha list \<Rightarrow> wc \<Rightarrow> int \<times> wc" where
  "init_indirect_from e k c [] s = (0, s)"
| "init_indirect_from e k c (a # as) s =
     (case wcfxs_proslic_setreg_indirect e k c (address a) (initial a) s of
        (r, s) \<Rightarrow> if r \<noteq> 0 then (-1, s) else init_indirect_from e k c as s)"

definition wcfxs_proslic_init_indirect_regs :: "env \<Rightarrow> params \<Rightarrow> nat \<Rightarrow> wc \<Rightarrow> int \<times> wc" where
  "wcfxs_proslic_init_indirect_regs e k c s = init_indirect_from e k c indirect_regs s"

text \<open>The first component is \<open>None\<close> for the early return, else the value of \<open>passed\<close>.\<close>

fun verify_indirect_from :: "env \<Rightarrow> params \<Rightarrow> nat \<Rightarrow> alpha list \<Rightarrow> bool \<Rightarrow> wc \<Rightarrow> bool option \<times> wc" where
  "verify_indirect_from e k c [] passed s = (Some passed, s)"
| "verify_indirect_from e k c (a # as) passed s =
     (case wcfxs_proslic_getreg_indirect e k c (address a) s of
        (j, s) \<Rightarrow>
          if j < 0 then (None, s)
          else verify_indirect_from e k c as
                 (if j \<noteq> uint (initial a) \<and> (\<not> is_3215 s c \<or> altaddr a \<noteq> 255) then False else passed) s)"

definition wcfxs_proslic_verify_indirect_regs :: "env \<Rightarrow> params \<Rightarrow> nat \<Rightarrow> wc \<Rightarrow> int \<times> wc" where
  "wcfxs_proslic_verify_indirect_regs e k c s =
     (case verify_indirect_from e k c indirect_regs True s of
        (None, s) \<Rightarrow> (-1, s) | (Some p, s) \<Rightarrow> (if p then 0 else -1, s))"

section \<open>The chip\<close>

record si3210 =
  dreg :: "u8 \<Rightarrow> u8"
  ireg :: "u8 \<Rightarrow> u16"
  pend :: bool
  busy :: nat

text \<open>\<open>L\<close> status reads pass before an indirect access is complete.\<close>

definition si_write :: "params \<Rightarrow> nat \<Rightarrow> u8 \<Rightarrow> u8 \<Rightarrow> si3210 \<Rightarrow> si3210" where
  "si_write k L a v x =
     (if a = IDA_LO k \<or> a = IDA_HI k
      then if busy x = 0 then x\<lparr>dreg := (dreg x)(a := v), pend := True\<rparr> else x
      else if a = IAA k
      then if busy x = 0
           then if pend x
                then x\<lparr>ireg := (ireg x)(v := ucast (dreg x (IDA_LO k)) OR push_bit 8 (ucast (dreg x (IDA_HI k)))),
                       pend := False, busy := L\<rparr>
                else x\<lparr>dreg := (dreg x)(IDA_LO k := ucast (ireg x v), IDA_HI k := ucast (drop_bit 8 (ireg x v))), busy := L\<rparr>
           else x
      else x\<lparr>dreg := (dreg x)(a := v)\<rparr>)"

definition si_read :: "params \<Rightarrow> u8 \<Rightarrow> si3210 \<Rightarrow> u8" where
  "si_read k a x =
     (if a = I_STATUS k then (if busy x = 0 then 0 else 1)
      else if (a = IDA_LO k \<or> a = IDA_HI k) \<and> busy x \<noteq> 0 then 0xff
      else dreg x a)"

definition si_fetch :: "params \<Rightarrow> u8 \<Rightarrow> si3210 \<Rightarrow> si3210" where
  "si_fetch k a x = (if a = I_STATUS k then x\<lparr>busy := busy x - 1\<rparr> else x)"

definition si3210_chip :: "params \<Rightarrow> nat \<Rightarrow> si3210 chip_if" where
  "si3210_chip k L = \<lparr>cwrite = si_write k L, cread = si_read k, cfetch = si_fetch k\<rparr>"

text \<open>The register numbers of \<open>proslic.h\<close> are distinct seven-bit numbers.\<close>

definition hdr_ok :: "params \<Rightarrow> bool" where
  "hdr_ok k \<longleftrightarrow> distinct [IDA_LO k, IDA_HI k, IAA k, I_STATUS k] \<and>
     IDA_LO k AND 0x7f = IDA_LO k \<and> IDA_HI k AND 0x7f = IDA_HI k \<and> IAA k AND 0x7f = IAA k \<and>
     I_STATUS k AND 0x7f = I_STATUS k"

text \<open>On a board of such chips, with the one in \<open>c\<close> ready for an indirect access within the
  driver's patience.\<close>

definition si_ok :: "env \<Rightarrow> params \<Rightarrow> nat \<Rightarrow> si3210 board_st \<Rightarrow> nat \<Rightarrow> wc \<Rightarrow> bool" where
  "si_ok e k L b0 c s \<longleftrightarrow> hdr_ok k \<and> L < 6000 \<and> c < 8 \<and>
     on_board e (si3210_chip k L) b0 \<and> coherent (si3210_chip k L) b0 s \<and>
     busy (chips (board_of (si3210_chip k L) b0 (bus s)) c) \<le> L \<and> \<not> pend (chips (board_of (si3210_chip k L) b0 (bus s)) c)"

abbreviation si_st :: "params \<Rightarrow> nat \<Rightarrow> si3210 board_st \<Rightarrow> wc \<Rightarrow> nat \<Rightarrow> si3210" where
  "si_st k L b0 s \<equiv> chips (board_of (si3210_chip k L) b0 (bus s))"

section \<open>Frame facts\<close>

lemma regs_frame [simp]:
  "wflags (wcfxs_setreg c r v s) = wflags s" "wflags (snd (wcfxs_getreg e c r s)) = wflags s"
  "mem (wcfxs_setreg c r v s) = mem s" "mem (snd (wcfxs_getreg e c r s)) = mem s"
  "zt (wcfxs_setreg c r v s) = zt s" "zt (snd (wcfxs_getreg e c r s)) = zt s"
  "ticks (wcfxs_setreg c r v s) = ticks s" "ticks (snd (wcfxs_getreg e c r s)) = ticks s"
  "cardflag (wcfxs_setreg c r v s) = cardflag s" "cardflag (snd (wcfxs_getreg e c r s)) = cardflag s"
  "cards (wcfxs_setreg c r v s) = cards s" "cards (snd (wcfxs_getreg e c r s)) = cards s"
  "modtype (wcfxs_setreg c r v s) = modtype s" "modtype (snd (wcfxs_getreg e c r s)) = modtype s"
  by (simp_all add: wcfxs_setreg_def wcfxs_getreg_def wcfxs_setcard_def tx_def rx_def Let_def)

lemma wait_loop_frame [simp]:
  "wflags (wait_loop e k c n s) = wflags s" "mem (wait_loop e k c n s) = mem s" "zt (wait_loop e k c n s) = zt s"
  "ticks (wait_loop e k c n s) = ticks s" "modtype (wait_loop e k c n s) = modtype s"
  by (induction n arbitrary: s) (simp_all add: split_beta)

lemma setreg_indirect_frame [simp]:
  "wflags (snd (wcfxs_proslic_setreg_indirect e k c a d s)) = wflags s"
  "mem (snd (wcfxs_proslic_setreg_indirect e k c a d s)) = mem s"
  "zt (snd (wcfxs_proslic_setreg_indirect e k c a d s)) = zt s"
  "ticks (snd (wcfxs_proslic_setreg_indirect e k c a d s)) = ticks s"
  by (simp_all add: wcfxs_proslic_setreg_indirect_def wait_access_def Let_def)

lemma getreg_indirect_frame [simp]:
  "wflags (snd (wcfxs_proslic_getreg_indirect e k c a s)) = wflags s"
  "mem (snd (wcfxs_proslic_getreg_indirect e k c a s)) = mem s"
  "zt (snd (wcfxs_proslic_getreg_indirect e k c a s)) = zt s"
  "ticks (snd (wcfxs_proslic_getreg_indirect e k c a s)) = ticks s"
  by (simp_all add: wcfxs_proslic_getreg_indirect_def wait_access_def Let_def split_beta)

text \<open>An indirect write never reports failure.\<close>

lemma setreg_indirect_zero [simp]: "fst (wcfxs_proslic_setreg_indirect e k c a d s) = 0"
  by (simp add: wcfxs_proslic_setreg_indirect_def wait_access_def Let_def)

section \<open>One access\<close>

lemma si_chip_simps [simp]:
  "cwrite (si3210_chip k L) = si_write k L" "cread (si3210_chip k L) = si_read k" "cfetch (si3210_chip k L) = si_fetch k"
  by (simp_all add: si3210_chip_def)

text \<open>Register access on the board of such chips.\<close>

lemma si_setreg:
  assumes "on_board e (si3210_chip k L) b0" "coherent (si3210_chip k L) b0 s" "c < 8"
  shows "si_st k L b0 (wcfxs_setreg c r v s) = (si_st k L b0 s)(c := si_write k L (r AND 0x7f) v (si_st k L b0 s c))"
    "coherent (si3210_chip k L) b0 (wcfxs_setreg c r v s)"
  using cardbus.setr_st[of e "si3210_chip k L" b0 s c r v] cardbus.setr_ok[of e "si3210_chip k L" b0 s c r v] assms
  by auto

lemma si_getreg:
  assumes "on_board e (si3210_chip k L) b0" "coherent (si3210_chip k L) b0 s" "c < 8"
  shows "si_st k L b0 (snd (wcfxs_getreg e c r s)) = (si_st k L b0 s)(c := si_fetch k (r AND 0x7f) (si_st k L b0 s c))"
    "coherent (si3210_chip k L) b0 (snd (wcfxs_getreg e c r s))"
    "fst (wcfxs_getreg e c r s) = si_read k (r AND 0x7f) (si_st k L b0 s c)"
  using cardbus.getr_st[of e "si3210_chip k L" b0 s c r] cardbus.getr_ok[of e "si3210_chip k L" b0 s c r]
    cardbus.getr_val[of e "si3210_chip k L" b0 s c r] assms by auto

lemma wait_loop_done:
  assumes "on_board e (si3210_chip k L) b0" "hdr_ok k" "c < 8"
  shows "coherent (si3210_chip k L) b0 s \<Longrightarrow> busy (si_st k L b0 s c) < n \<Longrightarrow>
    si_st k L b0 (wait_loop e k c n s) = (si_st k L b0 s)(c := (si_st k L b0 s c)\<lparr>busy := 0\<rparr>) \<and>
    coherent (si3210_chip k L) b0 (wait_loop e k c n s)"
proof (induction n arbitrary: s)
  case (Suc n)
  have st: "I_STATUS k AND 0x7f = I_STATUS k" using assms(2) by (simp add: hdr_ok_def)
  let ?s = "snd (wcfxs_getreg e c (I_STATUS k) s)"
  note g = si_getreg[OF assms(1) Suc.prems(1) assms(3), of "I_STATUS k", unfolded st]
  show ?case
  proof (cases "busy (si_st k L b0 s c) = 0")
    case True
    then show ?thesis using g by (simp add: split_beta si_read_def si_fetch_def)
  next
    case False
    then have "busy (si_st k L b0 ?s c) < n" using Suc.prems(2) g(1) by (simp add: si_fetch_def)
    from Suc.IH[OF g(2) this] show ?thesis using False g(1,3) by (simp add: split_beta si_read_def si_fetch_def fun_eq_iff)
  qed
qed simp

lemma wait_access_done:
  assumes "si_ok e k L b0 c s"
  shows "si_st k L b0 (wait_loop e k c 6000 s) = (si_st k L b0 s)(c := (si_st k L b0 s c)\<lparr>busy := 0\<rparr>)"
    "coherent (si3210_chip k L) b0 (wait_loop e k c 6000 s)"
  using wait_loop_done[of e k L b0 c s 6000] assms by (auto simp: si_ok_def)

text \<open>Low and high byte of the data word, as the driver splits it and the chip joins it.\<close>

lemma join_split: "ucast (ucast (d AND 0xFF :: u16) :: u8) OR push_bit 8 (ucast (ucast (drop_bit 8 (d AND 0xFF00)) :: u8)) = d"
proof -
  have m: "(0xFF :: u16) = mask 8" "(0xFF00 :: u16) = push_bit 8 (mask 8)" by code_simp+
  show ?thesis unfolding m by (rule bit_word_eqI) (auto simp: bit_simps simp del: mask_numeral push_bit_numeral)
qed

text \<open>The address as the chip in \<open>c\<close> understands it, and whether it has the register.\<close>

definition chip_addr :: "wc \<Rightarrow> nat \<Rightarrow> u8 \<Rightarrow> u8" where
  "chip_addr s c a = (if is_3215 s c then translate_3215 a else a)"

definition has_ireg :: "wc \<Rightarrow> nat \<Rightarrow> u8 \<Rightarrow> bool" where
  "has_ireg s c a \<longleftrightarrow> \<not> (is_3215 s c \<and> translate_3215 a = 255)"

text \<open>What an indirect access leaves alone: the other cards, the direct registers apart from the
  data pair, and the driver's memory.\<close>

definition keeps :: "params \<Rightarrow> nat \<Rightarrow> si3210 board_st \<Rightarrow> nat \<Rightarrow> wc \<Rightarrow> wc \<Rightarrow> bool" where
  "keeps k L b0 c s s' \<longleftrightarrow> (\<forall>j. j \<noteq> c \<longrightarrow> si_st k L b0 s' j = si_st k L b0 s j) \<and>
     (\<forall>a. a \<noteq> IDA_LO k \<longrightarrow> a \<noteq> IDA_HI k \<longrightarrow> dreg (si_st k L b0 s' c) a = dreg (si_st k L b0 s c) a) \<and>
     mem s' = mem s \<and> wflags s' = wflags s"

lemma keeps_refl [simp]: "keeps k L b0 c s s"
  by (simp add: keeps_def)

lemma keeps_trans: "keeps k L b0 c s s' \<Longrightarrow> keeps k L b0 c s' s'' \<Longrightarrow> keeps k L b0 c s s''"
  by (simp add: keeps_def)

lemma keeps_is_3215: "keeps k L b0 c s s' \<Longrightarrow> is_3215 s' j = is_3215 s j"
  by (simp add: keeps_def is_3215_def)

lemma setreg_indirect_done:
  assumes "si_ok e k L b0 c s" "has_ireg s c a" "wcfxs_proslic_setreg_indirect e k c a d s = (r, s')"
  shows "r = 0" "si_ok e k L b0 c s'"
    "ireg (si_st k L b0 s' c) = (ireg (si_st k L b0 s c))(chip_addr s c a := d)"
    "keeps k L b0 c s s'"
proof -
  have h: "on_board e (si3210_chip k L) b0" "c < 8" "hdr_ok k" using assms(1) by (auto simp: si_ok_def)
  have n: "IDA_LO k AND 0x7f = IDA_LO k" "IDA_HI k AND 0x7f = IDA_HI k" "IAA k AND 0x7f = IAA k"
    "IDA_LO k \<noteq> IDA_HI k" "IAA k \<noteq> IDA_LO k" "IAA k \<noteq> IDA_HI k" using h(3) by (auto simp: hdr_ok_def)
  let ?w = "wait_loop e k c 6000 s"
  let ?s1 = "wcfxs_setreg c (IDA_LO k) (ucast (d AND 0xFF)) ?w"
  let ?s2 = "wcfxs_setreg c (IDA_HI k) (ucast (drop_bit 8 (d AND 0xFF00))) ?s1"
  let ?s3 = "wcfxs_setreg c (IAA k) (chip_addr s c a) ?s2"
  have run: "r = 0" "s' = ?s3"
    using assms(2,3) by (auto simp: wcfxs_proslic_setreg_indirect_def wait_access_def Let_def chip_addr_def
        has_ireg_def split: if_splits)
  note w = wait_access_done[OF assms(1)]
  note c1 = si_setreg[OF h(1) w(2) h(2), of "IDA_LO k" "ucast (d AND 0xFF)", unfolded n]
  note c2 = si_setreg[OF h(1) c1(2) h(2), of "IDA_HI k" "ucast (drop_bit 8 (d AND 0xFF00))", unfolded n]
  note c3 = si_setreg[OF h(1) c2(2) h(2), of "IAA k" "chip_addr s c a", unfolded n]
  show "r = 0" by (fact run)
  show "ireg (si_st k L b0 s' c) = (ireg (si_st k L b0 s c))(chip_addr s c a := d)"
    using c3(1) c2(1) c1(1) w(1) n(4-6) join_split[of d] by (simp add: run si_write_def)
  show "keeps k L b0 c s s'"
    using c3(1) c2(1) c1(1) w(1) n(4-6) by (simp add: run keeps_def si_write_def)
  show "si_ok e k L b0 c s'"
    using c3 c2(1) c1(1) w(1) n(4-6) assms(1) by (simp add: run si_write_def si_ok_def)
qed

lemma getreg_indirect_done:
  assumes "si_ok e k L b0 c s" "has_ireg s c a" "wcfxs_proslic_getreg_indirect e k c a s = (r, s')"
  shows "r = uint (ireg (si_st k L b0 s c) (chip_addr s c a))" "si_ok e k L b0 c s'"
    "ireg (si_st k L b0 s' c) = ireg (si_st k L b0 s c)"
    "keeps k L b0 c s s'"
proof -
  have h: "on_board e (si3210_chip k L) b0" "c < 8" "hdr_ok k" "L < 6000" using assms(1) by (auto simp: si_ok_def)
  have n: "IDA_LO k AND 0x7f = IDA_LO k" "IDA_HI k AND 0x7f = IDA_HI k" "IAA k AND 0x7f = IAA k"
    "IDA_LO k \<noteq> IDA_HI k" "IAA k \<noteq> IDA_LO k" "IAA k \<noteq> IDA_HI k" "I_STATUS k \<noteq> IDA_LO k" "I_STATUS k \<noteq> IDA_HI k"
    using h(3) by (auto simp: hdr_ok_def)
  let ?w = "wait_loop e k c 6000 s"
  let ?s1 = "wcfxs_setreg c (IAA k) (chip_addr s c a) ?w"
  let ?v = "wait_loop e k c 6000 ?s1"
  let ?s2 = "snd (wcfxs_getreg e c (IDA_LO k) ?v)"
  let ?s3 = "snd (wcfxs_getreg e c (IDA_HI k) ?s2)"
  have run: "s' = ?s3" "r = uint (ucast (fst (wcfxs_getreg e c (IDA_LO k) ?v)) OR
      push_bit 8 (ucast (fst (wcfxs_getreg e c (IDA_HI k) ?s2))) :: u32)"
    using assms(2,3) by (auto simp: wcfxs_proslic_getreg_indirect_def wait_access_def Let_def chip_addr_def
        has_ireg_def split_beta split: if_splits)
  note w = wait_access_done[OF assms(1)]
  note c1 = si_setreg[OF h(1) w(2) h(2), of "IAA k" "chip_addr s c a", unfolded n]
  have q: "\<not> pend (si_st k L b0 s c)" using assms(1) by (simp add: si_ok_def)
  let ?x = "ireg (si_st k L b0 s c) (chip_addr s c a)"
  have x1: "si_st k L b0 ?s1 = (si_st k L b0 s)(c := (si_st k L b0 s c)\<lparr>
      dreg := (dreg (si_st k L b0 s c))(IDA_LO k := ucast ?x, IDA_HI k := ucast (drop_bit 8 ?x)), busy := L\<rparr>)"
    using c1(1) w(1) q n(4-6) by (simp add: si_write_def)
  have "busy (si_st k L b0 ?s1 c) < 6000" using x1 h(4) by simp
  note v = wait_loop_done[OF h(1,3,2) c1(2) this]
  note g1 = si_getreg[OF h(1) conjunct2[OF v] h(2), of "IDA_LO k", unfolded n]
  note g2 = si_getreg[OF h(1) g1(2) h(2), of "IDA_HI k", unfolded n]
  have join: "ucast (ucast y :: u8) OR push_bit 8 (ucast (ucast (drop_bit 8 y) :: u8)) = (ucast y :: u32)" for y :: u16
    by (rule bit_word_eqI) (auto simp: bit_simps dest: bit_imp_le_length)
  have vals: "fst (wcfxs_getreg e c (IDA_LO k) ?v) = ucast ?x"
    "fst (wcfxs_getreg e c (IDA_HI k) ?s2) = ucast (drop_bit 8 ?x)"
    using g1(1,3) g2(3) conjunct1[OF v] x1 n(4,7,8) by (simp_all add: si_read_def si_fetch_def)
  show "r = uint ?x" unfolding run(2) vals join
    by (rule bit_eqI) (auto simp: bit_simps dest: bit_imp_le_length)
  have s3: "si_st k L b0 ?s3 = si_st k L b0 ?v"
    using g2(1) g1(1) n(7,8) by (simp add: si_fetch_def)
  show "ireg (si_st k L b0 s' c) = ireg (si_st k L b0 s c)"
    using s3 conjunct1[OF v] x1 by (simp add: run)
  show "keeps k L b0 c s s'"
    using s3 conjunct1[OF v] x1 by (simp add: run keeps_def)
  show "si_ok e k L b0 c s'"
    using s3 conjunct1[OF v] x1 g2(2) q assms(1) by (simp add: run si_ok_def)
qed

section \<open>Initialisation and verification\<close>

text \<open>Entries the chip has, under the address it uses.\<close>

definition has_entry :: "bool \<Rightarrow> alpha \<Rightarrow> bool" where
  "has_entry b a \<longleftrightarrow> \<not> (b \<and> altaddr a = 255)"

definition entry_addr :: "bool \<Rightarrow> alpha \<Rightarrow> u8" where
  "entry_addr b a = (if b then altaddr a else address a)"

lemma table_facts:
  "distinct (map (entry_addr b) (filter (has_entry b) indirect_regs))"
  "a \<in> set indirect_regs \<Longrightarrow> translate_3215 (address a) = altaddr a"
proof -
  have "distinct (map (entry_addr True) (filter (has_entry True) indirect_regs))"
    "distinct (map (entry_addr False) (filter (has_entry False) indirect_regs))" by code_simp+
  then show "distinct (map (entry_addr b) (filter (has_entry b) indirect_regs))" by (cases b) simp_all
  have "list_all (\<lambda>a. translate_3215 (address a) = altaddr a) indirect_regs" by code_simp
  then show "a \<in> set indirect_regs \<Longrightarrow> translate_3215 (address a) = altaddr a" by (simp add: list_all_iff)
qed

lemma table_access:
  assumes "a \<in> set indirect_regs"
  shows "has_ireg s c (address a) = has_entry (is_3215 s c) a" "chip_addr s c (address a) = entry_addr (is_3215 s c) a"
  using table_facts(2)[OF assms] by (simp_all add: has_ireg_def has_entry_def chip_addr_def entry_addr_def)

lemma indirect_skip:
  assumes "\<not> has_ireg s c a"
  shows "wcfxs_proslic_setreg_indirect e k c a d s = (0, s)" "wcfxs_proslic_getreg_indirect e k c a s = (0, s)"
  using assms by (simp_all add: has_ireg_def wcfxs_proslic_setreg_indirect_def wcfxs_proslic_getreg_indirect_def)

lemma is_3215_frame [simp]:
  "is_3215 (snd (wcfxs_proslic_setreg_indirect e k c a d s)) j = is_3215 s j"
  "is_3215 (snd (wcfxs_proslic_getreg_indirect e k c a s)) j = is_3215 s j"
  by (simp_all add: is_3215_def)

text \<open>After the loop every entry the chip has holds its initial value.\<close>

lemma init_from_done:
  "si_ok e k L b0 c s \<Longrightarrow> set as \<subseteq> set indirect_regs \<Longrightarrow>
   distinct (map (entry_addr (is_3215 s c)) (filter (has_entry (is_3215 s c)) as)) \<Longrightarrow>
   \<exists>s'. init_indirect_from e k c as s = (0, s') \<and> si_ok e k L b0 c s' \<and> keeps k L b0 c s s' \<and>
     (\<forall>a\<in>set as. has_entry (is_3215 s c) a \<longrightarrow> ireg (si_st k L b0 s' c) (entry_addr (is_3215 s c) a) = initial a) \<and>
     (\<forall>x. x \<notin> entry_addr (is_3215 s c) ` {a \<in> set as. has_entry (is_3215 s c) a} \<longrightarrow>
       ireg (si_st k L b0 s' c) x = ireg (si_st k L b0 s c) x)"
proof (induction as arbitrary: s)
  case (Cons a as)
  let ?b = "is_3215 s c"
  have a: "a \<in> set indirect_regs" using Cons.prems(2) by simp
  show ?case
  proof (cases "has_entry ?b a")
    case False
    then have "wcfxs_proslic_setreg_indirect e k c (address a) (initial a) s = (0, s)"
      using indirect_skip(1) table_access(1)[OF a] by blast
    moreover have "{x \<in> set (a # as). has_entry ?b x} = {x \<in> set as. has_entry ?b x}" using False by auto
    ultimately show ?thesis
      using Cons.IH[OF Cons.prems(1)] Cons.prems(2,3) False by (simp del: Collect_disj_eq)
  next
    case True
    obtain r s1 where s1: "wcfxs_proslic_setreg_indirect e k c (address a) (initial a) s = (r, s1)" by fastforce
    have "has_ireg s c (address a)" using True table_access(1)[OF a] by simp
    note d = setreg_indirect_done[OF Cons.prems(1) this s1, unfolded table_access(2)[OF a]]
    note f = keeps_is_3215[OF d(4), of c]
    have fresh: "entry_addr ?b a \<notin> entry_addr ?b ` {a \<in> set as. has_entry ?b a}"
      using Cons.prems(3) True by simp
    obtain s' where s': "init_indirect_from e k c as s1 = (0, s')" "si_ok e k L b0 c s'" "keeps k L b0 c s1 s'"
      "\<forall>a\<in>set as. has_entry ?b a \<longrightarrow> ireg (si_st k L b0 s' c) (entry_addr ?b a) = initial a"
      "\<forall>x. x \<notin> entry_addr ?b ` {a \<in> set as. has_entry ?b a} \<longrightarrow> ireg (si_st k L b0 s' c) x = ireg (si_st k L b0 s1 c) x"
      using Cons.IH[OF d(2)] Cons.prems(2,3) True unfolding f by auto
    have "ireg (si_st k L b0 s' c) (entry_addr ?b a) = initial a" using s'(5) fresh d(3) by simp
    moreover have "{x \<in> set (a # as). has_entry ?b x} = insert a {x \<in> set as. has_entry ?b x}" using True by auto
    ultimately show ?thesis
      using s1 d(1,3) s' keeps_trans[OF d(4) s'(3)] by (intro exI[of _ s']) (simp del: Collect_disj_eq)
  qed
qed simp

lemma verify_from_done:
  "si_ok e k L b0 c s \<Longrightarrow> set as \<subseteq> set indirect_regs \<Longrightarrow>
   (\<forall>a\<in>set as. has_entry (is_3215 s c) a \<longrightarrow> ireg (si_st k L b0 s c) (entry_addr (is_3215 s c) a) = initial a) \<Longrightarrow>
   \<exists>s'. verify_indirect_from e k c as p s = (Some p, s') \<and> si_ok e k L b0 c s' \<and> keeps k L b0 c s s' \<and>
     ireg (si_st k L b0 s' c) = ireg (si_st k L b0 s c)"
proof (induction as arbitrary: s)
  case (Cons a as)
  let ?b = "is_3215 s c"
  have a: "a \<in> set indirect_regs" using Cons.prems(2) by simp
  show ?case
  proof (cases "has_entry ?b a")
    case False
    then have "wcfxs_proslic_getreg_indirect e k c (address a) s = (0, s)"
      using indirect_skip(2) table_access(1)[OF a] by blast
    then show ?thesis using Cons.IH[OF Cons.prems(1)] Cons.prems(2,3) False by (auto simp: has_entry_def)
  next
    case True
    obtain r s1 where s1: "wcfxs_proslic_getreg_indirect e k c (address a) s = (r, s1)" by fastforce
    have "has_ireg s c (address a)" using True table_access(1)[OF a] by simp
    note d = getreg_indirect_done[OF Cons.prems(1) this s1, unfolded table_access(2)[OF a]]
    note f = keeps_is_3215[OF d(4), of c]
    have "r = uint (initial a)" using d(1) Cons.prems(3) True by simp
    then show ?thesis using Cons.IH[OF d(2)] Cons.prems(2,3) s1 d(3) f keeps_trans[OF d(4)] by fastforce
  qed
qed simp

lemma init_regs_done:
  assumes "si_ok e k L b0 c s"
  obtains s' where "wcfxs_proslic_init_indirect_regs e k c s = (0, s')" "si_ok e k L b0 c s'" "keeps k L b0 c s s'"
    "\<forall>a\<in>set indirect_regs. has_entry (is_3215 s c) a \<longrightarrow> ireg (si_st k L b0 s' c) (entry_addr (is_3215 s c) a) = initial a"
  using init_from_done[OF assms _ table_facts(1)] unfolding wcfxs_proslic_init_indirect_regs_def by blast

lemma verify_regs_done:
  assumes "si_ok e k L b0 c s"
    "\<forall>a\<in>set indirect_regs. has_entry (is_3215 s c) a \<longrightarrow> ireg (si_st k L b0 s c) (entry_addr (is_3215 s c) a) = initial a"
  obtains s' where "wcfxs_proslic_verify_indirect_regs e k c s = (0, s')" "si_ok e k L b0 c s'" "keeps k L b0 c s s'"
    "ireg (si_st k L b0 s' c) = ireg (si_st k L b0 s c)"
  using verify_from_done[OF assms(1) subset_refl assms(2), of True] unfolding wcfxs_proslic_verify_indirect_regs_def
  by force

section \<open>Following a card through a sequence of accesses\<close>

text \<open>What the card in \<open>c\<close> holds and what stays around it.  The data pair of the indirect
  access is not part of the view.\<close>

record cview =
  v3215 :: bool
  vmem :: "nat \<Rightarrow> u32"
  vd :: "u8 \<Rightarrow> u8"
  vi :: "u8 \<Rightarrow> u16"
  vothers :: "nat \<Rightarrow> si3210"

definition special :: "params \<Rightarrow> u8 set" where
  "special k = {IDA_LO k, IDA_HI k, IAA k, I_STATUS k}"

definition card_at :: "env \<Rightarrow> params \<Rightarrow> nat \<Rightarrow> si3210 board_st \<Rightarrow> nat \<Rightarrow> wc \<Rightarrow> cview \<Rightarrow> bool" where
  "card_at e k L b0 c s v \<longleftrightarrow> si_ok e k L b0 c s \<and> is_3215 s c = v3215 v \<and> mem s = vmem v \<and>
     (\<forall>a. a \<noteq> IDA_LO k \<longrightarrow> a \<noteq> IDA_HI k \<longrightarrow> dreg (si_st k L b0 s c) a = vd v a) \<and> ireg (si_st k L b0 s c) = vi v \<and>
     (\<forall>j. j \<noteq> c \<longrightarrow> si_st k L b0 s j = vothers v j)"

definition vaddr :: "cview \<Rightarrow> u8 \<Rightarrow> u8" where
  "vaddr v a = (if v3215 v then translate_3215 a else a)"

definition vhas :: "cview \<Rightarrow> u8 \<Rightarrow> bool" where
  "vhas v a \<longleftrightarrow> \<not> (v3215 v \<and> translate_3215 a = 255)"

definition vset :: "u8 \<Rightarrow> u16 \<Rightarrow> cview \<Rightarrow> cview" where
  "vset a d v = (if vhas v a then v\<lparr>vi := (vi v)(vaddr v a := d)\<rparr> else v)"

lemma card_at_start: "si_ok e k L b0 c s \<Longrightarrow> card_at e k L b0 c s
    \<lparr>v3215 = is_3215 s c, vmem = mem s, vd = dreg (si_st k L b0 s c), vi = ireg (si_st k L b0 s c), vothers = si_st k L b0 s\<rparr>"
  by (simp add: card_at_def)

lemma card_at_keeps:
  "card_at e k L b0 c s v \<Longrightarrow> si_ok e k L b0 c s' \<Longrightarrow> keeps k L b0 c s s' \<Longrightarrow>
   card_at e k L b0 c s' (v\<lparr>vi := ireg (si_st k L b0 s' c)\<rparr>)"
  by (simp add: card_at_def keeps_def is_3215_def)

lemma card_at_setreg:
  assumes "card_at e k L b0 c s v" "r AND 0x7f = r" "r \<notin> special k"
  shows "card_at e k L b0 c (wcfxs_setreg c r x s) (v\<lparr>vd := (vd v)(r := x)\<rparr>)"
proof -
  have h: "on_board e (si3210_chip k L) b0" "coherent (si3210_chip k L) b0 s" "c < 8"
    using assms(1) by (auto simp: card_at_def si_ok_def)
  have n: "r \<noteq> IDA_LO k" "r \<noteq> IDA_HI k" "r \<noteq> IAA k" "r \<noteq> I_STATUS k" using assms(3) by (auto simp: special_def)
  show ?thesis using si_setreg[OF h, of r x] assms(1) n
    by (simp add: card_at_def si_ok_def si_write_def assms(2) is_3215_def)
qed

lemma card_at_getreg:
  assumes "card_at e k L b0 c s v" "r AND 0x7f = r" "r \<notin> special k"
  shows "card_at e k L b0 c (snd (wcfxs_getreg e c r s)) v" "fst (wcfxs_getreg e c r s) = vd v r"
proof -
  have h: "on_board e (si3210_chip k L) b0" "coherent (si3210_chip k L) b0 s" "c < 8"
    using assms(1) by (auto simp: card_at_def si_ok_def)
  have n: "r \<noteq> IDA_LO k" "r \<noteq> IDA_HI k" "r \<noteq> IAA k" "r \<noteq> I_STATUS k" using assms(3) by (auto simp: special_def)
  show "card_at e k L b0 c (snd (wcfxs_getreg e c r s)) v" "fst (wcfxs_getreg e c r s) = vd v r"
    using si_getreg[OF h, of r] assms(1) n
    by (simp_all add: card_at_def si_ok_def si_read_def si_fetch_def assms(2) is_3215_def)
qed

lemma card_at_views: "card_at e k L b0 c s v \<Longrightarrow> has_ireg s c a = vhas v a \<and> chip_addr s c a = vaddr v a"
  by (simp add: card_at_def has_ireg_def vhas_def chip_addr_def vaddr_def)

lemma card_at_setreg_indirect:
  assumes "card_at e k L b0 c s v"
  shows "card_at e k L b0 c (snd (wcfxs_proslic_setreg_indirect e k c a d s)) (vset a d v)"
    "fst (wcfxs_proslic_setreg_indirect e k c a d s) = 0"
proof -
  have ok: "si_ok e k L b0 c s" using assms by (simp add: card_at_def)
  note w = card_at_views[OF assms, of a]
  have "card_at e k L b0 c (snd (wcfxs_proslic_setreg_indirect e k c a d s)) (vset a d v) \<and>
    fst (wcfxs_proslic_setreg_indirect e k c a d s) = 0"
  proof (cases "vhas v a")
    case True
    then have h: "has_ireg s c a" using w by simp
    note d = setreg_indirect_done[OF ok h prod.collapse[symmetric], of d]
    show ?thesis using card_at_keeps[OF assms d(2,4)] d(1,3) assms w True by (simp add: vset_def card_at_def)
  next
    case False
    then show ?thesis using indirect_skip(1)[of s c a e k d] w assms by (simp add: vset_def)
  qed
  then show "card_at e k L b0 c (snd (wcfxs_proslic_setreg_indirect e k c a d s)) (vset a d v)"
    "fst (wcfxs_proslic_setreg_indirect e k c a d s) = 0" by blast+
qed

lemma card_at_getreg_indirect:
  assumes "card_at e k L b0 c s v"
  shows "card_at e k L b0 c (snd (wcfxs_proslic_getreg_indirect e k c a s)) v"
    "fst (wcfxs_proslic_getreg_indirect e k c a s) = (if vhas v a then uint (vi v (vaddr v a)) else 0)"
proof -
  have ok: "si_ok e k L b0 c s" using assms by (simp add: card_at_def)
  note w = card_at_views[OF assms, of a]
  have "card_at e k L b0 c (snd (wcfxs_proslic_getreg_indirect e k c a s)) v \<and>
    fst (wcfxs_proslic_getreg_indirect e k c a s) = (if vhas v a then uint (vi v (vaddr v a)) else 0)"
  proof (cases "vhas v a")
    case True
    then have h: "has_ireg s c a" using w by simp
    note d = getreg_indirect_done[OF ok h prod.collapse[symmetric]]
    have i: "ireg (si_st k L b0 s c) = vi v" using assms by (simp add: card_at_def)
    show ?thesis using card_at_keeps[OF assms d(2,4)] d(1,3) w True by (simp add: i)
  next
    case False
    then show ?thesis using indirect_skip(2)[of s c a e k] w assms by simp
  qed
  then show "card_at e k L b0 c (snd (wcfxs_proslic_getreg_indirect e k c a s)) v"
    "fst (wcfxs_proslic_getreg_indirect e k c a s) = (if vhas v a then uint (vi v (vaddr v a)) else 0)" by blast+
qed

text \<open>Every entry of the table that the chip has holds its initial value.\<close>

definition table_set :: "cview \<Rightarrow> bool" where
  "table_set v \<longleftrightarrow> (\<forall>a\<in>set indirect_regs. vhas v (address a) \<longrightarrow> vi v (vaddr v (address a)) = initial a)"

lemma table_set_iff:
  "table_set v \<longleftrightarrow> (\<forall>a\<in>set indirect_regs. has_entry (v3215 v) a \<longrightarrow> vi v (entry_addr (v3215 v) a) = initial a)"
  using table_facts(2) by (auto simp: table_set_def vhas_def vaddr_def has_entry_def entry_addr_def)

lemma card_at_init:
  assumes "card_at e k L b0 c s v"
  obtains s' i where "wcfxs_proslic_init_indirect_regs e k c s = (0, s')" "card_at e k L b0 c s' (v\<lparr>vi := i\<rparr>)"
    "table_set (v\<lparr>vi := i\<rparr>)"
proof -
  have ok: "si_ok e k L b0 c s" "is_3215 s c = v3215 v" using assms by (simp_all add: card_at_def)
  show ?thesis
    by (rule init_regs_done[OF ok(1)], rule that, assumption, erule (1) card_at_keeps[OF assms])
       (simp add: table_set_iff ok(2))
qed

lemma card_at_verify:
  assumes "card_at e k L b0 c s v" "table_set v"
  obtains s' where "wcfxs_proslic_verify_indirect_regs e k c s = (0, s')" "card_at e k L b0 c s' v"
proof -
  have ok: "si_ok e k L b0 c s" "is_3215 s c = v3215 v" "ireg (si_st k L b0 s c) = vi v"
    using assms(1) by (simp_all add: card_at_def)
  obtain s' where s': "wcfxs_proslic_verify_indirect_regs e k c s = (0, s')" "si_ok e k L b0 c s'" "keeps k L b0 c s s'"
    "ireg (si_st k L b0 s' c) = vi v"
    using assms(2) by (rule_tac verify_regs_done[OF ok(1)]) (auto simp: table_set_iff ok(2,3))
  show ?thesis using that[OF s'(1)] card_at_keeps[OF assms(1) s'(2,3)] s'(4) by simp
qed

section \<open>Properties\<close>

definition demo_params :: params where
  "demo_params = \<lparr>IDA_LO = 28, IDA_HI = 29, IAA = 30, I_STATUS = 31, LOOP_I_LIMIT = 71, HZ = 100, debug = 0,
     robust = False, timingonly = False, lowpower = 0, boostringer = False, opermode = 0, fxshonormode = False,
     loopback = False, loopcurrent = 20\<rparr>"

definition demo_si :: "si3210 board_st" where
  "demo_si = \<lparr>mux = 0, kind = (\<lambda>c. MOD_TYPE_FXS), phase_of = (\<lambda>c. Idle),
     chips = (\<lambda>c. \<lparr>dreg = (\<lambda>a. 0), ireg = (\<lambda>a. 0), pend = False, busy = 0\<rparr>), latch = (\<lambda>i. 0)\<rparr>"

definition demo_si_env :: env where
  "demo_si_env = \<lparr>rxv = (\<lambda>es. board_val (si3210_chip demo_params 3) (board_of (si3210_chip demo_params 3) demo_si es)),
     clk = (\<lambda>n. of_nat n)\<rparr>"

definition demo_si_wc :: wc where
  "demo_si_wc = demo_wc\<lparr>modtype := (\<lambda>c. MOD_TYPE_FXS)\<rparr>"

lemma demo_si_ok: "si_ok demo_si_env demo_params 3 demo_si 0 demo_si_wc"
proof -
  have "hdr_ok demo_params" by code_simp
  moreover have "coherent (si3210_chip demo_params 3) demo_si demo_si_wc"
    by (simp add: coherent_def demo_si_wc_def demo_wc_def demo_si_def hw)
  ultimately show ?thesis
    by (simp add: si_ok_def on_board_def demo_si_env_def) (simp add: demo_si_wc_def demo_wc_def demo_si_def hw)
qed

text \<open>
  C35.  Indirect registers round trip: on a ProSLIC that needs fewer than 6000
  status reads per access, a value written with
  \<open>wcfxs_proslic_setreg_indirect\<close> is what \<open>wcfxs_proslic_getreg_indirect\<close> then
  reads, for every register the chip has, with the Si3215 address translation;
  both calls report success and no other card's chip is disturbed.
\<close>

theorem indirect_roundtrip:
  assumes "si_ok e k L b0 c s" and "has_ireg s c a"
    and "wcfxs_proslic_setreg_indirect e k c a d s = (r1, s1)"
    and "wcfxs_proslic_getreg_indirect e k c a s1 = (r2, s2)"
  shows "r1 = 0 \<and> r2 = uint d \<and> (\<forall>j. j \<noteq> c \<longrightarrow> si_st k L b0 s2 j = si_st k L b0 s j)"
proof -
  note d = setreg_indirect_done[OF assms(1-3)]
  have "is_3215 s1 c = is_3215 s c" using is_3215_frame(1)[of e k c a d s c] by (simp add: assms(3))
  then have h: "has_ireg s1 c a" "chip_addr s1 c a = chip_addr s c a"
    using assms(2) by (simp_all add: has_ireg_def chip_addr_def)
  note g = getreg_indirect_done[OF d(2) h(1) assms(4)]
  show ?thesis using d g h(2) by (simp add: keeps_def)
qed

theorem indirect_roundtrip_witness:
  "fst (wcfxs_proslic_getreg_indirect demo_si_env demo_params 0 21
     (snd (wcfxs_proslic_setreg_indirect demo_si_env demo_params 0 21 0x160 demo_si_wc))) = 0x160"
proof -
  have "has_ireg demo_si_wc 0 21" by code_simp
  from indirect_roundtrip[OF demo_si_ok this prod.collapse[symmetric] prod.collapse[symmetric], of "0x160"]
  show ?thesis by simp
qed

text \<open>
  Initialising the indirect registers and verifying them succeeds on such a
  chip: both calls return 0, for a Si3210, and for a Si3215, whose missing
  registers the initialisation skips and the verification ignores.
\<close>

lemma init_then_verify:
  assumes "si_ok e k L b0 c s"
  shows "fst (wcfxs_proslic_init_indirect_regs e k c s) = 0 \<and>
    fst (wcfxs_proslic_verify_indirect_regs e k c (snd (wcfxs_proslic_init_indirect_regs e k c s))) = 0"
proof -
  obtain s1 where s1: "wcfxs_proslic_init_indirect_regs e k c s = (0, s1)" "si_ok e k L b0 c s1" "keeps k L b0 c s s1"
      "\<forall>a\<in>set indirect_regs. has_entry (is_3215 s c) a \<longrightarrow>
         ireg (si_st k L b0 s1 c) (entry_addr (is_3215 s c) a) = initial a"
    by (rule init_regs_done[OF assms])
  obtain s2 where "wcfxs_proslic_verify_indirect_regs e k c s1 = (0, s2)"
    using verify_regs_done[OF s1(2), unfolded keeps_is_3215[OF s1(3)], OF s1(4)] by blast
  then show ?thesis using s1(1) by simp
qed

end
