(* ===== verification/Wcfxs_Init.thy ===== *)
theory Wcfxs_Init
  imports Wcfxs_Indirect
begin

text \<open>
  Bringing up the line cards in \<open>src/src/wcfxs.c\<close>: the table of FXO operating modes,
  the sanity tests, power-up, leakage test and calibration of the ProSLIC, and the
  two initialisation functions.  The clock is read through the environment; a loop
  that waits on the chip or the clock takes the number of rounds it is given as
  \<open>fuel\<close> and yields \<open>None\<close> when that is not enough, so a function that hangs on dead
  hardware has no result here.  Messages are not modelled, but the register reads
  made to print them are.
\<close>

section \<open>Operating modes\<close>

record fxo_mode =
  mname :: string
  ohs :: u8
  ohs2 :: u8
  rz :: u8
  rt :: u8
  ilim :: u8
  dcv :: u8
  mini :: u8
  acim :: u8
  ring_osc :: u16
  ring_x :: u16

definition fxo_mode_entry ::
    "string \<Rightarrow> u8 \<Rightarrow> u8 \<Rightarrow> u8 \<Rightarrow> u8 \<Rightarrow> u8 \<Rightarrow> u8 \<Rightarrow> u8 \<Rightarrow> u8 \<Rightarrow> u16 \<Rightarrow> u16 \<Rightarrow> fxo_mode" where
  "fxo_mode_entry n a b c d i v m z o' x = \<lparr>mname = n, ohs = a, ohs2 = b, rz = c, rt = d, ilim = i, dcv = v, mini = m,
     acim = z, ring_osc = o', ring_x = x\<rparr>"

definition fxo_modes :: "fxo_mode list" where
  "fxo_modes =
    [fxo_mode_entry ''FCC'' 0 0 0 1 0 3 0 0 0 0,
     fxo_mode_entry ''TBR21'' 0 0 0 0 1 3 0 2 0x7e6c 0x23a,
     fxo_mode_entry ''ARGENTINA'' 0 0 0 0 0 3 0 0 0 0,
     fxo_mode_entry ''AUSTRALIA'' 1 0 0 0 0 0 3 3 0 0,
     fxo_mode_entry ''AUSTRIA'' 0 1 0 0 1 3 0 3 0 0,
     fxo_mode_entry ''BAHRAIN'' 0 0 0 0 1 3 0 2 0 0,
     fxo_mode_entry ''BELGIUM'' 0 1 0 0 1 3 0 2 0 0,
     fxo_mode_entry ''BRAZIL'' 0 0 0 0 0 0 3 0 0 0,
     fxo_mode_entry ''BULGARIA'' 0 0 0 0 1 3 0 3 0 0,
     fxo_mode_entry ''CANADA'' 0 0 0 0 0 3 0 0 0 0,
     fxo_mode_entry ''CHILE'' 0 0 0 0 0 3 0 0 0 0,
     fxo_mode_entry ''CHINA'' 0 0 0 0 0 0 3 15 0 0,
     fxo_mode_entry ''COLUMBIA'' 0 0 0 0 0 3 0 0 0 0,
     fxo_mode_entry ''CROATIA'' 0 0 0 0 1 3 0 2 0 0,
     fxo_mode_entry ''CYRPUS'' 0 0 0 0 1 3 0 2 0 0,
     fxo_mode_entry ''CZECH'' 0 0 0 0 1 3 0 2 0 0,
     fxo_mode_entry ''DENMARK'' 0 1 0 0 1 3 0 2 0 0,
     fxo_mode_entry ''ECUADOR'' 0 0 0 0 0 3 0 0 0 0,
     fxo_mode_entry ''EGYPT'' 0 0 0 0 0 0 3 0 0 0,
     fxo_mode_entry ''ELSALVADOR'' 0 0 0 0 0 3 0 0 0 0,
     fxo_mode_entry ''FINLAND'' 0 1 0 0 1 3 0 2 0 0,
     fxo_mode_entry ''FRANCE'' 0 1 0 0 1 3 0 2 0 0,
     fxo_mode_entry ''GERMANY'' 0 1 0 0 1 3 0 3 0 0,
     fxo_mode_entry ''GREECE'' 0 1 0 0 1 3 0 2 0 0,
     fxo_mode_entry ''GUAM'' 0 0 0 0 0 3 0 0 0 0,
     fxo_mode_entry ''HONGKONG'' 0 0 0 0 0 3 0 0 0 0,
     fxo_mode_entry ''HUNGARY'' 0 0 0 0 0 3 0 0 0 0,
     fxo_mode_entry ''ICELAND'' 0 1 0 0 1 3 0 2 0 0,
     fxo_mode_entry ''INDIA'' 0 0 0 0 0 3 0 4 0 0,
     fxo_mode_entry ''INDONESIA'' 0 0 0 0 0 3 0 0 0 0,
     fxo_mode_entry ''IRELAND'' 0 1 0 0 1 3 0 2 0 0,
     fxo_mode_entry ''ISRAEL'' 0 0 0 0 1 3 0 2 0 0,
     fxo_mode_entry ''ITALY'' 0 1 0 0 1 3 0 2 0 0,
     fxo_mode_entry ''JAPAN'' 0 0 0 0 0 0 3 0 0 0,
     fxo_mode_entry ''JORDAN'' 0 0 0 0 0 0 3 0 0 0,
     fxo_mode_entry ''KAZAKHSTAN'' 0 0 0 0 0 3 0 0 0 0,
     fxo_mode_entry ''KUWAIT'' 0 0 0 0 0 3 0 0 0 0,
     fxo_mode_entry ''LATVIA'' 0 0 0 0 1 3 0 2 0 0,
     fxo_mode_entry ''LEBANON'' 0 0 0 0 1 3 0 2 0 0,
     fxo_mode_entry ''LUXEMBOURG'' 0 1 0 0 1 3 0 2 0 0,
     fxo_mode_entry ''MACAO'' 0 0 0 0 0 3 0 0 0 0,
     fxo_mode_entry ''MALAYSIA'' 0 0 0 0 0 0 3 0 0 0,
     fxo_mode_entry ''MALTA'' 0 0 0 0 1 3 0 2 0 0,
     fxo_mode_entry ''MEXICO'' 0 0 0 0 0 3 0 0 0 0,
     fxo_mode_entry ''MOROCCO'' 0 0 0 0 1 3 0 2 0 0,
     fxo_mode_entry ''NETHERLANDS'' 0 1 0 0 1 3 0 2 0 0,
     fxo_mode_entry ''NEWZEALAND'' 0 0 0 0 0 3 0 4 0 0,
     fxo_mode_entry ''NIGERIA'' 0 0 0 0 1 3 0 2 0 0,
     fxo_mode_entry ''NORWAY'' 0 1 0 0 1 3 0 2 0 0,
     fxo_mode_entry ''OMAN'' 0 0 0 0 0 0 3 0 0 0,
     fxo_mode_entry ''PAKISTAN'' 0 0 0 0 0 0 3 0 0 0,
     fxo_mode_entry ''PERU'' 0 0 0 0 0 3 0 0 0 0,
     fxo_mode_entry ''PHILIPPINES'' 0 0 0 0 0 0 3 0 0 0,
     fxo_mode_entry ''POLAND'' 0 0 1 1 0 3 0 0 0 0,
     fxo_mode_entry ''PORTUGAL'' 0 1 0 0 1 3 0 2 0 0,
     fxo_mode_entry ''ROMANIA'' 0 0 0 0 0 3 0 0 0 0,
     fxo_mode_entry ''RUSSIA'' 0 0 0 0 0 0 3 0 0 0,
     fxo_mode_entry ''SAUDIARABIA'' 0 0 0 0 0 3 0 0 0 0,
     fxo_mode_entry ''SINGAPORE'' 0 0 0 0 0 3 0 0 0 0,
     fxo_mode_entry ''SLOVAKIA'' 0 0 0 0 0 3 0 3 0 0,
     fxo_mode_entry ''SLOVENIA'' 0 0 0 0 0 3 0 2 0 0,
     fxo_mode_entry ''SOUTHAFRICA'' 1 0 1 0 0 3 0 3 0 0,
     fxo_mode_entry ''SOUTHKOREA'' 0 0 0 0 0 3 0 0 0 0,
     fxo_mode_entry ''SPAIN'' 0 1 0 0 1 3 0 2 0 0,
     fxo_mode_entry ''SWEDEN'' 0 1 0 0 1 3 0 2 0 0,
     fxo_mode_entry ''SWITZERLAND'' 0 1 0 0 1 3 0 2 0 0,
     fxo_mode_entry ''SYRIA'' 0 0 0 0 0 0 3 0 0 0,
     fxo_mode_entry ''TAIWAN'' 0 0 0 0 0 0 3 0 0 0,
     fxo_mode_entry ''THAILAND'' 0 0 0 0 0 0 3 0 0 0,
     fxo_mode_entry ''UAE'' 0 0 0 0 0 3 0 0 0 0,
     fxo_mode_entry ''UK'' 0 1 0 0 1 3 0 5 0 0,
     fxo_mode_entry ''USA'' 0 0 0 0 0 3 0 0 0 0,
     fxo_mode_entry ''YEMEN'' 0 0 0 0 0 3 0 0 0 0]"

definition acim2tiss :: "u8 list" where
  "acim2tiss = [0x0, 0x1, 0x4, 0x5, 0x7, 0x0, 0x0, 0x6, 0x0, 0x0, 0x0, 0x2, 0x0, 0x3, 0x0, 0x0]"

text \<open>The search for the module parameter \<open>opermode\<close> in \<open>wcfxs_init\<close>; \<open>None\<close> is \<open>-ENODEV\<close>.\<close>

definition find_opermode :: "string \<Rightarrow> nat option" where
  "find_opermode name = find_idx (\<lambda>m. mname m = name) fxo_modes"

definition cur_mode :: "params \<Rightarrow> fxo_mode" where
  "cur_mode k = fxo_modes ! opermode k"

section \<open>Waiting\<close>

text \<open>\<open>while ((jiffies - orig) < lim);\<close>\<close>

fun spin :: "env \<Rightarrow> nat \<Rightarrow> u32 \<Rightarrow> u32 \<Rightarrow> wc \<Rightarrow> wc option" where
  "spin e 0 orig lim s = None"
| "spin e (Suc n) orig lim s =
     (case jiffies e s of (j, s) \<Rightarrow> if j - orig < lim then spin e n orig lim s else Some s)"

definition wait_just_a_bit :: "u32 \<Rightarrow> wc \<Rightarrow> wc" where
  "wait_just_a_bit foo s = s\<lparr>ticks := Suc (ticks s)\<rparr>"

section \<open>FXO\<close>

definition wcfxs_voicedaa_insane :: "env \<Rightarrow> nat \<Rightarrow> wc \<Rightarrow> int \<times> wc" where
  "wcfxs_voicedaa_insane e c s =
     (let (blah, s) = wcfxs_getreg e c 2 s
      in if blah \<noteq> 0x3 then (-2, s)
         else let (_, s) = wcfxs_getreg e c 11 s in (0, s))"

fun iso_cap_wait :: "env \<Rightarrow> params \<Rightarrow> nat \<Rightarrow> nat \<Rightarrow> u32 \<Rightarrow> wc \<Rightarrow> wc option" where
  "iso_cap_wait e k c 0 newjiffies s = None"
| "iso_cap_wait e k c (Suc n) newjiffies s =
     (case jiffies e s of (j, s) \<Rightarrow>
        if j < newjiffies
        then (case wcfxs_getreg e c 11 s of (x, s) \<Rightarrow>
                if x AND 0xf0 = 0 then iso_cap_wait e k c n newjiffies (wait_just_a_bit (HZ k div 10) s) else Some s)
        else Some s)"

definition daa_reg16 :: "fxo_mode \<Rightarrow> u8" where
  "daa_reg16 m = push_bit 6 (ohs m) OR push_bit 1 (rz m) OR rt m"

definition daa_reg26 :: "fxo_mode \<Rightarrow> u8" where
  "daa_reg26 m = push_bit 6 (dcv m) OR push_bit 4 (mini m) OR push_bit 1 (ilim m)"

definition daa_reg31 :: "fxo_mode \<Rightarrow> u8" where
  "daa_reg31 m = 0xa3 OR push_bit 3 (ohs2 m)"

definition wcfxs_init_voicedaa :: "env \<Rightarrow> params \<Rightarrow> nat \<Rightarrow> nat \<Rightarrow> bool \<Rightarrow> wc \<Rightarrow> (int \<times> wc) option" where
  "wcfxs_init_voicedaa e k fuel c sane s =
     (let s = s\<lparr>modtype := (modtype s)(c := MOD_TYPE_FXO)\<rparr>;
          (r, s) = (if sane then (0, s) else wcfxs_voicedaa_insane e c s)
      in if r \<noteq> 0 then Some (-2, s)
         else
           let s = wcfxs_setreg c 1 0x80 s;
               s = wait_just_a_bit (HZ k div 10) s;
               s = wcfxs_setreg c 33 0x28 s;
               s = wcfxs_setreg c 16 (daa_reg16 (cur_mode k)) s;
               s = wcfxs_setreg c 26 (daa_reg26 (cur_mode k)) s;
               s = wcfxs_setreg c 30 (acim (cur_mode k)) s;
               s = wcfxs_setreg c 31 (daa_reg31 (cur_mode k)) s;
               s = wcfxs_setreg c 34 (of_nat (c * 8)) s;
               s = wcfxs_setreg c 35 0 s;
               s = wcfxs_setreg c 36 (of_nat (c * 8)) s;
               s = wcfxs_setreg c 37 0 s;
               s = wcfxs_setreg c 6 0 s;
               (j, s) = jiffies e s
           in do {
             s \<leftarrow> iso_cap_wait e k c fuel (j + 2 * HZ k) s;
             let (x, s) = wcfxs_getreg e c 11 s;
             if x AND 0xf0 = 0 then Some (-1, s)
             else do {
               let s = (if debug k \<noteq> 0 then snd (wcfxs_getreg e c 13 (snd (wcfxs_getreg e c 11 s))) else s);
               let s = wcfxs_setreg c 5 0x08 s;
               Some (0, if loopback k then wcfxs_setreg c 10 0x01 s else s)
             }
           })"

section \<open>FXS: tests, power and calibration\<close>

definition wcfxs_proslic_insane :: "env \<Rightarrow> nat \<Rightarrow> wc \<Rightarrow> int \<times> wc" where
  "wcfxs_proslic_insane e c s =
     (let (blah, s) = wcfxs_getreg e c 0 s
      in if blah AND 0xf = 0 \<or> blah AND 0xf = 0xf then (-1, s)
         else if blah AND 0xf < 2 then (-1, s)
         else
           let (r1, s) = wcfxs_getreg e c 1 s;
               s = (if r1 AND 0x80 \<noteq> 0 then s\<lparr>wflags := (wflags s)(c := wflags s c OR FLAG_3215)\<rparr> else s);
               (blah, s) = wcfxs_getreg e c 8 s
           in if blah \<noteq> 0x2 then (-1, s)
              else let (blah, s) = wcfxs_getreg e c 64 s
                   in if blah \<noteq> 0 then (-1, s)
                      else let (blah, s) = wcfxs_getreg e c 11 s
                           in if blah \<noteq> 0x33 then (-1, s) else (0, wcfxs_setreg c 30 0 s))"

fun leak_wait :: "env \<Rightarrow> params \<Rightarrow> nat \<Rightarrow> nat \<Rightarrow> u32 \<Rightarrow> wc \<Rightarrow> (u8 \<times> wc) option" where
  "leak_wait e k c 0 orig s = None"
| "leak_wait e k c (Suc n) orig s =
     (case wcfxs_getreg e c 82 s of (vbat, s) \<Rightarrow>
        if 6 < vbat
        then (case jiffies e s of (j, s) \<Rightarrow> if HZ k div 2 \<le> j - orig then Some (vbat, s) else leak_wait e k c n orig s)
        else Some (vbat, s))"

definition wcfxs_proslic_powerleak_test :: "env \<Rightarrow> params \<Rightarrow> nat \<Rightarrow> nat \<Rightarrow> wc \<Rightarrow> (int \<times> wc) option" where
  "wcfxs_proslic_powerleak_test e k fuel c s =
     do {
       let s = wcfxs_setreg c 14 0x10 (wcfxs_setreg c 64 0 s);
       let (orig, s) = jiffies e s;
       (vbat, s) \<leftarrow> leak_wait e k c fuel orig s;
       Some (if vbat < 6 then -1 else 0, s)
     }"

fun power_wait :: "env \<Rightarrow> params \<Rightarrow> nat \<Rightarrow> nat \<Rightarrow> u32 \<Rightarrow> wc \<Rightarrow> (u8 \<times> wc) option" where
  "power_wait e k c 0 orig s = None"
| "power_wait e k c (Suc n) orig s =
     (case wcfxs_getreg e c 82 s of (vbat, s) \<Rightarrow>
        if vbat < 0xc0
        then (case jiffies e s of (j, s) \<Rightarrow> if HZ k div 2 < j - orig then Some (vbat, s) else power_wait e k c n orig s)
        else Some (vbat, s))"

text \<open>C division truncates towards zero.\<close>

definition c_div3 :: "int \<Rightarrow> int" where
  "c_div3 x = (if 0 \<le> x then x div 3 else - (- x div 3))"

definition loop_lim :: "params \<Rightarrow> int" where
  "loop_lim k = (if 41 < loopcurrent k then 0 else c_div3 (loopcurrent k - 20))"

definition wcfxs_powerup_proslic :: "env \<Rightarrow> params \<Rightarrow> nat \<Rightarrow> nat \<Rightarrow> bool \<Rightarrow> wc \<Rightarrow> (int \<times> wc) option" where
  "wcfxs_powerup_proslic e k fuel c fast s =
     (let s = wcfxs_setreg c 92 0xff s;
          (orig, s) = jiffies e s;
          s = wcfxs_setreg c 14 0 s
      in if fast then Some (0, s)
         else do {
           (vbat, s) \<leftarrow> power_wait e k c fuel orig s;
           let s = fold (\<lambda>r s. snd (wcfxs_getreg e c r s)) [0, 14, 74, 80, 81, 92, 82, 83] s;
           if vbat < 0xc0 then Some (-1, s)
           else Some (0, wcfxs_setreg c 93 0x19 (wcfxs_setreg c (LOOP_I_LIMIT k) (of_int (loop_lim k)) s))
         })"

fun cal_wait :: "env \<Rightarrow> nat \<Rightarrow> u32 \<Rightarrow> nat \<Rightarrow> u32 \<Rightarrow> wc \<Rightarrow> (bool \<times> wc) option" where
  "cal_wait e c lim 0 orig s = None"
| "cal_wait e c lim (Suc n) orig s =
     (case wcfxs_getreg e c 96 s of (x, s) \<Rightarrow>
        if x \<noteq> 0
        then (case jiffies e s of (j, s) \<Rightarrow> if lim < j - orig then Some (False, s) else cal_wait e c lim n orig s)
        else Some (True, s))"

text \<open>One of the two gain searches: steps the result register down until the comparator reads
  0; returns the last \<open>origjiffies\<close>.\<close>

fun gain_search :: "env \<Rightarrow> nat \<Rightarrow> nat \<Rightarrow> u8 \<Rightarrow> u8 \<Rightarrow> nat \<Rightarrow> u32 \<Rightarrow> wc \<Rightarrow> (u32 \<times> wc) option" where
  "gain_search e fuel c res cmp 0 orig s = Some (orig, s)"
| "gain_search e fuel c res cmp (Suc i) orig s =
     do {
       let s = wcfxs_setreg c res (of_nat (Suc i)) s;
       let (orig, s) = jiffies e s;
       s \<leftarrow> spin e fuel orig 4 s;
       let (x, s) = wcfxs_getreg e c cmp s;
       if x = 0 then Some (orig, s) else gain_search e fuel c res cmp i orig s
     }"

definition wcfxs_proslic_manual_calibrate :: "env \<Rightarrow> params \<Rightarrow> nat \<Rightarrow> nat \<Rightarrow> wc \<Rightarrow> (int \<times> wc) option" where
  "wcfxs_proslic_manual_calibrate e k fuel c s =
     do {
       let s = fold (\<lambda>(r, v). wcfxs_setreg c r v) [(21, 0), (22, 0), (23, 0), (64, 0), (97, 0x18), (96, 0x47)] s;
       let (orig, s) = jiffies e s;
       (done, s) \<leftarrow> cal_wait e c 80 fuel orig s;
       if \<not> done then Some (-1, s)
       else do {
         let (orig, s) = jiffies e s;
         s \<leftarrow> spin e fuel orig 1 s;
         let s = fold (\<lambda>a s. snd (wcfxs_proslic_setreg_indirect e k c a 0 s)) [88, 89, 90, 91, 92, 93] s;
         let s = wcfxs_setreg c 99 0x10 (wcfxs_setreg c 98 0x10 s);
         (orig, s) \<leftarrow> gain_search e fuel c 98 88 0x1f orig s;
         (orig, s) \<leftarrow> gain_search e fuel c 99 89 0x1f orig s;
         let s = wcfxs_setreg c 64 1 s;
         s \<leftarrow> spin e fuel orig 10 s;
         let s = fold (\<lambda>(r, v). wcfxs_setreg c r v) [(64, 0), (23, 0x4), (97, 0x1), (96, 0x40)] s;
         let s = snd (wcfxs_getreg e c 96 s);
         Some (0, fold (\<lambda>(r, v). wcfxs_setreg c r v) [(21, 0xFF), (22, 0xFF), (23, 0xFF)] s)
       }
     }"

definition wcfxs_proslic_calibrate :: "env \<Rightarrow> params \<Rightarrow> nat \<Rightarrow> nat \<Rightarrow> wc \<Rightarrow> (int \<times> wc) option" where
  "wcfxs_proslic_calibrate e k fuel c s =
     do {
       let s = wcfxs_setreg c 96 0x5f (wcfxs_setreg c 97 0x1f s);
       let (orig, s) = jiffies e s;
       (done, s) \<leftarrow> cal_wait e c (2 * HZ k) fuel orig s;
       if \<not> done then Some (-1, s)
       else Some (0, if debug k \<noteq> 0
                     then fold (\<lambda>r s. snd (wcfxs_getreg e c r s)) [98, 99, 100, 101, 102, 103, 104, 105, 106, 107] s
                     else s)
     }"

section \<open>The union \<open>mod\<close>\<close>

text \<open>Word offsets of the two views; the saved calibration bytes follow the eight \<open>int\<close> arrays
  of the \<open>fxs\<close> view, little-endian, at the place of the ninth array of the \<open>fxo\<close> view.\<close>

definition fxs_oldrxhook :: "nat \<Rightarrow> nat" where "fxs_oldrxhook c = c"
definition fxs_debouncehook :: "nat \<Rightarrow> nat" where "fxs_debouncehook c = 8 + c"
definition fxs_lastrxhook :: "nat \<Rightarrow> nat" where "fxs_lastrxhook c = 16 + c"
definition fxs_debounce :: "nat \<Rightarrow> nat" where "fxs_debounce c = 24 + c"
definition fxs_ohttimer :: "nat \<Rightarrow> nat" where "fxs_ohttimer c = 32 + c"
definition fxs_idletxhookstate :: "nat \<Rightarrow> nat" where "fxs_idletxhookstate c = 40 + c"
definition fxs_lasttxhook :: "nat \<Rightarrow> nat" where "fxs_lasttxhook c = 48 + c"
definition fxs_palarms :: "nat \<Rightarrow> nat" where "fxs_palarms c = 56 + c"

definition fxo_wasringing :: "nat \<Rightarrow> nat" where "fxo_wasringing c = c"
definition fxo_ringdebounce :: "nat \<Rightarrow> nat" where "fxo_ringdebounce c = 8 + c"
definition fxo_offhook :: "nat \<Rightarrow> nat" where "fxo_offhook c = 16 + c"
definition fxo_battdebounce :: "nat \<Rightarrow> nat" where "fxo_battdebounce c = 24 + c"
definition fxo_nobatttimer :: "nat \<Rightarrow> nat" where "fxo_nobatttimer c = 32 + c"
definition fxo_battery :: "nat \<Rightarrow> nat" where "fxo_battery c = 40 + c"
definition fxo_lastpol :: "nat \<Rightarrow> nat" where "fxo_lastpol c = 48 + c"
definition fxo_polarity :: "nat \<Rightarrow> nat" where "fxo_polarity c = 56 + c"
definition fxo_polaritydebounce :: "nat \<Rightarrow> nat" where "fxo_polaritydebounce c = 64 + c"

lemmas mem_offsets = fxs_oldrxhook_def fxs_debouncehook_def fxs_lastrxhook_def fxs_debounce_def fxs_ohttimer_def
  fxs_idletxhookstate_def fxs_lasttxhook_def fxs_palarms_def fxo_wasringing_def fxo_ringdebounce_def fxo_offhook_def
  fxo_battdebounce_def fxo_nobatttimer_def fxo_battery_def fxo_lastpol_def fxo_polarity_def fxo_polaritydebounce_def

definition setm :: "nat \<Rightarrow> u32 \<Rightarrow> wc \<Rightarrow> wc" where
  "setm i v s = s\<lparr>mem := (mem s)(i := v)\<rparr>"

definition NUM_CAL_REGS :: nat where "NUM_CAL_REGS = 12"

definition cal_word :: "nat \<Rightarrow> nat \<Rightarrow> nat" where "cal_word c x = 64 + (NUM_CAL_REGS * c + x) div 4"
definition cal_shift :: "nat \<Rightarrow> nat \<Rightarrow> nat" where "cal_shift c x = 8 * ((NUM_CAL_REGS * c + x) mod 4)"

definition get_cal :: "wc \<Rightarrow> nat \<Rightarrow> nat \<Rightarrow> u8" where
  "get_cal s c x = ucast (drop_bit (cal_shift c x) (mem s (cal_word c x)))"

definition set_cal :: "nat \<Rightarrow> nat \<Rightarrow> u8 \<Rightarrow> wc \<Rightarrow> wc" where
  "set_cal c x v s = setm (cal_word c x)
     ((mem s (cal_word c x) AND NOT (push_bit (cal_shift c x) 0xff)) OR push_bit (cal_shift c x) (ucast v)) s"

section \<open>FXS: initialisation\<close>

fun save_filters :: "env \<Rightarrow> params \<Rightarrow> nat \<Rightarrow> u8 list \<Rightarrow> wc \<Rightarrow> u16 list \<times> wc" where
  "save_filters e k c [] s = ([], s)"
| "save_filters e k c (a # as) s =
     (let (t, s) = wcfxs_proslic_getreg_indirect e k c a s;
          (_, s) = wcfxs_proslic_setreg_indirect e k c a 0x8000 s;
          (ts, s) = save_filters e k c as s
      in (of_int t # ts, s))"

definition restore_filters :: "env \<Rightarrow> params \<Rightarrow> nat \<Rightarrow> (u8 \<times> u16) list \<Rightarrow> wc \<Rightarrow> wc" where
  "restore_filters e k c ts s = fold (\<lambda>(a, t) s. snd (wcfxs_proslic_setreg_indirect e k c a t s)) ts s"

fun twice :: "(wc \<Rightarrow> (int \<times> wc) option) \<Rightarrow> wc \<Rightarrow> (int \<times> wc) option" where
  "twice f s = do { (r, s) \<leftarrow> f s; if r \<noteq> 0 then f s else Some (r, s) }"

fun save_cal :: "env \<Rightarrow> nat \<Rightarrow> nat list \<Rightarrow> wc \<Rightarrow> wc" where
  "save_cal e c [] s = s"
| "save_cal e c (x # xs) s =
     (let (v, s) = wcfxs_getreg e c (of_nat (96 + x)) s in save_cal e c xs (set_cal c x v s))"

definition restore_cal :: "nat \<Rightarrow> wc \<Rightarrow> wc" where
  "restore_cal c s = fold (\<lambda>x s. wcfxs_setreg c (of_nat (96 + x)) (get_cal s c x) s) [0..<NUM_CAL_REGS] s"

text \<open>The branch for \<open>!fast\<close>: leakage test, second power-up, calibration, DC-DC calibration,
  saving the vectors; a non-zero result is the early return.\<close>

definition full_calibration :: "env \<Rightarrow> params \<Rightarrow> nat \<Rightarrow> nat \<Rightarrow> bool \<Rightarrow> wc \<Rightarrow> (int \<times> wc) option" where
  "full_calibration e k fuel c manual s =
     do {
       (_, s) \<leftarrow> wcfxs_proslic_powerleak_test e k fuel c s;
       (r, s) \<leftarrow> wcfxs_powerup_proslic e k fuel c False s;
       if r \<noteq> 0 then Some (-1, s)
       else do {
         (r, s) \<leftarrow> twice (if manual then wcfxs_proslic_manual_calibrate e k fuel c else wcfxs_proslic_calibrate e k fuel c) s;
         if r \<noteq> 0 then Some (-1, s)
         else do {
           let s = wcfxs_setreg c 93 0x99 s;
           let (r19, s) = wcfxs_getreg e c 107 s;
           let s = (if r19 < 2 \<or> 0xd < r19 then wcfxs_setreg c 107 0x8 s else s);
           Some (0, save_cal e c [0..<NUM_CAL_REGS] s)
         }
       }
     }"

definition final_registers :: "env \<Rightarrow> params \<Rightarrow> nat \<Rightarrow> wc \<Rightarrow> int \<times> wc" where
  "final_registers e k c s =
     (let s = fold (\<lambda>(r, v). wcfxs_setreg c r v) [(1, 0x28), (2, of_nat (c * 8)), (3, 0), (4, of_nat (c * 8)), (5, 0),
            (18, 0xff), (19, 0xff), (20, 0xff), (73, 0x04)] s;
          s = (if fxshonormode k
               then let s = wcfxs_setreg c 10 (0x08 OR acim2tiss ! unat (acim (cur_mode k))) s;
                        s = (if ring_osc (cur_mode k) \<noteq> 0
                             then snd (wcfxs_proslic_setreg_indirect e k c 20 (ring_osc (cur_mode k)) s) else s)
                    in if ring_x (cur_mode k) \<noteq> 0
                       then snd (wcfxs_proslic_setreg_indirect e k c 21 (ring_x (cur_mode k)) s) else s
               else s);
          s = (if lowpower k \<noteq> 0 then wcfxs_setreg c 72 0x10 s else s);
          (r, s) = (if boostringer k then wcfxs_proslic_setreg_indirect e k c 21 0x1d1 s
                    else if lowpower k \<noteq> 0 then wcfxs_proslic_setreg_indirect e k c 21 0x108 s
                    else (0, s))
      in if r \<noteq> 0 then (-1, s) else (0, wcfxs_setreg c 64 0x01 s))"

text \<open>The parameter \<open>manual\<close> is overwritten with 1 before it is used.\<close>

definition wcfxs_init_proslic ::
    "env \<Rightarrow> params \<Rightarrow> nat \<Rightarrow> nat \<Rightarrow> bool \<Rightarrow> bool \<Rightarrow> bool \<Rightarrow> wc \<Rightarrow> (int \<times> wc) option" where
  "wcfxs_init_proslic e k fuel c fast manual sane s =
     (let manual = True;
          s = setm (fxs_idletxhookstate c) 1 s;
          (r, s) = (if sane then (0, s) else wcfxs_proslic_insane e c s)
      in if r \<noteq> 0 then Some (-2, s)
         else
           let s = (if sane then wcfxs_setreg c 14 0x10 s else s);
               (r, s) = wcfxs_proslic_init_indirect_regs e k c s
           in if r \<noteq> 0 then Some (-1, s)
              else
                let (_, s) = wcfxs_proslic_setreg_indirect e k c 97 0 s;
                    s = fold (\<lambda>(r, v). wcfxs_setreg c r v) [(8, 0), (108, 0xeb), (67, 0x17), (66, 1)] s;
                    (tmp, s) = save_filters e k c [35, 36, 37, 38, 39] s
                in do {
                  (r, s) \<leftarrow> wcfxs_powerup_proslic e k fuel c fast s;
                  if r \<noteq> 0 then Some (-1, s)
                  else do {
                    (r, s) \<leftarrow> (if fast then Some (0, restore_cal c s) else full_calibration e k fuel c manual s);
                    if r \<noteq> 0 then Some (-1, s)
                    else do {
                      let s = restore_filters e k c (zip [35, 36, 37, 38, 39] tmp) s;
                      let (r, s) = wcfxs_proslic_verify_indirect_regs e k c s;
                      if r \<noteq> 0 then Some (-1, s) else Some (final_registers e k c s)
                    }
                  }
                })"

text \<open>The configuration of one port in \<open>wcfxs_hardware_init\<close>, from its detected type.\<close>

definition set_cardflag :: "nat \<Rightarrow> wc \<Rightarrow> wc" where
  "set_cardflag x s = s\<lparr>cardflag := cardflag s OR push_bit x 1\<rparr>"

definition read_limit :: "env \<Rightarrow> params \<Rightarrow> nat \<Rightarrow> wc \<Rightarrow> wc" where
  "read_limit e k x s = (if debug k \<noteq> 0 then snd (wcfxs_getreg e x (LOOP_I_LIMIT k) s) else s)"

definition configure_port :: "env \<Rightarrow> params \<Rightarrow> nat \<Rightarrow> port_type_t \<Rightarrow> nat \<Rightarrow> wc \<Rightarrow> wc option" where
  "configure_port e k fuel pt x s =
     (if pt = OPort
      then do {
        (ret, s) \<leftarrow> wcfxs_init_voicedaa e k fuel x False s;
        Some (if ret = 0 then set_cardflag x s else s)
      }
      else do {
        (ret, s) \<leftarrow> wcfxs_init_proslic e k fuel x False False False s;
        if ret = 0 then Some (read_limit e k x (set_cardflag x s))
        else if ret \<noteq> -2
        then do {
          (ret, s) \<leftarrow> wcfxs_init_proslic e k fuel x False True True s;
          Some (if ret = 0 then read_limit e k x (set_cardflag x s) else s)
        }
        else Some s
      })"

fun configure_ports :: "env \<Rightarrow> params \<Rightarrow> nat \<Rightarrow> port_type_t list \<Rightarrow> nat list \<Rightarrow> wc \<Rightarrow> wc option" where
  "configure_ports e k fuel pts [] s = Some s"
| "configure_ports e k fuel pts (x # xs) s =
     do { s \<leftarrow> configure_port e k fuel (pts ! x) x s; configure_ports e k fuel pts xs s }"

text \<open>The line-card part of \<open>wcfxs_hardware_init\<close>, after the bus and the SPORT are set up
  (\<open>Bfsi_Spi.bfsi_spi_init\<close>, \<open>Bfsi_Sport.bfsi_sport_init\<close>): reset, detection, reset, configuration
  of every port, and failure when no card came up.\<close>

definition wcfxs_cards_init :: "env \<Rightarrow> params \<Rightarrow> nat \<Rightarrow> wc \<Rightarrow> (int \<times> wc) option" where
  "wcfxs_cards_init e k fuel s =
     do {
       let s = bus_reset 4 s;
       let (port_type, s) = fx_auto_detect e 4 s;
       let s = bus_reset 4 s;
       s \<leftarrow> configure_ports e k fuel port_type [0..<cards s] s;
       Some (if cardflag s = 0 \<and> \<not> timingonly k then -1 else 0, s)
     }"

section \<open>The saved calibration vectors\<close>

lemma setm_simps [simp]:
  "mem (setm i v s) = (mem s)(i := v)" "bus (setm i v s) = bus s" "curcard (setm i v s) = curcard s"
  "modtype (setm i v s) = modtype s" "wflags (setm i v s) = wflags s" "ticks (setm i v s) = ticks s" "zt (setm i v s) = zt s"
  by (simp_all add: setm_def)

lemma cal_pos_inj:
  assumes "x < NUM_CAL_REGS" "y < NUM_CAL_REGS" "cal_word c x = cal_word d y" "cal_shift c x = cal_shift d y"
  shows "c = d \<and> x = y"
proof -
  have p: "n = 4 * (n div 4) + n mod 4" for n :: nat by simp
  have "NUM_CAL_REGS * c + x = NUM_CAL_REGS * d + y"
    using assms(3,4) p[of "NUM_CAL_REGS * c + x"] p[of "NUM_CAL_REGS * d + y"] by (simp add: cal_word_def cal_shift_def)
  then have "(NUM_CAL_REGS * c + x) div NUM_CAL_REGS = (NUM_CAL_REGS * d + y) div NUM_CAL_REGS"
    "(NUM_CAL_REGS * c + x) mod NUM_CAL_REGS = (NUM_CAL_REGS * d + y) mod NUM_CAL_REGS" by simp_all
  then show ?thesis using assms(1,2) by simp
qed

lemma cal_shift_cases: "cal_shift c x \<in> {0, 8, 16, 24}"
proof -
  have "(NUM_CAL_REGS * c + x) mod 4 \<in> {0, 1, 2, 3}" by auto
  then show ?thesis by (auto simp: cal_shift_def)
qed

text \<open>Reading one byte of a word after storing one.\<close>

lemma byte_store:
  fixes w :: u32 and v :: u8
  assumes "m \<in> {0, 8, 16, 24}" "n \<in> {0, 8, 16, 24}"
  shows "(ucast (drop_bit n ((w AND NOT (push_bit m 0xff)) OR push_bit m (ucast v))) :: u8) =
    (if m = n then v else ucast (drop_bit n w))"
proof -
  have f: "(0xff :: u32) = mask 8" by code_simp
  have v: "\<not> bit v i" if "8 \<le> i" for i using bit_imp_le_length[of v i] that by auto
  show ?thesis unfolding f using assms
    by (auto intro!: bit_word_eqI simp: bit_simps v simp del: mask_numeral push_bit_numeral)
qed

section \<open>The fast re-initialisation\<close>

text \<open>The direct registers it writes, which the indirect access registers of \<open>proslic.h\<close> must not be.\<close>

definition init_regs :: "u8 list" where
  "init_regs = [1, 2, 3, 4, 5, 8, 10, 14, 18, 19, 20, 64, 66, 67, 72, 73, 92, 108] @ map (\<lambda>x. of_nat (96 + x)) [0..<NUM_CAL_REGS]"

definition regs_apart :: "params \<Rightarrow> bool" where
  "regs_apart k \<longleftrightarrow> list_all (\<lambda>r. r \<noteq> IDA_LO k \<and> r \<noteq> IDA_HI k \<and> r \<noteq> IAA k \<and> r \<noteq> I_STATUS k) init_regs"

lemma init_regs_7: "r \<in> set init_regs \<Longrightarrow> r AND 0x7f = r"
proof -
  have "list_all (\<lambda>r. r AND 0x7f = r) init_regs" by code_simp
  then show "r \<in> set init_regs \<Longrightarrow> r AND 0x7f = r" by (simp add: list_all_iff)
qed

lemma regs_apartD: "regs_apart k \<Longrightarrow> r \<in> set init_regs \<Longrightarrow> r AND 0x7f = r \<and> r \<notin> special k"
  using init_regs_7 by (auto simp: regs_apart_def list_all_iff special_def)

lemma card_at_setm: "card_at e k L b0 c s v \<Longrightarrow> card_at e k L b0 c (setm i x s) (v\<lparr>vmem := (vmem v)(i := x)\<rparr>)"
  by (simp add: card_at_def si_ok_def coherent_def is_3215_def)

fun upd_all :: "('a \<times> 'b) list \<Rightarrow> ('a \<Rightarrow> 'b) \<Rightarrow> 'a \<Rightarrow> 'b" where
  "upd_all [] f = f"
| "upd_all ((r, x) # ps) f = upd_all ps (f(r := x))"

lemma upd_all_app: "upd_all (ps @ qs) f = upd_all qs (upd_all ps f)"
  by (induction ps arbitrary: f) auto

definition vwrites :: "(u8 \<times> u8) list \<Rightarrow> cview \<Rightarrow> cview" where
  "vwrites ps v = v\<lparr>vd := upd_all ps (vd v)\<rparr>"

lemma card_at_setreg_init:
  "card_at e k L b0 c s v \<Longrightarrow> regs_apart k \<Longrightarrow> r \<in> set init_regs \<Longrightarrow>
   card_at e k L b0 c (wcfxs_setreg c r x s) (vwrites [(r, x)] v)"
  using card_at_setreg[of e k L b0 c s v r x] regs_apartD[of k r] by (simp add: vwrites_def)

lemma card_at_writes:
  "card_at e k L b0 c s v \<Longrightarrow> regs_apart k \<Longrightarrow> fst ` set ps \<subseteq> set init_regs \<Longrightarrow>
   card_at e k L b0 c (fold (\<lambda>(r, x). wcfxs_setreg c r x) ps s) (vwrites ps v)"
proof (induction ps arbitrary: s v)
  case (Cons p ps)
  then show ?case
    using Cons.IH[OF card_at_setreg_init[of e k L b0 c s v "fst p" "snd p"]] by (cases p) (simp add: split_beta vwrites_def)
qed (simp add: vwrites_def)

lemma get_cal_setreg [simp]: "get_cal (wcfxs_setreg c r v s) d x = get_cal s d x"
  by (simp add: get_cal_def)

lemma restore_cal_fold:
  "restore_cal c s = fold (\<lambda>(r, x). wcfxs_setreg c r x) (map (\<lambda>x. (of_nat (96 + x), get_cal s c x)) [0..<NUM_CAL_REGS]) s"
proof -
  have "fold (\<lambda>x s. wcfxs_setreg c (of_nat (96 + x)) (get_cal s c x) s) xs s' =
      fold (\<lambda>(r, x). wcfxs_setreg c r x) (map (\<lambda>x. (of_nat (96 + x), get_cal s c x)) xs) s'"
    if "\<And>x. get_cal s' c x = get_cal s c x" for xs s'
    using that by (induction xs arbitrary: s') simp_all
  from this[of s] show ?thesis by (simp add: restore_cal_def)
qed

lemma card_at_save:
  "card_at e k L b0 c s v \<Longrightarrow> distinct (map (vaddr v) (filter (vhas v) as)) \<Longrightarrow> \<exists>s'. save_filters e k c as s =
     (map (\<lambda>a. if vhas v a then vi v (vaddr v a) else 0) as, s') \<and> card_at e k L b0 c s' (fold (\<lambda>a. vset a 0x8000) as v)"
proof (induction as arbitrary: s v)
  case (Cons a as)
  let ?s1 = "snd (wcfxs_proslic_getreg_indirect e k c a s)"
  let ?s2 = "snd (wcfxs_proslic_setreg_indirect e k c a 0x8000 ?s1)"
  note g = card_at_getreg_indirect[OF Cons.prems(1), of a]
  note w = card_at_setreg_indirect[OF g(1), of a "0x8000"]
  have v: "vhas (vset a 0x8000 v) = vhas v" "vaddr (vset a 0x8000 v) = vaddr v"
    by (simp_all add: vset_def fun_eq_iff) (simp_all add: vhas_def vaddr_def)
  have same: "map (\<lambda>b. if vhas v b then vi (vset a 0x8000 v) (vaddr v b) else 0) as = map (\<lambda>b. if vhas v b then vi v (vaddr v b) else 0) as"
    using Cons.prems(2) by (auto simp: vset_def image_iff split: if_splits)
  from Cons.IH[OF w(1)] Cons.prems(2) obtain s' where "save_filters e k c as ?s2 =
      (map (\<lambda>a. if vhas v a then vi v (vaddr v a) else 0) as, s')"
    "card_at e k L b0 c s' (fold (\<lambda>a. vset a 0x8000) as (vset a 0x8000 v))"
    unfolding v same by (auto split: if_splits)
  then show ?case using g(2) by (simp add: split_beta Let_def)
qed simp

lemma card_at_restore:
  "card_at e k L b0 c s v \<Longrightarrow> card_at e k L b0 c (restore_filters e k c ts s) (fold (\<lambda>(a, t). vset a t) ts v)"
  unfolding restore_filters_def
  by (induction ts arbitrary: s v) (simp_all add: split_beta card_at_setreg_indirect)

text \<open>Flushing and restoring the five filters leaves the indirect registers as they were.\<close>

definition filters :: "u8 list" where "filters = [35, 36, 37, 38, 39]"

lemma filter_addrs: "map translate_3215 filters = [22, 23, 24, 25, 26]" "translate_3215 97 = 97"
  by code_simp+

lemma vset_simps [simp]: "v3215 (vset a d v) = v3215 v" "vmem (vset a d v) = vmem v" "vd (vset a d v) = vd v"
    "vothers (vset a d v) = vothers v"
  by (simp_all add: vset_def)

lemma vset_fold [simp]: "v3215 (fold (\<lambda>(a, d). vset a d) ts v) = v3215 v" "vmem (fold (\<lambda>(a, d). vset a d) ts v) = vmem v"
    "vd (fold (\<lambda>(a, d). vset a d) ts v) = vd v" "vothers (fold (\<lambda>(a, d). vset a d) ts v) = vothers v"
  by (induction ts arbitrary: v) (simp_all add: split_beta)

lemma filters_ok: "distinct (map (vaddr v) (filter (vhas v) filters))"
  using filter_addrs(1) by (simp add: filters_def vhas_def vaddr_def)

lemma filters_back:
  assumes "v3215 w = v3215 v" "vi w = vi (fold (\<lambda>a. vset a 0x8000) filters v)"
  shows "vi (fold (\<lambda>(a, t). vset a t) (zip filters (map (\<lambda>a. if vhas v a then vi v (vaddr v a) else 0) filters)) w) = vi v"
  using filter_addrs(1) assms
  by (cases "v3215 v") (simp_all add: filters_def vset_def vhas_def vaddr_def fun_eq_iff)

lemma table_set_97: "table_set v \<Longrightarrow> table_set (vset 97 d v)"
proof -
  have "list_all (\<lambda>a. entry_addr True a \<noteq> 97) indirect_regs" "list_all (\<lambda>a. entry_addr False a \<noteq> 97) indirect_regs"
    by code_simp+
  then have "list_all (\<lambda>a. entry_addr b a \<noteq> 97) indirect_regs" for b by (cases b) simp_all
  then show "table_set v \<Longrightarrow> table_set (vset 97 d v)"
    by (auto simp: table_set_iff vset_def vaddr_def vhas_def filter_addrs(2) list_all_iff)
qed

text \<open>What the register writes after the indirect initialisation leave in the direct registers,
  and the last steps in the indirect ones.\<close>

definition early_writes :: "(u8 \<times> u8) list" where
  "early_writes = [(8, 0), (108, 0xeb), (67, 0x17), (66, 1)]"

definition late_writes :: "params \<Rightarrow> nat \<Rightarrow> (u8 \<times> u8) list" where
  "late_writes k c = [(1, 0x28), (2, of_nat (c * 8)), (3, 0), (4, of_nat (c * 8)), (5, 0), (18, 0xff), (19, 0xff),
     (20, 0xff), (73, 0x04)]"

definition late_indirect :: "params \<Rightarrow> (u8 \<times> u16) list" where
  "late_indirect k =
     (if fxshonormode k \<and> ring_osc (cur_mode k) \<noteq> 0 then [(20, ring_osc (cur_mode k))] else []) @
     (if fxshonormode k \<and> ring_x (cur_mode k) \<noteq> 0 then [(21, ring_x (cur_mode k))] else []) @
     (if boostringer k then [(21, 0x1d1)] else if lowpower k \<noteq> 0 then [(21, 0x108)] else [])"

lemma vwrites_simps [simp]: "v3215 (vwrites ps v) = v3215 v" "vmem (vwrites ps v) = vmem v" "vi (vwrites ps v) = vi v"
    "vothers (vwrites ps v) = vothers v" "vd (vwrites ps v) = upd_all ps (vd v)"
  by (simp_all add: vwrites_def)

lemma upd_all_notin: "r \<notin> fst ` set ps \<Longrightarrow> upd_all ps f r = f r"
  by (induction ps f rule: upd_all.induct) auto

lemma upd_all_in: "distinct (map fst ps) \<Longrightarrow> (r, x) \<in> set ps \<Longrightarrow> upd_all ps f r = x"
proof (induction ps f rule: upd_all.induct)
  case (2 r' x' ps f)
  show ?case
  proof (cases "(r, x) \<in> set ps")
    case True
    then show ?thesis using 2 by (simp add: fun_upd_def)
  next
    case False
    then have "r' = r" "x' = x" using 2(3) by auto
    then show ?thesis using upd_all_notin[of r ps "f(r := x)"] 2(2) by simp
  qed
qed simp

lemma final_registers_at:
  assumes "card_at e k L b0 c s v" "regs_apart k"
  shows "fst (final_registers e k c s) = 0"
    "\<exists>w. card_at e k L b0 c (snd (final_registers e k c s)) w \<and> v3215 w = v3215 v \<and> vmem w = vmem v \<and> vothers w = vothers v \<and>
       vi w = vi (fold (\<lambda>(a, t). vset a t) (late_indirect k) v) \<and> vd w 64 = 1 \<and>
       (\<forall>(r, x)\<in>set (late_writes k c). vd w r = x) \<and>
       (\<forall>r. r \<notin> {1, 2, 3, 4, 5, 10, 18, 19, 20, 64, 72, 73} \<longrightarrow> vd w r = vd v r)"
proof -
  let ?s1 = "fold (\<lambda>(r, x). wcfxs_setreg c r x) (late_writes k c) s"
  have sub: "fst ` set (late_writes k c) \<subseteq> set init_regs" "10 \<in> set init_regs" "72 \<in> set init_regs" "64 \<in> set init_regs"
    by (simp_all add: late_writes_def init_regs_def)
  note s1 = card_at_writes[OF assms sub(1)]
  note w = card_at_setreg_init[OF _ assms(2)]
  let ?x = "0x08 OR acim2tiss ! unat (acim (cur_mode k))" and ?m = "cur_mode k"
  let ?I = "\<lambda>a d s. snd (wcfxs_proslic_setreg_indirect e k c a d s)"
  define sA where "sA = (if fxshonormode k then wcfxs_setreg c 10 ?x ?s1 else ?s1)"
  define vA where "vA = (if fxshonormode k then vwrites [(10, ?x)] (vwrites (late_writes k c) v) else vwrites (late_writes k c) v)"
  define sB where "sB = (if fxshonormode k \<and> ring_osc ?m \<noteq> 0 then ?I 20 (ring_osc ?m) sA else sA)"
  define vB where "vB = (if fxshonormode k \<and> ring_osc ?m \<noteq> 0 then vset 20 (ring_osc ?m) vA else vA)"
  define sC where "sC = (if fxshonormode k \<and> ring_x ?m \<noteq> 0 then ?I 21 (ring_x ?m) sB else sB)"
  define vC where "vC = (if fxshonormode k \<and> ring_x ?m \<noteq> 0 then vset 21 (ring_x ?m) vB else vB)"
  define sD where "sD = (if lowpower k \<noteq> 0 then wcfxs_setreg c 72 0x10 sC else sC)"
  define vD where "vD = (if lowpower k \<noteq> 0 then vwrites [(72, 0x10)] vC else vC)"
  define sE where "sE = (if boostringer k then ?I 21 0x1d1 sD else if lowpower k \<noteq> 0 then ?I 21 0x108 sD else sD)"
  define vE where "vE = (if boostringer k then vset 21 0x1d1 vD else if lowpower k \<noteq> 0 then vset 21 0x108 vD else vD)"
  have A: "card_at e k L b0 c sA vA" using s1 w[OF s1 sub(2)] by (simp add: sA_def vA_def)
  have B: "card_at e k L b0 c sB vB" using A card_at_setreg_indirect(1)[OF A] by (simp add: sB_def vB_def)
  have C: "card_at e k L b0 c sC vC" using B card_at_setreg_indirect(1)[OF B] by (simp add: sC_def vC_def)
  have D: "card_at e k L b0 c sD vD" using C w[OF C sub(3)] by (simp add: sD_def vD_def)
  have E: "card_at e k L b0 c sE vE" using D card_at_setreg_indirect(1)[OF D] by (simp add: sE_def vE_def)
  have run: "final_registers e k c s = (0, wcfxs_setreg c 64 1 sE)"
    by (simp add: final_registers_def Let_def split_beta late_writes_def sA_def sB_def sC_def sD_def sE_def)
  then show "fst (final_registers e k c s) = 0" by simp
  let ?w = "vwrites [(64, 1)] vE"
  have "vi vE = vi (fold (\<lambda>(a, t). vset a t) (late_indirect k) v)"
    by (simp add: vE_def vD_def vC_def vB_def vA_def late_indirect_def vset_def vhas_def vaddr_def)
  moreover have "\<forall>(r, x)\<in>set (late_writes k c). vd ?w r = x"
    by (simp add: vE_def vD_def vC_def vB_def vA_def late_writes_def)
  moreover have "\<forall>r. r \<notin> {1, 2, 3, 4, 5, 10, 18, 19, 20, 64, 72, 73} \<longrightarrow> vd ?w r = vd v r"
    by (simp add: vE_def vD_def vC_def vB_def vA_def late_writes_def)
  moreover have "v3215 ?w = v3215 v" "vmem ?w = vmem v" "vothers ?w = vothers v" "vd ?w 64 = 1"
    by (simp_all add: vE_def vD_def vC_def vB_def vA_def)
  moreover have "card_at e k L b0 c (snd (final_registers e k c s)) ?w"
    using w[OF E sub(4)] by (simp add: run)
  ultimately show "\<exists>w. card_at e k L b0 c (snd (final_registers e k c s)) w \<and> v3215 w = v3215 v \<and> vmem w = vmem v \<and>
       vothers w = vothers v \<and> vi w = vi (fold (\<lambda>(a, t). vset a t) (late_indirect k) v) \<and> vd w 64 = 1 \<and>
       (\<forall>(r, x)\<in>set (late_writes k c). vd w r = x) \<and>
       (\<forall>r. r \<notin> {1, 2, 3, 4, 5, 10, 18, 19, 20, 64, 72, 73} \<longrightarrow> vd w r = vd v r)"
    by (intro exI[of _ ?w]) simp
qed

text \<open>From the indirect initialisation to the flushed filters.\<close>

lemma init_flush:
  assumes "card_at e k L b0 c s v" "regs_apart k"
  obtains s1 s2 v4 where "wcfxs_proslic_init_indirect_regs e k c s = (0, s1)"
    "save_filters e k c filters (fold (\<lambda>(r, v). wcfxs_setreg c r v) early_writes
       (snd (wcfxs_proslic_setreg_indirect e k c 97 0 s1))) = (map (\<lambda>a. if vhas v4 a then vi v4 (vaddr v4 a) else 0) filters, s2)"
    "card_at e k L b0 c s2 (fold (\<lambda>a. vset a 0x8000) filters v4)" "table_set v4"
    "v3215 v4 = v3215 v" "vmem v4 = vmem v" "vothers v4 = vothers v"
proof -
  obtain s1 i where s1: "wcfxs_proslic_init_indirect_regs e k c s = (0, s1)"
    "card_at e k L b0 c s1 (v\<lparr>vi := i\<rparr>)" "table_set (v\<lparr>vi := i\<rparr>)"
    by (rule card_at_init[OF assms(1)])
  define s3 where "s3 = snd (wcfxs_proslic_setreg_indirect e k c 97 0 s1)"
  define v3 where "v3 = vset 97 0 (v\<lparr>vi := i\<rparr>)"
  have s3: "card_at e k L b0 c s3 v3" "table_set v3"
    using card_at_setreg_indirect(1)[OF s1(2)] table_set_97[OF s1(3)] by (simp_all add: s3_def v3_def)
  have "fst ` set early_writes \<subseteq> set init_regs" by (simp add: early_writes_def init_regs_def)
  note s4 = card_at_writes[OF s3(1) assms(2) this]
  have t: "table_set (vwrites early_writes v3)" using s3(2) by (simp add: table_set_iff)
  show ?thesis
    using card_at_save[OF s4 filters_ok] that[OF s1(1) _ _ t, unfolded s3_def[symmetric]] by (auto simp: v3_def)
qed

text \<open>The power-up of the fast path.\<close>

lemma card_at_ticks: "card_at e k L b0 c (snd (jiffies e s)) v = card_at e k L b0 c s v"
  by (simp add: card_at_def si_ok_def coherent_def is_3215_def jiffies_def)

lemma powerup_fast:
  assumes "card_at e k L b0 c s v" "regs_apart k"
  shows "\<exists>s'. wcfxs_powerup_proslic e k fuel c True s = Some (0, s') \<and>
    card_at e k L b0 c s' (vwrites [(92, 0xff), (14, 0)] v)"
proof -
  have r: "14 \<in> set init_regs" "92 \<in> set init_regs" by (simp_all add: init_regs_def)
  have "card_at e k L b0 c (wcfxs_setreg c 14 0 (snd (jiffies e (wcfxs_setreg c 92 0xff s))))
      (vwrites [(14, 0)] (vwrites [(92, 0xff)] v))"
    using card_at_setreg_init[OF assms r(2)] by (intro card_at_setreg_init assms(2) r(1)) (simp add: card_at_ticks)
  then show ?thesis by (simp add: wcfxs_powerup_proslic_def Let_def split_beta vwrites_def)
qed

definition cal_writes :: "(nat \<Rightarrow> u8) \<Rightarrow> (u8 \<times> u8) list" where
  "cal_writes g = map (\<lambda>x. (of_nat (96 + x), g x)) [0..<NUM_CAL_REGS]"

lemma cal_regs: "distinct (map fst (cal_writes g))" "14 \<notin> fst ` set (cal_writes g)"
  "r \<in> fst ` set (cal_writes g) \<Longrightarrow> r \<in> set init_regs \<and> r \<notin> {1, 2, 3, 4, 5, 10, 18, 19, 20, 64, 72, 73}"
  by (auto simp: cal_writes_def NUM_CAL_REGS_def upt_rec init_regs_def)

lemma cal_writes_in: "x < NUM_CAL_REGS \<Longrightarrow> (of_nat (96 + x), g x) \<in> set (cal_writes g)"
  by (auto simp: cal_writes_def)

text \<open>The whole fast path, as one run: what the card and the driver hold afterwards.\<close>

definition proslic_ready :: "params \<Rightarrow> nat \<Rightarrow> (nat \<Rightarrow> u8) \<Rightarrow> cview \<Rightarrow> bool" where
  "proslic_ready k c g w \<longleftrightarrow>
     (\<exists>v. table_set v \<and> v3215 v = v3215 w \<and> vi w = vi (fold (\<lambda>(a, t). vset a t) (late_indirect k) v)) \<and>
     (\<forall>(r, x)\<in>set (late_writes k c). vd w r = x) \<and> vd w 64 = 1 \<and> vd w 14 = 0 \<and>
     (\<forall>x<NUM_CAL_REGS. vd w (of_nat (96 + x)) = g x)"

lemma init_proslic_fast:
  assumes "si_ok e k L b0 c s" "regs_apart k"
  obtains s' w where "wcfxs_init_proslic e k fuel c True manual True s = Some (0, s')"
    "card_at e k L b0 c s' w" "v3215 w = is_3215 s c" "vmem w = (mem s)(fxs_idletxhookstate c := 1)"
    "vothers w = si_st k L b0 s" "proslic_ready k c (get_cal s c) w"
proof -
  let ?s0 = "setm (fxs_idletxhookstate c) 1 s"
  obtain v0 where v0: "card_at e k L b0 c ?s0 v0" "v3215 v0 = is_3215 s c" "vmem v0 = (mem s)(fxs_idletxhookstate c := 1)"
    "vothers v0 = si_st k L b0 s"
    using card_at_setm[OF card_at_start[OF assms(1)], of "fxs_idletxhookstate c" 1] by fastforce
  have r14: "14 \<in> set init_regs" by (simp add: init_regs_def)
  obtain s1 s2 v4 where s1: "wcfxs_proslic_init_indirect_regs e k c (wcfxs_setreg c 14 0x10 ?s0) = (0, s1)"
    "save_filters e k c filters (fold (\<lambda>(r, v). wcfxs_setreg c r v) early_writes
       (snd (wcfxs_proslic_setreg_indirect e k c 97 0 s1))) = (map (\<lambda>a. if vhas v4 a then vi v4 (vaddr v4 a) else 0) filters, s2)"
    "card_at e k L b0 c s2 (fold (\<lambda>a. vset a 0x8000) filters v4)" "table_set v4"
    "v3215 v4 = v3215 v0" "vmem v4 = vmem v0" "vothers v4 = vothers v0"
    by (rule init_flush[OF card_at_setreg_init[OF v0(1) assms(2) r14, of "0x10"] assms(2), unfolded vwrites_simps])
       (rule that)
  let ?tmp = "map (\<lambda>a. if vhas v4 a then vi v4 (vaddr v4 a) else 0) filters"
  define v5 where "v5 = fold (\<lambda>a. vset a 0x8000) filters v4"
  have e5: "v3215 v5 = v3215 v4" "vmem v5 = vmem v4" "vothers v5 = vothers v4" by (simp_all add: v5_def filters_def)
  obtain s6 where s6: "wcfxs_powerup_proslic e k fuel c True s2 = Some (0, s6)"
    "card_at e k L b0 c s6 (vwrites [(92, 0xff), (14, 0)] v5)"
    using powerup_fast[OF s1(3) assms(2)] by (auto simp: v5_def)
  let ?v7 = "vwrites (cal_writes (get_cal s6 c)) (vwrites [(92, 0xff), (14, 0)] v5)"
  let ?v8 = "fold (\<lambda>(a, t). vset a t) (zip filters ?tmp) ?v7"
  let ?s8 = "restore_filters e k c (zip filters ?tmp) (restore_cal c s6)"
  have s8: "card_at e k L b0 c ?s8 ?v8"
    unfolding restore_cal_fold cal_writes_def[symmetric]
    by (intro card_at_restore card_at_writes[OF s6(2) assms(2)]) (use cal_regs(3) in blast)
  have i8: "vi ?v8 = vi v4" by (rule filters_back, simp add: e5, simp add: v5_def)
  then have t8: "table_set ?v8" using s1(4) by (simp add: table_set_iff e5)
  then obtain s9 where s9: "wcfxs_proslic_verify_indirect_regs e k c ?s8 = (0, s9)" "card_at e k L b0 c s9 ?v8"
    using card_at_verify[OF s8] by blast
  obtain w where w: "card_at e k L b0 c (snd (final_registers e k c s9)) w" "v3215 w = v3215 ?v8" "vmem w = vmem ?v8"
    "vothers w = vothers ?v8" "vi w = vi (fold (\<lambda>(a, t). vset a t) (late_indirect k) ?v8)" "vd w 64 = 1"
    "\<forall>(r, x)\<in>set (late_writes k c). vd w r = x"
    "\<forall>r. r \<notin> {1, 2, 3, 4, 5, 10, 18, 19, 20, 64, 72, 73} \<longrightarrow> vd w r = vd ?v8 r"
    using final_registers_at(2)[OF s9(2) assms(2)] by blast
  have g: "get_cal s6 c x = get_cal s c x" for x
  proof -
    have "mem s6 = (mem s)(fxs_idletxhookstate c := 1)"
      using s6(2) s1(6) v0(3) e5 by (simp add: card_at_def)
    then show ?thesis using assms(1) by (simp add: get_cal_def cal_word_def fxs_idletxhookstate_def si_ok_def)
  qed
  have "vd w (of_nat (96 + x)) = get_cal s c x" if "x < NUM_CAL_REGS" for x
  proof -
    note i = cal_writes_in[OF that, of "get_cal s6 c"]
    have "of_nat (96 + x) \<in> fst ` set (cal_writes (get_cal s6 c))" using i by force
    then show ?thesis using w(8) cal_regs(3) upd_all_in[OF cal_regs(1) i] g by simp
  qed
  moreover have "vd w 14 = 0" using w(8) upd_all_notin[OF cal_regs(2)] by simp
  moreover have "final_registers e k c s9 = (0, snd (final_registers e k c s9))"
    using final_registers_at(1)[OF s9(2) assms(2)] by (simp add: prod_eq_iff)
  then have "wcfxs_init_proslic e k fuel c True manual True s = Some (0, snd (final_registers e k c s9))"
    using s1(1,2) s6(1) s9(1)
    by (simp add: wcfxs_init_proslic_def Let_def split_beta filters_def[symmetric] early_writes_def)
  ultimately show ?thesis
    using that[OF _ w(1)] w(2-7) t8 v0(2-4) s1(5-7) e5 by (force simp: proslic_ready_def)
qed

lemma vset_other: "x \<noteq> vaddr v a \<Longrightarrow> vi (vset a d v) x = vi v x" "vaddr (vset a d v) = vaddr v"
  by (auto simp: vset_def vaddr_def)

lemma vset_fold_other:
  "\<forall>p\<in>set ts. x \<noteq> vaddr v (fst p) \<Longrightarrow> vi (fold (\<lambda>(a, t). vset a t) ts v) x = vi v x"
proof (induction ts arbitrary: v)
  case (Cons p ts)
  then show ?case using vset_other(1)[of x v "fst p" "snd p"] by (simp add: vset_other(2) split_beta)
qed simp

lemma late_indirect_table:
  assumes "table_set v" "a \<in> set indirect_regs" "address a \<noteq> 20" "address a \<noteq> 21" "vhas v (address a)"
  shows "vi (fold (\<lambda>(a, t). vset a t) (late_indirect k) v) (vaddr v (address a)) = initial a"
proof -
  have t: "translate_3215 20 = 7" "translate_3215 21 = 8" by code_simp+
  have "list_all (\<lambda>a. address a = 20 \<or> address a = 21 \<or> altaddr a \<noteq> 7 \<and> altaddr a \<noteq> 8) indirect_regs" by code_simp
  then have "vaddr v (address a) \<noteq> vaddr v 20" "vaddr v (address a) \<noteq> vaddr v 21"
    using assms(2-4) table_facts(2)[OF assms(2)] by (auto simp: vaddr_def t list_all_iff)
  moreover have "set (late_indirect k) \<subseteq> {20, 21} \<times> UNIV" by (auto simp: late_indirect_def)
  ultimately have "vi (fold (\<lambda>(a, t). vset a t) (late_indirect k) v) (vaddr v (address a)) = vi v (vaddr v (address a))"
    by (intro vset_fold_other) auto
  then show ?thesis using assms(1,2,5) by (simp add: table_set_def)
qed

section \<open>FXO initialisation\<close>

lemma clock_frame [simp]:
  "bus (snd (jiffies e s)) = bus s" "bus (wait_just_a_bit x s) = bus s" "ticks (wait_just_a_bit x s) = Suc (ticks s)"
  "ticks (snd (jiffies e s)) = Suc (ticks s)" "fst (jiffies e s) = clk e (ticks s)"
  "coherent ch b0 (snd (jiffies e s)) = coherent ch b0 s" "coherent ch b0 (wait_just_a_bit x s) = coherent ch b0 s"
  by (simp_all add: jiffies_def wait_just_a_bit_def coherent_def)

abbreviation regs_of :: "(u8 \<Rightarrow> u8) board_st \<Rightarrow> wc \<Rightarrow> nat \<Rightarrow> u8 \<Rightarrow> u8" where
  "regs_of b0 s \<equiv> chips (board_of plain b0 (bus s))"

lemma plain_regs:
  assumes "on_board e plain b0" "coherent plain b0 s" "c < 8"
  shows "regs_of b0 (wcfxs_setreg c r v s) = (regs_of b0 s)(c := (regs_of b0 s c)(r AND 0x7f := v))"
    "coherent plain b0 (wcfxs_setreg c r v s)"
    "regs_of b0 (snd (wcfxs_getreg e c r s)) = regs_of b0 s" "coherent plain b0 (snd (wcfxs_getreg e c r s))"
    "fst (wcfxs_getreg e c r s) = regs_of b0 s c (r AND 0x7f)"
  using cardbus.setr_st[of e plain b0 s c r v] cardbus.setr_ok[of e plain b0 s c r v] cardregs.get_pure[of e b0 s c r]
    cardbus.getr_ok[of e plain b0 s c r] cardbus.getr_val[of e plain b0 s c r] assms
  by (auto simp: plain_def)

text \<open>The wait for the isolation link ends at once when the link is up, and otherwise when the
  clock passes the deadline.\<close>

lemma iso_cap_wait_ends:
  assumes "on_board e plain b0" "c < 8"
  shows "coherent plain b0 s \<Longrightarrow> n < fuel \<Longrightarrow>
    regs_of b0 s c 11 AND 0xf0 \<noteq> 0 \<and> n = 0 \<or> d \<le> clk e (ticks s + 2 * n) \<Longrightarrow>
    \<exists>s'. iso_cap_wait e k c fuel d s = Some s' \<and> coherent plain b0 s' \<and> regs_of b0 s' = regs_of b0 s"
proof (induction n arbitrary: s fuel)
  case 0
  then obtain m where m: "fuel = Suc m" by (cases fuel) auto
  note g = plain_regs(3-5)[OF assms(1) _ assms(2), of "snd (jiffies e s)" 11]
  show ?case using 0 g by (auto simp: m split_beta)
next
  case (Suc n)
  then obtain m where m: "fuel = Suc m" by (cases fuel) auto
  let ?s1 = "snd (jiffies e s)" let ?s2 = "wait_just_a_bit (HZ k div 10) (snd (wcfxs_getreg e c 11 ?s1))"
  note g = plain_regs(3-5)[OF assms(1) _ assms(2), of "snd (jiffies e s)" 11]
  have "\<exists>s'. iso_cap_wait e k c m d ?s2 = Some s' \<and> coherent plain b0 s' \<and> regs_of b0 s' = regs_of b0 ?s2"
    using Suc.IH[of ?s2 m] Suc.prems g by (auto simp: m)
  then show ?case using Suc.prems g by (auto simp: m split_beta)
qed

text \<open>What the Si3050 is given for the operating mode and the timeslot of port \<open>c\<close>.\<close>

definition daa_setup :: "params \<Rightarrow> nat \<Rightarrow> (u8 \<times> u8) list" where
  "daa_setup k c = [(1, 0x80), (33, 0x28), (16, daa_reg16 (cur_mode k)), (26, daa_reg26 (cur_mode k)),
     (30, acim (cur_mode k)), (31, daa_reg31 (cur_mode k)), (34, of_nat (c * 8)), (35, 0), (36, of_nat (c * 8)), (37, 0), (6, 0)]"

section \<open>Properties\<close>

text \<open>
  C17.  Bringing a working ProSLIC back with the fast path of \<open>wcfxs_init_proslic\<close>
  (as the interrupt handler does when a card looks dead) always succeeds, needs no
  waiting loop, and leaves the chip ready: on PCM timeslot \<open>8 * c\<close> in both
  directions, out of power-down, line feed on, calibration registers 96 to 107
  holding the saved vector, and every indirect register of the table the chip has,
  the five flushed filters included, at its initial value, except the ring registers
  20 and 21, which the module parameters may change.  No other card's chip changes,
  and of the driver's memory only the idle hook state of this card.
\<close>

theorem fast_reinit:
  assumes "si_ok e k L b0 c s" and "regs_apart k"
  shows "\<exists>s'. wcfxs_init_proslic e k fuel c True manual True s = Some (0, s') \<and> si_ok e k L b0 c s' \<and>
    dreg (si_st k L b0 s' c) 2 = of_nat (c * 8) \<and> dreg (si_st k L b0 s' c) 4 = of_nat (c * 8) \<and>
    dreg (si_st k L b0 s' c) 1 = 0x28 \<and> dreg (si_st k L b0 s' c) 14 = 0 \<and> dreg (si_st k L b0 s' c) 64 = 1 \<and>
    (\<forall>x<NUM_CAL_REGS. dreg (si_st k L b0 s' c) (of_nat (96 + x)) = get_cal s c x) \<and>
    (\<forall>a\<in>set indirect_regs. address a \<noteq> 20 \<and> address a \<noteq> 21 \<and> has_ireg s c (address a) \<longrightarrow>
       ireg (si_st k L b0 s' c) (chip_addr s c (address a)) = initial a) \<and>
    (\<forall>j. j \<noteq> c \<longrightarrow> si_st k L b0 s' j = si_st k L b0 s j) \<and> mem s' = (mem s)(fxs_idletxhookstate c := 1)"
proof -
  obtain s' w where w: "wcfxs_init_proslic e k fuel c True manual True s = Some (0, s')"
    "card_at e k L b0 c s' w" "v3215 w = is_3215 s c" "vmem w = (mem s)(fxs_idletxhookstate c := 1)"
    "vothers w = si_st k L b0 s" "proslic_ready k c (get_cal s c) w"
    by (rule init_proslic_fast[OF assms])
  obtain v where v: "table_set v" "v3215 v = v3215 w" "vi w = vi (fold (\<lambda>(a, t). vset a t) (late_indirect k) v)"
    using w(6) by (auto simp: proslic_ready_def)
  have d: "dreg (si_st k L b0 s' c) r = vd w r" if "r \<in> set init_regs" for r
    using w(2) regs_apartD[OF assms(2) that] by (auto simp: card_at_def special_def)
  have "of_nat (96 + x) \<in> set init_regs" if "x < NUM_CAL_REGS" for x
    using that by (auto simp: init_regs_def)
  moreover have "1 \<in> set init_regs" "2 \<in> set init_regs" "4 \<in> set init_regs" "14 \<in> set init_regs" "64 \<in> set init_regs"
    by (simp_all add: init_regs_def)
  moreover have "ireg (si_st k L b0 s' c) (chip_addr s c (address a)) = initial a"
    if "a \<in> set indirect_regs" "address a \<noteq> 20" "address a \<noteq> 21" "has_ireg s c (address a)" for a
    using late_indirect_table[OF v(1) that(1-3)] that(4) v w(2,3)
    by (simp add: card_at_def vhas_def vaddr_def has_ireg_def chip_addr_def)
  ultimately show ?thesis
    using w d by (intro exI[of _ s']) (auto simp: card_at_def proslic_ready_def late_writes_def simp del: of_nat_add)
qed

theorem fast_reinit_witness:
  "\<exists>s'. wcfxs_init_proslic demo_si_env demo_params 0 0 True True True demo_si_wc = Some (0, s') \<and>
    dreg (si_st demo_params 3 demo_si s' 0) 64 = 1"
proof -
  have "regs_apart demo_params" by code_simp
  then show ?thesis using fast_reinit[OF demo_si_ok, of 0 True] by blast
qed

text \<open>
  \<open>wcfxs_init_voicedaa\<close> on a Si3050 in port \<open>c\<close>, on every branch.  A card whose
  register 2 does not read 3 gives \<open>-2\<close> and nothing is written to it.  Otherwise the
  operating mode, the PCM mode and timeslot \<open>8 * c\<close> are programmed; when the isolation
  link is up the result is 0 with the line monitor (and loop-back, if asked for) on, and
  when it stays down until the clock passes the deadline the result is \<open>-1\<close>.  No other
  card is touched.
\<close>

lemma init_voicedaa_branches:
  assumes "on_board e plain b0" and "coherent plain b0 (s\<lparr>modtype := (modtype s)(c := MOD_TYPE_FXO)\<rparr>)" and "c < 8"
    and "n < fuel" and "link = (regs_of b0 s c 11 AND 0xf0 \<noteq> 0)"
    and "link \<and> n = 0 \<or> clk e (Suc (ticks s)) + 2 * HZ k \<le> clk e (Suc (Suc (ticks s)) + 2 * n)"
  shows "\<exists>s'. wcfxs_init_voicedaa e k fuel c False s =
      Some (if regs_of b0 s c 2 \<noteq> 3 then -2 else if link then 0 else -1, s') \<and>
    regs_of b0 s' = (if regs_of b0 s c 2 \<noteq> 3 then regs_of b0 s
      else (regs_of b0 s)(c := upd_all (daa_setup k c @ (if link then (5, 0x08) # (if loopback k then [(10, 1)] else []) else []))
        (regs_of b0 s c)))"
proof -
  define s0 where "s0 = s\<lparr>modtype := (modtype s)(c := MOD_TYPE_FXO)\<rparr>"
  have s0: "coherent plain b0 s0" "regs_of b0 s0 = regs_of b0 s" "ticks s0 = ticks s" using assms(2) by (simp_all add: s0_def)
  note p = plain_regs[OF assms(1) _ assms(3)]
  note i = p(3-5)[OF s0(1), of 2] p(3-5)[OF p(4)[OF s0(1), of 2], of 11]
  define s1 where "s1 = snd (wcfxs_voicedaa_insane e c s0)"
  have s1: "coherent plain b0 s1" "regs_of b0 s1 = regs_of b0 s" "ticks s1 = ticks s"
    "wcfxs_voicedaa_insane e c s0 = (if regs_of b0 s c 2 \<noteq> 3 then -2 else 0, s1)"
    using i s0(2,3) by (auto simp: s1_def wcfxs_voicedaa_insane_def split_beta)
  show ?thesis
  proof (cases "regs_of b0 s c 2 = 3")
    case False
    then show ?thesis using s1 by (simp add: wcfxs_init_voicedaa_def Let_def s0_def[symmetric])
  next
    case True
    let ?S = "\<lambda>r v s. wcfxs_setreg c r v s"
    define s2 where "s2 = fold (\<lambda>(r, x). wcfxs_setreg c r x) (tl (daa_setup k c)) (wait_just_a_bit (HZ k div 10) (?S 1 0x80 s1))"
    have s2: "coherent plain b0 s2" "regs_of b0 s2 = (regs_of b0 s)(c := upd_all (daa_setup k c) (regs_of b0 s c))"
      "ticks s2 = Suc (ticks s)"
      using s1(1-3) by (simp_all add: s2_def daa_setup_def p)
    define s3 where "s3 = snd (jiffies e s2)"
    have l: "link = (regs_of b0 s3 c 11 AND 0xf0 \<noteq> 0)" using s2(2) assms(5) by (simp add: s3_def daa_setup_def)
    obtain s4 where s4: "iso_cap_wait e k c fuel (clk e (ticks s2) + 2 * HZ k) s3 = Some s4" "coherent plain b0 s4"
      "regs_of b0 s4 = regs_of b0 s3"
      using iso_cap_wait_ends[OF assms(1,3), of s3 n fuel "clk e (ticks s2) + 2 * HZ k"] assms(4,6) s2(1,3)
      by (auto simp: s3_def l[unfolded s3_def])
    have c4: "regs_of b0 s4 = (regs_of b0 s)(c := upd_all (daa_setup k c) (regs_of b0 s c))"
      using s4(3) s2(2) by (simp add: s3_def)
    define s5 where "s5 = snd (wcfxs_getreg e c 11 s4)"
    have s5: "coherent plain b0 s5" "regs_of b0 s5 = regs_of b0 s4" "link = (fst (wcfxs_getreg e c 11 s4) AND 0xf0 \<noteq> 0)"
      using p(3-5)[OF s4(2), of 11] l s4(3) by (simp_all add: s5_def)
    define s6 where "s6 = (if debug k \<noteq> 0 then snd (wcfxs_getreg e c 13 (snd (wcfxs_getreg e c 11 s5))) else s5)"
    have s6: "coherent plain b0 s6" "regs_of b0 s6 = regs_of b0 s4" using s5(1,2) p(3,4) by (simp_all add: s6_def)
    have run: "wcfxs_init_voicedaa e k fuel c False s = (if link then Some (0, if loopback k then ?S 10 1 (?S 5 8 s6) else ?S 5 8 s6)
        else Some (-1, s5))"
      using s4(1)[unfolded s3_def s2_def daa_setup_def] True s5(3) s1(4)
      by (simp add: wcfxs_init_voicedaa_def Let_def s0_def[symmetric] split_beta s5_def[symmetric] s6_def)
    show ?thesis unfolding run using True c4 s5(2) s6 by (auto simp: p upd_all_app)
  qed
qed

text \<open>
  The calibration vectors saved for eight ProSLICs, twelve bytes each inside the
  union \<open>mod\<close>, are independent bytes: storing byte \<open>x\<close> of card \<open>c\<close> changes that byte only.
\<close>

lemma cal_saved:
  assumes "x < NUM_CAL_REGS" and "y < NUM_CAL_REGS"
  shows "get_cal (set_cal c x v s) d y = (if d = c \<and> y = x then v else get_cal s d y)"
proof (cases "cal_word d y = cal_word c x")
  case True
  have "cal_shift c x = cal_shift d y \<longleftrightarrow> d = c \<and> y = x"
    using cal_pos_inj[OF assms True[symmetric]] by auto
  then show ?thesis
    using byte_store[OF cal_shift_cases[of c x] cal_shift_cases[of d y], of "mem s (cal_word c x)" v] True
    by (simp only: get_cal_def set_cal_def setm_simps fun_upd_same)
next
  case False
  then show ?thesis by (auto simp: get_cal_def set_cal_def)
qed

text \<open>
  The polarity debounce counter of the FXO card in port \<open>c\<close> lies over four bytes of the
  calibration vector saved for the FXS card in port \<open>c div 3\<close>: every store to it
  overwrites them, so on a board with both kinds of cards the fast re-initialisation
  programs the counter's bytes into the ProSLIC's calibration registers.
\<close>

lemma polarity_debounce_clobbers:
  assumes "y < NUM_CAL_REGS"
  shows "get_cal (setm (fxo_polaritydebounce c) v s) d y =
    (if d = c div 3 \<and> y div 4 = c mod 3 then ucast (drop_bit (8 * (y mod 4)) v) else get_cal s d y)"
proof -
  have split: "NUM_CAL_REGS * d + y = y + 4 * (3 * d)" by (simp add: NUM_CAL_REGS_def)
  have "cal_word d y = 64 + (3 * d + y div 4)" "cal_shift d y = 8 * (y mod 4)"
    by (simp_all only: cal_word_def cal_shift_def split mod_mult_self2 div_mult_self2)
  moreover have "3 * d + y div 4 = c \<longleftrightarrow> d = c div 3 \<and> y div 4 = c mod 3"
    using assms by (auto simp: NUM_CAL_REGS_def)
  ultimately show ?thesis by (auto simp: get_cal_def fxo_polaritydebounce_def)
qed

text \<open>
  The loop current register gets a legal step, 0 to 7, for every setting from 18 mA
  up, and the default for a setting above 41 mA; a setting from 0 to 17 mA, also out of
  range, is not caught and programs 251 or more.
\<close>

lemma loop_limit_register:
  assumes "0 \<le> loopcurrent k"
  shows "(18 \<le> loopcurrent k \<longrightarrow> uint (of_int (loop_lim k) :: u8) \<le> 7) \<and>
    (loopcurrent k < 18 \<longrightarrow> 250 \<le> uint (of_int (loop_lim k) :: u8)) \<and> (41 < loopcurrent k \<longrightarrow> (of_int (loop_lim k) :: u8) = 0)"
proof -
  have "loop_lim k \<in> {0..7}" if "18 \<le> loopcurrent k" using that by (auto simp: loop_lim_def c_div3_def)
  moreover have "loop_lim k \<in> {-6, -5, -4, -3, -2, -1}" if "loopcurrent k < 18"
    using that assms by (auto simp: loop_lim_def c_div3_def)
  moreover have "loop_lim k = 0" if "41 < loopcurrent k" using that by (simp add: loop_lim_def)
  ultimately show ?thesis by (auto simp: uint_word_of_int take_bit_eq_mod)
qed

end
