(* ===== verification/Wcfxs_Hook.thy ===== *)
theory Wcfxs_Hook
  imports Wcfxs_Init
begin

text \<open>
  Line supervision in \<open>src/src/wcfxs.c\<close>: the FXO poll (ringing, battery, polarity), the
  FXS poll (hook switch) and the sanity recheck.  What is reported to the Zaptel core
  is recorded in \<open>zt\<close>; the core's reaction is not part of the call.

  The polls keep their counters in the union \<open>mod\<close>.  The second part abstracts them to
  two small state machines over integers, proves that the polls implement these, and
  derives how many equal readings it takes until a change is reported.
\<close>

section \<open>Operations\<close>

definition ZT_CHUNKSIZE :: nat where [cdefs]: "ZT_CHUNKSIZE = 8"
definition BATT_DEBOUNCE :: u32 where [cdefs]: "BATT_DEBOUNCE = 64"
definition POLARITY_DEBOUNCE :: u32 where [cdefs]: "POLARITY_DEBOUNCE = 64"
definition BATT_THRESH :: int where [cdefs]: "BATT_THRESH = 3"
definition MAX_ALARMS :: int where [cdefs]: "MAX_ALARMS = 10"
definition FX_LED_RED :: u32 where [cdefs]: "FX_LED_RED = 1"
definition FX_LED_GREEN :: u32 where [cdefs]: "FX_LED_GREEN = 2"

definition zt_hooksig :: "nat \<Rightarrow> rxsig \<Rightarrow> wc \<Rightarrow> wc" where
  "zt_hooksig c x s = s\<lparr>zt := zt s @ [Hooksig c x]\<rparr>"

definition zt_qevent_polarity :: "nat \<Rightarrow> wc \<Rightarrow> wc" where
  "zt_qevent_polarity c s = s\<lparr>zt := zt s @ [Qevent_polarity c]\<rparr>"

text \<open>The fields of the union are \<open>int\<close>.\<close>

definition geti :: "wc \<Rightarrow> nat \<Rightarrow> int" where
  "geti s i = sint (mem s i)"

text \<open>The ring part of \<open>wcfxs_voicedaa_check_hook\<close>.\<close>

definition daa_ring_poll :: "env \<Rightarrow> nat \<Rightarrow> wc \<Rightarrow> wc" where
  "daa_ring_poll e c s =
     (if mem s (fxo_offhook c) = 0
      then let (res, s) = wcfxs_getreg e c 5 s
           in if res AND 0x60 \<noteq> 0 \<and> mem s (fxo_battery c) \<noteq> 0
              then let s = setm (fxo_ringdebounce c) (mem s (fxo_ringdebounce c) + of_nat (ZT_CHUNKSIZE * NUM_CARDS)) s
                   in if int (ZT_CHUNKSIZE * 64) \<le> geti s (fxo_ringdebounce c)
                      then let s = (if mem s (fxo_wasringing c) = 0
                                    then let s = setm (fxo_wasringing c) 1 s; s = zt_hooksig c RXSIG_RING s
                                         in wcfxs_set_led (c + 1) FX_LED_GREEN s
                                    else s)
                           in setm (fxo_ringdebounce c) (of_nat (ZT_CHUNKSIZE * 64)) s
                      else s
              else let s = setm (fxo_ringdebounce c) (mem s (fxo_ringdebounce c) - of_nat ZT_CHUNKSIZE) s
                   in if geti s (fxo_ringdebounce c) \<le> 0
                      then let s = (if mem s (fxo_wasringing c) \<noteq> 0
                                    then let s = setm (fxo_wasringing c) 0 s; s = zt_hooksig c RXSIG_OFFHOOK s;
                                             s = wcfxs_set_led (c + 1) FX_LED_RED s
                                         in s\<lparr>curcard := -1\<rparr>
                                    else s)
                           in setm (fxo_ringdebounce c) 0 s
                      else s
      else s)"

text \<open>The battery and polarity readings, from the line voltage \<open>b\<close>.\<close>

definition daa_batt_poll :: "nat \<Rightarrow> int \<Rightarrow> wc \<Rightarrow> wc" where
  "daa_batt_poll c b s =
     (if \<bar>b\<bar> < BATT_THRESH
      then let s = setm (fxo_nobatttimer c) (mem s (fxo_nobatttimer c) + 1) s
           in if mem s (fxo_battery c) \<noteq> 0 \<and> mem s (fxo_battdebounce c) = 0
              then let s = setm (fxo_battery c) 0 s; s = zt_hooksig c RXSIG_ONHOOK s
                   in setm (fxo_battdebounce c) BATT_DEBOUNCE s
              else if mem s (fxo_battery c) = 0 then setm (fxo_battdebounce c) BATT_DEBOUNCE s else s
      else if BATT_THRESH < \<bar>b\<bar>
      then let s = (if mem s (fxo_battery c) = 0 \<and> mem s (fxo_battdebounce c) = 0
                    then let s = zt_hooksig c RXSIG_OFFHOOK s; s = setm (fxo_battery c) 1 s; s = setm (fxo_nobatttimer c) 0 s
                         in setm (fxo_battdebounce c) BATT_DEBOUNCE s
                    else if mem s (fxo_battery c) \<noteq> 0 then setm (fxo_battdebounce c) BATT_DEBOUNCE s else s);
               s = (if 0 \<le> geti s (fxo_lastpol c) \<and> b < 0
                    then let s = setm (fxo_lastpol c) (-1) s in setm (fxo_polaritydebounce c) POLARITY_DEBOUNCE s
                    else s)
           in if geti s (fxo_lastpol c) \<le> 0 \<and> 0 < b
              then let s = setm (fxo_lastpol c) 1 s in setm (fxo_polaritydebounce c) POLARITY_DEBOUNCE s
              else s
      else setm (fxo_battdebounce c) BATT_DEBOUNCE s)"

text \<open>The two countdowns at its end.\<close>

definition daa_count_poll :: "nat \<Rightarrow> wc \<Rightarrow> wc" where
  "daa_count_poll c s =
     (let s = (if mem s (fxo_battdebounce c) \<noteq> 0
               then setm (fxo_battdebounce c) (mem s (fxo_battdebounce c) - of_nat (NUM_CARDS div 4)) s else s)
      in if mem s (fxo_polaritydebounce c) \<noteq> 0
         then let s = setm (fxo_polaritydebounce c) (mem s (fxo_polaritydebounce c) - 1) s
              in if geti s (fxo_polaritydebounce c) < 1 \<and> mem s (fxo_lastpol c) \<noteq> mem s (fxo_polarity c)
                 then let s = (if mem s (fxo_polarity c) \<noteq> 0 then zt_qevent_polarity c s else s)
                      in setm (fxo_polarity c) (mem s (fxo_lastpol c)) s
                 else s
         else s)"

definition wcfxs_voicedaa_check_hook :: "env \<Rightarrow> nat \<Rightarrow> wc \<Rightarrow> wc" where
  "wcfxs_voicedaa_check_hook e c s =
     (let s = daa_ring_poll e c s; (b, s) = wcfxs_getreg e c 29 s in daa_count_poll c (daa_batt_poll c (sint b) s))"

text \<open>The reports at the end of the debouncing branch of \<open>wcfxs_proslic_check_hook\<close>.\<close>

definition hook_report :: "env \<Rightarrow> params \<Rightarrow> nat \<Rightarrow> nat \<Rightarrow> wc \<Rightarrow> wc option" where
  "hook_report e k fuel c s =
     (if mem s (fxs_oldrxhook c) = 0 \<and> mem s (fxs_debouncehook c) \<noteq> 0
      then do {
        let s = zt_hooksig c RXSIG_OFFHOOK s;
        s \<leftarrow> (if robust k then map_option snd (wcfxs_init_proslic e k fuel c True False True s) else Some s);
        Some (setm (fxs_oldrxhook c) 1 s)
      }
      else if mem s (fxs_oldrxhook c) \<noteq> 0 \<and> mem s (fxs_debouncehook c) = 0
      then Some (setm (fxs_oldrxhook c) 0 (zt_hooksig c RXSIG_ONHOOK s))
      else Some s)"

definition wcfxs_proslic_check_hook :: "env \<Rightarrow> params \<Rightarrow> nat \<Rightarrow> nat \<Rightarrow> wc \<Rightarrow> wc option" where
  "wcfxs_proslic_check_hook e k fuel c s =
     (let (res, s) = wcfxs_getreg e c 68 s;
          hook = ucast (res AND 1)
      in do {
        s \<leftarrow>
          (if hook \<noteq> mem s (fxs_lastrxhook c) then Some (setm (fxs_debounce c) (8 * (4 * 8)) s)
           else if 0 < geti s (fxs_debounce c)
           then let s = setm (fxs_debounce c) (mem s (fxs_debounce c) - of_nat (4 * ZT_CHUNKSIZE)) s;
                    s = (if mem s (fxs_debounce c) = 0 then setm (fxs_debouncehook c) hook s else s)
                in hook_report e k fuel c s
           else Some s);
        Some (setm (fxs_lastrxhook c) hook s)
      })"

definition wcfxs_proslic_recheck_sanity :: "env \<Rightarrow> params \<Rightarrow> nat \<Rightarrow> nat \<Rightarrow> wc \<Rightarrow> wc option" where
  "wcfxs_proslic_recheck_sanity e k fuel c s =
     (let (res, s) = wcfxs_getreg e c 8 s
      in if res \<noteq> 0 then map_option snd (wcfxs_init_proslic e k fuel c True False True s)
         else
           let (res, s) = wcfxs_getreg e c 64 s
           in if res = 0 \<and> mem s (fxs_lasttxhook c) \<noteq> 0
              then let p = geti s (fxs_palarms c);
                       s = setm (fxs_palarms c) (mem s (fxs_palarms c) + 1) s
                   in if p < MAX_ALARMS
                      then let s = (if mem s (fxs_lasttxhook c) = 4 then setm (fxs_lasttxhook c) 1 s else s)
                           in Some (wcfxs_setreg c 64 (ucast (mem s (fxs_lasttxhook c))) s)
                      else Some s
              else Some s)"

section \<open>Frame facts\<close>

lemma hooksig_simps [simp]:
  "mem (zt_hooksig c x s) = mem s" "mem (zt_qevent_polarity c s) = mem s"
  "zt (zt_hooksig c x s) = zt s @ [Hooksig c x]" "zt (zt_qevent_polarity c s) = zt s @ [Qevent_polarity c]"
  by (simp_all add: zt_hooksig_def zt_qevent_polarity_def)

lemma set_led_frame [simp]: "mem (wcfxs_set_led p x s) = mem s" "zt (wcfxs_set_led p x s) = zt s"
  by (simp_all add: wcfxs_set_led_def fx_set_led_def Let_def tx_def)

lemma jiffies_frame [simp]: "mem (snd (jiffies e s)) = mem s" "zt (snd (jiffies e s)) = zt s"
  by (simp_all add: jiffies_def)

lemma init_from_frame:
  "mem (snd (init_indirect_from e k c as s)) = mem s \<and> zt (snd (init_indirect_from e k c as s)) = zt s"
proof (induction as arbitrary: s)
  case (Cons a as)
  then show ?case by (simp add: split_beta)
qed simp

lemma verify_from_frame:
  "mem (snd (verify_indirect_from e k c as p s)) = mem s \<and> zt (snd (verify_indirect_from e k c as p s)) = zt s"
proof (induction as arbitrary: s p)
  case (Cons a as)
  then show ?case by (simp add: split_beta)
qed simp

lemma save_filters_frame:
  "mem (snd (save_filters e k c as s)) = mem s \<and> zt (snd (save_filters e k c as s)) = zt s"
proof (induction as arbitrary: s)
  case (Cons a as)
  then show ?case by (simp add: split_beta Let_def)
qed simp

lemma fold_frame:
  "(\<And>x s. mem (f x s) = mem s \<and> zt (f x s) = zt s) \<Longrightarrow> mem (fold f xs s) = mem s \<and> zt (fold f xs s) = zt s"
  by (induction xs arbitrary: s) auto

lemma final_registers_frame: "mem (snd (final_registers e k c s)) = mem s \<and> zt (snd (final_registers e k c s)) = zt s"
  by (simp add: final_registers_def Let_def split_beta)

text \<open>On any hardware, dead hardware included, the fast re-initialisation returns, reports
  nothing, and of the driver's memory only changes the idle hook state.\<close>

lemma init_fast_total:
  "\<exists>r s'. wcfxs_init_proslic e k fuel c True manual True s = Some (r, s') \<and>
     mem s' = (mem s)(fxs_idletxhookstate c := 1) \<and> zt s' = zt s"
proof -
  have a: "mem (restore_cal c s) = mem s \<and> zt (restore_cal c s) = zt s" for s
    unfolding restore_cal_def by (rule fold_frame) simp
  have b: "mem (restore_filters e k c ts s) = mem s \<and> zt (restore_filters e k c ts s) = zt s" for ts s
    unfolding restore_filters_def by (rule fold_frame) (simp add: split_beta)
  have v: "mem (snd (wcfxs_proslic_verify_indirect_regs e k c s)) = mem s \<and> zt (snd (wcfxs_proslic_verify_indirect_regs e k c s)) = zt s" for s
    using verify_from_frame[of e k c indirect_regs True s]
    by (auto simp: wcfxs_proslic_verify_indirect_regs_def split: prod.split option.split)
  let ?s1 = "wcfxs_setreg c 14 0x10 (setm (fxs_idletxhookstate c) 1 s)"
  let ?M = "(mem s)(fxs_idletxhookstate c := 1)"
  obtain r2 s2 where s2: "wcfxs_proslic_init_indirect_regs e k c ?s1 = (r2, s2)" "mem s2 = ?M" "zt s2 = zt s"
    using init_from_frame[of e k c indirect_regs ?s1] unfolding wcfxs_proslic_init_indirect_regs_def
    by (cases "init_indirect_from e k c indirect_regs ?s1") auto
  let ?s3 = "fold (\<lambda>(r, v). wcfxs_setreg c r v) early_writes (snd (wcfxs_proslic_setreg_indirect e k c 97 0 s2))"
  obtain tmp s4 where s4: "save_filters e k c filters ?s3 = (tmp, s4)" "mem s4 = ?M" "zt s4 = zt s"
    using save_filters_frame[of e k c filters ?s3] s2(2,3) by (cases "save_filters e k c filters ?s3") (auto simp: early_writes_def)
  obtain s5 where s5: "wcfxs_powerup_proslic e k fuel c True s4 = Some (0, s5)" "mem s5 = ?M" "zt s5 = zt s"
    using s4(2,3) by (auto simp: wcfxs_powerup_proslic_def Let_def split_beta)
  let ?s6 = "restore_filters e k c (zip filters tmp) (restore_cal c s5)"
  obtain r7 s7 where s7: "wcfxs_proslic_verify_indirect_regs e k c ?s6 = (r7, s7)" "mem s7 = ?M" "zt s7 = zt s"
    using v[of ?s6] a b s5(2,3) by (cases "wcfxs_proslic_verify_indirect_regs e k c ?s6") auto
  have "wcfxs_init_proslic e k fuel c True manual True s =
      (if r2 \<noteq> 0 then Some (-1, s2) else if r7 \<noteq> 0 then Some (-1, s7) else Some (final_registers e k c s7))"
    using s2(1) s4(1) s5(1) s7(1)
    by (simp add: wcfxs_init_proslic_def Let_def split_beta filters_def[symmetric] early_writes_def)
  then show ?thesis
    using s2 s7 final_registers_frame[of e k c s7] by (cases "final_registers e k c s7") auto
qed

section \<open>Counters as words\<close>

lemma of_nat_u32:
  "n < 2 ^ 31 \<Longrightarrow> sint (of_nat n :: u32) = int n" "n < 2 ^ 31 \<Longrightarrow> (of_nat n :: u32) = 0 \<longleftrightarrow> n = 0"
proof -
  assume n: "n < 2 ^ 31"
  then have u: "unat (of_nat n :: u32) = n" by (simp add: unat_of_nat)
  then show "sint (of_nat n :: u32) = int n" using sint_small[of "of_nat n"] n by simp
  show "(of_nat n :: u32) = 0 \<longleftrightarrow> n = 0" using unat_eq_zero[of "of_nat n :: u32"] u by simp
qed

section \<open>The hook switch: a value is reported when it was read nine times in a row\<close>

record debouncer =
  reported :: bool
  cur :: bool
  seen :: nat

definition HOOK_READINGS :: nat where
  "HOOK_READINGS = 9"

definition deb_step :: "bool \<Rightarrow> debouncer \<Rightarrow> debouncer" where
  "deb_step h d =
     (if h \<noteq> cur d then d\<lparr>cur := h, seen := 1\<rparr>
      else if Suc (seen d) = HOOK_READINGS then d\<lparr>seen := HOOK_READINGS, reported := h\<rparr>
      else if seen d < HOOK_READINGS then d\<lparr>seen := Suc (seen d)\<rparr> else d)"

definition deb_events :: "nat \<Rightarrow> debouncer \<Rightarrow> debouncer \<Rightarrow> zev list" where
  "deb_events c d d' = (if reported d' = reported d then []
     else [Hooksig c (if reported d' then RXSIG_OFFHOOK else RXSIG_ONHOOK)])"

text \<open>How the words of card \<open>c\<close> hold it: the counter runs down from 256 in steps of 32.\<close>

definition deb_word :: "nat \<Rightarrow> u32" where
  "deb_word n = of_nat (32 * (HOOK_READINGS - n))"

lemma deb_word_ends: "deb_word (Suc 0) = 256" "deb_word HOOK_READINGS = 0"
  by (simp_all add: deb_word_def HOOK_READINGS_def)

lemma deb_word_next:
  assumes "n < HOOK_READINGS"
  shows "deb_word n - 32 = deb_word (Suc n)" "0 < sint (deb_word n)" "deb_word (Suc n) = 0 \<longleftrightarrow> Suc n = HOOK_READINGS"
proof -
  have "32 * (HOOK_READINGS - n) = 32 * (HOOK_READINGS - Suc n) + 32" using assms by simp
  then show "deb_word n - 32 = deb_word (Suc n)" unfolding deb_word_def by (simp only: of_nat_add) simp
  show "0 < sint (deb_word n)" unfolding deb_word_def using assms by (subst of_nat_u32(1)) (auto simp: HOOK_READINGS_def)
  show "deb_word (Suc n) = 0 \<longleftrightarrow> Suc n = HOOK_READINGS"
    unfolding deb_word_def using assms by (subst of_nat_u32(2)) (auto simp: HOOK_READINGS_def)
qed

definition hook_abs :: "nat \<Rightarrow> (nat \<Rightarrow> u32) \<Rightarrow> debouncer \<Rightarrow> bool" where
  "hook_abs c m d \<longleftrightarrow> m (fxs_oldrxhook c) = of_bool (reported d) \<and> m (fxs_debouncehook c) = of_bool (reported d) \<and>
     m (fxs_lastrxhook c) = of_bool (cur d) \<and> m (fxs_debounce c) = deb_word (seen d) \<and>
     1 \<le> seen d \<and> seen d \<le> HOOK_READINGS \<and> (seen d = HOOK_READINGS \<longrightarrow> reported d = cur d)"

text \<open>The words of the card that the poll may change.\<close>

definition hook_words :: "nat \<Rightarrow> nat set" where
  "hook_words c = {fxs_oldrxhook c, fxs_debouncehook c, fxs_lastrxhook c, fxs_debounce c, fxs_idletxhookstate c}"

definition hook_read :: "env \<Rightarrow> nat \<Rightarrow> wc \<Rightarrow> bool" where
  "hook_read e c s \<longleftrightarrow> bit (fst (wcfxs_getreg e c 68 s)) 0"

lemma hook_word: "(ucast (x AND 1 :: u8) :: u32) = of_bool (bit x 0)"
  by (rule bit_word_eqI) (auto simp: bit_simps)

lemma seen_cases: "1 \<le> n \<Longrightarrow> n \<le> HOOK_READINGS \<Longrightarrow> n \<in> {1, 2, 3, 4, 5, 6, 7, 8, 9}"
  by (auto simp: HOOK_READINGS_def)

lemma hook_poll_refines:
  assumes "hook_abs c (mem s) d"
  shows "\<exists>s'. wcfxs_proslic_check_hook e k fuel c s = Some s' \<and> hook_abs c (mem s') (deb_step (hook_read e c s) d) \<and>
    zt s' = zt s @ deb_events c d (deb_step (hook_read e c s) d) \<and> (\<forall>i. i \<notin> hook_words c \<longrightarrow> mem s' i = mem s i)"
proof -
  obtain res s1 where g: "wcfxs_getreg e c 68 s = (res, s1)" by fastforce
  have f: "mem s1 = mem s" "zt s1 = zt s" "hook_read e c s = bit res 0"
    using regs_frame(4,6)[of e c 68 s] by (simp_all add: g hook_read_def)
  have i: "\<And>s. \<exists>r s'. wcfxs_init_proslic e k fuel c True False True s = Some (r, s') \<and>
     mem s' = (mem s)(fxs_idletxhookstate c := 1) \<and> zt s' = zt s" by (rule init_fast_total)
  have w: "fxs_debounce c \<noteq> fxs_lastrxhook c" "fxs_debouncehook c \<noteq> fxs_lastrxhook c" "fxs_oldrxhook c \<noteq> fxs_lastrxhook c"
    "fxs_debouncehook c \<noteq> fxs_debounce c" "fxs_oldrxhook c \<noteq> fxs_debounce c" "fxs_oldrxhook c \<noteq> fxs_debouncehook c"
    "fxs_idletxhookstate c \<notin> {fxs_debounce c, fxs_lastrxhook c, fxs_debouncehook c, fxs_oldrxhook c}"
    by (simp_all add: mem_offsets)
  note a = assms[unfolded hook_abs_def]
  note run = wcfxs_proslic_check_hook_def Let_def g prod.case hook_word f geti_def a
  consider (change) "bit res 0 \<noteq> cur d" | (stable) "bit res 0 = cur d" "seen d = HOOK_READINGS"
    | (count) "bit res 0 = cur d" "seen d < HOOK_READINGS" using a by linarith
  then show ?thesis
  proof cases
    case change
    then show ?thesis using w a f
      by (simp add: run deb_step_def deb_events_def hook_abs_def hook_words_def deb_word_ends)
         (simp add: HOOK_READINGS_def)
  next
    case stable
    then show ?thesis using w a f
      by (simp add: run deb_step_def deb_events_def hook_abs_def hook_words_def deb_word_ends)
  next
    case count
    note dw = deb_word_next[OF count(2)]
    define s2 where "s2 = setm (fxs_debounce c) (deb_word (Suc (seen d))) s1"
    define s3 where "s3 = (if Suc (seen d) = HOOK_READINGS then setm (fxs_debouncehook c) (of_bool (bit res 0)) s2 else s2)"
    have m3: "mem s3 (fxs_oldrxhook c) = of_bool (reported d)" "zt s3 = zt s"
      "mem s3 (fxs_debouncehook c) = of_bool (if Suc (seen d) = HOOK_READINGS then bit res 0 else reported d)"
      "mem s3 (fxs_debounce c) = (deb_word (Suc (seen d)))" "mem s3 (fxs_lastrxhook c) = of_bool (cur d)" "\<forall>i. i \<notin> hook_words c \<longrightarrow> mem s3 i = mem s i"
      using a f w by (auto simp: s3_def s2_def hook_words_def)
    have run: "wcfxs_proslic_check_hook e k fuel c s =
        hook_report e k fuel c s3 \<bind> (\<lambda>s. Some (setm (fxs_lastrxhook c) (of_bool (bit res 0)) s))"
      using count(1) dw by (simp add: run ZT_CHUNKSIZE_def s2_def s3_def)
    obtain r s4 where s4: "wcfxs_init_proslic e k fuel c True False True (zt_hooksig c RXSIG_OFFHOOK s3) = Some (r, s4)"
      "mem s4 = (mem s3)(fxs_idletxhookstate c := 1)" "zt s4 = zt s @ [Hooksig c RXSIG_OFFHOOK]"
      using i[of "zt_hooksig c RXSIG_OFFHOOK s3"] m3(2) by auto
    consider (early) "Suc (seen d) < HOOK_READINGS" | (same) "Suc (seen d) = HOOK_READINGS" "reported d = cur d"
      | (off) "Suc (seen d) = HOOK_READINGS" "\<not> reported d" "cur d"
      | (on) "Suc (seen d) = HOOK_READINGS" "reported d" "\<not> cur d" using count(2) by linarith
    then show ?thesis
    proof cases
      case early
      then show ?thesis unfolding run hook_report_def using m3 a w count by (simp add: f deb_step_def deb_events_def hook_abs_def hook_words_def)
    next
      case same
      then show ?thesis unfolding run hook_report_def using m3 a w count by (simp add: f deb_step_def deb_events_def hook_abs_def hook_words_def)
    next
      case off
      then show ?thesis unfolding run hook_report_def using m3 s4 a w count
        by (auto simp: Let_def f deb_step_def deb_events_def hook_abs_def hook_words_def)
    next
      case on
      then show ?thesis unfolding run hook_report_def using m3 a w count
        by (simp add: f deb_step_def deb_events_def hook_abs_def hook_words_def)
    qed
  qed
qed

text \<open>Consecutive polls of one card.\<close>

fun hook_polls :: "env \<Rightarrow> params \<Rightarrow> nat \<Rightarrow> nat \<Rightarrow> nat \<Rightarrow> wc \<Rightarrow> wc option" where
  "hook_polls e k fuel c 0 s = Some s"
| "hook_polls e k fuel c (Suc n) s = do { s \<leftarrow> hook_polls e k fuel c n s; wcfxs_proslic_check_hook e k fuel c s }"

definition hook_reads :: "env \<Rightarrow> params \<Rightarrow> nat \<Rightarrow> nat \<Rightarrow> nat \<Rightarrow> wc \<Rightarrow> bool \<Rightarrow> bool" where
  "hook_reads e k fuel c n s h \<longleftrightarrow>
     (\<forall>i<n. case hook_polls e k fuel c i s of None \<Rightarrow> True | Some s' \<Rightarrow> hook_read e c s' = h)"

text \<open>The debouncer after \<open>n\<close> readings \<open>h\<close> that differ from the last one before.\<close>

definition after_change :: "bool \<Rightarrow> debouncer \<Rightarrow> nat \<Rightarrow> debouncer" where
  "after_change h d n = (if n = 0 then d
     else \<lparr>reported = (if HOOK_READINGS \<le> n then h else reported d), cur = h, seen = min n HOOK_READINGS\<rparr>)"

lemma after_change_step: "cur d \<noteq> h \<Longrightarrow> deb_step h (after_change h d n) = after_change h d (Suc n)"
  by (cases d) (auto simp: after_change_def deb_step_def HOOK_READINGS_def)

lemma after_change_events:
  "deb_events c d (after_change h d n) @ deb_events c (after_change h d n) (after_change h d (Suc n)) =
   deb_events c d (after_change h d (Suc n))"
  by (auto simp: after_change_def deb_events_def HOOK_READINGS_def)

lemma hook_polls_change:
  assumes "hook_abs c (mem s) d" "cur d \<noteq> h"
  shows "hook_reads e k fuel c n s h \<Longrightarrow>
    \<exists>s'. hook_polls e k fuel c n s = Some s' \<and> hook_abs c (mem s') (after_change h d n) \<and>
      zt s' = zt s @ deb_events c d (after_change h d n) \<and> (\<forall>i. i \<notin> hook_words c \<longrightarrow> mem s' i = mem s i)"
proof (induction n)
  case 0
  show ?case using assms by (simp add: after_change_def deb_events_def)
next
  case (Suc n)
  then have "hook_reads e k fuel c n s h" by (simp add: hook_reads_def)
  then obtain s1 where s1: "hook_polls e k fuel c n s = Some s1" "hook_abs c (mem s1) (after_change h d n)"
    "zt s1 = zt s @ deb_events c d (after_change h d n)" "\<forall>i. i \<notin> hook_words c \<longrightarrow> mem s1 i = mem s i"
    using Suc.IH by auto
  have "hook_read e c s1 = h" using Suc.prems s1(1) unfolding hook_reads_def by (auto dest: spec[of _ n])
  with hook_poll_refines[OF s1(2), of e k fuel] show ?case
    using s1 after_change_events by (auto simp: after_change_step[OF assms(2)])
qed

section \<open>Properties\<close>

text \<open>
  C8.  The hook switch poll implements a debouncer that reports a value once it was read
  nine times in a row: every poll returns, whatever the hardware answers and with or
  without \<open>robust\<close>, its counters hold the debouncer's state after the reading, exactly the
  changes of the reported value go to the Zaptel core, and no other word of the union
  is touched.
\<close>

theorem hook_poll_debounces:
  assumes "hook_abs c (mem s) d"
  shows "\<exists>s'. wcfxs_proslic_check_hook e k fuel c s = Some s' \<and> hook_abs c (mem s') (deb_step (hook_read e c s) d) \<and>
    zt s' = zt s @ deb_events c d (deb_step (hook_read e c s) d) \<and> (\<forall>i. i \<notin> hook_words c \<longrightarrow> mem s' i = mem s i)"
  by (rule hook_poll_refines[OF assms])

definition idle_debouncer :: debouncer where
  "idle_debouncer = \<lparr>reported = False, cur = False, seen = 9\<rparr>"

lemma idle_abs: "hook_abs c (mem demo_wc) idle_debouncer"
  by (simp add: hook_abs_def idle_debouncer_def demo_wc_def deb_word_def HOOK_READINGS_def)

theorem hook_poll_debounces_witness:
  "\<exists>s'. wcfxs_proslic_check_hook demo_env demo_params 0 2 demo_wc = Some s' \<and> zt s' = []"
proof -
  have "\<not> hook_read demo_env 2 demo_wc" by code_simp
  then show ?thesis using hook_poll_debounces[OF idle_abs[of 2], of demo_env demo_params 0]
    by (auto simp: deb_step_def deb_events_def idle_debouncer_def HOOK_READINGS_def demo_wc_def)
qed

text \<open>
  A lasting change of the hook switch is reported exactly on its ninth reading, once:
  after \<open>n\<close> polls that all read the new value, the core has been told nothing for
  \<open>n < 9\<close>, and exactly the new state, once, for \<open>n \<ge> 9\<close>.
\<close>

lemma hook_change_reported:
  assumes "hook_abs c (mem s) d" and "cur d \<noteq> h" and "reported d \<noteq> h"
    and "hook_reads e k fuel c n s h"
  shows "\<exists>s'. hook_polls e k fuel c n s = Some s' \<and>
    zt s' = zt s @ (if 9 \<le> n then [Hooksig c (if h then RXSIG_OFFHOOK else RXSIG_ONHOOK)] else [])"
  using hook_polls_change[OF assms(1,2,4)] assms(3)
  by (auto simp: deb_events_def after_change_def HOOK_READINGS_def)

end
