(* ===== verification/Wcfxs_Daa.thy ===== *)
theory Wcfxs_Daa
  imports Wcfxs_Hook
begin

text \<open>
  The FXO poll \<open>wcfxs_voicedaa_check_hook\<close> (defined in \<open>Wcfxs_Hook\<close>) as three independent
  monitors: a leaky bucket for ringing, a counter of contrary readings for the battery,
  and a waiting time for the polarity.  The poll implements them on the words of the
  union \<open>mod\<close>; the properties say how long a change has to last until it is reported.
\<close>

section \<open>The monitors\<close>

text \<open>Ringing adds eight units, silence takes one away; full means ringing, empty means not.\<close>

record bucket =
  ringing :: bool
  level :: nat

definition ring_step :: "bool \<Rightarrow> bucket \<Rightarrow> bucket" where
  "ring_step r d =
     (if r then if 64 \<le> level d + 8 then \<lparr>ringing = True, level = 64\<rparr> else d\<lparr>level := level d + 8\<rparr>
      else if level d \<le> 1 then \<lparr>ringing = False, level = 0\<rparr> else d\<lparr>level := level d - 1\<rparr>)"

definition ring_events :: "nat \<Rightarrow> bucket \<Rightarrow> bucket \<Rightarrow> zev list" where
  "ring_events c d d' = (if ringing d' = ringing d then []
     else [Hooksig c (if ringing d' then RXSIG_RING else RXSIG_OFFHOOK)])"

text \<open>The battery is declared lost, or back, on the 32nd contrary reading in a row.\<close>

datatype volt = Low | Mid | High

definition volt_of :: "int \<Rightarrow> volt" where
  "volt_of b = (if \<bar>b\<bar> < 3 then Low else if 3 < \<bar>b\<bar> then High else Mid)"

record batt_mon =
  on :: bool
  contrary :: nat

definition batt_step :: "volt \<Rightarrow> batt_mon \<Rightarrow> batt_mon" where
  "batt_step v d =
     (if v = (if on d then Low else High)
      then if contrary d = 31 then \<lparr>on = \<not> on d, contrary = 0\<rparr> else d\<lparr>contrary := Suc (contrary d)\<rparr>
      else d\<lparr>contrary := 0\<rparr>)"

definition batt_events :: "nat \<Rightarrow> batt_mon \<Rightarrow> batt_mon \<Rightarrow> zev list" where
  "batt_events c d d' = (if on d' = on d then [] else [Hooksig c (if on d' then RXSIG_OFFHOOK else RXSIG_ONHOOK)])"

text \<open>A new sign of the line voltage is accepted after 64 polls without another change.\<close>

record pol_mon =
  cand :: int
  known :: int
  pwait :: nat

definition pol_cand :: "volt \<Rightarrow> int \<Rightarrow> pol_mon \<Rightarrow> pol_mon" where
  "pol_cand v b d = (if v = High \<and> cand d \<noteq> sgn b then d\<lparr>cand := sgn b, pwait := 64\<rparr> else d)"

definition pol_tick :: "pol_mon \<Rightarrow> pol_mon" where
  "pol_tick d = (if pwait d = 0 then d else if pwait d = 1 then d\<lparr>pwait := 0, known := cand d\<rparr> else d\<lparr>pwait := pwait d - 1\<rparr>)"

definition pol_step :: "volt \<Rightarrow> int \<Rightarrow> pol_mon \<Rightarrow> pol_mon" where
  "pol_step v b d = pol_tick (pol_cand v b d)"

definition pol_events :: "nat \<Rightarrow> pol_mon \<Rightarrow> pol_mon \<Rightarrow> zev list" where
  "pol_events c d d' = (if known d' \<noteq> known d \<and> known d \<noteq> 0 then [Qevent_polarity c] else [])"

section \<open>Their place in the union\<close>

definition level_word :: "nat \<Rightarrow> u32" where
  "level_word n = of_nat (8 * n)"

definition contrary_word :: "nat \<Rightarrow> u32" where
  "contrary_word n = of_nat (62 - 2 * n)"

definition ring_abs :: "nat \<Rightarrow> (nat \<Rightarrow> u32) \<Rightarrow> bucket \<Rightarrow> bool" where
  "ring_abs c m d \<longleftrightarrow> m (fxo_wasringing c) = of_bool (ringing d) \<and> m (fxo_ringdebounce c) = level_word (level d) \<and> level d \<le> 64"

definition batt_abs :: "nat \<Rightarrow> (nat \<Rightarrow> u32) \<Rightarrow> batt_mon \<Rightarrow> bool" where
  "batt_abs c m d \<longleftrightarrow> m (fxo_battery c) = of_bool (on d) \<and> m (fxo_battdebounce c) = contrary_word (contrary d) \<and> contrary d \<le> 31"

definition pol_abs :: "nat \<Rightarrow> (nat \<Rightarrow> u32) \<Rightarrow> pol_mon \<Rightarrow> bool" where
  "pol_abs c m d \<longleftrightarrow> m (fxo_lastpol c) = of_int (cand d) \<and> m (fxo_polarity c) = of_int (known d) \<and>
     m (fxo_polaritydebounce c) = of_nat (pwait d) \<and> pwait d \<le> 64 \<and> cand d \<in> {-1, 0, 1} \<and> known d \<in> {-1, 0, 1}"

definition daa_words :: "nat \<Rightarrow> nat set" where
  "daa_words c = {fxo_wasringing c, fxo_ringdebounce c, fxo_battdebounce c, fxo_nobatttimer c, fxo_battery c, fxo_lastpol c,
     fxo_polarity c, fxo_polaritydebounce c}"

lemma of_nat_dec: "k \<le> n \<Longrightarrow> (of_nat n :: u32) - of_nat k = of_nat (n - k)"
  by (simp add: of_nat_diff)

lemma level_word_ends: "level_word 64 = 512" "level_word 0 = 0"
  by (simp_all add: level_word_def)

lemma level_word_facts:
  assumes "n \<le> 72"
  shows "level_word n + 64 = level_word (n + 8)" "sint (level_word n) = int (8 * n)"
    "n \<noteq> 0 \<Longrightarrow> level_word n - 8 = level_word (n - 1)"
proof -
  show "sint (level_word n) = int (8 * n)" unfolding level_word_def by (rule of_nat_u32) (use assms in simp)
  assume "n \<noteq> 0"
  then obtain m where "n = Suc m" by (cases n) auto
  then show "level_word n - 8 = level_word (n - 1)" by (simp add: level_word_def)
qed (simp_all add: level_word_def)

lemma level_word_down:
  assumes "n \<le> 64"
  shows "sint (level_word n - 8) \<le> 0 \<longleftrightarrow> n \<le> 1"
proof (cases "n = 0")
  case False
  then show ?thesis using level_word_facts(3)[of n] level_word_facts(2)[of "n - 1"] assms by simp
qed (simp add: level_word_def)

lemma ring_poll_refines:
  assumes "ring_abs c (mem s) d" "r = (fst (wcfxs_getreg e c 5 s) AND 0x60 \<noteq> 0 \<and> mem s (fxo_battery c) \<noteq> 0)"
    "d' = (if mem s (fxo_offhook c) = 0 then ring_step r d else d)"
  shows "ring_abs c (mem (daa_ring_poll e c s)) d'" "zt (daa_ring_poll e c s) = zt s @ ring_events c d d'"
    "i \<noteq> fxo_wasringing c \<Longrightarrow> i \<noteq> fxo_ringdebounce c \<Longrightarrow> mem (daa_ring_poll e c s) i = mem s i"
proof -
  note a = assms(1)[unfolded ring_abs_def]
  have w: "fxo_wasringing c \<noteq> fxo_ringdebounce c" "fxo_battery c \<noteq> fxo_ringdebounce c" by (simp_all add: mem_offsets)
  have up: "level_word (level d) + 64 = level_word (level d + 8)" "sint (level_word (level d + 8)) = int (8 * (level d + 8))"
    using level_word_facts(1)[of "level d"] level_word_facts(2)[of "level d + 8"] a by simp_all
  have dn: "sint (level_word (level d) - 8) \<le> 0 \<longleftrightarrow> level d \<le> 1"
    "\<not> level d \<le> 1 \<Longrightarrow> level_word (level d) - 8 = level_word (level d - 1)"
    using level_word_down[of "level d"] level_word_facts(3)[of "level d"] a by simp_all
  note run = daa_ring_poll_def Let_def split_beta geti_def ZT_CHUNKSIZE_def NUM_CARDS_def
  have "ring_abs c (mem (daa_ring_poll e c s)) d' \<and> zt (daa_ring_poll e c s) = zt s @ ring_events c d d'"
  proof (cases "mem s (fxo_offhook c) = 0")
    case False
    then show ?thesis using assms by (simp add: run ring_events_def)
  next
    case True
    show ?thesis
    proof (cases r)
      case r: True
      then have "fst (wcfxs_getreg e c 5 s) AND 0x60 \<noteq> 0" "mem s (fxo_battery c) \<noteq> 0" using assms(2) by simp_all
      then show ?thesis using True r assms(3) a w up level_word_ends
        by (cases "64 \<le> level d + 8") (simp_all add: run ring_abs_def ring_step_def ring_events_def)
    next
      case r: False
      then have "fst (wcfxs_getreg e c 5 s) AND 0x60 = 0 \<or> mem s (fxo_battery c) = 0" using assms(2) by blast
      then show ?thesis using True r assms(3) a w dn level_word_ends
        by (cases "level d \<le> 1") (auto simp: run ring_abs_def ring_step_def ring_events_def)
    qed
  qed
  then show "ring_abs c (mem (daa_ring_poll e c s)) d'" "zt (daa_ring_poll e c s) = zt s @ ring_events c d d'" by blast+
  show "i \<noteq> fxo_wasringing c \<Longrightarrow> i \<noteq> fxo_ringdebounce c \<Longrightarrow> mem (daa_ring_poll e c s) i = mem s i"
    by (simp add: daa_ring_poll_def Let_def split_beta)
qed

lemma contrary_word_facts:
  "contrary_word 0 = 62" "n \<le> 31 \<Longrightarrow> contrary_word n = 0 \<longleftrightarrow> n = 31" "n < 31 \<Longrightarrow> contrary_word n - 2 = contrary_word (Suc n)"
proof -
  show "n \<le> 31 \<Longrightarrow> contrary_word n = 0 \<longleftrightarrow> n = 31"
    unfolding contrary_word_def by (subst of_nat_u32(2)) auto
  assume "n < 31"
  then have "62 - 2 * n = Suc (Suc (62 - 2 * Suc n))" by simp
  then show "contrary_word n - 2 = contrary_word (Suc n)" by (simp add: contrary_word_def del: mult_Suc_right)
qed (simp add: contrary_word_def)

text \<open>The battery part of the reading and its countdown.\<close>

definition batt_words :: "nat \<Rightarrow> nat set" where
  "batt_words c = {fxo_battdebounce c, fxo_nobatttimer c, fxo_battery c, fxo_lastpol c, fxo_polarity c, fxo_polaritydebounce c}"

lemma volt_of_cases: "volt_of b = Low \<longleftrightarrow> \<bar>b\<bar> < BATT_THRESH" "volt_of b = High \<longleftrightarrow> BATT_THRESH < \<bar>b\<bar>"
  "volt_of b = Mid \<longleftrightarrow> \<bar>b\<bar> = BATT_THRESH"
  by (auto simp: volt_of_def BATT_THRESH_def)

lemma pol_word: "x \<in> {-1, 0, 1} \<Longrightarrow> sint (of_int x :: u32) = x"
  by auto

lemma pol_word_eq: "x \<in> {-1, 0, 1} \<Longrightarrow> y \<in> {-1, 0, 1} \<Longrightarrow> (of_int x :: u32) = of_int y \<longleftrightarrow> x = y"
  by auto

text \<open>After the reading: the battery state and its counter before the countdown.\<close>

lemma batt_poll_batt:
  assumes "batt_abs c (mem s) d" "v = volt_of b"
  shows "mem (daa_batt_poll c b s) (fxo_battery c) = of_bool (on (batt_step v d))"
    "mem (daa_batt_poll c b s) (fxo_battdebounce c) =
       (if v = (if on d then Low else High) \<and> contrary d \<noteq> 31 then contrary_word (contrary d) else 64)"
    "zt (daa_batt_poll c b s) = zt s @ batt_events c d (batt_step v d)"
proof -
  note a = assms(1)[unfolded batt_abs_def mem_offsets]
  have z: "contrary_word (contrary d) = 0 \<longleftrightarrow> contrary d = 31" using contrary_word_facts(2) a by simp
  note run = daa_batt_poll_def Let_def geti_def BATT_DEBOUNCE_def POLARITY_DEBOUNCE_def batt_step_def batt_events_def mem_offsets
  have "mem (daa_batt_poll c b s) (fxo_battery c) = of_bool (on (batt_step v d)) \<and>
    mem (daa_batt_poll c b s) (fxo_battdebounce c) =
       (if v = (if on d then Low else High) \<and> contrary d \<noteq> 31 then contrary_word (contrary d) else 64) \<and>
    zt (daa_batt_poll c b s) = zt s @ batt_events c d (batt_step v d)"
  proof (cases v)
    case Low
    then have "\<bar>b\<bar> < BATT_THRESH" using assms(2) volt_of_cases by metis
    then show ?thesis using Low a z by (cases "on d") (auto simp: run)
  next
    case Mid
    then have "\<bar>b\<bar> = BATT_THRESH" using assms(2) volt_of_cases by metis
    then show ?thesis using Mid a z by (cases "on d") (auto simp: run)
  next
    case High
    then have "BATT_THRESH < \<bar>b\<bar>" using assms(2) volt_of_cases by metis
    then show ?thesis using High a z by (cases "on d") (auto simp: run)
  qed
  then show "mem (daa_batt_poll c b s) (fxo_battery c) = of_bool (on (batt_step v d))"
    "mem (daa_batt_poll c b s) (fxo_battdebounce c) =
       (if v = (if on d then Low else High) \<and> contrary d \<noteq> 31 then contrary_word (contrary d) else 64)"
    "zt (daa_batt_poll c b s) = zt s @ batt_events c d (batt_step v d)" by blast+
qed

lemma batt_poll_pol:
  assumes "pol_abs c (mem s) p" "v = volt_of b"
  shows "pol_abs c (mem (daa_batt_poll c b s)) (pol_cand v b p)"
    "i \<notin> batt_words c \<Longrightarrow> mem (daa_batt_poll c b s) i = mem s i"
proof -
  note a = assms(1)[unfolded pol_abs_def mem_offsets]
  have l: "sint (mem s (48 + c)) = cand p" using a pol_word by simp
  note run = daa_batt_poll_def Let_def geti_def BATT_DEBOUNCE_def POLARITY_DEBOUNCE_def pol_cand_def pol_abs_def mem_offsets
  show "pol_abs c (mem (daa_batt_poll c b s)) (pol_cand v b p)"
  proof (cases v)
    case Low
    then have "\<bar>b\<bar> < BATT_THRESH" using assms(2) volt_of_cases by metis
    then show ?thesis using Low a by (simp add: run)
  next
    case Mid
    then have "\<bar>b\<bar> = BATT_THRESH" using assms(2) volt_of_cases by metis
    then show ?thesis using Mid a by (simp add: run)
  next
    case High
    then have h: "BATT_THRESH < \<bar>b\<bar>" using assms(2) volt_of_cases by metis
    then have "b \<noteq> 0" by (auto simp: BATT_THRESH_def)
    then show ?thesis using High h a l by (auto simp: run sgn_if)
  qed
  show "i \<notin> batt_words c \<Longrightarrow> mem (daa_batt_poll c b s) i = mem s i"
    by (simp add: daa_batt_poll_def Let_def batt_words_def)
qed

lemma count_poll_batt:
  "mem (daa_count_poll c s) (fxo_battdebounce c) =
     (if mem s (fxo_battdebounce c) = 0 then 0 else mem s (fxo_battdebounce c) - 2)"
  "mem (daa_count_poll c s) (fxo_battery c) = mem s (fxo_battery c)"
  "i \<notin> batt_words c \<Longrightarrow> mem (daa_count_poll c s) i = mem s i"
  by (simp_all add: daa_count_poll_def Let_def batt_words_def mem_offsets NUM_CARDS_def)

lemma count_poll_pol:
  assumes "pol_abs c (mem s) p"
  shows "pol_abs c (mem (daa_count_poll c s)) (pol_tick p)" "zt (daa_count_poll c s) = zt s @ pol_events c p (pol_tick p)"
proof -
  note a = assms[unfolded pol_abs_def mem_offsets]
  have m: "mem s (48 + c) = of_int (cand p)" "mem s (56 + c) = of_int (known p)" "mem s (64 + c) = of_nat (pwait p)"
    and r: "pwait p \<le> 64" "cand p \<in> {-1, 0, 1}" "known p \<in> {-1, 0, 1}" using a by blast+
  have e: "(of_int (cand p) :: u32) = of_int (known p) \<longleftrightarrow> cand p = known p" "(of_int (known p) :: u32) = 0 \<longleftrightarrow> known p = 0"
    using pol_word_eq[OF r(2,3)] pol_word_eq[OF r(3), of 0] by simp_all
  note run = daa_count_poll_def Let_def geti_def mem_offsets pol_abs_def pol_tick_def pol_events_def
  have "pol_abs c (mem (daa_count_poll c s)) (pol_tick p) \<and> zt (daa_count_poll c s) = zt s @ pol_events c p (pol_tick p)"
  proof (cases "pwait p")
    case 0
    then show ?thesis using m r by (simp add: run)
  next
    case (Suc q)
    have z: "(of_nat (Suc q) :: u32) \<noteq> 0" "sint (of_nat q :: u32) = int q"
      using of_nat_u32(1)[of q] of_nat_u32(2)[of "Suc q"] r(1) Suc by simp_all
    have w: "mem s (64 + c) = of_nat (Suc q)" "(of_nat (Suc q) :: u32) - 1 = of_nat q" using m(3) Suc by simp_all
    show ?thesis
    proof (cases "q = 0 \<and> cand p \<noteq> known p")
      case True
      then show ?thesis using m(1,2) e r(2,3) Suc z w(1)
        by (cases "known p = 0") (simp_all add: run)
    next
      case False
      then have "\<not> (int q < 1 \<and> cand p \<noteq> known p)" by auto
      then show ?thesis using False m(1,2) e r Suc z w
        by (cases "q = 0") (simp_all add: run del: of_nat_Suc)
    qed
  qed
  then show "pol_abs c (mem (daa_count_poll c s)) (pol_tick p)" "zt (daa_count_poll c s) = zt s @ pol_events c p (pol_tick p)"
    by blast+
qed

text \<open>Reading, countdown and reports of the battery together.\<close>

lemma batt_count_refines:
  assumes "batt_abs c (mem s) d" "v = volt_of b"
  shows "batt_abs c (mem (daa_count_poll c (daa_batt_poll c b s))) (batt_step v d)"
proof -
  note a = assms(1)[unfolded batt_abs_def]
  note p = batt_poll_batt[OF assms] and n = count_poll_batt(1,2)[of c "daa_batt_poll c b s"]
  show ?thesis
  proof (cases "v = (if on d then Low else High) \<and> contrary d \<noteq> 31")
    case True
    then have "contrary d < 31" "contrary_word (contrary d) \<noteq> 0" using a contrary_word_facts(2)[of "contrary d"] by auto
    then show ?thesis using True p n contrary_word_facts(3)[of "contrary d"] by (simp add: batt_abs_def batt_step_def)
  next
    case False
    then show ?thesis using p n by (auto simp: batt_abs_def batt_step_def contrary_word_facts(1))
  qed
qed

section \<open>The poll as a whole\<close>

record line_mon =
  m_ring :: bucket
  m_batt :: batt_mon
  m_pol :: pol_mon

definition line_abs :: "nat \<Rightarrow> (nat \<Rightarrow> u32) \<Rightarrow> line_mon \<Rightarrow> bool" where
  "line_abs c m l \<longleftrightarrow> ring_abs c m (m_ring l) \<and> batt_abs c m (m_batt l) \<and> pol_abs c m (m_pol l)"

text \<open>One poll of the monitors: \<open>r\<close> are the ring bits, \<open>b\<close> is the line voltage, both as read.\<close>

definition line_step :: "bool \<Rightarrow> bool \<Rightarrow> int \<Rightarrow> line_mon \<Rightarrow> line_mon" where
  "line_step offhook r b l =
     \<lparr>m_ring = (if offhook then m_ring l else ring_step (r \<and> on (m_batt l)) (m_ring l)),
      m_batt = batt_step (volt_of b) (m_batt l), m_pol = pol_step (volt_of b) b (m_pol l)\<rparr>"

definition line_events :: "nat \<Rightarrow> line_mon \<Rightarrow> line_mon \<Rightarrow> zev list" where
  "line_events c l l' = ring_events c (m_ring l) (m_ring l') @ batt_events c (m_batt l) (m_batt l') @
     pol_events c (m_pol l) (m_pol l')"

definition ring_bits :: "env \<Rightarrow> nat \<Rightarrow> wc \<Rightarrow> bool" where
  "ring_bits e c s \<longleftrightarrow> fst (wcfxs_getreg e c 5 s) AND 0x60 \<noteq> 0"

definition line_volt :: "env \<Rightarrow> nat \<Rightarrow> wc \<Rightarrow> int" where
  "line_volt e c s = sint (fst (wcfxs_getreg e c 29 (daa_ring_poll e c s)))"

lemma daa_poll_refines:
  assumes "line_abs c (mem s) l"
    and "l' = line_step (mem s (fxo_offhook c) \<noteq> 0) (ring_bits e c s) (line_volt e c s) l"
  shows "line_abs c (mem (wcfxs_voicedaa_check_hook e c s)) l'"
    "zt (wcfxs_voicedaa_check_hook e c s) = zt s @ line_events c l l'"
    "i \<notin> daa_words c \<Longrightarrow> mem (wcfxs_voicedaa_check_hook e c s) i = mem s i"
proof -
  let ?s1 = "daa_ring_poll e c s" and ?b = "line_volt e c s"
  let ?s2 = "snd (wcfxs_getreg e c 29 ?s1)"
  let ?s3 = "daa_batt_poll c ?b ?s2"
  have run: "wcfxs_voicedaa_check_hook e c s = daa_count_poll c ?s3"
    by (simp add: wcfxs_voicedaa_check_hook_def Let_def split_beta line_volt_def)
  have l: "ring_abs c (mem s) (m_ring l)" "batt_abs c (mem s) (m_batt l)" "pol_abs c (mem s) (m_pol l)"
    using assms(1) by (simp_all add: line_abs_def)
  have on: "mem s (fxo_battery c) \<noteq> 0 \<longleftrightarrow> on (m_batt l)" using l(2) by (simp add: batt_abs_def)
  note r = ring_poll_refines[OF l(1) refl refl, where e = e]
  have R: "(if mem s (fxo_offhook c) = 0 then ring_step (fst (wcfxs_getreg e c 5 s) AND 0x60 \<noteq> 0 \<and> mem s (fxo_battery c) \<noteq> 0) (m_ring l)
      else m_ring l) = m_ring l'"
    using on by (simp add: assms(2) line_step_def ring_bits_def)
  note rr = r(1,2)[unfolded R]
  have k2: "mem ?s2 i = mem s i" if "i \<noteq> fxo_wasringing c" "i \<noteq> fxo_ringdebounce c" for i
    using r(3) that by simp
  have B: "batt_abs c (mem ?s2) (m_batt l)" "pol_abs c (mem ?s2) (m_pol l)"
    using l(2,3) k2 by (simp_all add: batt_abs_def pol_abs_def mem_offsets)
  note b = batt_poll_batt[OF B(1) refl, where b = ?b] and p = batt_poll_pol[OF B(2) refl, where b = ?b]
  note q = count_poll_pol[OF p(1)]
  have "ring_abs c (mem (daa_count_poll c ?s3)) (m_ring l')"
    using rr(1) p(2) count_poll_batt(3)[of _ c ?s3] by (simp add: ring_abs_def mem_offsets batt_words_def)
  moreover have "batt_abs c (mem (daa_count_poll c ?s3)) (m_batt l')"
    using batt_count_refines[OF B(1) refl, where b = ?b] by (simp add: assms(2) line_step_def)
  moreover have "pol_abs c (mem (daa_count_poll c ?s3)) (m_pol l')"
    using q(1) by (simp add: assms(2) line_step_def pol_step_def)
  ultimately show "line_abs c (mem (wcfxs_voicedaa_check_hook e c s)) l'" by (simp add: run line_abs_def)
  have "pol_events c (pol_cand (volt_of ?b) ?b (m_pol l)) (m_pol l') = pol_events c (m_pol l) (m_pol l')"
    by (simp add: pol_events_def pol_cand_def)
  then show "zt (wcfxs_voicedaa_check_hook e c s) = zt s @ line_events c l l'"
    using q(2) b(3) rr(2)
    by (simp add: run line_events_def) (simp add: assms(2) line_step_def pol_step_def)
  show "i \<notin> daa_words c \<Longrightarrow> mem (wcfxs_voicedaa_check_hook e c s) i = mem s i"
    using count_poll_batt(3)[of i c ?s3] p(2)[of i] k2[of i] by (simp add: run daa_words_def batt_words_def)
qed

text \<open>Consecutive polls, and what they read.\<close>

abbreviation daa_polls :: "env \<Rightarrow> nat \<Rightarrow> nat \<Rightarrow> wc \<Rightarrow> wc" where
  "daa_polls e c n s \<equiv> (wcfxs_voicedaa_check_hook e c ^^ n) s"

definition count_zt :: "zev \<Rightarrow> wc \<Rightarrow> nat" where
  "count_zt z s = length (filter (\<lambda>x. x = z) (zt s))"

lemma count_zt_step:
  assumes "zt s' = zt s @ line_events c l l'"
  shows "count_zt (Hooksig c RXSIG_ONHOOK) s' = count_zt (Hooksig c RXSIG_ONHOOK) s + of_bool (on (m_batt l) \<and> \<not> on (m_batt l'))"
    "count_zt (Hooksig c RXSIG_RING) s' = count_zt (Hooksig c RXSIG_RING) s + of_bool (\<not> ringing (m_ring l) \<and> ringing (m_ring l'))"
  using assms by (auto simp: count_zt_def line_events_def ring_events_def batt_events_def pol_events_def)

lemma low_run:
  assumes "line_abs c (mem s) l" "m_batt l = \<lparr>on = True, contrary = 0\<rparr>"
  shows "(\<forall>i<n. volt_of (line_volt e c (daa_polls e c i s)) = Low) \<Longrightarrow>
    \<exists>l'. line_abs c (mem (daa_polls e c n s)) l' \<and>
      m_batt l' = (if n < 32 then \<lparr>on = True, contrary = n\<rparr> else \<lparr>on = False, contrary = 0\<rparr>) \<and>
      count_zt (Hooksig c RXSIG_ONHOOK) (daa_polls e c n s) = count_zt (Hooksig c RXSIG_ONHOOK) s + of_bool (32 \<le> n)"
proof (induction n)
  case 0
  then show ?case using assms by (intro exI[of _ l]) simp
next
  case (Suc n)
  let ?s = "daa_polls e c n s"
  obtain l' where l': "line_abs c (mem ?s) l'"
      "m_batt l' = (if n < 32 then \<lparr>on = True, contrary = n\<rparr> else \<lparr>on = False, contrary = 0\<rparr>)"
      "count_zt (Hooksig c RXSIG_ONHOOK) ?s = count_zt (Hooksig c RXSIG_ONHOOK) s + of_bool (32 \<le> n)"
    using Suc by auto
  note r = daa_poll_refines(1,2)[OF l'(1) refl, where e = e] and k = count_zt_step(1)[OF daa_poll_refines(2)[OF l'(1) refl, where e = e]]
  have "volt_of (line_volt e c ?s) = Low" using Suc.prems by simp
  then have "m_batt (line_step f b (line_volt e c ?s) l') = batt_step Low (m_batt l')" for f b by (simp add: line_step_def)
  then show ?case using r(1) k l'(2,3) by (auto simp: batt_step_def)
qed

lemma ring_run:
  assumes "line_abs c (mem s) l" "m_ring l = \<lparr>ringing = False, level = 0\<rparr>" "on (m_batt l)" "mem s (fxo_offhook c) = 0"
  shows "(\<forall>i<n. ring_bits e c (daa_polls e c i s) \<and> volt_of (line_volt e c (daa_polls e c i s)) \<noteq> Low) \<Longrightarrow>
    \<exists>l'. line_abs c (mem (daa_polls e c n s)) l' \<and> on (m_batt l') \<and> mem (daa_polls e c n s) (fxo_offhook c) = 0 \<and>
      m_ring l' = \<lparr>ringing = (8 \<le> n), level = min (8 * n) 64\<rparr> \<and>
      count_zt (Hooksig c RXSIG_RING) (daa_polls e c n s) = count_zt (Hooksig c RXSIG_RING) s + of_bool (8 \<le> n)"
proof (induction n)
  case 0
  then show ?case using assms by (intro exI[of _ l]) simp
next
  case (Suc n)
  let ?s = "daa_polls e c n s"
  obtain l' where l': "line_abs c (mem ?s) l'" "on (m_batt l')" "mem ?s (fxo_offhook c) = 0"
      "m_ring l' = \<lparr>ringing = (8 \<le> n), level = min (8 * n) 64\<rparr>"
      "count_zt (Hooksig c RXSIG_RING) ?s = count_zt (Hooksig c RXSIG_RING) s + of_bool (8 \<le> n)"
    using Suc by auto
  note r = daa_poll_refines[OF l'(1) refl, where e = e] and k = count_zt_step(2)[OF daa_poll_refines(2)[OF l'(1) refl, where e = e]]
  have v: "volt_of (line_volt e c ?s) \<noteq> Low" "ring_bits e c ?s" using Suc.prems by simp_all
  have o: "mem (wcfxs_voicedaa_check_hook e c ?s) (fxo_offhook c) = 0"
    using r(3)[where i = "fxo_offhook c"] l'(3) by (simp add: daa_words_def mem_offsets)
  have g: "min (8 * n) 64 = (if n < 8 then 8 * n else 64)" by simp
  show ?case using r(1) k l' v o by (auto simp: line_step_def ring_step_def batt_step_def g)
qed

section \<open>Properties\<close>

text \<open>
  C12.  The FXO poll implements the three line monitors: whatever the hardware answers, after
  one poll the words of the union hold the monitors' next state, exactly their changes go to
  the Zaptel core, in the order ring, battery, polarity, and no word of another card or
  purpose is touched (the ring monitor rests while the line is off hook).
\<close>

theorem daa_poll_monitors:
  assumes "line_abs c (mem s) l"
    and "l' = line_step (mem s (fxo_offhook c) \<noteq> 0) (ring_bits e c s) (line_volt e c s) l"
  shows "line_abs c (mem (wcfxs_voicedaa_check_hook e c s)) l' \<and>
    zt (wcfxs_voicedaa_check_hook e c s) = zt s @ line_events c l l' \<and>
    (\<forall>i. i \<notin> daa_words c \<longrightarrow> mem (wcfxs_voicedaa_check_hook e c s) i = mem s i)"
  using daa_poll_refines[OF assms] by blast

definition fresh_line :: line_mon where
  "fresh_line = \<lparr>m_ring = \<lparr>ringing = False, level = 0\<rparr>, m_batt = \<lparr>on = False, contrary = 31\<rparr>,
     m_pol = \<lparr>cand = 0, known = 0, pwait = 0\<rparr>\<rparr>"

lemma fresh_line_abs: "line_abs c (mem demo_wc) fresh_line"
  by (simp add: line_abs_def fresh_line_def demo_wc_def ring_abs_def batt_abs_def pol_abs_def level_word_def contrary_word_def)

definition volt_env :: "u8 \<Rightarrow> env" where
  "volt_env x = \<lparr>rxv = (\<lambda>es. x), clk = (\<lambda>n. of_nat n)\<rparr>"

lemma volt_env_reads: "line_volt (volt_env x) c s = sint x" "ring_bits (volt_env x) c s = (x AND 0x60 \<noteq> 0)"
  by (simp_all add: line_volt_def ring_bits_def wcfxs_getreg_def Let_def volt_env_def)

theorem daa_poll_monitors_witness: "zt (wcfxs_voicedaa_check_hook (volt_env 40) 1 demo_wc) = [Hooksig 1 RXSIG_OFFHOOK]"
  using daa_poll_monitors[OF fresh_line_abs[of 1] refl, of "volt_env 40"]
  by (simp add: volt_env_reads line_events_def line_step_def fresh_line_def ring_step_def batt_step_def pol_step_def pol_tick_def
      pol_cand_def ring_events_def batt_events_def pol_events_def volt_of_def demo_wc_def)

text \<open>
  A loss of line voltage is reported (on hook) exactly on the 32nd poll in a row that
  reads less than the threshold, once, after the battery was last seen: with one poll per
  card every 8 ms this is 256 ms, not the 64 ms its constant is documented with.
\<close>

lemma battery_loss_reported:
  assumes "line_abs c (mem s) l" and "m_batt l = \<lparr>on = True, contrary = 0\<rparr>"
    and "\<forall>i<n. \<bar>line_volt e c (daa_polls e c i s)\<bar> < BATT_THRESH"
  shows "count_zt (Hooksig c RXSIG_ONHOOK) (daa_polls e c n s) = count_zt (Hooksig c RXSIG_ONHOOK) s + (if 32 \<le> n then 1 else 0)"
  using low_run[OF assms(1,2), of n e] assms(3) volt_of_cases(1) by auto

definition live_wc :: wc where
  "live_wc = demo_wc\<lparr>mem := (\<lambda>i. if i = fxo_battery 1 then 1 else if i = fxo_battdebounce 1 then 62 else 0)\<rparr>"

lemma live_abs: "line_abs 1 (mem live_wc) (fresh_line\<lparr>m_batt := \<lparr>on = True, contrary = 0\<rparr>\<rparr>)"
  by (simp add: line_abs_def fresh_line_def live_wc_def ring_abs_def batt_abs_def pol_abs_def level_word_def contrary_word_def mem_offsets)

text \<open>
  Ringing is reported exactly on the eighth poll in a row that sees it, once, starting
  from silence on an idle line with battery.
\<close>

lemma ring_reported:
  assumes "line_abs c (mem s) l" and "m_ring l = \<lparr>ringing = False, level = 0\<rparr>" and "on (m_batt l)"
    and "mem s (fxo_offhook c) = 0"
    and "\<forall>i<n. ring_bits e c (daa_polls e c i s) \<and> BATT_THRESH \<le> \<bar>line_volt e c (daa_polls e c i s)\<bar>"
  shows "count_zt (Hooksig c RXSIG_RING) (daa_polls e c n s) = count_zt (Hooksig c RXSIG_RING) s + (if 8 \<le> n then 1 else 0)"
  using ring_run[OF assms(1-4), of n e] assms(5) volt_of_cases(1) by (auto simp: not_less)

end
