(* ===== verification/Wcfxs_Tdm.thy ===== *)
theory Wcfxs_Tdm
  imports Wcfxs_Daa
begin

text \<open>
  The audio path and the interrupt handler of \<open>src/src/wcfxs.c\<close>.  The DMA chunks hold
  \<open>ZT_CHUNKSIZE\<close> frames of eight timeslots, one byte each, timeslot \<open>c\<close> for the card in
  port \<open>c\<close>.  The Zaptel core is a parameter: \<open>ztx\<close> gives the samples \<open>zt_transmit\<close> leaves in
  the channels' write chunks, \<open>zec\<close> the read chunk after echo cancellation.
\<close>

record zcore =
  ztx :: "wc \<Rightarrow> nat \<Rightarrow> nat \<Rightarrow> u8"
  zec :: "nat \<Rightarrow> (nat \<Rightarrow> u8) \<Rightarrow> (nat \<Rightarrow> u8) \<Rightarrow> nat \<Rightarrow> u8"

section \<open>Operations\<close>

definition card_present :: "wc \<Rightarrow> nat \<Rightarrow> bool" where
  "card_present s c \<longleftrightarrow> cardflag s AND push_bit c 1 \<noteq> 0"

text \<open>The order in which the code handles the cards of a frame.\<close>

definition slots :: "nat list" where "slots = [7, 6, 5, 4, 3, 2, 1, 0]"

definition put_sample :: "wc \<Rightarrow> nat \<Rightarrow> nat \<Rightarrow> u8 list \<Rightarrow> u8 list" where
  "put_sample s x c buf = (if card_present s c then buf[8 * x + c := wchunk s c x] else buf)"

definition wcfxs_transmitprep :: "zcore \<Rightarrow> wc \<Rightarrow> u8 list \<Rightarrow> wc \<times> u8 list" where
  "wcfxs_transmitprep z s buf =
     (let s = s\<lparr>wchunk := ztx z s, zt := zt s @ [Zt_transmit]\<rparr>
      in (s, fold (\<lambda>x. fold (put_sample s x) slots) [0..<ZT_CHUNKSIZE] buf))"

definition get_sample :: "u8 list \<Rightarrow> nat \<Rightarrow> nat \<Rightarrow> wc \<Rightarrow> wc" where
  "get_sample buf x c s =
     (if card_present s c then s\<lparr>rchunk := (rchunk s)(c := (rchunk s c)(x := buf ! (8 * x + c)))\<rparr> else s)"

definition ec_chunk :: "zcore \<Rightarrow> nat \<Rightarrow> wc \<Rightarrow> wc" where
  "ec_chunk z c s =
     (if card_present s c
      then s\<lparr>rchunk := (rchunk s)(c := zec z c (rchunk s c) (wchunk s c)), zt := zt s @ [Zt_ec c]\<rparr> else s)"

definition wcfxs_receiveprep :: "zcore \<Rightarrow> wc \<Rightarrow> u8 list \<Rightarrow> wc" where
  "wcfxs_receiveprep z s buf =
     (let s = fold (\<lambda>x. fold (get_sample buf x) slots) [0..<ZT_CHUNKSIZE] s;
          s = fold (ec_chunk z) [0..<cards s] s
      in s\<lparr>zt := zt s @ [Zt_receive]\<rparr>)"

text \<open>The card that is looked at in this interrupt.\<close>

definition poll_card :: "wc \<Rightarrow> nat" where
  "poll_card s = unat (intcount s) mod NUM_CARDS"

definition hook_poll :: "env \<Rightarrow> params \<Rightarrow> nat \<Rightarrow> nat \<Rightarrow> wc \<Rightarrow> wc option" where
  "hook_poll e k fuel x s =
     (if x < cards s \<and> card_present s x
      then if modtype s x = MOD_TYPE_FXS then wcfxs_proslic_check_hook e k fuel x s
           else if modtype s x = MOD_TYPE_FXO then Some (wcfxs_voicedaa_check_hook e x s) else Some s
      else Some s)"

definition regular_interrupt_processing ::
    "env \<Rightarrow> params \<Rightarrow> nat \<Rightarrow> zcore \<Rightarrow> bool \<Rightarrow> u8 list \<Rightarrow> u8 list \<Rightarrow> wc \<Rightarrow> (wc \<times> u8 list) option" where
  "regular_interrupt_processing e k fuel z wcfxs_init_ok read_samples write_samples s =
     do {
       let s = s\<lparr>intcount := intcount s + 1\<rparr>;
       s \<leftarrow> (if wcfxs_init_ok then hook_poll e k fuel (poll_card s) s else Some s);
       let (s, write_samples) = wcfxs_transmitprep z s write_samples;
       Some (wcfxs_receiveprep z s read_samples, write_samples)
     }"

section \<open>Timeslots\<close>

lemma slots_simps: "set slots = {..<8}" "distinct slots"
  by (auto simp: slots_def)

lemma put_sample_simps [simp]: "length (put_sample s x c buf) = length buf"
  by (simp add: put_sample_def)

lemma fold_put_length: "length (fold (put_sample s x) cs buf) = length buf"
  by (induction cs arbitrary: buf) simp_all

lemma fold_put_nth:
  "i < length buf \<Longrightarrow> (\<And>c. c \<in> set cs \<Longrightarrow> c < 8) \<Longrightarrow>
   fold (put_sample s x) cs buf ! i =
     (if i div 8 = x \<and> i mod 8 \<in> set cs \<and> card_present s (i mod 8) then wchunk s (i mod 8) x else buf ! i)"
proof (induction cs arbitrary: buf)
  case (Cons c cs)
  have "i = 8 * x + c \<longleftrightarrow> i div 8 = x \<and> i mod 8 = c" using Cons.prems(2)[of c] by auto
  then show ?case using Cons by (auto simp: put_sample_def nth_list_update)
qed simp

lemma fold_frames_nth:
  "i < length buf \<Longrightarrow>
   fold (\<lambda>x. fold (put_sample s x) slots) xs buf ! i =
     (if i div 8 \<in> set xs \<and> card_present s (i mod 8) then wchunk s (i mod 8) (i div 8) else buf ! i)"
proof (induction xs arbitrary: buf)
  case (Cons x xs)
  have "i < length (fold (put_sample s x) slots buf)" using Cons.prems by (simp add: fold_put_length)
  from Cons.IH[OF this] show ?case
    using fold_put_nth[OF Cons.prems, of slots s x] by (auto simp: slots_simps)
qed simp

lemma get_sample_frame [simp]:
  "mem (get_sample buf x c s) = mem s" "zt (get_sample buf x c s) = zt s" "cards (get_sample buf x c s) = cards s"
  "wchunk (get_sample buf x c s) = wchunk s" "cardflag (get_sample buf x c s) = cardflag s"
  "intcount (get_sample buf x c s) = intcount s" "bus (get_sample buf x c s) = bus s"
  by (simp_all add: get_sample_def)

lemma card_present_cong: "cardflag s = cardflag s' \<Longrightarrow> card_present s = card_present s'"
  by (simp add: card_present_def fun_eq_iff)

lemma fold_get_frame [simp]:
  "mem (fold (get_sample buf x) cs s) = mem s" "zt (fold (get_sample buf x) cs s) = zt s"
  "cards (fold (get_sample buf x) cs s) = cards s" "wchunk (fold (get_sample buf x) cs s) = wchunk s"
  "cardflag (fold (get_sample buf x) cs s) = cardflag s" "intcount (fold (get_sample buf x) cs s) = intcount s"
  "bus (fold (get_sample buf x) cs s) = bus s"
  by (induction cs arbitrary: s) simp_all

lemma fold_get_rchunk:
  "rchunk (fold (get_sample buf x) cs s) c y =
     (if y = x \<and> c \<in> set cs \<and> card_present s c then buf ! (8 * x + c) else rchunk s c y)"
proof (induction cs arbitrary: s)
  case (Cons d cs)
  have "card_present (get_sample buf x d s) = card_present s" by (rule card_present_cong) simp
  then show ?case using Cons.IH[of "get_sample buf x d s"] by (auto simp: get_sample_def)
qed simp

lemma fold_chunk_frame [simp]:
  "mem (fold (\<lambda>x. fold (get_sample buf x) cs) xs s) = mem s" "zt (fold (\<lambda>x. fold (get_sample buf x) cs) xs s) = zt s"
  "cards (fold (\<lambda>x. fold (get_sample buf x) cs) xs s) = cards s" "wchunk (fold (\<lambda>x. fold (get_sample buf x) cs) xs s) = wchunk s"
  "cardflag (fold (\<lambda>x. fold (get_sample buf x) cs) xs s) = cardflag s"
  "intcount (fold (\<lambda>x. fold (get_sample buf x) cs) xs s) = intcount s" "bus (fold (\<lambda>x. fold (get_sample buf x) cs) xs s) = bus s"
  by (induction xs arbitrary: s) simp_all

lemma fold_chunk_rchunk:
  "rchunk (fold (\<lambda>x. fold (get_sample buf x) cs) xs s) c y =
     (if y \<in> set xs \<and> c \<in> set cs \<and> card_present s c then buf ! (8 * y + c) else rchunk s c y)"
proof (induction xs arbitrary: s)
  case (Cons x xs)
  have "card_present (fold (get_sample buf x) cs s) = card_present s" by (rule card_present_cong) simp
  then show ?case using Cons.IH[of "fold (get_sample buf x) cs s"] by (auto simp: fold_get_rchunk)
qed simp

lemma ec_chunk_frame [simp]:
  "mem (ec_chunk z c s) = mem s" "cards (ec_chunk z c s) = cards s" "wchunk (ec_chunk z c s) = wchunk s"
  "cardflag (ec_chunk z c s) = cardflag s" "intcount (ec_chunk z c s) = intcount s" "bus (ec_chunk z c s) = bus s"
  by (simp_all add: ec_chunk_def)

lemma fold_ec_frame [simp]:
  "mem (fold (ec_chunk z) cs s) = mem s" "cards (fold (ec_chunk z) cs s) = cards s" "wchunk (fold (ec_chunk z) cs s) = wchunk s"
  "cardflag (fold (ec_chunk z) cs s) = cardflag s" "intcount (fold (ec_chunk z) cs s) = intcount s"
  "bus (fold (ec_chunk z) cs s) = bus s"
  by (induction cs arbitrary: s) simp_all

lemma fold_ec_rchunk:
  "distinct cs \<Longrightarrow> rchunk (fold (ec_chunk z) cs s) c =
     (if c \<in> set cs \<and> card_present s c then zec z c (rchunk s c) (wchunk s c) else rchunk s c)"
proof (induction cs arbitrary: s)
  case (Cons d cs)
  have "card_present (ec_chunk z d s) = card_present s" by (rule card_present_cong) simp
  then show ?case using Cons.IH[of "ec_chunk z d s"] Cons.prems by (auto simp: ec_chunk_def)
qed simp

lemma transmitprep_frame [simp]:
  "mem (fst (wcfxs_transmitprep z s buf)) = mem s" "cards (fst (wcfxs_transmitprep z s buf)) = cards s"
  "cardflag (fst (wcfxs_transmitprep z s buf)) = cardflag s" "intcount (fst (wcfxs_transmitprep z s buf)) = intcount s"
  "wchunk (fst (wcfxs_transmitprep z s buf)) = ztx z s" "length (snd (wcfxs_transmitprep z s buf)) = length buf"
proof -
  have "length (fold (\<lambda>x. fold (put_sample s x) cs) xs b) = length b" for s cs xs b
    by (induction xs arbitrary: b) (simp_all add: fold_put_length)
  then show "length (snd (wcfxs_transmitprep z s buf)) = length buf" by (simp add: wcfxs_transmitprep_def Let_def)
qed (simp_all add: wcfxs_transmitprep_def Let_def)

lemma transmitprep_nth:
  assumes "length buf = 64" "c < 8" "x < 8"
  shows "snd (wcfxs_transmitprep z s buf) ! (8 * x + c) = (if card_present s c then ztx z s c x else buf ! (8 * x + c))"
proof -
  define s1 where "s1 = s\<lparr>wchunk := ztx z s, zt := zt s @ [Zt_transmit]\<rparr>"
  have "card_present s1 = card_present s" by (rule card_present_cong) (simp add: s1_def)
  moreover have "(8 * x + c) div 8 = x" "(8 * x + c) mod 8 = c" using assms(2) by simp_all
  moreover have "8 * x + c < length buf" using assms by simp
  ultimately show ?thesis using fold_frames_nth[of "8 * x + c" buf s1 "[0..<ZT_CHUNKSIZE]"] assms(3)
    by (simp add: wcfxs_transmitprep_def Let_def s1_def ZT_CHUNKSIZE_def)
qed

lemma receiveprep_frame [simp]:
  "mem (wcfxs_receiveprep z s buf) = mem s" "intcount (wcfxs_receiveprep z s buf) = intcount s"
  "cardflag (wcfxs_receiveprep z s buf) = cardflag s" "cards (wcfxs_receiveprep z s buf) = cards s"
  by (simp_all add: wcfxs_receiveprep_def Let_def)

lemma receiveprep_rchunk:
  assumes "c < 8" "c < cards s"
  shows "rchunk (wcfxs_receiveprep z s buf) c =
    (if card_present s c then zec z c (\<lambda>x. if x < 8 then buf ! (8 * x + c) else rchunk s c x) (wchunk s c) else rchunk s c)"
proof -
  let ?s1 = "fold (\<lambda>x. fold (get_sample buf x) slots) [0..<ZT_CHUNKSIZE] s"
  have p: "card_present ?s1 = card_present s" by (rule card_present_cong) simp
  have s: "c \<in> set slots" using assms(1) by (simp add: slots_simps)
  have r: "rchunk ?s1 c = (if card_present s c then (\<lambda>x. if x < 8 then buf ! (8 * x + c) else rchunk s c x) else rchunk s c)"
    using s by (auto simp: slots_simps fold_chunk_rchunk ZT_CHUNKSIZE_def fun_eq_iff)
  show ?thesis using assms(2) fold_ec_rchunk[of "[0..<cards ?s1]" z ?s1 c]
    by (simp add: wcfxs_receiveprep_def Let_def p r)
qed

section \<open>The interrupt handler\<close>

text \<open>The FXS poll returns on any hardware.\<close>

lemma check_hook_total:
  "\<exists>s'. wcfxs_proslic_check_hook e k fuel c s = Some s' \<and> (\<forall>i. i \<notin> hook_words c \<longrightarrow> mem s' i = mem s i)"
proof -
  have H: "\<exists>s'. hook_report e k fuel c s = Some s' \<and> (\<forall>i. i \<notin> hook_words c \<longrightarrow> mem s' i = mem s i)" for s
    using init_fast_total[of e k fuel c False "zt_hooksig c RXSIG_OFFHOOK s"]
    by (auto simp: hook_report_def Let_def hook_words_def)
  define s1 where "s1 = snd (wcfxs_getreg e c 68 s)"
  define h :: u32 where "h = ucast (fst (wcfxs_getreg e c 68 s) AND 1)"
  define s2 where "s2 = setm (fxs_debounce c) (mem s1 (fxs_debounce c) - of_nat (4 * ZT_CHUNKSIZE)) s1"
  define s3 where "s3 = (if mem s2 (fxs_debounce c) = 0 then setm (fxs_debouncehook c) h s2 else s2)"
  have m: "mem s1 = mem s" "\<forall>i. i \<notin> hook_words c \<longrightarrow> mem s3 i = mem s i"
    by (simp_all add: s1_def s2_def s3_def hook_words_def)
  obtain s4 where s4: "hook_report e k fuel c s3 = Some s4" "\<forall>i. i \<notin> hook_words c \<longrightarrow> mem s4 i = mem s i" using H[of s3] m(2) by auto
  have "wcfxs_proslic_check_hook e k fuel c s = Some (setm (fxs_lastrxhook c) h
      (if h \<noteq> mem s1 (fxs_lastrxhook c) then setm (fxs_debounce c) (8 * (4 * 8)) s1
       else if 0 < geti s1 (fxs_debounce c) then s4 else s1))"
  proof -
    have "wcfxs_proslic_check_hook e k fuel c s =
        (if h \<noteq> mem s1 (fxs_lastrxhook c) then Some (setm (fxs_debounce c) (8 * (4 * 8)) s1)
         else if 0 < geti s1 (fxs_debounce c) then hook_report e k fuel c s3 else Some s1) \<bind>
        (\<lambda>s. Some (setm (fxs_lastrxhook c) h s))"
      by (simp only: wcfxs_proslic_check_hook_def Let_def split_beta s1_def[symmetric] h_def[symmetric] s2_def[symmetric]
          s3_def[symmetric])
    then show ?thesis by (simp add: s4(1))
  qed
  then show ?thesis using m(1) s4(2) by (simp add: hook_words_def)
qed

lemma ring_frame: "i \<noteq> fxo_wasringing c \<Longrightarrow> i \<noteq> fxo_ringdebounce c \<Longrightarrow> mem (daa_ring_poll e c s) i = mem s i"
  by (simp add: daa_ring_poll_def Let_def split_beta)

lemma batt_frame: "i \<notin> batt_words c \<Longrightarrow> mem (daa_batt_poll c b s) i = mem s i"
  by (simp add: daa_batt_poll_def Let_def batt_words_def)

lemma daa_frame: "i \<notin> daa_words c \<Longrightarrow> mem (wcfxs_voicedaa_check_hook e c s) i = mem s i"
  using ring_frame[of i c e s] batt_frame[of i c] count_poll_batt(3)[of i c]
  by (simp add: wcfxs_voicedaa_check_hook_def Let_def split_beta daa_words_def batt_words_def)

lemma hook_poll_total:
  "\<exists>s'. hook_poll e k fuel c s = Some s' \<and> (\<forall>i. i \<notin> hook_words c \<union> daa_words c \<longrightarrow> mem s' i = mem s i)"
proof -
  have "\<forall>i. i \<notin> daa_words c \<longrightarrow> mem (wcfxs_voicedaa_check_hook e c s) i = mem s i" using daa_frame by blast
  then have f: "\<forall>i. i \<notin> hook_words c \<union> daa_words c \<longrightarrow> mem (wcfxs_voicedaa_check_hook e c s) i = mem s i" by simp
  obtain s' where s': "wcfxs_proslic_check_hook e k fuel c s = Some s'" "\<forall>i. i \<notin> hook_words c \<longrightarrow> mem s' i = mem s i"
    using check_hook_total by blast
  show ?thesis
  proof (cases "c < cards s \<and> card_present s c")
    case True
    then show ?thesis using s' f by (cases "modtype s c") (simp_all add: hook_poll_def)
  qed (auto simp: hook_poll_def)
qed

lemma wc_eq_poll: "poll_card (s\<lparr>intcount := n\<rparr>) = unat n mod 8"
  by (simp add: poll_card_def NUM_CARDS_def)

lemma intcount_mod8: "unat (n + of_nat i :: u32) mod 8 = (unat n + i) mod 8"
proof -
  have "(8 :: nat) dvd 2 ^ 32" by simp
  then show ?thesis by (simp add: unat_word_ariths unat_of_nat mod_mod_cancel mod_add_right_eq)
qed

section \<open>Properties\<close>

text \<open>
  Transmit timeslots: of the 64-byte DMA chunk, byte \<open>8 * x + c\<close> becomes sample \<open>x\<close> of the
  channel of port \<open>c\<close> when a card is installed there, and keeps its value otherwise.
\<close>

lemma transmit_timeslots:
  assumes "length buf = 64" and "c < 8" and "x < 8"
  shows "snd (wcfxs_transmitprep z s buf) ! (8 * x + c) = (if card_present s c then ztx z s c x else buf ! (8 * x + c))"
  by (rule transmitprep_nth[OF assms])

definition demo_core :: zcore where
  "demo_core = \<lparr>ztx = (\<lambda>s c x. of_nat (16 * c + x)), zec = (\<lambda>c r w. r)\<rparr>"

text \<open>
  C5.  The audio path is the identity on a looped board: when the chunk just sent is the one
  received, every installed channel receives exactly the samples the core transmitted,
  through the echo canceller, for all eight frames.
\<close>

theorem audio_loopback:
  assumes "length buf = 64" and "c < 8" and "c < cards s" and "card_present s c"
    and "wcfxs_transmitprep z s buf = (s1, sent)"
  shows "rchunk (wcfxs_receiveprep z s1 sent) c =
    zec z c (\<lambda>x. if x < 8 then ztx z s c x else rchunk s c x) (ztx z s c)"
proof -
  have s1: "cards s1 = cards s" "cardflag s1 = cardflag s" "wchunk s1 = ztx z s" "rchunk s1 = rchunk s"
    using assms(5) transmitprep_frame(2,3,5)[of z s buf] by (auto simp: wcfxs_transmitprep_def Let_def)
  have p: "card_present s1 = card_present s" by (rule card_present_cong[OF s1(2)])
  have "sent ! (8 * x + c) = ztx z s c x" if "x < 8" for x
    using transmitprep_nth[OF assms(1,2) that, of z s] assms(4,5) by simp
  then show ?thesis
    using receiveprep_rchunk[of c s1 z sent] assms(2-4) by (simp add: s1 p cong: if_cong)
qed

theorem audio_loopback_witness:
  "\<exists>s1 sent. wcfxs_transmitprep demo_core demo_wc (replicate 64 0) = (s1, sent) \<and>
    rchunk (wcfxs_receiveprep demo_core s1 sent) 5 3 = 83"
proof -
  obtain s1 sent where w: "wcfxs_transmitprep demo_core demo_wc (replicate 64 0) = (s1, sent)" by fastforce
  have "card_present demo_wc 5" "5 < cards demo_wc" by (simp_all add: card_present_def demo_wc_def)
  then show ?thesis using audio_loopback[OF _ _ _ _ w, of 5] w by (auto simp: demo_core_def)
qed



text \<open>
  Every card gets its turn: among any eight consecutive values of the interrupt counter,
  the wrap-around of the 32-bit counter included, each port is polled exactly once.
\<close>

lemma isr_round_robin:
  assumes "c < 8"
  shows "\<exists>!i. i < 8 \<and> poll_card (s\<lparr>intcount := n + of_nat i\<rparr>) = c"
proof -
  define m where "m = unat n mod 8"
  have m: "m < 8" by (simp add: m_def)
  have e: "(unat n + i) mod 8 = (if m + i < 8 then m + i else m + i - 8)" if "i < 8" for i
  proof -
    have "(unat n + i) mod 8 = (m + i) mod 8" by (simp add: m_def mod_add_left_eq)
    then show ?thesis using m that by (simp add: mod_if)
  qed
  let ?i = "if m \<le> c then c - m else c + 8 - m"
  show ?thesis unfolding wc_eq_poll intcount_mod8
  proof (rule ex1I[of _ ?i])
    show "?i < 8 \<and> (unat n + ?i) mod 8 = c" using assms m e[of ?i] by auto
    show "i < 8 \<and> (unat n + i) mod 8 = c \<Longrightarrow> i = ?i" for i using e[of i] m by (auto split: if_splits)
  qed
qed

end
