(* ===== verification/Wcfxs_Ctl.thy ===== *)
theory Wcfxs_Ctl
  imports Wcfxs_Tdm
begin

text \<open>
  The control functions the driver gives to the Zaptel core in \<open>src/src/wcfxs.c\<close>:
  signalling, ioctl, open and close, and the life cycle of the driver (allocation,
  registration, start-up, release).  Channel \<open>c\<close> is the one with \<open>chanpos = c + 1\<close>.  The
  results of \<open>kmalloc\<close>, \<open>zt_register\<close> and of the user-space copies are parameters.
\<close>

section \<open>Signalling\<close>

datatype txsig = TXSIG_ONHOOK | TXSIG_OFFHOOK | TXSIG_START | TXSIG_KEWL | TXSIG_OTHER

datatype zsig = SIG_EM | SIG_FXOKS | SIG_FXOLS | SIG_FXOGS | SIG_FXSKS | SIG_FXSLS | SIG_SF | SIG_CLEAR

definition hooksig_fxo :: "nat \<Rightarrow> txsig \<Rightarrow> wc \<Rightarrow> wc" where
  "hooksig_fxo c txsig s =
     (case txsig of
        TXSIG_START \<Rightarrow> wcfxs_setreg c 5 0x9 (setm (fxo_offhook c) 1 s)
      | TXSIG_OFFHOOK \<Rightarrow> wcfxs_setreg c 5 0x9 (setm (fxo_offhook c) 1 s)
      | TXSIG_ONHOOK \<Rightarrow> wcfxs_setreg c 5 0x8 (setm (fxo_offhook c) 0 s)
      | _ \<Rightarrow> s)"

definition hooksig_fxs_state :: "nat \<Rightarrow> zsig \<Rightarrow> txsig \<Rightarrow> wc \<Rightarrow> wc" where
  "hooksig_fxs_state c sig txsig s =
     (case txsig of
        TXSIG_ONHOOK \<Rightarrow>
          let s = wcfxs_set_led (c + 1) FX_LED_GREEN s
          in if sig \<in> {SIG_EM, SIG_FXOKS, SIG_FXOLS} then setm (fxs_lasttxhook c) (mem s (fxs_idletxhookstate c)) s
             else if sig = SIG_FXOGS then setm (fxs_lasttxhook c) 3 s else s
      | TXSIG_OFFHOOK \<Rightarrow>
          let s = wcfxs_set_led (c + 1) FX_LED_GREEN s
          in if sig = SIG_EM then setm (fxs_lasttxhook c) 5 s
             else setm (fxs_lasttxhook c) (mem s (fxs_idletxhookstate c)) s
      | TXSIG_START \<Rightarrow> setm (fxs_lasttxhook c) 4 (wcfxs_set_led (c + 1) FX_LED_RED s)
      | TXSIG_KEWL \<Rightarrow> setm (fxs_lasttxhook c) 0 s
      | TXSIG_OTHER \<Rightarrow> s)"

definition wcfxs_hooksig :: "env \<Rightarrow> params \<Rightarrow> nat \<Rightarrow> zsig \<Rightarrow> txsig \<Rightarrow> wc \<Rightarrow> int \<times> wc" where
  "wcfxs_hooksig e k c sig txsig s =
     (if modtype s c = MOD_TYPE_FXO then (0, hooksig_fxo c txsig s)
      else let s = hooksig_fxs_state c sig txsig s;
               s = (if debug k \<noteq> 0 then snd (wcfxs_getreg e c 64 s) else s)
           in (0, wcfxs_setreg c 64 (ucast (mem s (fxs_lasttxhook c))) s))"

section \<open>ioctl\<close>

definition NUM_REGS :: nat where "NUM_REGS = 109"
definition NUM_INDIRECT_REGS :: nat where "NUM_INDIRECT_REGS = 105"
definition NUM_FXO_REGS :: nat where "NUM_FXO_REGS = 60"

record regop =
  r_indirect :: bool
  r_reg :: u8
  r_val :: u16

text \<open>The user-space argument is \<open>None\<close> when its copy fails; for the reading commands the
  flag says whether the result can be stored.\<close>

datatype ioctl_cmd = ONHOOKTRANSFER "int option" | GET_STATS bool | GET_REGS bool | SET_REG "regop option" | OTHER_CMD

datatype errno = EINVAL | EFAULT | ENOTTY | ENODEV | EIO | ENOMEM

datatype ioctl_out = Done | Stats int int int | Regs "u8 list" "u16 list"

definition ioctl_oht :: "params \<Rightarrow> nat \<Rightarrow> int \<Rightarrow> wc \<Rightarrow> wc" where
  "ioctl_oht k c x s =
     (let s = setm (fxs_ohttimer c) (push_bit 3 (of_int x)) s
      in if lowpower k < 2
         then let s = setm (fxs_idletxhookstate c) 2 s
              in if mem s (fxs_lasttxhook c) = 1
                 then let s = setm (fxs_lasttxhook c) 2 s in wcfxs_setreg c 64 (ucast (mem s (fxs_lasttxhook c))) s
                 else s
         else s)"

fun read_direct :: "env \<Rightarrow> nat \<Rightarrow> nat list \<Rightarrow> wc \<Rightarrow> u8 list \<times> wc" where
  "read_direct e c [] s = ([], s)"
| "read_direct e c (x # xs) s =
     (let (v, s) = wcfxs_getreg e c (of_nat x) s; (vs, s) = read_direct e c xs s in (v # vs, s))"

fun read_indirect :: "env \<Rightarrow> params \<Rightarrow> nat \<Rightarrow> nat list \<Rightarrow> wc \<Rightarrow> u16 list \<times> wc" where
  "read_indirect e k c [] s = ([], s)"
| "read_indirect e k c (x # xs) s =
     (let (v, s) = wcfxs_proslic_getreg_indirect e k c (of_nat x) s; (vs, s) = read_indirect e k c xs s
      in (of_int v # vs, s))"

definition ioctl_stats :: "env \<Rightarrow> nat \<Rightarrow> wc \<Rightarrow> ioctl_out \<times> wc" where
  "ioctl_stats e c s =
     (if modtype s c = MOD_TYPE_FXS
      then let (t, s) = wcfxs_getreg e c 80 s; (r, s) = wcfxs_getreg e c 81 s; (b, s) = wcfxs_getreg e c 82 s
           in (Stats (uint t * -376) (uint r * -376) (uint b * -376), s)
      else let (t, s) = wcfxs_getreg e c 29 s; (r, s) = wcfxs_getreg e c 29 s; (b, s) = wcfxs_getreg e c 29 s
           in (Stats (sint t * 1000) (sint r * 1000) (sint b * 1000), s))"

definition ioctl_regs :: "env \<Rightarrow> params \<Rightarrow> nat \<Rightarrow> wc \<Rightarrow> ioctl_out \<times> wc" where
  "ioctl_regs e k c s =
     (if modtype s c = MOD_TYPE_FXS
      then let (is, s) = read_indirect e k c [0..<NUM_INDIRECT_REGS] s; (ds, s) = read_direct e c [0..<NUM_REGS] s
           in (Regs ds is, s)
      else let (ds, s) = read_direct e c [0..<NUM_FXO_REGS] s
           in (Regs (ds @ replicate (NUM_REGS - NUM_FXO_REGS) 0) (replicate NUM_INDIRECT_REGS 0), s))"

definition wcfxs_ioctl :: "env \<Rightarrow> params \<Rightarrow> nat \<Rightarrow> ioctl_cmd \<Rightarrow> wc \<Rightarrow> (errno + ioctl_out) \<times> wc" where
  "wcfxs_ioctl e k c cmd s =
     (case cmd of
        ONHOOKTRANSFER arg \<Rightarrow>
          if modtype s c \<noteq> MOD_TYPE_FXS then (Inl EINVAL, s)
          else (case arg of None \<Rightarrow> (Inl EFAULT, s) | Some x \<Rightarrow> (Inr Done, ioctl_oht k c x s))
      | GET_STATS ok \<Rightarrow> (case ioctl_stats e c s of (out, s) \<Rightarrow> (if ok then Inr out else Inl EFAULT, s))
      | GET_REGS ok \<Rightarrow> (case ioctl_regs e k c s of (out, s) \<Rightarrow> (if ok then Inr out else Inl EFAULT, s))
      | SET_REG arg \<Rightarrow>
          (case arg of
             None \<Rightarrow> (Inl EFAULT, s)
           | Some op \<Rightarrow>
               if r_indirect op
               then if modtype s c \<noteq> MOD_TYPE_FXS then (Inl EINVAL, s)
                    else (Inr Done, snd (wcfxs_proslic_setreg_indirect e k c (r_reg op) (r_val op) s))
               else (Inr Done, wcfxs_setreg c (r_reg op) (ucast (r_val op AND 0xff)) s))
      | OTHER_CMD \<Rightarrow> (Inl ENOTTY, s))"

section \<open>Open, close, release\<close>

definition kcore :: "zev \<Rightarrow> wc \<Rightarrow> wc" where
  "kcore z s = s\<lparr>zt := zt s @ [z]\<rparr>"

definition wcfxs_release :: "bool \<Rightarrow> wc \<Rightarrow> wc" where
  "wcfxs_release wcfxs_init_ok s =
     (let s = (if wcfxs_init_ok then kcore Kfree (kcore Zt_unregister (kcore Sport_close s)) else s)
      in kcore Remove_proc s)"

definition wcfxs_open :: "nat \<Rightarrow> wc \<Rightarrow> (errno + unit) \<times> wc" where
  "wcfxs_open c s =
     (if \<not> card_present s c then (Inl ENODEV, s)
      else if dead s then (Inl ENODEV, s)
      else (Inr (), kcore Module_get (s\<lparr>usecount := usecount s + 1\<rparr>)))"

definition wcfxs_close :: "bool \<Rightarrow> nat \<Rightarrow> wc \<Rightarrow> int \<times> wc" where
  "wcfxs_close wcfxs_init_ok c s =
     (let s = kcore Module_put (s\<lparr>usecount := usecount s - 1\<rparr>);
          s = (if modtype s c = MOD_TYPE_FXS then setm (fxs_idletxhookstate c) 1 s else s)
      in (0, if usecount s = 0 \<and> dead s then wcfxs_release wcfxs_init_ok s else s))"

section \<open>Start-up\<close>

definition FXO_CAPS :: "zsig list" where "FXO_CAPS = [SIG_FXSKS, SIG_FXSLS, SIG_SF, SIG_CLEAR]"
definition FXS_CAPS :: "zsig list" where "FXS_CAPS = [SIG_FXOKS, SIG_FXOLS, SIG_FXOGS, SIG_SF, SIG_EM, SIG_CLEAR]"

text \<open>The signalling each channel offers, set to everything at registration and narrowed once the
  cards are known.\<close>

definition initialize_caps :: "wc \<Rightarrow> (nat \<Rightarrow> zsig list) \<Rightarrow> nat \<Rightarrow> zsig list" where
  "initialize_caps s caps x = (if x < cards s then FXS_CAPS @ FXO_CAPS else caps x)"

definition wcfxs_post_initialize :: "wc \<Rightarrow> (nat \<Rightarrow> zsig list) \<Rightarrow> nat \<Rightarrow> zsig list" where
  "wcfxs_post_initialize s caps x =
     (if x < cards s \<and> card_present s x then (if modtype s x = MOD_TYPE_FXO then FXO_CAPS else FXS_CAPS) else caps x)"

definition WC_MAX_IFACES :: nat where "WC_MAX_IFACES = 128"

text \<open>The driver's globals: which interface slots point to a structure, the structure behind \<open>devs\<close>
  (\<open>None\<close> once freed), the \<open>/proc\<close> entry that reads through \<open>devs\<close>, and the channels' signalling.\<close>

record drv =
  ifaces :: "bool list"
  devs :: "wc option"
  init_ok :: bool
  proc_entry :: bool
  caps :: "nat \<Rightarrow> zsig list"

definition new_wc :: "wc \<Rightarrow> wc" where
  "new_wc h = \<lparr>bus = bus h, ticks = ticks h, zt = zt h, led = led h, curcard = -1, cards = NUM_CARDS, cardflag = 0,
     usecount = 0, dead = False, intcount = 0, wflags = (\<lambda>y. 0), modtype = (\<lambda>y. MOD_TYPE_FXS), mem = (\<lambda>i. 0),
     rchunk = (\<lambda>c i. 0), wchunk = (\<lambda>c i. 0)\<rparr>"

text \<open>\<open>h\<close> carries the state of the world outside the structure: bus, clock, core and LED latches.
  \<open>reg\<close> is the result of \<open>zt_register\<close>.\<close>

definition wcfxs_init_one ::
    "env \<Rightarrow> params \<Rightarrow> nat \<Rightarrow> bool \<Rightarrow> int \<Rightarrow> wc \<Rightarrow> drv \<Rightarrow> ((errno + unit) \<times> wc \<times> drv) option" where
  "wcfxs_init_one e k fuel kmalloc_ok reg h d =
     (let d = d\<lparr>init_ok := False\<rparr>
      in case find_idx (\<lambda>p. \<not> p) (ifaces d) of
           None \<Rightarrow> Some (Inl EIO, h, d)
         | Some x \<Rightarrow>
             if \<not> kmalloc_ok then Some (Inl ENOMEM, h, d)
             else
               let d = d\<lparr>ifaces := (ifaces d)[x := True]\<rparr>;
                   s = new_wc h;
                   d = d\<lparr>devs := Some s, caps := initialize_caps s (caps d)\<rparr>
               in if reg \<noteq> 0 then Some (Inl EIO, kcore Kfree s, d\<lparr>devs := None\<rparr>)
                  else
                    let d = d\<lparr>proc_entry := True\<rparr>
                    in do {
                      (r, s) \<leftarrow> wcfxs_cards_init e k fuel s;
                      if r \<noteq> 0
                      then Some (Inl EIO, kcore Kfree (kcore Zt_unregister (kcore Sport_close s)), d\<lparr>devs := None\<rparr>)
                      else Some (Inr (), s, d\<lparr>init_ok := True, devs := Some s, caps := wcfxs_post_initialize s (caps d)\<rparr>)
                    })"

text \<open>\<open>wcfxs_init\<close> looks up the operating mode; the result of \<open>wcfxs_init_one\<close> is not used.\<close>

definition wcfxs_init ::
    "env \<Rightarrow> params \<Rightarrow> nat \<Rightarrow> string \<Rightarrow> bool \<Rightarrow> int \<Rightarrow> wc \<Rightarrow> drv \<Rightarrow> ((errno + unit) \<times> wc \<times> drv) option" where
  "wcfxs_init e k fuel opermode_name kmalloc_ok reg h d =
     (case find_opermode opermode_name of
        None \<Rightarrow> Some (Inl ENODEV, h, d)
      | Some x \<Rightarrow> do {
          (_, h, d) \<leftarrow> wcfxs_init_one e (k\<lparr>opermode := x\<rparr>) fuel kmalloc_ok reg h d;
          Some (Inr (), wait_just_a_bit 10 h, d)
        })"

definition wcfxs_cleanup :: "wc \<Rightarrow> drv \<Rightarrow> wc \<times> drv" where
  "wcfxs_cleanup h d =
     (wcfxs_release (init_ok d) h, d\<lparr>devs := (if init_ok d then None else devs d), proc_entry := False\<rparr>)"

section \<open>Signalling on the board\<close>

text \<open>The line-feed state an FXS card is put in.\<close>

definition tx_state :: "zsig \<Rightarrow> txsig \<Rightarrow> u32 \<Rightarrow> u32 \<Rightarrow> u32" where
  "tx_state sig txsig idle lst =
     (case txsig of
        TXSIG_ONHOOK \<Rightarrow> if sig \<in> {SIG_EM, SIG_FXOKS, SIG_FXOLS} then idle else if sig = SIG_FXOGS then 3 else lst
      | TXSIG_OFFHOOK \<Rightarrow> if sig = SIG_EM then 5 else idle
      | TXSIG_START \<Rightarrow> 4 | TXSIG_KEWL \<Rightarrow> 0 | TXSIG_OTHER \<Rightarrow> lst)"

lemma coherent_setm [simp]: "coherent ch b0 (setm i v s) = coherent ch b0 s"
  by (simp add: coherent_def)

lemma set_led_modtype [simp]: "modtype (wcfxs_set_led p x s) = modtype s"
  by (simp add: wcfxs_set_led_def fx_set_led_def Let_def)

lemma hooksig_state_facts:
  assumes "coherent plain b0 s"
  shows "coherent plain b0 (hooksig_fxs_state c sig t s)" "regs_of b0 (hooksig_fxs_state c sig t s) = regs_of b0 s"
    "mem (hooksig_fxs_state c sig t s) =
      (mem s)(fxs_lasttxhook c := tx_state sig t (mem s (fxs_idletxhookstate c)) (mem s (fxs_lasttxhook c)))"
  using set_led_board(3,4)[OF assms] assms
  by (cases t; auto simp: hooksig_fxs_state_def tx_state_def Let_def)+

section \<open>A bus that nobody answers on\<close>

definition silent :: "env \<Rightarrow> bool" where
  "silent e \<longleftrightarrow> (\<forall>es. rxv e es = 0xff)"

lemma silent_rx: "silent e \<Longrightarrow> rxv e es = 0xff"
  by (simp add: silent_def)

lemma silent_getreg: "silent e \<Longrightarrow> fst (wcfxs_getreg e c r s) = 0xff"
  by (simp add: wcfxs_getreg_def Let_def silent_rx)

lemma set_led_flags [simp]: "cardflag (fx_set_led p x s) = cardflag s" "cards (fx_set_led p x s) = cards s"
  by (simp_all add: fx_set_led_def Let_def tx_def)

lemma bus_flags [simp]: "cardflag (tx ch b s) = cardflag s" "cards (tx ch b s) = cards s"
  "cardflag (snd (rx e s)) = cardflag s" "cards (snd (rx e s)) = cards s"
  "cardflag (bus_reset n s) = cardflag s" "cards (bus_reset n s) = cards s"
  "cardflag (setm i v s) = cardflag s" "cards (setm i v s) = cards s"
  by (simp_all add: tx_def rx_def bus_reset_def setm_def)

lemma detect_silent:
  assumes "silent e"
  shows "fst (detect_port e n i s) = NoPort" "cardflag (snd (detect_port e n i s)) = cardflag s"
    "cards (snd (detect_port e n i s)) = cards s"
  using assms by (simp_all add: detect_port_def fx_read_fxo_def fx_read_fxs_def Let_def split_beta silent_rx)

lemma detect_from_silent:
  "silent e \<Longrightarrow> fst (fx_detect_from e n is s) = replicate (length is) NoPort \<and>
   cardflag (snd (fx_detect_from e n is s)) = cardflag s \<and> cards (snd (fx_detect_from e n is s)) = cards s"
proof (induction "is" arbitrary: s)
  case (Cons i "is")
  then show ?case by (simp add: split_beta Let_def detect_silent)
qed simp

lemma proslic_silent:
  assumes "silent e"
  shows "\<exists>s'. wcfxs_init_proslic e k fuel c fast manual False s = Some (-2, s') \<and> cardflag s' = cardflag s \<and> cards s' = cards s"
proof -
  have "fst (wcfxs_proslic_insane e c (setm (fxs_idletxhookstate c) 1 s)) = -1"
    "cardflag (snd (wcfxs_proslic_insane e c (setm (fxs_idletxhookstate c) 1 s))) = cardflag s"
    "cards (snd (wcfxs_proslic_insane e c (setm (fxs_idletxhookstate c) 1 s))) = cards s"
    by (simp_all add: wcfxs_proslic_insane_def Let_def split_beta silent_getreg[OF assms])
  then show ?thesis by (simp add: wcfxs_init_proslic_def Let_def split_beta)
qed

lemma configure_silent:
  "silent e \<Longrightarrow> (\<And>x. x \<in> set xs \<Longrightarrow> pts ! x \<noteq> OPort) \<Longrightarrow>
   \<exists>s'. configure_ports e k fuel pts xs s = Some s' \<and> cardflag s' = cardflag s \<and> cards s' = cards s"
proof (induction xs arbitrary: s)
  case (Cons x xs)
  obtain s1 where s1: "wcfxs_init_proslic e k fuel x False False False s = Some (-2, s1)" "cardflag s1 = cardflag s" "cards s1 = cards s"
    using proslic_silent[OF Cons.prems(1)] by blast
  obtain s2 where "configure_ports e k fuel pts xs s1 = Some s2" "cardflag s2 = cardflag s1" "cards s2 = cards s1"
    using Cons.IH[of s1] Cons.prems by auto
  then show ?case using s1 Cons.prems(2)[of x] by (auto simp: configure_port_def)
qed simp

lemma cards_init_silent:
  assumes "silent e" "cards s = 8"
  shows "\<exists>s'. wcfxs_cards_init e k fuel s = Some (if cardflag s = 0 \<and> \<not> timingonly k then -1 else 0, s') \<and> cardflag s' = cardflag s"
proof -
  let ?d = "fx_detect_from e 4 [0..<8] (bus_reset 4 s)"
  let ?s = "bus_reset 4 (snd ?d)"
  have d: "fst ?d = replicate 8 NoPort" "cardflag ?s = cardflag s" "cards ?s = 8"
    using detect_from_silent[OF assms(1), of 4 "[0..<8]" "bus_reset 4 s"] assms(2) by simp_all
  obtain s' where "configure_ports e k fuel (fst ?d) [0..<8] ?s = Some s'" "cardflag s' = cardflag s"
    using configure_silent[OF assms(1), of "[0..<8]" "fst ?d" k fuel ?s] d by auto
  then show ?thesis using d by (simp add: wcfxs_cards_init_def fx_auto_detect_def Let_def split_beta)
qed

section \<open>Opening and closing\<close>

datatype chan_op = Open nat | Close nat

fun chan_run :: "bool \<Rightarrow> chan_op list \<Rightarrow> wc \<Rightarrow> nat \<times> nat \<times> wc" where
  "chan_run ok [] s = (0, 0, s)"
| "chan_run ok (Open c # xs) s =
     (case wcfxs_open c s of (r, s) \<Rightarrow> case chan_run ok xs s of (a, b, s) \<Rightarrow> (if r = Inr () then Suc a else a, b, s))"
| "chan_run ok (Close c # xs) s =
     (case wcfxs_close ok c s of (_, s) \<Rightarrow> case chan_run ok xs s of (a, b, s) \<Rightarrow> (a, Suc b, s))"

definition n_zt :: "zev \<Rightarrow> wc \<Rightarrow> nat" where
  "n_zt z s = length (filter ((=) z) (zt s))"

lemma n_zt_simps [simp]:
  "n_zt z (kcore y s) = n_zt z s + of_bool (y = z)" "n_zt z (s\<lparr>usecount := u\<rparr>) = n_zt z s" "n_zt z (setm i v s) = n_zt z s"
  by (auto simp: n_zt_def kcore_def)

lemma ctl_frame [simp]:
  "usecount (kcore z s) = usecount s" "dead (kcore z s) = dead s" "modtype (kcore z s) = modtype s"
  "usecount (setm i v s) = usecount s" "dead (setm i v s) = dead s"
  by (simp_all add: kcore_def setm_def)

lemma open_facts: "wcfxs_open c s = (r, s') \<Longrightarrow> dead s' = dead s \<and> usecount s' = usecount s + of_bool (r = Inr ()) \<and>
    n_zt Module_get s' = n_zt Module_get s + of_bool (r = Inr ()) \<and> n_zt Module_put s' = n_zt Module_put s \<and> n_zt Kfree s' = n_zt Kfree s"
  by (auto simp: wcfxs_open_def split: if_splits)

lemma close_facts: "wcfxs_close ok c s = (r, s') \<Longrightarrow> \<not> dead s \<Longrightarrow> \<not> dead s' \<and> usecount s' = usecount s - 1 \<and>
    n_zt Module_put s' = Suc (n_zt Module_put s) \<and> n_zt Module_get s' = n_zt Module_get s \<and> n_zt Kfree s' = n_zt Kfree s"
  by (auto simp: wcfxs_close_def Let_def split: if_splits)

lemma chan_run_facts:
  "chan_run ok xs s = (a, b, s') \<Longrightarrow> \<not> dead s \<Longrightarrow> \<not> dead s' \<and> usecount s' = usecount s + int a - int b \<and>
   n_zt Module_get s' = n_zt Module_get s + a \<and> n_zt Module_put s' = n_zt Module_put s + b \<and> n_zt Kfree s' = n_zt Kfree s"
proof (induction xs arbitrary: s a b s')
  case (Cons x xs)
  show ?case
  proof (cases x)
    case (Open c)
    obtain r s1 where s1: "wcfxs_open c s = (r, s1)" by fastforce
    obtain a1 b1 s2 where s2: "chan_run ok xs s1 = (a1, b1, s2)" by (cases "chan_run ok xs s1")
    show ?thesis using open_facts[OF s1] Cons.IH[OF s2] Cons.prems s1 s2 Open by (auto split: if_splits)
  next
    case (Close c)
    obtain r s1 where s1: "wcfxs_close ok c s = (r, s1)" by fastforce
    obtain a1 b1 s2 where s2: "chan_run ok xs s1 = (a1, b1, s2)" by (cases "chan_run ok xs s1")
    show ?thesis using close_facts[OF s1 Cons.prems(2)] Cons.IH[OF s2] Cons.prems s1 s2 Close by auto
  qed
qed simp

section \<open>Reading registers back\<close>

lemma read_direct_plain:
  "on_board e plain b0 \<Longrightarrow> coherent plain b0 s \<Longrightarrow> c < 8 \<Longrightarrow>
   fst (read_direct e c xs s) = map (\<lambda>x. regs_of b0 s c (of_nat x AND 0x7f)) xs"
proof (induction xs arbitrary: s)
  case (Cons x xs)
  note p = plain_regs(3-5)[OF Cons.prems, of "of_nat x"]
  show ?case using Cons.IH[OF Cons.prems(1) p(2) Cons.prems(3)] p by (simp add: split_beta Let_def)
qed simp

section \<open>Properties\<close>

text \<open>
  C36.  Signalling reaches the chip and the driver's memory together.  For an FXS card the
  line-feed register 64 gets exactly the state the request and the channel's signalling
  call for, and \<open>lasttxhook\<close> remembers it; for an FXO card the hook register 5 and the
  off-hook flag that stops the ring monitor agree.  No other card's registers and no other
  word change, although the LED is set over the same bus.
\<close>

theorem hooksig_effect:
  assumes "on_board e plain b0" and "coherent plain b0 s" and "c < 8" and "wcfxs_hooksig e k c sig t s = (r, s')"
    and "new = tx_state sig t (mem s (fxs_idletxhookstate c)) (mem s (fxs_lasttxhook c))"
  shows "r = 0 \<and> coherent plain b0 s' \<and>
    (if modtype s c = MOD_TYPE_FXS
     then mem s' = (mem s)(fxs_lasttxhook c := new) \<and> regs_of b0 s' = (regs_of b0 s)(c := (regs_of b0 s c)(64 := ucast new))
     else if t = TXSIG_KEWL \<or> t = TXSIG_OTHER then s' = s
     else mem s' = (mem s)(fxo_offhook c := (if t = TXSIG_ONHOOK then 0 else 1)) \<and>
       regs_of b0 s' = (regs_of b0 s)(c := (regs_of b0 s c)(5 := (if t = TXSIG_ONHOOK then 8 else 9))))"
proof (cases "modtype s c")
  case MOD_TYPE_FXS
  let ?s1 = "hooksig_fxs_state c sig t s"
  let ?s2 = "if debug k \<noteq> 0 then snd (wcfxs_getreg e c 64 ?s1) else ?s1"
  note h = hooksig_state_facts[OF assms(2), of c sig t]
  note g = plain_regs[OF assms(1) h(1) assms(3), of 64]
  have c2: "coherent plain b0 ?s2" "regs_of b0 ?s2 = regs_of b0 s" "mem ?s2 = (mem s)(fxs_lasttxhook c := new)"
    using h g(3,4) assms(5) by simp_all
  have "r = 0" "s' = wcfxs_setreg c 64 (ucast new) ?s2"
    using assms(4) c2(3) MOD_TYPE_FXS by (simp_all add: wcfxs_hooksig_def Let_def)
  then show ?thesis using plain_regs(1,2)[OF assms(1) c2(1) assms(3), of 64 "ucast new"] c2(2,3) MOD_TYPE_FXS by simp
next
  case MOD_TYPE_FXO
  note p = plain_regs(1,2)[OF assms(1) _ assms(3)]
  show ?thesis using assms(2,4) MOD_TYPE_FXO p by (cases t) (auto simp: wcfxs_hooksig_def hooksig_fxo_def)
qed

theorem hooksig_effect_witness:
  "\<exists>r s'. wcfxs_hooksig demo_env demo_params 4 SIG_FXOKS TXSIG_START demo_wc = (r, s') \<and> regs_of demo_board s' 4 64 = 4"
proof -
  obtain r s' where w: "wcfxs_hooksig demo_env demo_params 4 SIG_FXOKS TXSIG_START demo_wc = (r, s')" by fastforce
  show ?thesis using hooksig_effect[OF demo_on_board demo_coherent _ w refl] w by (simp add: demo_wc_def tx_state_def)
qed



text \<open>
  Registers set through the ioctl interface read back through it: on an FXO card, after
  \<open>WCFXS_SET_REG\<close> of register \<open>r\<close> the dump of \<open>WCFXS_GET_REGS\<close> has the low byte of the value at
  \<open>r\<close>, every other of the 60 registers unchanged, and zeros in the rest of the structure.
\<close>

lemma ioctl_roundtrip:
  assumes "on_board e plain b0" and "coherent plain b0 s" and "c < 8" and "modtype s c = MOD_TYPE_FXO" and "r < NUM_FXO_REGS"
    and "wcfxs_ioctl e k c (SET_REG (Some \<lparr>r_indirect = False, r_reg = of_nat r, r_val = v\<rparr>)) s = (out1, s1)"
  shows "out1 = Inr Done \<and> (\<exists>ds. fst (wcfxs_ioctl e k c (GET_REGS True) s1) = Inr (Regs ds (replicate NUM_INDIRECT_REGS 0)) \<and>
    length ds = NUM_REGS \<and>
    (\<forall>i<NUM_REGS. ds ! i = (if i = r then ucast (v AND 0xff) else if i < NUM_FXO_REGS then regs_of b0 s c (of_nat i) else 0)))"
proof -
  have "list_all (\<lambda>i. (of_nat i :: u8) AND 0x7f = of_nat i) [0..<60]" by code_simp
  then have b: "(of_nat i :: u8) AND 0x7f = of_nat i" if "i < 60" for i using that by (simp add: list_all_iff)
  have u: "unat (of_nat i :: u8) = i" if "i < 60" for i using that by (simp add: unat_of_nat)
  have inj: "(of_nat i :: u8) = of_nat r \<longleftrightarrow> i = r" if "i < 60" for i
    using u[OF that] u[of r] assms(5) by (metis NUM_FXO_REGS_def)
  have r: "r < 60" using assms(5) by (simp add: NUM_FXO_REGS_def)
  have s1: "out1 = Inr Done" "s1 = wcfxs_setreg c (of_nat r) (ucast (v AND 0xff)) s" using assms(6) by (auto simp: wcfxs_ioctl_def)
  note p = plain_regs(1,2)[OF assms(1-3), of "of_nat r" "ucast (v AND 0xff)", folded s1(2), unfolded b[OF r]]
  have m: "modtype s1 c = MOD_TYPE_FXO" using assms(4) by (simp add: s1(2))
  let ?ds = "map (\<lambda>x. regs_of b0 s1 c (of_nat x AND 0x7f)) [0..<60]"
  have "fst (wcfxs_ioctl e k c (GET_REGS True) s1) = Inr (Regs (?ds @ replicate 49 0) (replicate NUM_INDIRECT_REGS 0))"
    using read_direct_plain[OF assms(1) p(2) assms(3), of "[0..<60]"] m
    by (simp add: wcfxs_ioctl_def ioctl_regs_def NUM_FXO_REGS_def NUM_REGS_def split_beta Let_def del: upt_Suc)
  moreover have "(?ds @ replicate 49 0) ! i =
      (if i = r then ucast (v AND 0xff) else if i < NUM_FXO_REGS then regs_of b0 s c (of_nat i) else 0)" if "i < NUM_REGS" for i
    using that r b[of i] b[OF r] inj[of i] p(1) by (simp add: nth_append NUM_FXO_REGS_def NUM_REGS_def)
  ultimately show ?thesis using s1(1) by (intro conjI exI[of _ "?ds @ replicate 49 0"]) (simp_all add: NUM_REGS_def)
qed

text \<open>
  With no card answering on the bus the start-up fails inside and succeeds outside:
  \<open>wcfxs_init\<close> returns 0, but the driver structure is freed, \<open>wcfxs_init_ok\<close> stays 0, the
  interface slot stays taken, and the \<open>/proc\<close> entry whose reader dereferences \<open>devs\<close> is still
  there.  It always returns: no wait is entered.
\<close>

lemma failed_init_dangles:
  assumes "silent e" and "\<not> timingonly k" and "find_opermode name = Some m" and "find_idx (\<lambda>p. \<not> p) (ifaces d) = Some x"
  shows "\<exists>h' d'. wcfxs_init e k fuel name True 0 h d = Some (Inr (), h', d') \<and> devs d' = None \<and> \<not> init_ok d' \<and>
    proc_entry d' \<and> ifaces d' = (ifaces d)[x := True] \<and> last (zt h') = Kfree"
proof -
  obtain s where "wcfxs_cards_init e (k\<lparr>opermode := m\<rparr>) fuel (new_wc h) = Some (-1, s)"
    using cards_init_silent[OF assms(1), of "new_wc h" "k\<lparr>opermode := m\<rparr>" fuel] assms(2) by (auto simp: new_wc_def NUM_CARDS_def)
  then show ?thesis using assms(3,4)
    by (simp add: wcfxs_init_def wcfxs_init_one_def Let_def kcore_def wait_just_a_bit_def)
qed

definition idle_drv :: drv where
  "idle_drv = \<lparr>ifaces = replicate WC_MAX_IFACES False, devs = None, init_ok = False, proc_entry = False, caps = (\<lambda>x. [])\<rparr>"

end
