(* ===== verification/Cstr.thy ===== *)
theory Cstr
  imports Prelude
begin

text \<open>
  The part of the C library's string and number functions that the user-space tools call.
  A \<open>const char *\<close> is the list of the characters up to the terminating NUL; advancing the
  pointer drops characters.  Character codes are those of \<open>unsigned char\<close>.
\<close>

section \<open>Characters and numbers\<close>

definition code :: "char \<Rightarrow> nat" where
  "code c = of_char c"

definition isdigit :: "char \<Rightarrow> bool" where
  "isdigit c \<longleftrightarrow> 48 \<le> code c \<and> code c \<le> 57"

definition isalpha :: "char \<Rightarrow> bool" where
  "isalpha c \<longleftrightarrow> 65 \<le> code c \<and> code c \<le> 90 \<or> 97 \<le> code c \<and> code c \<le> 122"

definition isspace :: "char \<Rightarrow> bool" where
  "isspace c \<longleftrightarrow> code c = 32 \<or> 9 \<le> code c \<and> code c \<le> 13"

definition digits_val :: "string \<Rightarrow> nat" where
  "digits_val ds = fold (\<lambda>c n. 10 * n + (code c - 48)) ds 0"

text \<open>\<open>strtol\<close> and \<open>strtoul\<close> in base 10 saturate; the second negates modulo the range.\<close>

definition strtol_digits :: "nat \<Rightarrow> string \<Rightarrow> int" where
  "strtol_digits lb s = min (int (digits_val (takeWhile isdigit s))) (2 ^ (lb - 1) - 1)"

definition strtoul :: "nat \<Rightarrow> string \<Rightarrow> nat \<times> string" where
  "strtoul lb s =
     (let t = dropWhile isspace s;
          neg = (t \<noteq> [] \<and> hd t = CHR ''-'');
          u = (if t \<noteq> [] \<and> (hd t = CHR ''-'' \<or> hd t = CHR ''+'') then tl t else t);
          ds = takeWhile isdigit u
      in if ds = [] then (0, s)
         else let n = digits_val ds
              in (if 2 ^ lb \<le> n then 2 ^ lb - 1 else if neg then (2 ^ lb - n) mod 2 ^ lb else n, dropWhile isdigit u))"

text \<open>\<open>atoi\<close> is \<open>strtol\<close> in base 10 on a target where \<open>long\<close> and \<open>int\<close> have 32 bits.\<close>

definition atoi :: "string \<Rightarrow> int" where
  "atoi s =
     (let t = dropWhile isspace s;
          u = (if t \<noteq> [] \<and> (hd t = CHR ''-'' \<or> hd t = CHR ''+'') then tl t else t);
          n = int (digits_val (takeWhile isdigit u))
      in if t \<noteq> [] \<and> hd t = CHR ''-'' then max (- n) (- (2 ^ 31)) else min n (2 ^ 31 - 1))"

text \<open>The conversion of a \<open>long\<close> to \<open>int\<close>.\<close>

definition to_int :: "int \<Rightarrow> int" where
  "to_int x = sint (of_int x :: u32)"

lemma to_int_small: "- (2 ^ 31) \<le> x \<Longrightarrow> x < 2 ^ 31 \<Longrightarrow> to_int x = x"
  unfolding to_int_def by (simp add: signed_of_int signed_take_bit_int_eq_self)

text \<open>The decimal digits that \<open>%d\<close> and \<open>%u\<close> print, and the line end.\<close>

definition NL :: char where "NL = CHR 0x0A"

fun dec :: "nat \<Rightarrow> string" where
  "dec n = (if n < 10 then [char_of (48 + n)] else dec (n div 10) @ [char_of (48 + n mod 10)])"

declare dec.simps [simp del]

lemma code_char_of [simp]: "n < 256 \<Longrightarrow> code (char_of n) = n"
  by (simp add: code_def)

lemma digits_val_snoc: "digits_val (ds @ [c]) = 10 * digits_val ds + (code c - 48)"
  by (simp add: digits_val_def)

lemma dec_digits: "list_all isdigit (dec n)" "dec n \<noteq> []"
proof -
  have d: "isdigit (char_of (48 + k))" if "k < 10" for k :: nat using that by (simp add: isdigit_def)
  show "list_all isdigit (dec n)"
    by (induction n rule: dec.induct) (subst dec.simps, use d in \<open>auto simp: list_all_append\<close>)
  show "dec n \<noteq> []" by (subst dec.simps) simp
qed

lemma digits_val_dec: "digits_val (dec n) = n"
proof (induction n rule: dec.induct)
  case (1 n)
  then show ?case
    by (cases "n < 10") (simp_all add: dec.simps[of n] digits_val_snoc digits_val_def[of "[_]"])
qed

text \<open>\<open>strtol\<close> in base 0: a prefix \<open>0x\<close> selects base 16, a leading \<open>0\<close> base 8.\<close>

definition digit_of :: "nat \<Rightarrow> char \<Rightarrow> nat option" where
  "digit_of b c =
     (let k = code c;
          d = (if 48 \<le> k \<and> k \<le> 57 then k - 48 else if 97 \<le> k \<and> k \<le> 122 then k - 87 else if 65 \<le> k \<and> k \<le> 90 then k - 55 else 99)
      in if d < b then Some d else None)"

fun digits_base :: "nat \<Rightarrow> nat \<Rightarrow> string \<Rightarrow> nat" where
  "digits_base b acc [] = acc"
| "digits_base b acc (c # cs) = (case digit_of b c of None \<Rightarrow> acc | Some d \<Rightarrow> digits_base b (b * acc + d) cs)"

definition strtol0_mag :: "string \<Rightarrow> nat" where
  "strtol0_mag u =
     (case u of
        c0 # c1 # c2 # cs \<Rightarrow>
          if c0 = CHR ''0'' \<and> (c1 = CHR ''x'' \<or> c1 = CHR ''X'') \<and> digit_of 16 c2 \<noteq> None then digits_base 16 0 (c2 # cs)
          else if c0 = CHR ''0'' then digits_base 8 0 u else digits_base 10 0 u
      | c0 # cs \<Rightarrow> if c0 = CHR ''0'' then digits_base 8 0 u else digits_base 10 0 u
      | [] \<Rightarrow> 0)"

definition strtol0 :: "nat \<Rightarrow> string \<Rightarrow> int" where
  "strtol0 lb s =
     (let t = dropWhile isspace s;
          neg = (t \<noteq> [] \<and> hd t = CHR ''-'');
          u = (if t \<noteq> [] \<and> (hd t = CHR ''-'' \<or> hd t = CHR ''+'') then tl t else t);
          n = int (strtol0_mag u)
      in if neg then max (- n) (- (2 ^ (lb - 1))) else min n (2 ^ (lb - 1) - 1))"

section \<open>Searching\<close>

text \<open>\<open>strstr\<close> returns the rest of the string from the first occurrence.\<close>

fun strstr :: "string \<Rightarrow> string \<Rightarrow> string option" where
  "strstr h n = (if take (length n) h = n then Some h else case h of [] \<Rightarrow> None | _ # t \<Rightarrow> strstr t n)"

declare strstr.simps [simp del]

lemma strstr_None: "strstr h n = None \<longleftrightarrow> (\<forall>p q. h \<noteq> p @ n @ q)"
proof (induction h)
  case Nil
  then show ?case by (auto simp: strstr.simps[of "[]"])
next
  case (Cons c h)
  have t: "take (length n) (c # h) = n \<longleftrightarrow> (\<exists>q. c # h = n @ q)"
    by (metis append_take_drop_id append_eq_conv_conj)
  show ?case
  proof (cases "take (length n) (c # h) = n")
    case True
    then show ?thesis using t by (subst strstr.simps) (metis append_Nil not_None_eq)
  next
    case False
    then have "strstr (c # h) n = strstr h n" by (subst strstr.simps) simp
    moreover have "(\<exists>p q. c # h = p @ n @ q) \<longleftrightarrow> (\<exists>p q. h = p @ n @ q)"
      using False t by (metis append_Cons append_Nil append_eq_Cons_conv)
    ultimately show ?thesis using Cons.IH by auto
  qed
qed

end
