(* ===== verification/Vercmp.thy ===== *)
theory Vercmp
  imports Cstr "HOL-Library.Product_Lexorder" "HOL-Library.List_Lexorder"
begin

text \<open>
  Package version comparison: \<open>src/scripts/ipkg-utils/ipkg-compare-versions.c\<close>.  The width of
  \<open>long\<close> is a parameter \<open>lb\<close>: the tool runs on 32-bit targets and on 64-bit build hosts.

  The comparison is specified by a key: the version is cut into tokens of a non-digit
  prefix, a number and what follows it, and keys are ordered lexicographically.
\<close>

section \<open>Operations\<close>

text \<open>The inner loop over the two prefixes: 0 when both end together.\<close>

definition weight :: "char \<Rightarrow> int" where
  "weight c = (if isalpha c then int (code c) else int (code c) + 256)"

fun prefix_cmp :: "string \<Rightarrow> string \<Rightarrow> int" where
  "prefix_cmp [] [] = 0"
| "prefix_cmp [] (r # rs) = 0 - weight r"
| "prefix_cmp (v # vs) [] = weight v - 0"
| "prefix_cmp (v # vs) (r # rs) = (if weight v \<noteq> weight r then weight v - weight r else prefix_cmp vs rs)"

text \<open>\<open>strchr(".-", c)\<close> also finds the terminating NUL.\<close>

definition is_sep :: "string \<Rightarrow> bool" where
  "is_sep s \<longleftrightarrow> s = [] \<or> hd s = CHR ''.'' \<or> hd s = CHR ''-''"

function verrevcmp :: "nat \<Rightarrow> string \<Rightarrow> string \<Rightarrow> int" where
  "verrevcmp lb val ref =
     (let vp = dropWhile (\<lambda>c. \<not> isdigit c) val;
          rp = dropWhile (\<lambda>c. \<not> isdigit c) ref;
          d = prefix_cmp (takeWhile (\<lambda>c. \<not> isdigit c) val) (takeWhile (\<lambda>c. \<not> isdigit c) ref)
      in if d \<noteq> 0 then d
         else
           let vl = (if vp \<noteq> [] then strtol_digits lb vp else 0);
               rl = (if rp \<noteq> [] then strtol_digits lb rp else 0);
               v = dropWhile isdigit vp;
               r = dropWhile isdigit rp
           in if vl \<noteq> rl then to_int (vl - rl)
              else if is_sep v \<and> \<not> is_sep r then -1
              else if \<not> is_sep v \<and> is_sep r then 1
              else if v = [] \<and> r = [] then 0
              else if v = [] then -1
              else if r = [] then 1
              else verrevcmp lb v r)"
  by pat_completeness auto

lemma rest_shorter:
  assumes "dropWhile isdigit (dropWhile (\<lambda>c. \<not> isdigit c) s) \<noteq> []"
  shows "length (dropWhile isdigit (dropWhile (\<lambda>c. \<not> isdigit c) s)) < length s"
proof -
  let ?p = "dropWhile (\<lambda>c. \<not> isdigit c) s"
  have p: "?p \<noteq> []"
  proof
    assume "?p = []"
    then have "dropWhile isdigit ?p = []" by (simp only: dropWhile.simps)
    then show False using assms by blast
  qed
  then have "isdigit (hd ?p)" using hd_dropWhile by metis
  then have "length (dropWhile isdigit ?p) < length ?p"
    using p length_dropWhile_le[of isdigit "tl ?p"] by (cases ?p) (auto simp: less_Suc_eq_le)
  then show ?thesis using length_dropWhile_le[of "\<lambda>c. \<not> isdigit c" s] by linarith
qed

termination verrevcmp
proof (relation "measure (\<lambda>(lb, v, r). length v)", goal_cases)
  case (2 lb val ref vp rp d vl rl v r)
  have "v = dropWhile isdigit (dropWhile (\<lambda>c. \<not> isdigit c) val)" using 2(1,7) by blast
  moreover have "v \<noteq> []" using 2 by blast
  ultimately have "length v < length val" using rest_shorter[of val] by blast
  then show ?case by (simp only: in_measure prod.case)
qed (rule wf_measure)

declare verrevcmp.simps [simp del]

record versionrevision =
  epoch :: nat
  version :: string

definition versioncompare :: "nat \<Rightarrow> versionrevision \<Rightarrow> versionrevision \<Rightarrow> int" where
  "versioncompare lb v r =
     (if epoch r < epoch v then 1 else if epoch v < epoch r then -1 else verrevcmp lb (version v) (version r))"

text \<open>\<open>None\<close> is the unknown operator, which ends the program with status 1.\<close>

definition versionsatisfied3 :: "nat \<Rightarrow> versionrevision \<Rightarrow> versionrevision \<Rightarrow> string \<Rightarrow> bool option" where
  "versionsatisfied3 lb it ref op =
     (let r = versioncompare lb it ref
      in if op = ''<='' \<or> op = ''<'' then Some (r \<le> 0)
         else if op = ''>='' \<or> op = ''>'' then Some (r \<ge> 0)
         else if op = ''<<'' then Some (r < 0)
         else if op = ''>>'' then Some (r > 0)
         else if op = ''='' then Some (r = 0)
         else None)"

datatype parse_error = Empty_string | Epoch_not_number | Nothing_after_colon

definition parseversion :: "nat \<Rightarrow> string \<Rightarrow> parse_error + versionrevision" where
  "parseversion lb s =
     (if s = [] then Inl Empty_string
      else if CHR '':'' \<in> set s
      then let colon = dropWhile (\<lambda>c. c \<noteq> CHR '':'') s; (ep, eepochcolon) = strtoul lb s
           in if length colon \<noteq> length eepochcolon then Inl Epoch_not_number
              else if tl colon = [] then Inl Nothing_after_colon
              else Inr \<lparr>epoch = ep, version = tl colon\<rparr>
      else Inr \<lparr>epoch = 0, version = s\<rparr>)"

text \<open>The exit status of the program.\<close>

definition main_status :: "nat \<Rightarrow> string list \<Rightarrow> nat" where
  "main_status lb argv =
     (if length argv < 4 then 2
      else case parseversion lb (argv ! 1) of
             Inl _ \<Rightarrow> 2
           | Inr ver \<Rightarrow>
               (case parseversion lb (argv ! 3) of
                  Inl _ \<Rightarrow> 2
                | Inr ref \<Rightarrow> (case versionsatisfied3 lb ver ref (argv ! 2) of None \<Rightarrow> 1 | Some b \<Rightarrow> if b then 0 else 1)))"

section \<open>The order on keys\<close>

definition cmp3 :: "'a::linorder \<Rightarrow> 'a \<Rightarrow> int" where
  "cmp3 x y = (if x < y then -1 else if x = y then 0 else 1)"

lemma cmp3_int: "cmp3 x y = sgn (x - y :: int)"
  by (simp add: cmp3_def sgn_if)

lemma cmp3_pair: "cmp3 (a, b) (a', b') = (if cmp3 a a' \<noteq> 0 then cmp3 a a' else cmp3 b b')"
  by (auto simp: cmp3_def less_prod_def')

lemma cmp3_list:
  "cmp3 [] ([] :: 'a::linorder list) = 0" "cmp3 [] (y # ys) = -1" "cmp3 (x # xs) [] = 1"
  "cmp3 (x # xs) (y # ys) = (if cmp3 x y \<noteq> 0 then cmp3 x y else cmp3 xs ys)"
  by (auto simp: cmp3_def)

lemma cmp3_laws: "cmp3 x x = 0" "cmp3 y x = - cmp3 x y" "cmp3 x y = 0 \<longleftrightarrow> x = y"
    "cmp3 x y \<le> 0 \<longleftrightarrow> x \<le> y" "cmp3 x y < 0 \<longleftrightarrow> x < y" "0 \<le> cmp3 x y \<longleftrightarrow> y \<le> x" "0 < cmp3 x y \<longleftrightarrow> y < x"
  by (auto simp: cmp3_def)

text \<open>A token: the weights of the prefix, the number, and what follows: the end, a separator or
  anything else, in this order.\<close>

definition tail_class :: "string \<Rightarrow> nat" where
  "tail_class v = (if v = [] then 0 else if is_sep v then 1 else 2)"

function vkey :: "nat \<Rightarrow> string \<Rightarrow> (int list \<times> int \<times> nat) list" where
  "vkey lb s =
     (let vp = dropWhile (\<lambda>c. \<not> isdigit c) s; v = dropWhile isdigit vp
      in (map weight (takeWhile (\<lambda>c. \<not> isdigit c) s), if vp \<noteq> [] then strtol_digits lb vp else 0, tail_class v) #
         (if v = [] then [] else vkey lb v))"
  by pat_completeness auto

termination vkey
proof (relation "measure (\<lambda>(lb, v). length v)", goal_cases)
  case (2 lb s vp v)
  have "v = dropWhile isdigit (dropWhile (\<lambda>c. \<not> isdigit c) s)" "v \<noteq> []" using 2 by blast+
  then have "length v < length s" using rest_shorter[of s] by blast
  then show ?case by (simp only: in_measure prod.case)
qed (rule wf_measure)

declare vkey.simps [simp del]

lemma weight_pos: "0 < weight c"
  by (simp add: weight_def isalpha_def)

lemma prefix_cmp_key: "sgn (prefix_cmp xs ys) = cmp3 (map weight xs) (map weight ys)"
proof (induction xs ys rule: prefix_cmp.induct)
  case (4 v vs r rs)
  then show ?case by (auto simp: cmp3_list cmp3_int sgn_if)
qed (use weight_pos in \<open>auto simp: cmp3_list\<close>)

lemma strtol_range: "lb \<le> 32 \<Longrightarrow> 0 \<le> strtol_digits lb s \<and> strtol_digits lb s < 2 ^ 31"
proof -
  assume "lb \<le> 32"
  then have "lb - 1 \<le> 31" by simp
  then have "(2 :: int) ^ (lb - 1) \<le> 2 ^ 31" by (rule power_increasing) simp
  then show ?thesis by (auto simp: strtol_digits_def)
qed

lemma tail_cmp:
  "cmp3 (tail_class v) (tail_class r) =
     (if is_sep v \<and> \<not> is_sep r then -1 else if \<not> is_sep v \<and> is_sep r then 1 else if v = [] \<and> r = [] then 0
      else if v = [] then -1 else if r = [] then 1 else 0)"
  by (auto simp: tail_class_def cmp3_def is_sep_def)

lemma verrevcmp_key:
  "lb \<le> 32 \<Longrightarrow> sgn (verrevcmp lb val ref) = cmp3 (vkey lb val) (vkey lb ref)"
proof (induction lb val ref rule: verrevcmp.induct)
  case (1 lb val ref)
  define vp rp where "vp = dropWhile (\<lambda>c. \<not> isdigit c) val" and "rp = dropWhile (\<lambda>c. \<not> isdigit c) ref"
  define d where "d = prefix_cmp (takeWhile (\<lambda>c. \<not> isdigit c) val) (takeWhile (\<lambda>c. \<not> isdigit c) ref)"
  define vl rl where "vl = (if vp \<noteq> [] then strtol_digits lb vp else 0)" and "rl = (if rp \<noteq> [] then strtol_digits lb rp else 0)"
  define v r where "v = dropWhile isdigit vp" and "r = dropWhile isdigit rp"
  note defs = vp_def rp_def d_def vl_def rl_def v_def r_def
  have run: "verrevcmp lb val ref = (if d \<noteq> 0 then d else if vl \<noteq> rl then to_int (vl - rl)
      else if is_sep v \<and> \<not> is_sep r then -1 else if \<not> is_sep v \<and> is_sep r then 1 else if v = [] \<and> r = [] then 0
      else if v = [] then -1 else if r = [] then 1 else verrevcmp lb v r)"
    by (subst verrevcmp.simps) (simp only: Let_def defs)
  have kv: "vkey lb val = (map weight (takeWhile (\<lambda>c. \<not> isdigit c) val), vl, tail_class v) # (if v = [] then [] else vkey lb v)"
    by (subst vkey.simps) (simp only: Let_def defs)
  have kr: "vkey lb ref = (map weight (takeWhile (\<lambda>c. \<not> isdigit c) ref), rl, tail_class r) # (if r = [] then [] else vkey lb r)"
    by (subst vkey.simps) (simp only: Let_def defs)
  have p: "cmp3 (map weight (takeWhile (\<lambda>c. \<not> isdigit c) val)) (map weight (takeWhile (\<lambda>c. \<not> isdigit c) ref)) = sgn d"
    by (simp only: d_def prefix_cmp_key)
  have n: "cmp3 vl rl = sgn (vl - rl)" "to_int (vl - rl) = vl - rl"
    using strtol_range[OF "1.prems", of vp] strtol_range[OF "1.prems", of rp] to_int_small[of "vl - rl"]
    by (auto simp: cmp3_int vl_def rl_def)
  have ih: "sgn (verrevcmp lb v r) = cmp3 (vkey lb v) (vkey lb r)"
    if "d = 0" "vl = rl" "is_sep v = is_sep r" "v \<noteq> []" "r \<noteq> []"
    using "1.IH"[OF vp_def rp_def d_def _ vl_def rl_def v_def r_def] that "1.prems" by blast
  show ?case
    unfolding run kv kr cmp3_list(4) cmp3_pair p n(1) tail_cmp
    using ih by (auto simp: n(2) sgn_if cmp3_list split: if_splits)
qed

definition version_key :: "nat \<Rightarrow> versionrevision \<Rightarrow> nat \<times> (int list \<times> int \<times> nat) list" where
  "version_key lb v = (epoch v, vkey lb (version v))"

lemma versioncompare_key:
  assumes "lb \<le> 32"
  shows "sgn (versioncompare lb a b) = cmp3 (version_key lb a) (version_key lb b)"
  using verrevcmp_key[OF assms, of "version a" "version b"]
  by (auto simp: versioncompare_def version_key_def cmp3_pair) (auto simp: cmp3_def)

lemma versioncompare_sign:
  assumes "lb \<le> 32"
  shows "versioncompare lb a b \<le> 0 \<longleftrightarrow> version_key lb a \<le> version_key lb b"
    "versioncompare lb a b < 0 \<longleftrightarrow> version_key lb a < version_key lb b"
    "versioncompare lb a b = 0 \<longleftrightarrow> version_key lb a = version_key lb b"
    "0 < versioncompare lb a b \<longleftrightarrow> version_key lb b < version_key lb a"
  using versioncompare_key[OF assms(1), of a b] cmp3_laws(3-7)[of "version_key lb a" "version_key lb b"]
  by (auto simp: sgn_if split: if_splits)

section \<open>Comparison as an interface\<close>

text \<open>What users of a version comparison rely on.\<close>

locale version_order =
  fixes cmp :: "'v \<Rightarrow> 'v \<Rightarrow> int"
  assumes same: "cmp a a = 0"
    and flip: "sgn (cmp b a) = - sgn (cmp a b)"
    and chain: "cmp a b \<le> 0 \<Longrightarrow> cmp b c \<le> 0 \<Longrightarrow> cmp a c \<le> 0"
begin

lemma total: "cmp a b \<le> 0 \<or> cmp b a \<le> 0"
  using flip[of a b] by (auto simp: sgn_if split: if_splits)

lemma strict_chain: "cmp a b < 0 \<Longrightarrow> cmp b c \<le> 0 \<Longrightarrow> cmp a c < 0"
  using chain[of a b c] chain[of b c a] flip[of c a] flip[of b a] by (auto simp: sgn_if split: if_splits)

text \<open>Equivalent versions compare alike with every other.\<close>

lemma equivalent_same: "cmp a b = 0 \<Longrightarrow> sgn (cmp a c) = sgn (cmp b c)"
  using chain[of a b c] chain[of b a c] chain[of c a b] chain[of c b a] flip[of a b] flip[of a c] flip[of b c]
  by (auto simp: sgn_if split: if_splits)

end

interpretation ipkg: version_order "versioncompare 32"
proof
  fix a b c :: versionrevision
  note s = versioncompare_sign[of 32, OF order.refl]
  show "versioncompare 32 a a = 0" using s(3)[of a a] by simp
  show "sgn (versioncompare 32 b a) = - sgn (versioncompare 32 a b)"
    using versioncompare_key[of 32 a b] versioncompare_key[of 32 b a] cmp3_laws(2) by simp
  show "versioncompare 32 a b \<le> 0 \<Longrightarrow> versioncompare 32 b c \<le> 0 \<Longrightarrow> versioncompare 32 a c \<le> 0"
    using order.trans unfolding s(1) .
qed

section \<open>Properties\<close>



text \<open>
  The operators of the command line form a decision procedure: on two parsed versions
  exactly one of \<open><<\<close>, \<open>=\<close> and \<open>>>\<close> exits with status 0 (true), \<open><=\<close> is the negation of \<open>>>\<close>
  and \<open>>=\<close> of \<open><<\<close>, and satisfaction of \<open><=\<close> is transitive.
\<close>

lemma operators_decide:
  assumes "lb \<le> 32"
  shows "(versionsatisfied3 lb a b ''<<'' = Some True \<or> versionsatisfied3 lb a b ''='' = Some True \<or> versionsatisfied3 lb a b ''>>'' = Some True) \<and>
    \<not> (versionsatisfied3 lb a b ''<<'' = Some True \<and> versionsatisfied3 lb a b ''>>'' = Some True) \<and>
    (versionsatisfied3 lb a b ''<='' = Some True \<longleftrightarrow> versionsatisfied3 lb a b ''>>'' = Some False) \<and>
    (versionsatisfied3 lb a b ''<<'' = Some True \<longleftrightarrow> versionsatisfied3 lb b a ''>>'' = Some True) \<and>
    (versionsatisfied3 lb a b ''<='' = Some True \<and> versionsatisfied3 lb b c ''<='' = Some True \<longrightarrow> versionsatisfied3 lb a c ''<='' = Some True)"
proof -
  note s = versioncompare_sign[OF assms]
  have o: "versionsatisfied3 lb x y ''<<'' = Some (versioncompare lb x y < 0)" "versionsatisfied3 lb x y ''>>'' = Some (0 < versioncompare lb x y)"
    "versionsatisfied3 lb x y ''='' = Some (versioncompare lb x y = 0)" "versionsatisfied3 lb x y ''<='' = Some (versioncompare lb x y \<le> 0)" for x y
    by (simp_all add: versionsatisfied3_def Let_def)
  show ?thesis unfolding o s option.inject by auto
qed

text \<open>
  On a host whose \<open>long\<close> has 64 bits the result is truncated: two versions whose numbers
  differ by a multiple of \<open>2 ^ 32\<close> compare equal, so the comparison is no order there.
\<close>

lemma long_difference_truncated:
  "versioncompare 64 \<lparr>epoch = 0, version = ''1''\<rparr> \<lparr>epoch = 0, version = ''4294967297''\<rparr> = 0 \<and>
   versioncompare 64 \<lparr>epoch = 0, version = ''1''\<rparr> \<lparr>epoch = 0, version = ''4294967296''\<rparr> = 1 \<and>
   versioncompare 64 \<lparr>epoch = 0, version = ''1''\<rparr> \<lparr>epoch = 0, version = ''2''\<rparr> = -1"
  by (simp add: versioncompare_def verrevcmp.simps strtol_digits_def digits_val_def isdigit_def code_def is_sep_def to_int_def)

end
