(* ===== verification/Zeropad.thy ===== *)
theory Zeropad
  imports Cstr
begin

text \<open>
  The image padding tool \<open>src/src/zeropad.c\<close>.  A file is the list of its bytes; whether the
  files open and whether \<open>malloc\<close> succeeds are parameters.  \<open>fread\<close> delivers full blocks
  until the file ends.
\<close>

section \<open>Operations\<close>

text \<open>The copy loop: each round overwrites the front of the buffer and writes the whole buffer.\<close>

function pad_loop :: "nat \<Rightarrow> u8 list \<Rightarrow> u8 list \<Rightarrow> u8 list" where
  "pad_loop blocksize buf fin =
     (let n = min blocksize (length fin)
      in if n = 0 then []
         else let buf' = take n fin @ drop n buf in buf' @ pad_loop blocksize buf' (drop n fin))"
  by pat_completeness auto

termination pad_loop
  by (relation "measure (\<lambda>(bs, buf, fin). length fin)") auto

declare pad_loop.simps [simp del]

text \<open>The program: exit status and contents of the output file, \<open>None\<close> where it is not opened.\<close>

definition zeropad :: "nat \<Rightarrow> string list \<Rightarrow> u8 list option \<Rightarrow> bool \<Rightarrow> (int \<Rightarrow> bool) \<Rightarrow> nat \<times> u8 list option" where
  "zeropad lb argv fin fout_ok malloc_ok =
     (if length argv \<noteq> 4 then (1, None)
      else case fin of
             None \<Rightarrow> (1, None)
           | Some inp \<Rightarrow>
               if \<not> fout_ok then (1, None)
               else let blocksize = to_int (strtol0 lb (argv ! 3))
                    in if blocksize < 0 then (1, Some [])
                       else if \<not> malloc_ok blocksize then (1, Some [])
                       else (0, Some (pad_loop (nat blocksize) (replicate (nat blocksize) 0) inp)))"

section \<open>What is written\<close>

text \<open>The padding: zeros only when the file is shorter than one block.\<close>

definition padding :: "nat \<Rightarrow> u8 list \<Rightarrow> u8 list \<Rightarrow> u8 list" where
  "padding bs buf inp =
     (let r = length inp mod bs
      in if r = 0 then [] else if length inp < bs then drop r buf else take (bs - r) (drop (length inp - bs) inp))"

lemma padding_step:
  assumes "0 < bs" "bs \<le> length inp" "length inp mod bs \<noteq> 0 \<or> drop bs inp = []"
  shows "padding bs (take bs inp) (drop bs inp) = padding bs buf inp"
proof (cases "drop bs inp = []")
  case True
  then show ?thesis using assms(1,2) by (simp add: padding_def)
next
  case False
  then have "bs < length inp" by simp
  then have m: "(length inp - bs) mod bs = length inp mod bs" by (simp add: le_mod_geq)
  show ?thesis
  proof (cases "length inp - bs < bs")
    case True
    then have "length inp mod bs = length inp - bs" using m by simp
    moreover have "length inp - (length inp - bs) = bs" using \<open>bs < length inp\<close> by simp
    ultimately show ?thesis using True \<open>bs < length inp\<close> unfolding padding_def Let_def length_drop m
      by (simp add: drop_take add.commute)
  next
    case False
    then show ?thesis using \<open>bs < length inp\<close> m by (simp add: padding_def Let_def add.commute)
  qed
qed

lemma pad_loop_output:
  "0 < bs \<Longrightarrow> length buf = bs \<Longrightarrow> pad_loop bs buf inp = inp @ padding bs buf inp"
proof (induction "length inp" arbitrary: buf inp rule: less_induct)
  case less
  show ?case
  proof (cases "inp = []")
    case True
    then show ?thesis by (simp add: pad_loop.simps[of _ _ "[]"] padding_def)
  next
    case False
    show ?thesis
    proof (cases "bs \<le> length inp")
      case True
      have "pad_loop bs buf inp = take bs inp @ pad_loop bs (take bs inp) (drop bs inp)"
        using True less.prems False by (subst pad_loop.simps) (simp add: Let_def min_def)
      also have "pad_loop bs (take bs inp) (drop bs inp) = drop bs inp @ padding bs (take bs inp) (drop bs inp)"
        using less.hyps[of "drop bs inp" "take bs inp"] True less.prems False by auto
      also have "padding bs (take bs inp) (drop bs inp) = padding bs buf inp"
      proof (cases "length inp mod bs = 0")
        case z: True
        then have "(length inp - bs) mod bs = 0" using True by (simp add: le_mod_geq[symmetric])
        then show ?thesis using z by (simp add: padding_def)
      qed (use padding_step[OF less.prems(1) True] in simp)
      finally show ?thesis by simp
    next
      case short: False
      then have "pad_loop bs buf inp = (inp @ drop (length inp) buf) @ pad_loop bs (inp @ drop (length inp) buf) []"
        using False by (subst pad_loop.simps) (simp add: Let_def min_def)
      then show ?thesis using short False by (simp add: pad_loop.simps[of _ _ "[]"] padding_def)
    qed
  qed
qed

section \<open>Properties\<close>

text \<open>
  C37.  The output is the input followed by padding up to the next multiple of the block size,
  so that the input is a prefix of it.  The padding is zero only for an input of less than
  one block; in every other case it is the tail of the block before the last, which the
  buffer still holds: bytes of the input, not zeros.
\<close>

theorem zeropad_output:
  assumes "length argv = 4" and "to_int (strtol0 lb (argv ! 3)) = int bs" and "0 < bs" and "malloc_ok (int bs)"
  shows "zeropad lb argv (Some inp) True malloc_ok =
    (0, Some (inp @ (let r = length inp mod bs
                     in if r = 0 then [] else if length inp < bs then replicate (bs - r) 0
                        else take (bs - r) (drop (length inp - bs) inp))))"
  using assms pad_loop_output[of bs "replicate bs 0" inp] by (simp add: zeropad_def padding_def Let_def)

theorem zeropad_output_witness:
  "zeropad 32 [''zeropad'', ''in'', ''out'', ''0x4''] (Some [1, 2, 3, 4, 5]) True (\<lambda>_. True) = (0, Some [1, 2, 3, 4, 5, 2, 3, 4])"
proof -
  have "to_int (strtol0 32 ([''zeropad'', ''in'', ''out'', ''0x4''] ! 3)) = int 4"
    by (simp add: strtol0_def strtol0_mag_def digit_of_def code_def isspace_def to_int_def)
  from zeropad_output[OF _ this, of "\<lambda>_. True" "[1, 2, 3, 4, 5]"] show ?thesis by simp
qed

end
