(* ===== verification/Framing.thy ===== *)
theory Framing
  imports Prelude
begin

text \<open>
  What the audio translators share: copying into a buffer, and the reference for coding a stream
  block by block, whatever the pieces it arrives in.
\<close>

section \<open>Buffers\<close>

text \<open>\<open>memcpy\<close> into a buffer at a byte offset.\<close>

definition blit :: "'a list \<Rightarrow> nat \<Rightarrow> 'a list \<Rightarrow> 'a list" where
  "blit buf off src = take off buf @ src @ drop (off + length src) buf"

lemma length_blit: "off + length src \<le> length buf \<Longrightarrow> length (blit buf off src) = length buf"
  by (simp add: blit_def)

lemma take_blit: "off \<le> length buf \<Longrightarrow> take (off + length src) (blit buf off src) = take off buf @ src"
  by (simp add: blit_def)

lemma drop_blit: "off + length src \<le> length buf \<Longrightarrow> drop (off + length src) (blit buf off src) = drop (off + length src) buf"
  by (simp add: blit_def)

lemma sub_blit: "off \<le> length buf \<Longrightarrow> take (length src) (drop off (blit buf off src)) = src"
  by (simp add: blit_def)

section \<open>Block coding\<close>

text \<open>The reference: a coder with a state, applied to successive blocks of \<open>n\<close> items; what does
  not fill a block is left.\<close>

function blocks :: "nat \<Rightarrow> ('s \<Rightarrow> 'a list \<Rightarrow> 's \<times> 'b list) \<Rightarrow> 's \<Rightarrow> 'a list \<Rightarrow> 's \<times> 'b list" where
  "blocks n code s xs =
     (if n = 0 \<or> length xs < n then (s, [])
      else let (s', ys) = code s (take n xs); (s'', zs) = blocks n code s' (drop n xs) in (s'', ys @ zs))"
  by pat_completeness auto

termination blocks
  by (relation "measure (\<lambda>(n, code, s, xs). length xs)") auto

declare blocks.simps [simp del]

definition left_over :: "nat \<Rightarrow> 'a list \<Rightarrow> 'a list" where
  "left_over n xs = drop (n * (length xs div n)) xs"

lemma blocks_short: "length xs < n \<Longrightarrow> blocks n code s xs = (s, [])"
  by (simp add: blocks.simps)

lemma blocks_step:
  "0 < n \<Longrightarrow> n \<le> length xs \<Longrightarrow> code s (take n xs) = (s', ys) \<Longrightarrow>
   blocks n code s xs = (fst (blocks n code s' (drop n xs)), ys @ snd (blocks n code s' (drop n xs)))"
  by (subst blocks.simps) (simp add: split_beta)

lemma left_over_step: "0 < n \<Longrightarrow> n \<le> length xs \<Longrightarrow> left_over n (drop n xs) = left_over n xs"
  by (simp add: left_over_def le_div_geq algebra_simps)

lemma left_over_short: "length xs < n \<Longrightarrow> left_over n xs = xs"
  by (simp add: left_over_def)

lemma length_left_over: "0 < n \<Longrightarrow> length (left_over n xs) = length xs mod n"
  by (simp add: left_over_def minus_mult_div_eq_mod)

text \<open>Coding can be interrupted anywhere, if the left-over is put in front of the next input.\<close>

lemma blocks_append:
  assumes "0 < n"
  shows "blocks n code s (xs @ ys) =
    (fst (blocks n code (fst (blocks n code s xs)) (left_over n xs @ ys)),
     snd (blocks n code s xs) @ snd (blocks n code (fst (blocks n code s xs)) (left_over n xs @ ys)))"
proof (induction "length xs" arbitrary: s xs rule: less_induct)
  case less
  show ?case
  proof (cases "length xs < n")
    case True
    then show ?thesis by (simp add: blocks_short left_over_short)
  next
    case False
    obtain s' zs where c: "code s (take n xs) = (s', zs)" by force
    then have c': "code s (take n (xs @ ys)) = (s', zs)" using False by simp
    have "length (drop n xs) < length xs" using assms False by simp
    from less.hyps[OF this, of s'] show ?thesis
      using assms False blocks_step[of n xs code s, OF _ _ c] blocks_step[of n "xs @ ys" code s, OF _ _ c'] left_over_step[of n xs] by simp
  qed
qed

end
