(* ===== verification/G729.thy ===== *)
theory G729
  imports Framing
begin

text \<open>
  The G.729 translator of Asterisk, \<open>src/src/codec_g729.c\<close>.  Audio buffers are kept as the
  bytes that \<open>memcpy\<close> moves: \<open>pcm_buf\<close> holds 8000 samples of two bytes, \<open>tail\<close> counts
  samples.  A read or write outside an array is the result \<open>None\<close>.  The codec library
  \<open>libg729ab.so\<close>, \<open>malloc\<close> and the cycle counter are parameters.  Log messages are
  not modelled; of the frame header the fields that describe the payload are.
\<close>

section \<open>Data\<close>

text \<open>The instance objects of \<open>g729ab_codec.h\<close>; function pointers are addresses.\<close>

record G729_EncObj =
  CoderBuffer :: "u16 list"
  Vad_enable :: u16
  extra :: u16
  output_format :: u32
  enc_ErrorHandler :: u32
  enc_errorcode :: u32

record G729_DecObj =
  DecoderBuffer :: "u16 list"
  Input_Format :: u16
  dec_ErrorHandler :: u32
  dec_errorcode :: u32

definition MODE_G729A :: u32 where "MODE_G729A = 0"
definition BIT_UNPACKED :: u32 where "BIT_UNPACKED = 1"

definition ENC_ERROR_HANDLER :: nat where "ENC_ERROR_HANDLER = 1"
definition G729_ENC_ERROR :: nat where "G729_ENC_ERROR = 2"
definition G729_ENC_VERSION :: nat where "G729_ENC_VERSION = 3"
definition G729_ENC_VAD :: nat where "G729_ENC_VAD = 4"
definition G729_ENC_OUTPUTFORMAT :: nat where "G729_ENC_OUTPUTFORMAT = 5"
definition DEC_ERROR_HANDLER :: nat where "DEC_ERROR_HANDLER = 1"
definition G729_DEC_ERROR :: nat where "G729_DEC_ERROR = 2"
definition G729_DEC_VERSION :: nat where "G729_DEC_VERSION = 3"
definition G729_DEC_INPUTFORMAT :: nat where "G729_DEC_INPUTFORMAT = 4"

definition G729AB_ENC_CONFIG :: "nat \<Rightarrow> u32 \<Rightarrow> G729_EncObj \<Rightarrow> G729_EncObj \<times> int" where
  "G729AB_ENC_CONFIG Enum value sv =
     (if Enum = G729_ENC_VAD then (sv\<lparr>Vad_enable := ucast value\<rparr>, 1)
      else if Enum = ENC_ERROR_HANDLER then (sv\<lparr>enc_ErrorHandler := value\<rparr>, 1)
      else if Enum = G729_ENC_OUTPUTFORMAT then (sv\<lparr>output_format := value\<rparr>, 1)
      else (sv, 0))"

definition G729AB_DEC_CONFIG :: "nat \<Rightarrow> u32 \<Rightarrow> G729_DecObj \<Rightarrow> G729_DecObj \<times> int" where
  "G729AB_DEC_CONFIG Enum value sv =
     (if Enum = G729_DEC_INPUTFORMAT then (sv\<lparr>Input_Format := ucast value\<rparr>, 1)
      else if Enum = DEC_ERROR_HANDLER then (sv\<lparr>dec_ErrorHandler := value\<rparr>, 1)
      else (sv, 0))"

definition G729AB_ENC_STATUS :: "nat \<Rightarrow> G729_EncObj \<Rightarrow> u32" where
  "G729AB_ENC_STATUS Enum sv =
     (if Enum = G729_ENC_ERROR then enc_errorcode sv else if Enum = G729_ENC_VERSION then 0x0140 else 0)"

definition G729AB_DEC_STATUS :: "nat \<Rightarrow> G729_DecObj \<Rightarrow> u32" where
  "G729AB_DEC_STATUS Enum sv =
     (if Enum = G729_DEC_ERROR then dec_errorcode sv else if Enum = G729_DEC_VERSION then 0x0140 else 0)"

text \<open>What \<open>libg729ab.so\<close> provides, and the cycle counter by the number of the reading.\<close>

record codec =
  enc_reset :: "G729_EncObj \<Rightarrow> G729_EncObj"
  g729ab_enc :: "G729_EncObj \<Rightarrow> u8 list \<Rightarrow> G729_EncObj \<times> u16 list"
  dec_reset :: "G729_DecObj \<Rightarrow> G729_DecObj"
  g729ab_dec :: "G729_DecObj \<Rightarrow> u16 list \<Rightarrow> G729_DecObj \<times> u8 list"
  cycles :: "nat \<Rightarrow> u32"

datatype fmt = AST_FORMAT_SLINEAR | AST_FORMAT_G729A

record ast_frame =
  f_subclass :: fmt
  datalen :: int
  f_samples :: int
  data :: "u8 list"

record pvt =
  inst_g729_enc_h :: "G729_EncObj option"
  inst_g729_dec_h :: "G729_DecObj option"
  pcm_buf :: "u8 list"
  bitstream_buf :: "u8 list"
  tail :: nat
  samples :: u32

text \<open>The static variables; \<open>tk\<close> counts the readings of the cycle counter.\<close>

record glob =
  localusecnt :: int
  total_enc_cycles :: u32
  total_dec_cycles :: u32
  enc_calls :: u32
  dec_calls :: u32
  start_enc_cycles :: u32
  start_dec_cycles :: u32
  tk :: nat

section \<open>Bit packing\<close>

definition unpack :: "u8 list \<Rightarrow> u16 list" where
  "unpack bitStream =
     map (\<lambda>i. let byte = i div 8; b = i mod 8
              in if drop_bit (7 - b) (bitStream ! byte) AND 1 \<noteq> 0 then 0x81 else 0x7f) [0..<80]"

definition pack_bit :: "u16 list \<Rightarrow> nat \<Rightarrow> u8 list \<Rightarrow> u8 list" where
  "pack_bit tmp_bits i bitStream =
     (let byte = i div 8; b = i mod 8
      in if tmp_bits ! (i + 2) = 0x81 then bitStream[byte := bitStream ! byte OR push_bit (7 - b) 1] else bitStream)"

definition pack :: "u16 list \<Rightarrow> u8 list" where
  "pack tmp_bits = fold (pack_bit tmp_bits) [0..<80] (replicate 10 0)"

section \<open>Construction and release\<close>

text \<open>\<open>mem\<close> is the address and contents that \<open>malloc\<close> returned.\<close>

definition lintog729_new :: "codec \<Rightarrow> (u32 \<times> G729_EncObj) option \<Rightarrow> pvt option \<Rightarrow> glob \<Rightarrow> pvt option \<times> glob \<times> int" where
  "lintog729_new K mem tmp g =
     (case tmp of
        None \<Rightarrow> (tmp, g, 0)
      | Some st \<Rightarrow>
          (case mem of
             None \<Rightarrow> (Some (st\<lparr>inst_g729_enc_h := None\<rparr>), g, 1)
           | Some (addr, e) \<Rightarrow>
               if addr mod 4 \<noteq> 0 then (Some (st\<lparr>inst_g729_enc_h := Some e\<rparr>), g, 1)
               else (Some (st\<lparr>inst_g729_enc_h := Some (fst (G729AB_ENC_CONFIG G729_ENC_VAD MODE_G729A (fst (G729AB_ENC_CONFIG G729_ENC_OUTPUTFORMAT BIT_UNPACKED (enc_reset K e))))), tail := 0\<rparr>),
                     g\<lparr>localusecnt := localusecnt g + 1\<rparr>, 0)))"

definition g729tolin_new :: "codec \<Rightarrow> (u32 \<times> G729_DecObj) option \<Rightarrow> pvt option \<Rightarrow> glob \<Rightarrow> pvt option \<times> glob \<times> int" where
  "g729tolin_new K mem tmp g =
     (case tmp of
        None \<Rightarrow> (tmp, g, 0)
      | Some st \<Rightarrow>
          (case mem of
             None \<Rightarrow> (Some (st\<lparr>inst_g729_dec_h := None\<rparr>), g, 1)
           | Some (addr, d) \<Rightarrow>
               if addr mod 4 \<noteq> 0 then (Some (st\<lparr>inst_g729_dec_h := Some d\<rparr>), g, 1)
               else (Some (st\<lparr>inst_g729_dec_h := Some (fst (G729AB_DEC_CONFIG G729_DEC_INPUTFORMAT BIT_UNPACKED (dec_reset K d))), tail := 0\<rparr>),
                     g\<lparr>localusecnt := localusecnt g + 1\<rparr>, 0)))"

text \<open>The handle stays in the structure, which Asterisk frees next.\<close>

definition lintog729_release :: "glob \<Rightarrow> glob" where
  "lintog729_release g = g\<lparr>localusecnt := localusecnt g - 1\<rparr>"

definition g729tolin_release :: "glob \<Rightarrow> glob" where
  "g729tolin_release g = g\<lparr>localusecnt := localusecnt g - 1\<rparr>"

section \<open>Load measurement\<close>

definition count_enc :: "codec \<Rightarrow> glob \<Rightarrow> glob" where
  "count_enc K g =
     (let cyc = cycles K; n = tk g; t = cyc n; tot = total_enc_cycles g + (cyc (n + 1) - t)
      in if 500 \<le> enc_calls g
         then g\<lparr>total_enc_cycles := 0, enc_calls := 0, start_enc_cycles := cyc (n + 3), tk := n + 4\<rparr>
         else g\<lparr>total_enc_cycles := tot, enc_calls := enc_calls g + 1, tk := n + 2\<rparr>)"

definition count_dec :: "codec \<Rightarrow> glob \<Rightarrow> glob" where
  "count_dec K g =
     (let cyc = cycles K; n = tk g; t = cyc n; tot = total_dec_cycles g + (cyc (n + 1) - t)
      in if dec_calls g = 500
         then g\<lparr>total_dec_cycles := 0, dec_calls := 0, start_dec_cycles := cyc (n + 3), tk := n + 4\<rparr>
         else g\<lparr>total_dec_cycles := tot, dec_calls := dec_calls g + 1, tk := n + 2\<rparr>)"

section \<open>Decoding\<close>

definition PCM_SHORTS :: nat where "PCM_SHORTS = 8000"
definition BITSTREAM_BYTES :: nat where "BITSTREAM_BYTES = 1000"

definition g729tolin_frameout :: "pvt \<Rightarrow> pvt \<times> ast_frame option" where
  "g729tolin_frameout st =
     (if tail st = 0 then (st, None)
      else (st\<lparr>tail := 0\<rparr>,
            Some \<lparr>f_subclass = AST_FORMAT_SLINEAR, datalen = int (tail st * 2), f_samples = int (tail st), data = pcm_buf st\<rparr>))"

text \<open>The loop of \<open>g729tolin_framein\<close>: the unpacking reads ten bytes whatever the frame size.\<close>

function dec_loop :: "codec \<Rightarrow> ast_frame \<Rightarrow> nat \<Rightarrow> pvt \<Rightarrow> glob \<Rightarrow> (pvt \<times> glob \<times> int) option" where
  "dec_loop K f x st g =
     (if datalen f \<le> int x then Some (st, g, 0)
      else let frameSize = (if datalen f - int x = 2 then 2 else 10)
           in if tail st + 80 < PCM_SHORTS
              then if length (data f) < x + 10 then None
                   else (case inst_g729_dec_h st of
                           None \<Rightarrow> None
                         | Some d \<Rightarrow>
                             let (d', pcm) = g729ab_dec K d (0x6b21 # 0x0050 # unpack (take 10 (drop x (data f))))
                             in dec_loop K f (x + frameSize)
                                  (st\<lparr>inst_g729_dec_h := Some d', pcm_buf := blit (pcm_buf st) (2 * tail st) (take 160 pcm),
                                      samples := samples st + 80, tail := tail st + 80\<rparr>)
                                  (count_dec K g))
              else Some (st, g, -1))"
  by pat_completeness auto

termination dec_loop
  by (relation "measure (\<lambda>(K, f, x, st, g). nat (datalen f - int x))") auto

declare dec_loop.simps [simp del]

definition g729tolin_framein :: "codec \<Rightarrow> ast_frame \<Rightarrow> pvt \<Rightarrow> glob \<Rightarrow> (pvt \<times> glob \<times> int) option" where
  "g729tolin_framein K f st g = dec_loop K f 0 st g"

section \<open>Encoding\<close>

text \<open>The bound is compared as \<open>size_t\<close>, the length converted to \<open>size_t\<close> for \<open>memcpy\<close>.\<close>

definition lintog729_framein :: "ast_frame \<Rightarrow> pvt \<Rightarrow> (pvt \<times> int) option" where
  "lintog729_framein f st =
     (let half = (if datalen f < 0 then - (- datalen f div 2) else datalen f div 2);
          len = unat (of_int (datalen f) :: u32)
      in if unat (of_int (int (tail st) + half) :: u32) < PCM_SHORTS
         then if length (data f) < len \<or> 2 * PCM_SHORTS < 2 * tail st + len then None
              else Some (st\<lparr>pcm_buf := blit (pcm_buf st) (2 * tail st) (take len (data f)),
                            tail := nat (int (tail st) + half), samples := samples st + of_int (f_samples f)\<rparr>, 0)
         else Some (st, -1))"

text \<open>The loop of \<open>lintog729_frameout\<close>: one frame of 80 samples per round.\<close>

function enc_loop :: "codec \<Rightarrow> nat \<Rightarrow> pvt \<Rightarrow> glob \<Rightarrow> (nat \<times> pvt \<times> glob) option" where
  "enc_loop K x st g =
     (if 80 \<le> tail st
      then if BITSTREAM_BYTES \<le> (x + 1) * 10 then Some (x, st, g)
           else (case inst_g729_enc_h st of
                   None \<Rightarrow> None
                 | Some e \<Rightarrow>
                     let (e', tmp_bits) = g729ab_enc K e (take 160 (pcm_buf st));
                         t = tail st - 80
                     in enc_loop K (x + 1)
                          (st\<lparr>inst_g729_enc_h := Some e', bitstream_buf := blit (bitstream_buf st) (x * 10) (pack tmp_bits),
                              pcm_buf := (if t \<noteq> 0 then blit (pcm_buf st) 0 (take (2 * t) (drop 160 (pcm_buf st))) else pcm_buf st),
                              tail := t\<rparr>)
                          (count_enc K g))
      else Some (x, st, g))"
  by pat_completeness auto

termination enc_loop
  by (relation "measure (\<lambda>(K, x, st, g). tail st)") auto

declare enc_loop.simps [simp del]

definition lintog729_frameout :: "codec \<Rightarrow> pvt \<Rightarrow> glob \<Rightarrow> (pvt \<times> glob \<times> ast_frame option) option" where
  "lintog729_frameout K st g =
     (if tail st < 80 then Some (st, g, None)
      else do {
        (x, st', g') \<leftarrow> enc_loop K 0 st g;
        Some (st', g', Some \<lparr>f_subclass = AST_FORMAT_G729A, datalen = int (x * 10), f_samples = int (x * 80), data = bitstream_buf st'\<rparr>)
      })"

section \<open>Loading\<close>

datatype translator = G729tolin | Lintog729

datatype tr_event = Register translator | Unregister translator

text \<open>\<open>dlsyms\<close> tells which of the four symbols resolve; \<open>reg\<close> and \<open>unreg\<close> are the results of Asterisk.\<close>

definition load_module :: "bool \<Rightarrow> bool list \<Rightarrow> (translator \<Rightarrow> int) \<Rightarrow> glob \<Rightarrow> glob \<times> tr_event list \<times> int" where
  "load_module dlopen_ok dlsyms reg g =
     (let g = g\<lparr>total_enc_cycles := 0, total_dec_cycles := 0, enc_calls := 0, dec_calls := 0\<rparr>
      in if \<not> dlopen_ok then (g, [], 1)
         else if \<not> list_all id dlsyms then (g, [], 1)
         else if reg G729tolin = 0 then (g, [Register G729tolin, Register Lintog729], reg Lintog729)
         else (g, [Register G729tolin, Unregister G729tolin], reg G729tolin))"

definition unload_module :: "(translator \<Rightarrow> int) \<Rightarrow> glob \<Rightarrow> tr_event list \<times> int" where
  "unload_module unreg g =
     (let res = unreg Lintog729;
          ev = Unregister Lintog729 # (if res = 0 then [Unregister G729tolin] else []);
          res = (if res = 0 then unreg G729tolin else res)
      in (ev, if localusecnt g \<noteq> 0 then -1 else res))"

section \<open>Bit packing is lossless\<close>

text \<open>Bit \<open>i\<close> of the frame is bit \<open>7 - i mod 8\<close> of byte \<open>i div 8\<close>.\<close>

lemma slot_of:
  assumes "k < (8 :: nat)"
  shows "(8 * b + (7 - k)) div 8 = b" "(8 * b + (7 - k)) mod 8 = 7 - k" "7 - (7 - k) = k"
proof -
  have "7 - k < 8" by simp
  then show "(8 * b + (7 - k)) div 8 = b" "(8 * b + (7 - k)) mod 8 = 7 - k" by simp_all
  show "7 - (7 - k) = k" using assms by simp
qed

lemma slot_iff: "k < (8 :: nat) \<Longrightarrow> b = n div 8 \<and> k = 7 - n mod 8 \<longleftrightarrow> 8 * b + (7 - k) = n"
proof
  assume "b = n div 8 \<and> k = 7 - n mod 8"
  moreover have "n mod 8 < 8" by simp
  ultimately show "8 * b + (7 - k) = n" using mult_div_mod_eq[of 8 n] by linarith
qed (use slot_of in auto)

lemma bit_unpack:
  "i < 80 \<Longrightarrow> unpack bs ! i = (if bit (bs ! (i div 8)) (7 - i mod 8) then 0x81 else 0x7f)"
  by (simp add: unpack_def Let_def and_one_eq bit_iff_odd_drop_bit odd_iff_mod_2_eq_one split: if_splits)

lemma length_unpack [simp]: "length (unpack bs) = 80"
  by (simp add: unpack_def)

lemma length_pack_bit [simp]: "length (pack_bit t i bs) = length bs"
  by (simp add: pack_bit_def Let_def)

lemma pack_fold:
  assumes "n \<le> 80"
  shows "length (fold (pack_bit t) [0..<n] (replicate 10 0)) = 10 \<and>
    (\<forall>b<10. \<forall>k<8. bit (fold (pack_bit t) [0..<n] (replicate 10 0) ! b) k \<longleftrightarrow> 8 * b + (7 - k) < n \<and> t ! (8 * b + (7 - k) + 2) = 0x81)"
  using assms
proof (induction n)
  case 0
  then show ?case by simp
next
  case (Suc n)
  define r where "r = fold (pack_bit t) [0..<n] (replicate 10 0)"
  have IH: "length r = 10" "\<And>b k. b < 10 \<Longrightarrow> k < 8 \<Longrightarrow> bit (r ! b) k \<longleftrightarrow> 8 * b + (7 - k) < n \<and> t ! (8 * b + (7 - k) + 2) = 0x81"
    using Suc unfolding r_def by auto
  have "bit (pack_bit t n r ! b) k \<longleftrightarrow> 8 * b + (7 - k) < Suc n \<and> t ! (8 * b + (7 - k) + 2) = 0x81" if "b < 10" "k < 8" for b k
  proof -
    have "b = n div 8 \<and> k = 7 - n mod 8 \<longleftrightarrow> 8 * b + (7 - k) = n" using that by (intro slot_iff)
    moreover have "bit (push_bit m 1 :: u8) k \<longleftrightarrow> k = m" if "m < 8" for m using that \<open>k < 8\<close> by (auto simp: bit_simps)
    ultimately show ?thesis using IH(1) IH(2)[OF that] that Suc.prems
      by (auto simp: pack_bit_def Let_def nth_list_update bit_or_iff less_Suc_eq)
  qed
  then show ?case using IH(1) by (simp add: r_def)
qed

lemma length_pack [simp]: "length (pack t) = 10"
  using pack_fold[of 80 t] by (simp add: pack_def)

lemma bit_pack: "b < 10 \<Longrightarrow> k < 8 \<Longrightarrow> bit (pack t ! b) k \<longleftrightarrow> t ! (8 * b + (7 - k) + 2) = 0x81"
  using pack_fold[of 80 t] by (auto simp: pack_def)

lemma pack_unpack:
  assumes "length bs = 10"
  shows "pack (h0 # h1 # unpack bs) = bs"
proof (rule nth_equalityI)
  fix b assume "b < length (pack (h0 # h1 # unpack bs))"
  then have b: "b < 10" by simp
  show "pack (h0 # h1 # unpack bs) ! b = bs ! b"
  proof (rule bit_word_eqI)
    fix k assume "k < LENGTH(8)"
    then have k: "k < 8" by simp
    have i: "8 * b + (7 - k) < 80" using b by linarith
    have "bit (pack (h0 # h1 # unpack bs) ! b) k \<longleftrightarrow> unpack bs ! (8 * b + (7 - k)) = 0x81"
      unfolding bit_pack[OF b k] by simp
    also have "\<dots> \<longleftrightarrow> bit (bs ! b) k" unfolding bit_unpack[OF i] slot_of[OF k] by simp
    finally show "bit (pack (h0 # h1 # unpack bs) ! b) k = bit (bs ! b) k" .
  qed
qed (simp add: assms)

lemma unpack_pack:
  assumes "length t = 82" and "set (drop 2 t) \<subseteq> {0x81, 0x7f}"
  shows "unpack (pack t) = drop 2 t"
proof (rule nth_equalityI)
  fix i assume "i < length (unpack (pack t))"
  then have i: "i < 80" by simp
  have k: "7 - i mod 8 < 8" and b: "i div 8 < 10" using i by simp_all
  have "8 * (i div 8) + (7 - (7 - i mod 8)) = i" using slot_iff[OF k, of "i div 8" i] by blast
  then have eq: "bit (pack t ! (i div 8)) (7 - i mod 8) \<longleftrightarrow> t ! (i + 2) = 0x81"
    using bit_pack[OF b k, of t] by (simp only:)
  have "i < length (drop 2 t)" using assms(1) i by simp
  then have "drop 2 t ! i \<in> {0x81, 0x7f}" using assms(2) nth_mem by blast
  then have v: "t ! (i + 2) \<in> {0x81, 0x7f}" using assms(1) i by (simp add: add.commute)
  have "drop 2 t ! i = t ! (i + 2)" using assms(1) i by (simp add: add.commute)
  then show "unpack (pack t) ! i = drop 2 t ! i" unfolding bit_unpack[OF i] eq using v by (cases "t ! (i + 2) = 0x81") simp_all
qed (simp add: assms)

section \<open>Buffers\<close>

definition pvt_ok :: "pvt \<Rightarrow> bool" where
  "pvt_ok st \<longleftrightarrow> length (pcm_buf st) = 2 * PCM_SHORTS \<and> length (bitstream_buf st) = BITSTREAM_BYTES \<and> tail st < PCM_SHORTS"

definition pending :: "pvt \<Rightarrow> u8 list" where
  "pending st = take (2 * tail st) (pcm_buf st)"

lemma length_pending: "pvt_ok st \<Longrightarrow> length (pending st) = 2 * tail st"
  by (simp add: pvt_ok_def pending_def)

definition enc_block :: "codec \<Rightarrow> G729_EncObj \<Rightarrow> u8 list \<Rightarrow> G729_EncObj \<times> u8 list" where
  "enc_block K e pcm = (let (e', bits) = g729ab_enc K e pcm in (e', pack bits))"

definition dec_block :: "codec \<Rightarrow> G729_DecObj \<Rightarrow> u8 list \<Rightarrow> G729_DecObj \<times> u8 list" where
  "dec_block K d bs = (let (d', pcm) = g729ab_dec K d (0x6b21 # 0x0050 # unpack bs) in (d', take 160 pcm))"

lemma memmove_pending:
  assumes "length buf = 16000" "80 \<le> t" "t < 8000"
  shows "take (2 * (t - 80)) (if t - 80 \<noteq> 0 then blit buf 0 (take (2 * (t - 80)) (drop 160 buf)) else buf) = drop 160 (take (2 * t) buf)"
proof -
  have "2 * t - 160 = 2 * (t - 80)" by simp
  then show ?thesis using assms by (auto simp: blit_def drop_take)
qed

lemma enc_loop_refines:
  assumes "pvt_ok st" and "inst_g729_enc_h st = Some e" and "x + tail st div 80 \<le> 99"
  shows "\<exists>st' g'. enc_loop K x st g = Some (x + tail st div 80, st', g') \<and> pvt_ok st' \<and> tail st' = tail st mod 80 \<and>
    pending st' = left_over 160 (pending st) \<and> inst_g729_enc_h st' = Some (fst (blocks 160 (enc_block K) e (pending st))) \<and>
    inst_g729_dec_h st' = inst_g729_dec_h st \<and> samples st' = samples st \<and>
    take (10 * (x + tail st div 80)) (bitstream_buf st') = take (10 * x) (bitstream_buf st) @ snd (blocks 160 (enc_block K) e (pending st))"
  using assms
proof (induction "tail st" arbitrary: st e x g rule: less_induct)
  case less
  note len = length_pending[OF less.prems(1)]
  show ?case
  proof (cases "tail st < 80")
    case True
    then show ?thesis using less.prems len by (subst enc_loop.simps) (simp add: blocks_short left_over_short)
  next
    case False
    obtain e' bits where b: "g729ab_enc K e (take 160 (pcm_buf st)) = (e', bits)" by force
    define st1 where "st1 = st\<lparr>inst_g729_enc_h := Some e', bitstream_buf := blit (bitstream_buf st) (x * 10) (pack bits),
      pcm_buf := (if tail st - 80 \<noteq> 0 then blit (pcm_buf st) 0 (take (2 * (tail st - 80)) (drop 160 (pcm_buf st))) else pcm_buf st),
      tail := tail st - 80\<rparr>"
    have d: "tail st div 80 = Suc ((tail st - 80) div 80)" "tail st mod 80 = (tail st - 80) mod 80"
      using False by (simp_all add: le_div_geq le_mod_geq)
    have x: "(x + 1) * 10 < BITSTREAM_BYTES" "x * 10 + 10 \<le> 1000" using less.prems(3) d by (simp_all add: BITSTREAM_BYTES_def)
    have run: "enc_loop K x st g = enc_loop K (x + 1) st1 (count_enc K g)"
      using False x less.prems(2) b by (subst enc_loop.simps) (simp add: st1_def Let_def)
    have ok: "length (pcm_buf st) = 16000" "length (bitstream_buf st) = 1000" "tail st < 8000"
      using less.prems(1) by (simp_all add: pvt_ok_def PCM_SHORTS_def BITSTREAM_BYTES_def)
    have ok1: "pvt_ok st1" using ok x
      by (auto simp: st1_def pvt_ok_def PCM_SHORTS_def BITSTREAM_BYTES_def length_blit)
    have p: "pending st1 = drop 160 (pending st)"
      using memmove_pending[OF ok(1) _ ok(3)] False by (simp add: st1_def pending_def)
    have t160: "take 160 (pending st) = take 160 (pcm_buf st)" using False by (simp add: pending_def min_def)
    have "enc_block K e (take 160 (pending st)) = (e', pack bits)" unfolding t160 by (simp add: enc_block_def b)
    from blocks_step[of 160 "pending st" "enc_block K" e, OF _ _ this] have bl: "blocks 160 (enc_block K) e (pending st) =
        (fst (blocks 160 (enc_block K) e' (pending st1)), pack bits @ snd (blocks 160 (enc_block K) e' (pending st1)))"
      using len False unfolding p by simp
    have lo: "left_over 160 (pending st1) = left_over 160 (pending st)" using len False unfolding p by (intro left_over_step) auto
    have bs: "take (10 * (x + 1)) (bitstream_buf st1) = take (10 * x) (bitstream_buf st) @ pack bits"
      using take_blit[of "x * 10" "bitstream_buf st" "pack bits"] ok(2) x(2) by (simp add: st1_def mult.commute add.commute)
    have "tail st1 < tail st" "x + 1 + tail st1 div 80 \<le> 99" "inst_g729_enc_h st1 = Some e'"
      using False less.prems(3) d by (simp_all add: st1_def)
    from less.hyps[OF this(1) ok1 this(3,2), of "count_enc K g"] show ?thesis
      unfolding run bl lo bs using d by (simp add: st1_def)
  qed
qed

text \<open>The library writes the 80 samples of a frame.\<close>

definition codec_ok :: "codec \<Rightarrow> bool" where
  "codec_ok K \<longleftrightarrow> (\<forall>d bits. length (snd (g729ab_dec K d bits)) = 160)"

text \<open>Frames that fit: one is decoded while 80 samples of room are left and one to spare.\<close>

definition room :: "pvt \<Rightarrow> nat" where
  "room st = (7999 - tail st) div 80"

lemma dec_loop_refines:
  assumes "codec_ok K" and "pvt_ok st" and "inst_g729_dec_h st = Some d" and "datalen f = int (length (data f))"
    and "length (drop x (data f)) = 10 * n" and "x \<le> length (data f)" and "xs = take (10 * min n (room st)) (drop x (data f))"
  shows "\<exists>st' g'. dec_loop K f x st g = Some (st', g', if n \<le> room st then 0 else -1) \<and> pvt_ok st' \<and>
    tail st' = tail st + 80 * min n (room st) \<and> pending st' = pending st @ snd (blocks 10 (dec_block K) d xs) \<and>
    inst_g729_dec_h st' = Some (fst (blocks 10 (dec_block K) d xs)) \<and> inst_g729_enc_h st' = inst_g729_enc_h st \<and>
    samples st' = samples st + of_nat (80 * min n (room st))"
  using assms
proof (induction n arbitrary: st d x g xs)
  case 0
  then have "x = length (data f)" by simp
  then show ?case using 0 by (subst dec_loop.simps) (simp add: blocks_short)
next
  case (Suc n)
  have len: "length (data f) = x + 10 * Suc n" using Suc.prems(5,6) by simp
  have ok: "length (pcm_buf st) = 16000" "length (bitstream_buf st) = 1000" "tail st < 8000"
    using Suc.prems(2) by (simp_all add: pvt_ok_def PCM_SHORTS_def BITSTREAM_BYTES_def)
  show ?case
  proof (cases "tail st + 80 < PCM_SHORTS")
    case False
    then have "room st = 0" by (simp add: room_def PCM_SHORTS_def)
    then show ?thesis using False Suc.prems len by (subst dec_loop.simps) (simp add: blocks_short)
  next
    case True
    then have t: "tail st + 80 < 8000" by (simp add: PCM_SHORTS_def)
    let ?in = "take 10 (drop x (data f))"
    obtain d' pcm where c: "g729ab_dec K d (0x6b21 # 0x0050 # unpack ?in) = (d', pcm)" by force
    have pcm: "length pcm = 160" using Suc.prems(1) c by (metis codec_ok_def snd_conv)
    define st1 where "st1 = st\<lparr>inst_g729_dec_h := Some d', pcm_buf := blit (pcm_buf st) (2 * tail st) (take 160 pcm),
      samples := samples st + 80, tail := tail st + 80\<rparr>"
    have run: "dec_loop K f x st g = dec_loop K f (x + 10) st1 (count_dec K g)"
      using True Suc.prems(3,4) len c by (subst dec_loop.simps) (simp add: st1_def Let_def)
    have r: "room st = Suc (room st1)" using t by (simp add: room_def st1_def le_div_geq)
    have p: "pending st1 = pending st @ take 160 pcm"
      using take_blit[of "2 * tail st" "pcm_buf st" "take 160 pcm"] ok t pcm by (simp add: st1_def pending_def add.commute)
    have "dec_block K d ?in = (d', take 160 pcm)" by (simp add: dec_block_def c)
    moreover have "take 10 xs = ?in" "drop 10 xs = take (10 * min n (room st1)) (drop (x + 10) (data f))" "10 \<le> length xs"
      using Suc.prems(7) len r by (simp_all add: drop_take min_def add.commute)
    ultimately have bl: "blocks 10 (dec_block K) d xs = (fst (blocks 10 (dec_block K) d' (drop 10 xs)), take 160 pcm @ snd (blocks 10 (dec_block K) d' (drop 10 xs)))"
      by (intro blocks_step) simp_all
    have ok1: "pvt_ok st1" using ok t pcm by (simp add: st1_def pvt_ok_def PCM_SHORTS_def BITSTREAM_BYTES_def length_blit)
    have x1: "length (drop (x + 10) (data f)) = 10 * n" "x + 10 \<le> length (data f)" "inst_g729_dec_h st1 = Some d'"
      using len by (simp_all add: st1_def)
    from Suc.IH[OF Suc.prems(1) ok1 x1(3) Suc.prems(4) x1(1,2) refl, of "count_dec K g"] show ?thesis
      unfolding run bl \<open>drop 10 xs = _\<close> r using p by (simp add: st1_def algebra_simps)
  qed
qed

lemma lintog729_framein_cases:
  assumes "pvt_ok st" and "datalen f = int (length (data f))" and "length (data f) < 2 ^ 31"
  shows "lintog729_framein f st =
    (if tail st + length (data f) div 2 < 8000
     then Some (st\<lparr>pcm_buf := blit (pcm_buf st) (2 * tail st) (data f), tail := tail st + length (data f) div 2,
                   samples := samples st + of_int (f_samples f)\<rparr>, 0)
     else Some (st, -1))"
proof -
  have len: "unat (of_int (datalen f) :: u32) = length (data f)"
    using assms(2,3) by (simp add: unat_of_nat take_bit_nat_eq_self)
  have t: "tail st < 8000" using assms(1) by (simp add: pvt_ok_def PCM_SHORTS_def)
  have s: "unat (of_int (int (tail st) + datalen f div 2) :: u32) = tail st + length (data f) div 2"
  proof -
    have "int (tail st) + datalen f div 2 = int (tail st + length (data f) div 2)" using assms(2) by simp
    moreover have "tail st + length (data f) div 2 < 2 ^ 32" using t assms(3) by simp
    ultimately show ?thesis by (simp only: of_int_of_nat_eq unat_of_nat) (simp add: take_bit_nat_eq_self)
  qed
  have n: "nat (int (tail st) + datalen f div 2) = tail st + length (data f) div 2" using assms(2) by simp
  have "\<not> datalen f < 0" using assms(2) by simp
  then show ?thesis unfolding lintog729_framein_def Let_def using len s n by (auto simp: PCM_SHORTS_def)
qed

section \<open>Translators as an interface\<close>

text \<open>
  What Asterisk relies on: feeding a chunk and fetching what is ready neither fails nor
  changes the output that is owed for the rest of the stream.
\<close>

locale translator =
  fixes feed :: "'st \<Rightarrow> 'a list \<Rightarrow> ('st \<times> 'b list) option"
    and ok :: "'st \<Rightarrow> bool"
    and fits :: "'a list \<Rightarrow> bool"
    and owed :: "'st \<Rightarrow> 'a list \<Rightarrow> 'b list"
  assumes feed_ok: "ok st \<Longrightarrow> fits c \<Longrightarrow> \<exists>st' out. feed st c = Some (st', out) \<and> ok st' \<and> (\<forall>rest. owed st (c @ rest) = out @ owed st' rest)"

fun feed_all :: "('st \<Rightarrow> 'a list \<Rightarrow> ('st \<times> 'b list) option) \<Rightarrow> 'st \<Rightarrow> 'a list list \<Rightarrow> ('st \<times> 'b list) option" where
  "feed_all feed st [] = Some (st, [])"
| "feed_all feed st (c # cs) = do { (st', out) \<leftarrow> feed st c; (st'', out') \<leftarrow> feed_all feed st' cs; Some (st'', out @ out') }"

context translator begin

lemma feed_all_owed:
  "ok st \<Longrightarrow> list_all fits cs \<Longrightarrow>
   \<exists>st' out. feed_all feed st cs = Some (st', out) \<and> ok st' \<and> (\<forall>rest. owed st (concat cs @ rest) = out @ owed st' rest)"
proof (induction cs arbitrary: st)
  case (Cons c cs)
  then obtain st1 o1 where "feed st c = Some (st1, o1)" "ok st1" "\<forall>rest. owed st (c @ rest) = o1 @ owed st1 rest"
    using feed_ok[of st c] by auto
  moreover from Cons.IH[OF this(2)] Cons.prems(2) obtain st2 o2 where
    "feed_all feed st1 cs = Some (st2, o2)" "ok st2" "\<forall>rest. owed st1 (concat cs @ rest) = o2 @ owed st2 rest" by auto
  ultimately show ?case by simp
qed simp

end

definition frame_bytes :: "ast_frame option \<Rightarrow> u8 list" where
  "frame_bytes fr = (case fr of None \<Rightarrow> [] | Some f \<Rightarrow> take (nat (datalen f)) (data f))"

definition feed_enc :: "codec \<Rightarrow> pvt \<times> glob \<Rightarrow> u8 list \<Rightarrow> ((pvt \<times> glob) \<times> u8 list) option" where
  "feed_enc K s c = do {
     (st, r) \<leftarrow> lintog729_framein \<lparr>f_subclass = AST_FORMAT_SLINEAR, datalen = int (length c), f_samples = int (length c div 2), data = c\<rparr> (fst s);
     (st, g, fr) \<leftarrow> lintog729_frameout K st (snd s);
     Some ((st, g), frame_bytes fr)
   }"

definition feed_dec :: "codec \<Rightarrow> pvt \<times> glob \<Rightarrow> u8 list \<Rightarrow> ((pvt \<times> glob) \<times> u8 list) option" where
  "feed_dec K s c = do {
     (st, g, r) \<leftarrow> g729tolin_framein K \<lparr>f_subclass = AST_FORMAT_G729A, datalen = int (length c), f_samples = int (8 * length c), data = c\<rparr> (fst s) (snd s);
     (let (st, fr) = g729tolin_frameout st in Some ((st, g), frame_bytes fr))
   }"

definition enc_ready :: "pvt \<times> glob \<Rightarrow> bool" where
  "enc_ready s \<longleftrightarrow> pvt_ok (fst s) \<and> tail (fst s) < 80 \<and> inst_g729_enc_h (fst s) \<noteq> None"

definition dec_ready :: "pvt \<times> glob \<Rightarrow> bool" where
  "dec_ready s \<longleftrightarrow> pvt_ok (fst s) \<and> tail (fst s) = 0 \<and> inst_g729_dec_h (fst s) \<noteq> None"

definition enc_fits :: "u8 list \<Rightarrow> bool" where
  "enc_fits c \<longleftrightarrow> even (length c) \<and> length c div 2 \<le> 7920"

definition dec_fits :: "u8 list \<Rightarrow> bool" where
  "dec_fits c \<longleftrightarrow> 10 dvd length c \<and> length c \<le> 990"

lemma frameout_refines:
  assumes "pvt_ok st" and "inst_g729_enc_h st = Some e"
  shows "\<exists>st' g' fr. lintog729_frameout K st g = Some (st', g', fr) \<and> pvt_ok st' \<and> tail st' = tail st mod 80 \<and>
    pending st' = left_over 160 (pending st) \<and> inst_g729_enc_h st' = Some (fst (blocks 160 (enc_block K) e (pending st))) \<and>
    inst_g729_dec_h st' = inst_g729_dec_h st \<and> frame_bytes fr = snd (blocks 160 (enc_block K) e (pending st))"
proof (cases "tail st < 80")
  case True
  then show ?thesis using assms length_pending[OF assms(1)]
    by (simp add: lintog729_frameout_def blocks_short left_over_short frame_bytes_def)
next
  case False
  have "tail st < 8000" using assms(1) by (simp add: pvt_ok_def PCM_SHORTS_def)
  then have "0 + tail st div 80 \<le> 99" by simp
  from enc_loop_refines[OF assms this, of K g] obtain st' g' where
    "enc_loop K 0 st g = Some (tail st div 80, st', g')" and r: "pvt_ok st' \<and> tail st' = tail st mod 80 \<and>
    pending st' = left_over 160 (pending st) \<and> inst_g729_enc_h st' = Some (fst (blocks 160 (enc_block K) e (pending st))) \<and>
    inst_g729_dec_h st' = inst_g729_dec_h st" "take (10 * (tail st div 80)) (bitstream_buf st') = snd (blocks 160 (enc_block K) e (pending st))"
    by auto
  then have "lintog729_frameout K st g = Some (st', g', Some \<lparr>f_subclass = AST_FORMAT_G729A, datalen = int (tail st div 80 * 10),
      f_samples = int (tail st div 80 * 80), data = bitstream_buf st'\<rparr>)"
    using False by (simp add: lintog729_frameout_def)
  then show ?thesis using r by (simp add: frame_bytes_def nat_mult_distrib mult.commute)
qed

definition enc_owed :: "codec \<Rightarrow> pvt \<times> glob \<Rightarrow> u8 list \<Rightarrow> u8 list" where
  "enc_owed K s inp = snd (blocks 160 (enc_block K) (the (inst_g729_enc_h (fst s))) (pending (fst s) @ inp))"

definition dec_owed :: "codec \<Rightarrow> pvt \<times> glob \<Rightarrow> u8 list \<Rightarrow> u8 list" where
  "dec_owed K s inp = snd (blocks 10 (dec_block K) (the (inst_g729_dec_h (fst s))) inp)"

lemma feed_enc_law:
  assumes "enc_ready s" and "enc_fits c"
  shows "\<exists>s' out. feed_enc K s c = Some (s', out) \<and> enc_ready s' \<and> (\<forall>rest. enc_owed K s (c @ rest) = out @ enc_owed K s' rest)"
proof -
  obtain st g e where s: "s = (st, g)" "pvt_ok st" "tail st < 80" "inst_g729_enc_h st = Some e"
    using assms(1) by (cases s) (auto simp: enc_ready_def)
  have c: "length c < 2 ^ 31" "tail st + length c div 2 < 8000" "2 * (length c div 2) = length c"
    using assms(2) s(3) by (auto simp: enc_fits_def)
  define st1 where "st1 = st\<lparr>pcm_buf := blit (pcm_buf st) (2 * tail st) c, tail := tail st + length c div 2,
      samples := samples st + of_int (int (length c div 2))\<rparr>"
  have inn: "lintog729_framein \<lparr>f_subclass = AST_FORMAT_SLINEAR, datalen = int (length c), f_samples = int (length c div 2), data = c\<rparr> st = Some (st1, 0)"
    using c by (subst lintog729_framein_cases) (simp_all add: s(2) st1_def)
  have len: "length (pcm_buf st) = 16000" using s(2) by (simp add: pvt_ok_def PCM_SHORTS_def)
  have ok1: "pvt_ok st1" "inst_g729_enc_h st1 = Some e" using s(2,4) c
    by (simp_all add: st1_def pvt_ok_def PCM_SHORTS_def length_blit)
  have p1: "pending st1 = pending st @ c"
    using take_blit[of "2 * tail st" "pcm_buf st" c] len c(3) s(3) by (simp add: st1_def pending_def)
  from frameout_refines[OF ok1, of K g] obtain st' g' fr where o: "lintog729_frameout K st1 g = Some (st', g', fr)" "pvt_ok st'"
    "tail st' < 80" "pending st' = left_over 160 (pending st @ c)" "inst_g729_enc_h st' = Some (fst (blocks 160 (enc_block K) e (pending st @ c)))"
    "frame_bytes fr = snd (blocks 160 (enc_block K) e (pending st @ c))"
    unfolding p1 by (auto simp: mod_less_divisor)
  have "feed_enc K s c = Some ((st', g'), frame_bytes fr)" using inn o(1) by (simp add: feed_enc_def s(1))
  moreover have "enc_owed K s (c @ rest) = frame_bytes fr @ enc_owed K (st', g') rest" for rest
    using blocks_append[of 160 "enc_block K" e "pending st @ c" rest] o(4-6) by (simp add: enc_owed_def s(1,4))
  ultimately show ?thesis using o(2,3,5) by (auto simp: enc_ready_def)
qed

interpretation enc: translator "feed_enc K" enc_ready enc_fits "enc_owed K" for K
  by unfold_locales (rule feed_enc_law)

lemma feed_dec_law:
  assumes "codec_ok K" and "dec_ready s" and "dec_fits c"
  shows "\<exists>s' out. feed_dec K s c = Some (s', out) \<and> dec_ready s' \<and> (\<forall>rest. dec_owed K s (c @ rest) = out @ dec_owed K s' rest)"
proof -
  obtain st g d where s: "s = (st, g)" "pvt_ok st" "tail st = 0" "inst_g729_dec_h st = Some d"
    using assms(2) by (cases s) (auto simp: dec_ready_def)
  obtain n where n: "length c = 10 * n" "n \<le> 99" using assms(3) by (auto simp: dec_fits_def)
  let ?f = "\<lparr>f_subclass = AST_FORMAT_G729A, datalen = int (length c), f_samples = int (8 * length c), data = c\<rparr>"
  have r: "min n (room st) = n" "n \<le> room st" "take (10 * n) c = c" using n s(3) by (simp_all add: room_def)
  from dec_loop_refines[OF assms(1) s(2,4), of ?f 0 n c g] obtain st1 g1 where
    l: "dec_loop K ?f 0 st g = Some (st1, g1, 0)" "pvt_ok st1" "tail st1 = 80 * n" "pending st1 = snd (blocks 10 (dec_block K) d c)"
      "inst_g729_dec_h st1 = Some (fst (blocks 10 (dec_block K) d c))"
    using n r s(3) by (auto simp: pending_def)
  obtain st2 fr where o: "g729tolin_frameout st1 = (st2, fr)" by force
  have "pvt_ok st2" "tail st2 = 0" "inst_g729_dec_h st2 = inst_g729_dec_h st1" "frame_bytes fr = pending st1"
    using o l(2,3) by (auto simp: g729tolin_frameout_def pvt_ok_def frame_bytes_def pending_def PCM_SHORTS_def nat_mult_distrib mult.commute split: if_splits)
  moreover have "feed_dec K s c = Some ((st2, g1), frame_bytes fr)"
    using l(1) o by (simp add: feed_dec_def g729tolin_framein_def s(1))
  moreover have "left_over 10 c = []" using n by (simp add: left_over_def)
  ultimately show ?thesis using l(4,5) blocks_append[of 10 "dec_block K" d c]
    by (auto simp: dec_ready_def dec_owed_def s(1,4))
qed

lemma dec_translator: "codec_ok K \<Longrightarrow> translator (feed_dec K) dec_ready dec_fits (dec_owed K)"
  by unfold_locales (rule feed_dec_law)

text \<open>The two streams, through the interface.\<close>

text \<open>
  The encoder is independent of how the audio is cut into frames: feeding any sequence of
  chunks of whole samples (each at most 7920) and fetching after each always succeeds, and the bytes
  that come out are the packed codings, one after the other, of the consecutive blocks of 80
  samples of the whole stream; less than a block stays in the buffer.
\<close>

lemma encoder_run:
  assumes "pvt_ok st" and "tail st = 0" and "inst_g729_enc_h st = Some e"
    and "\<forall>c\<in>set cs. even (length c) \<and> length c \<le> 15840"
  shows "\<exists>st' g'. feed_all (feed_enc K) (st, g) cs = Some ((st', g'), snd (blocks 160 (enc_block K) e (concat cs))) \<and>
    pvt_ok st' \<and> tail st' < 80"
proof -
  have r: "enc_ready (st, g)" using assms(1-3) by (simp add: enc_ready_def)
  have f: "list_all enc_fits cs" using assms(4) by (auto simp: list_all_iff enc_fits_def)
  obtain st' g' out where o: "feed_all (feed_enc K) (st, g) cs = Some ((st', g'), out)" "enc_ready (st', g')"
    "enc_owed K (st, g) (concat cs) = out @ enc_owed K (st', g') []"
    using enc.feed_all_owed[OF r f, of K] by (metis append_Nil2 surj_pair)
  have "enc_owed K (st', g') [] = []"
    using o(2) by (simp add: enc_owed_def enc_ready_def blocks_short length_pending)
  moreover have "enc_owed K (st, g) (concat cs) = snd (blocks 160 (enc_block K) e (concat cs))"
    using assms(2,3) by (simp add: enc_owed_def pending_def)
  ultimately show ?thesis using o by (auto simp: enc_ready_def)
qed

lemma decoder_run:
  assumes "codec_ok K" and "pvt_ok st" and "tail st = 0" and "inst_g729_dec_h st = Some d"
    and "\<forall>c\<in>set cs. 10 dvd length c \<and> length c \<le> 990"
  shows "\<exists>st' g'. feed_all (feed_dec K) (st, g) cs = Some ((st', g'), snd (blocks 10 (dec_block K) d (concat cs))) \<and>
    pvt_ok st' \<and> tail st' = 0"
proof -
  have r: "dec_ready (st, g)" using assms(2-4) by (simp add: dec_ready_def)
  have f: "list_all dec_fits cs" using assms(5) by (auto simp: list_all_iff dec_fits_def)
  obtain st' g' out where o: "feed_all (feed_dec K) (st, g) cs = Some ((st', g'), out)" "dec_ready (st', g')"
    "dec_owed K (st, g) (concat cs) = out @ dec_owed K (st', g') []"
    using translator.feed_all_owed[OF dec_translator[OF assms(1)] r f] by (metis append_Nil2 surj_pair)
  have "dec_owed K (st', g') [] = []" by (simp add: dec_owed_def blocks_short)
  moreover have "dec_owed K (st, g) (concat cs) = snd (blocks 10 (dec_block K) d (concat cs))"
    using assms(4) by (simp add: dec_owed_def)
  ultimately show ?thesis using o by (auto simp: dec_ready_def)
qed

section \<open>From microphone to loudspeaker\<close>

text \<open>The library's encoder connected to its decoder, without packing.\<close>

definition direct :: "codec \<Rightarrow> G729_EncObj \<times> G729_DecObj \<Rightarrow> u8 list \<Rightarrow> (G729_EncObj \<times> G729_DecObj) \<times> u8 list" where
  "direct K s pcm =
     (let (e', bits) = g729ab_enc K (fst s) pcm; (d', out) = g729ab_dec K (snd s) bits in ((e', d'), take 160 out))"

text \<open>Configured for unpacked output, the library's encoder stays so and writes a header word, the
  number of bits and 80 soft bits.\<close>

definition enc_soft :: "codec \<Rightarrow> bool" where
  "enc_soft K \<longleftrightarrow> (\<forall>e pcm. output_format e = BIT_UNPACKED \<longrightarrow>
     output_format (fst (g729ab_enc K e pcm)) = BIT_UNPACKED \<and> length (snd (g729ab_enc K e pcm)) = 82 \<and>
     take 2 (snd (g729ab_enc K e pcm)) = [0x6b21, 0x0050] \<and> set (drop 2 (snd (g729ab_enc K e pcm))) \<subseteq> {0x81, 0x7f})"

lemma soft_transport:
  assumes "enc_soft K" and "output_format e = BIT_UNPACKED"
  shows "0x6b21 # 0x0050 # unpack (pack (snd (g729ab_enc K e pcm))) = snd (g729ab_enc K e pcm)"
proof -
  let ?b = "snd (g729ab_enc K e pcm)"
  have "unpack (pack ?b) = drop 2 ?b" "take 2 ?b = [0x6b21, 0x0050]"
    using assms unpack_pack[of ?b] by (simp_all add: enc_soft_def)
  then show ?thesis using append_take_drop_id[of 2 ?b] by simp
qed

lemma direct_block:
  assumes "enc_soft K" and "output_format e = BIT_UNPACKED" and "enc_block K e pcm = (e', bs)" and "dec_block K d bs = (d', out)"
  shows "direct K (e, d) pcm = ((e', d'), out)"
  using assms(3,4) soft_transport[OF assms(1,2), of pcm] by (auto simp: direct_def enc_block_def dec_block_def split: prod.splits)

lemma blocks_direct:
  assumes "enc_soft K"
  shows "output_format e = BIT_UNPACKED \<Longrightarrow>
    snd (blocks 10 (dec_block K) d (snd (blocks 160 (enc_block K) e pcm))) = snd (blocks 160 (direct K) (e, d) pcm)"
proof (induction "length pcm" arbitrary: pcm e d rule: less_induct)
  case less
  show ?case
  proof (cases "length pcm < 160")
    case True
    then show ?thesis by (simp add: blocks_short)
  next
    case False
    obtain e' bs where b: "enc_block K e (take 160 pcm) = (e', bs)" by force
    obtain d' out where c: "dec_block K d bs = (d', out)" by force
    have e': "output_format e' = BIT_UNPACKED"
      using assms b less.prems by (auto simp: enc_soft_def enc_block_def split: prod.splits) (metis fst_conv)
    have l: "length bs = 10" using b by (auto simp: enc_block_def split: prod.splits)
    have "dec_block K d (take 10 (bs @ zs)) = (d', out)" for zs using c l by simp
    from blocks_step[of 10 _ "dec_block K" d, OF _ _ this] have "snd (blocks 10 (dec_block K) d (bs @ zs)) = out @ snd (blocks 10 (dec_block K) d' zs)" for zs
      using l by simp
    then show ?thesis
      using less.hyps[of "drop 160 pcm" e' d'] e' False blocks_step[of 160 pcm "enc_block K" e, OF _ _ b]
        blocks_step[of 160 pcm "direct K" "(e, d)", OF _ _ direct_block[OF assms less.prems b c]] by simp
  qed
qed

text \<open>The constructors leave objects that fulfil the premises, whatever the memory held.\<close>

lemma new_ready:
  assumes "lintog729_new K (Some (addr, m)) (Some st) g = (st', g', 0)" and "g729tolin_new K (Some (addr2, n)) st' g' = (st'', g'', 0)"
  shows "\<exists>s e d. st'' = Some s \<and> tail s = 0 \<and> inst_g729_enc_h s = Some e \<and> inst_g729_dec_h s = Some d \<and>
    output_format e = BIT_UNPACKED \<and> Vad_enable e = 0 \<and> Input_Format d = 1 \<and> localusecnt g'' = localusecnt g + 2"
  using assms
  by (auto simp: lintog729_new_def g729tolin_new_def G729AB_ENC_CONFIG_def G729AB_DEC_CONFIG_def G729_ENC_VAD_def G729_ENC_OUTPUTFORMAT_def
      G729_DEC_INPUTFORMAT_def ENC_ERROR_HANDLER_def MODE_G729A_def BIT_UNPACKED_def split: if_splits)

section \<open>Any sequence of calls\<close>

datatype call = Lin_in ast_frame | Lin_out | G729_in ast_frame | G729_out

definition do_call :: "codec \<Rightarrow> call \<Rightarrow> pvt \<times> glob \<Rightarrow> (pvt \<times> glob) option" where
  "do_call K c s =
     (case c of
        Lin_in f \<Rightarrow> do { (st, r) \<leftarrow> lintog729_framein f (fst s); Some (st, snd s) }
      | Lin_out \<Rightarrow> do { (st, g, fr) \<leftarrow> lintog729_frameout K (fst s) (snd s); Some (st, g) }
      | G729_in f \<Rightarrow> do { (st, g, r) \<leftarrow> g729tolin_framein K f (fst s) (snd s); Some (st, g) }
      | G729_out \<Rightarrow> Some (fst (g729tolin_frameout (fst s)), snd s))"

fun do_calls :: "codec \<Rightarrow> call list \<Rightarrow> pvt \<times> glob \<Rightarrow> (pvt \<times> glob) option" where
  "do_calls K [] s = Some s"
| "do_calls K (c # cs) s = do { s' \<leftarrow> do_call K c s; do_calls K cs s' }"

definition good_call :: "call \<Rightarrow> bool" where
  "good_call c =
     (case c of
        Lin_in f \<Rightarrow> datalen f = int (length (data f)) \<and> length (data f) < 2 ^ 31
      | G729_in f \<Rightarrow> datalen f = int (length (data f)) \<and> 10 dvd length (data f)
      | _ \<Rightarrow> True)"

definition handles :: "pvt \<Rightarrow> bool" where
  "handles st \<longleftrightarrow> inst_g729_enc_h st \<noteq> None \<and> inst_g729_dec_h st \<noteq> None"

lemma do_call_safe:
  assumes "codec_ok K" "pvt_ok st" "handles st" "good_call c"
  shows "\<exists>st' g'. do_call K c (st, g) = Some (st', g') \<and> pvt_ok st' \<and> handles st'"
proof (cases c)
  case (Lin_in f)
  then show ?thesis using assms(2-4) lintog729_framein_cases[OF assms(2), of f]
    by (auto simp: do_call_def good_call_def handles_def pvt_ok_def PCM_SHORTS_def length_blit)
next
  case Lin_out
  then show ?thesis using assms(2,3) frameout_refines[OF assms(2), of _ K g]
    by (fastforce simp: do_call_def handles_def)
next
  case (G729_in f)
  then obtain n d where "length (data f) = 10 * n" "inst_g729_dec_h st = Some d" "datalen f = int (length (data f))"
    using assms(3,4) by (auto simp: good_call_def handles_def)
  then show ?thesis using dec_loop_refines[OF assms(1,2), of d f 0 n _ g] assms(3) G729_in
    by (fastforce simp: do_call_def handles_def g729tolin_framein_def)
next
  case G729_out
  then show ?thesis using assms(2,3) by (auto simp: do_call_def handles_def g729tolin_frameout_def pvt_ok_def)
qed

lemma do_calls_safe:
  "codec_ok K \<Longrightarrow> pvt_ok st \<Longrightarrow> handles st \<Longrightarrow> list_all good_call cs \<Longrightarrow>
   \<exists>st' g'. do_calls K cs (st, g) = Some (st', g') \<and> pvt_ok st' \<and> handles st'"
proof (induction cs arbitrary: st g)
  case (Cons c cs)
  then obtain st1 g1 where "do_call K c (st, g) = Some (st1, g1)" "pvt_ok st1" "handles st1"
    using do_call_safe[of K st c g] by auto
  with Cons show ?case by simp
qed simp

section \<open>A sample codec\<close>

definition demo_codec :: codec where
  "demo_codec = \<lparr>enc_reset = id, g729ab_enc = \<lambda>e pcm. (e\<lparr>extra := extra e + 1\<rparr>, 0x6b21 # 0x0050 # unpack (take 10 pcm)),
     dec_reset = id, g729ab_dec = \<lambda>d bits. (d\<lparr>dec_errorcode := dec_errorcode d + 1\<rparr>, replicate 160 (pack bits ! 0)), cycles = \<lambda>n. of_nat n\<rparr>"

definition demo_e :: G729_EncObj where
  "demo_e = \<lparr>CoderBuffer = replicate 1054 0, Vad_enable = 0, extra = 0, output_format = 1, enc_ErrorHandler = 0, enc_errorcode = 0\<rparr>"

definition demo_d :: G729_DecObj where
  "demo_d = \<lparr>DecoderBuffer = replicate 893 0, Input_Format = 1, dec_ErrorHandler = 0, dec_errorcode = 0\<rparr>"

definition demo_pvt :: pvt where
  "demo_pvt = \<lparr>inst_g729_enc_h = Some demo_e, inst_g729_dec_h = Some demo_d, pcm_buf = replicate 16000 0,
     bitstream_buf = replicate 1000 0, tail = 0, samples = 0\<rparr>"

definition demo_glob :: glob where
  "demo_glob = \<lparr>localusecnt = 2, total_enc_cycles = 0, total_dec_cycles = 0, enc_calls = 0, dec_calls = 0,
     start_enc_cycles = 0, start_dec_cycles = 0, tk = 0\<rparr>"

lemma demo_codec_ok: "codec_ok demo_codec" "enc_soft demo_codec"
  by (auto simp: codec_ok_def enc_soft_def demo_codec_def unpack_def Let_def)

lemma demo_pvt_ok: "pvt_ok demo_pvt" "tail demo_pvt = 0" "inst_g729_enc_h demo_pvt = Some demo_e" "inst_g729_dec_h demo_pvt = Some demo_d" "handles demo_pvt"
  "output_format demo_e = BIT_UNPACKED"
  by (simp_all add: demo_pvt_def demo_e_def BIT_UNPACKED_def pvt_ok_def handles_def PCM_SHORTS_def BITSTREAM_BYTES_def)

lemma demo_enc: "snd (blocks 160 (enc_block demo_codec) demo_e (replicate 100 5 @ replicate 70 7)) = replicate 10 5"
proof -
  have "enc_block demo_codec demo_e (take 160 (replicate 100 5 @ replicate 70 7)) = (demo_e\<lparr>extra := 1\<rparr>, replicate 10 5)"
    by (simp add: demo_e_def enc_block_def demo_codec_def pack_unpack)
  from blocks_step[of 160 "replicate 100 5 @ replicate 70 7" "enc_block demo_codec" demo_e, OF _ _ this] show ?thesis
    by (simp add: blocks_short)
qed

section \<open>Properties\<close>

text \<open>
  C6.  The two translators together are transparent: audio fed to the encoder in any chunks, its
  output cut in any way into frames of whole coded blocks and fed to the decoder, comes out
  as if the library's encoder were connected to its decoder directly.  The packing of the 80 soft
  bits into ten bytes and their unpacking lose nothing, no frame is dropped, repeated or
  reordered.
\<close>

theorem codec_end_to_end:
  assumes "codec_ok K" and "enc_soft K"
    and "pvt_ok st" and "tail st = 0" and "inst_g729_enc_h st = Some e" and "output_format e = BIT_UNPACKED"
    and "pvt_ok st2" and "tail st2 = 0" and "inst_g729_dec_h st2 = Some d"
    and "\<forall>c\<in>set cs. even (length c) \<and> length c \<le> 15840"
    and "feed_all (feed_enc K) (st, g) cs = Some (s1, coded)"
    and "concat ds = coded" and "\<forall>c\<in>set ds. 10 dvd length c \<and> length c \<le> 990"
  shows "\<exists>s2. feed_all (feed_dec K) (st2, g2) ds = Some (s2, snd (blocks 160 (direct K) (e, d) (concat cs)))"
proof -
  have "concat ds = snd (blocks 160 (enc_block K) e (concat cs))"
    using encoder_run[OF assms(3-5,10), of K g] assms(11,12) by auto
  then show ?thesis
    using decoder_run[OF assms(1,7-9,13), of g2] blocks_direct[OF assms(2,6), of d "concat cs"] by auto
qed

theorem codec_end_to_end_witness:
  "\<exists>s2. feed_all (feed_dec demo_codec) (demo_pvt, demo_glob) [replicate 10 5] =
    Some (s2, snd (blocks 160 (direct demo_codec) (demo_e, demo_d) (replicate 100 5 @ replicate 70 7)))"
proof -
  obtain s1 where "feed_all (feed_enc demo_codec) (demo_pvt, demo_glob) [replicate 100 5, replicate 70 7] = Some (s1, replicate 10 5)"
    using encoder_run[OF demo_pvt_ok(1-3), of "[replicate 100 5, replicate 70 7]" demo_codec demo_glob] demo_enc by auto
  from codec_end_to_end[OF demo_codec_ok demo_pvt_ok(1-3,6) demo_pvt_ok(1,2,4) _ this, of "[replicate 10 5]" demo_glob]
  show ?thesis by simp
qed



text \<open>A silence descriptor of two bytes makes the decoder read ten, past the end of the frame.\<close>

lemma vad_frame_overread:
  assumes "length (data f) = 2" and "datalen f = 2" and "tail st + 80 < PCM_SHORTS"
  shows "g729tolin_framein K f st g = None"
  using assms by (simp add: g729tolin_framein_def dec_loop.simps)

text \<open>When the second registration fails, the first is not taken back.\<close>

lemma load_leaves_decoder_registered:
  assumes "reg G729tolin = 0" and "reg Lintog729 = -1"
  shows "\<exists>g'. load_module True [True, True, True, True] reg g = (g', [Register G729tolin, Register Lintog729], -1)"
  using assms by (simp add: load_module_def)

end
