(* ===== verification/Procwatch.thy ===== *)
theory Procwatch
  imports Cstr
begin

text \<open>
  The process monitor \<open>src/src/procwatch.c\<close>.  It reads \<open>/proc\<close> once per round and feeds the
  hardware watchdog only if every process that has been seen is still there.  A round gets the
  directory entries of \<open>/proc\<close>, the contents of the status files by process number, and the
  result of \<open>sysinfo\<close>; what it does to the outside is a list of events.  \<open>None\<close> stands for a
  round that does not end.  \<open>char\<close> is signed, as in the compilers for the target.
\<close>

section \<open>Data\<close>

record app_monitor =
  name :: string
  valid :: bool
  online :: bool

definition MAX_PROCESS :: nat where "MAX_PROCESS = 32"
definition DEFAULT_SLEEP_VAL :: u32 where "DEFAULT_SLEEP_VAL = 2000"
definition DEFAULT_CACHE_MEMORY_TRIGGER :: u32 where "DEFAULT_CACHE_MEMORY_TRIGGER = 12000"
definition STATUS_LINE_ARG :: string where "STATUS_LINE_ARG = ''Name:''"

datatype pw_event =
    Kick
  | Set_timeout int
  | Sleep_us u32
  | Drop_caches "nat list"
  | Log_online string
  | Log_restart
  | Log_skipping
  | Log_flush u32
  | Log_memory_ok u32 u32
  | Log_no_sysinfo
  | Log_timeout int

section \<open>Options\<close>

record pw_opts =
  proc_monitor :: "app_monitor list"
  sleep_val :: u32
  watchdog_time :: int
  daemon :: bool
  memory_cache_trigger :: u32
  log_filename :: "string option"

definition default_opts :: pw_opts where
  "default_opts = \<lparr>proc_monitor = [], sleep_val = DEFAULT_SLEEP_VAL, watchdog_time = 0, daemon = False,
     memory_cache_trigger = DEFAULT_CACHE_MEMORY_TRIGGER, log_filename = None\<rparr>"

datatype opt_error = Usage_exit | Monitor_overflow

text \<open>What \<open>getopt\<close> delivers: the option letter and its argument.\<close>

fun parse_opts :: "(char \<times> string) list \<Rightarrow> pw_opts \<Rightarrow> opt_error + pw_opts" where
  "parse_opts [] p = Inr p"
| "parse_opts ((opt, optarg) # rest) p =
     (if opt = CHR ''p''
      then if MAX_PROCESS \<le> length (proc_monitor p) then Inl Monitor_overflow
           else parse_opts rest (p\<lparr>proc_monitor := proc_monitor p @ [\<lparr>name = optarg, valid = False, online = False\<rparr>]\<rparr>)
      else if opt = CHR ''t''
      then let new_sleep = of_nat (fst (strtoul 32 optarg)) in parse_opts rest (if 0 < new_sleep then p\<lparr>sleep_val := new_sleep\<rparr> else p)
      else if opt = CHR ''w'' then parse_opts rest (p\<lparr>watchdog_time := atoi optarg\<rparr>)
      else if opt = CHR ''d'' then parse_opts rest (p\<lparr>daemon := True\<rparr>)
      else if opt = CHR ''c'' then parse_opts rest (p\<lparr>memory_cache_trigger := of_nat (fst (strtoul 32 optarg))\<rparr>)
      else if opt = CHR ''l'' then parse_opts rest (p\<lparr>log_filename := Some optarg\<rparr>)
      else Inl Usage_exit)"

text \<open>From the options to the main loop: \<open>Inl\<close> is the exit status.\<close>

definition startup :: "pw_opts \<Rightarrow> int \<Rightarrow> int \<Rightarrow> bool \<Rightarrow> nat + pw_event list" where
  "startup p fork setsid open_ok =
     (if daemon p \<and> fork < 0 then Inl 1
      else if daemon p \<and> 0 < fork then Inl 0
      else if daemon p \<and> setsid < 0 then Inl 1
      else if \<not> open_ok then Inl 1
      else Inr (if 0 < watchdog_time p then [Set_timeout (watchdog_time p), Log_timeout (watchdog_time p)] else []))"

section \<open>The name in a status file\<close>

definition clean :: "char \<Rightarrow> char" where
  "clean c = (if code c < 32 \<or> 128 \<le> code c then CHR '' '' else c)"

definition is_eol :: "char \<Rightarrow> bool" where
  "is_eol c \<longleftrightarrow> code c = 10 \<or> code c = 13"

text \<open>The first terminated line of the buffer, cleaned, and what follows it.\<close>

definition split_line :: "string \<Rightarrow> (string \<times> string) option" where
  "split_line buf =
     (if list_ex is_eol buf
      then Some (map clean (takeWhile (\<lambda>c. \<not> is_eol c) buf), tl (dropWhile (\<lambda>c. \<not> is_eol c) buf))
      else None)"

text \<open>The reading loop: \<open>buf\<close> is what is buffered, \<open>rest\<close> the unread part of the file, \<open>eof\<close>
  the end-of-file mark, which a read of fewer bytes than asked for sets.\<close>

partial_function (option) name_line :: "string \<Rightarrow> string \<Rightarrow> bool \<Rightarrow> string option option" where
  "name_line buf rest eof =
     (let k = 127 - length buf; buf1 = buf @ take k rest; rest1 = drop k rest; eof1 = (eof \<or> length rest < k)
      in case split_line buf1 of
           None \<Rightarrow> if eof1 then Some None else name_line buf1 rest1 eof1
         | Some (line, buf2) \<Rightarrow>
             (case strstr line STATUS_LINE_ARG of
                Some s \<Rightarrow> Some (Some (drop (length STATUS_LINE_ARG) s))
              | None \<Rightarrow> name_line buf2 rest1 eof1))"

section \<open>One scan\<close>

fun mark_list :: "string \<Rightarrow> app_monitor list \<Rightarrow> int \<Rightarrow> int \<Rightarrow> app_monitor list \<times> int \<times> int \<times> pw_event list" where
  "mark_list cmd_line [] unfound offline = ([], unfound, offline, [])"
| "mark_list cmd_line (m # ms) unfound offline =
     (if strstr cmd_line (name m) \<noteq> None
      then if \<not> online m
           then let (ms', u, f, ev) = mark_list cmd_line ms unfound (offline - 1)
                in (m\<lparr>online := True, valid := True\<rparr> # ms', u, f, Log_online (name m) # ev)
           else if \<not> valid m
           then let (ms', u, f, ev) = mark_list cmd_line ms (unfound - 1) offline in (m\<lparr>valid := True\<rparr> # ms', u, f, ev)
           else let (ms', u, f, ev) = mark_list cmd_line ms unfound offline in (m # ms', u, f, ev)
      else let (ms', u, f, ev) = mark_list cmd_line ms unfound offline in (m # ms', u, f, ev))"

text \<open>The status file of a directory entry, where there is one.\<close>

definition open_status :: "(int \<Rightarrow> string option) \<Rightarrow> string \<Rightarrow> string option" where
  "open_status status d_name =
     (if d_name \<noteq> [] \<and> isdigit (hd d_name) then let pid = atoi d_name in if 0 \<ge> pid then None else status pid else None)"

fun scan :: "(int \<Rightarrow> string option) \<Rightarrow> string list \<Rightarrow> app_monitor list \<Rightarrow> int \<Rightarrow> int \<Rightarrow> (app_monitor list \<times> int \<times> pw_event list) option" where
  "scan status [] ms unfound offline = Some (ms, unfound, [])"
| "scan status (d_name # ds) ms unfound offline =
     (if 0 < unfound \<or> 0 < offline
      then case open_status status d_name of
             None \<Rightarrow> scan status ds ms unfound offline
           | Some fp \<Rightarrow> do {
               cmd \<leftarrow> name_line [] fp False;
               (case cmd of
                  None \<Rightarrow> scan status ds ms unfound offline
                | Some cmd_line \<Rightarrow>
                    let (ms1, u, f, ev) = mark_list cmd_line ms unfound offline
                    in do { (ms2, u2, ev2) \<leftarrow> scan status ds ms1 u f; Some (ms2, u2, ev @ ev2) })
             }
      else Some (ms, unfound, []))"

definition find_processes :: "string list option \<Rightarrow> (int \<Rightarrow> string option) \<Rightarrow> app_monitor list \<Rightarrow> (app_monitor list \<times> int \<times> pw_event list) option" where
  "find_processes dir status ms =
     (if ms = [] then Some (ms, 0, [])
      else case dir of
             None \<Rightarrow> Some (ms, -1, [])
           | Some ds \<Rightarrow>
               let ms0 = map (\<lambda>m. m\<lparr>valid := False\<rparr>) ms
               in scan status ds ms0 (int (length (filter online ms))) (int (length (filter (\<lambda>m. \<not> online m) ms))))"

section \<open>The main loop\<close>

definition try_to_free_cache :: "bool \<Rightarrow> int \<Rightarrow> pw_event list" where
  "try_to_free_cache fopen_ok val =
     (if fopen_ok then [Drop_caches [if val = 1 then 49 else if val = 2 then 50 else 51, 10, 0]] else [])"

record pw_state =
  mons :: "app_monitor list"
  last_dog_skipped :: bool
  cache_flush_count :: u32

text \<open>\<open>sysinfo\<close> is \<open>None\<close> when the call fails, else free memory and the memory unit.\<close>

record pw_env =
  proc_dir :: "string list option"
  proc_status :: "int \<Rightarrow> string option"
  sys_info :: "(u32 \<times> u32) option"
  drop_ok :: bool

definition dog :: "int \<Rightarrow> bool \<Rightarrow> bool \<times> pw_event list" where
  "dog r skipped =
     (if r = 0 then (False, Kick # (if skipped then [Log_restart] else []))
      else (True, if skipped then [] else [Log_skipping]))"

text \<open>A zero divisor stops the program.\<close>

definition check_memory :: "pw_opts \<Rightarrow> pw_env \<Rightarrow> u32 \<Rightarrow> (u32 \<times> pw_event list) option" where
  "check_memory p env n =
     (case sys_info env of
        None \<Rightarrow> Some (n, Log_no_sysinfo # try_to_free_cache (drop_ok env) 3)
      | Some (freeram, mem_unit) \<Rightarrow>
          if 1024 * mem_unit = 0 then None
          else let kb = freeram div (1024 * mem_unit)
               in if kb < memory_cache_trigger p
                  then Some (n + 1, (if n mod 32 = 0 then [Log_flush kb] else []) @ try_to_free_cache (drop_ok env) 3)
                  else Some (0, if 1 < n then [Log_memory_ok kb n] else []))"

definition pw_iter :: "pw_opts \<Rightarrow> pw_env \<Rightarrow> pw_state \<Rightarrow> (pw_state \<times> pw_event list) option" where
  "pw_iter p env s = do {
     (ms, r, ev) \<leftarrow> find_processes (proc_dir env) (proc_status env) (mons s);
     (let (sk, dev) = dog r (last_dog_skipped s)
      in do {
        (n, mev) \<leftarrow> check_memory p env (cache_flush_count s);
        Some (\<lparr>mons = ms, last_dog_skipped = sk, cache_flush_count = n\<rparr>, ev @ dev @ [Sleep_us (1000 * sleep_val p)] @ mev)
      })
   }"

fun pw_run :: "pw_opts \<Rightarrow> pw_env list \<Rightarrow> pw_state \<Rightarrow> (pw_state \<times> pw_event list list) option" where
  "pw_run p [] s = Some (s, [])"
| "pw_run p (e # es) s = do { (s1, ev) \<leftarrow> pw_iter p e s; (s2, evs) \<leftarrow> pw_run p es s1; Some (s2, ev # evs) }"

section \<open>Reading the name\<close>

text \<open>The reference: the first terminated line that contains the keyword, whatever its length.\<close>

lemma split_line_shorter: "split_line s = Some (l, r) \<Longrightarrow> length r < length s"
proof -
  assume a: "split_line s = Some (l, r)"
  then have "dropWhile (\<lambda>c. \<not> is_eol c) s \<noteq> []" "r = tl (dropWhile (\<lambda>c. \<not> is_eol c) s)"
    by (auto simp: split_line_def list_ex_iff dropWhile_eq_Nil_conv split: if_splits)
  then show ?thesis using length_dropWhile_le[of "\<lambda>c. \<not> is_eol c" s]
    by (cases "dropWhile (\<lambda>c. \<not> is_eol c) s") auto
qed

function first_name :: "string \<Rightarrow> string option" where
  "first_name s =
     (case split_line s of
        None \<Rightarrow> None
      | Some (line, r) \<Rightarrow> (case strstr line ''Name:'' of Some t \<Rightarrow> Some (drop 5 t) | None \<Rightarrow> first_name r))"
  by pat_completeness auto

termination first_name
  by (relation "measure length") (auto dest: split_line_shorter)

declare first_name.simps [simp del]

text \<open>Every line up to the one looked for, and an unterminated last one, fits the buffer.\<close>

function lines_fit :: "string \<Rightarrow> bool" where
  "lines_fit s \<longleftrightarrow>
     length (takeWhile (\<lambda>c. \<not> is_eol c) s) \<le> 126 \<and>
     (case split_line s of
        None \<Rightarrow> True
      | Some (line, r) \<Rightarrow> strstr line ''Name:'' \<noteq> None \<or> lines_fit r)"
  by pat_completeness auto

termination lines_fit
  by (relation "measure length") (auto dest: split_line_shorter)

declare lines_fit.simps [simp del]

lemma split_line_append:
  assumes "split_line a = Some (l, r)"
  shows "split_line (a @ b) = Some (l, r @ b)"
proof -
  have e: "\<exists>c\<in>set a. is_eol c" using assms by (auto simp: split_line_def list_ex_iff split: if_splits)
  then have "dropWhile (\<lambda>c. \<not> is_eol c) a \<noteq> []" by (auto simp: dropWhile_eq_Nil_conv)
  moreover have "takeWhile (\<lambda>c. \<not> is_eol c) (a @ b) = takeWhile (\<lambda>c. \<not> is_eol c) a"
    "dropWhile (\<lambda>c. \<not> is_eol c) (a @ b) = dropWhile (\<lambda>c. \<not> is_eol c) a @ b"
    using e by auto
  ultimately show ?thesis using assms e by (auto simp: split_line_def list_ex_iff split: if_splits)
qed

lemma name_line_correct:
  "lines_fit (buf @ rest) \<Longrightarrow> length buf \<le> 127 \<Longrightarrow> (eof \<Longrightarrow> rest = []) \<Longrightarrow>
   name_line buf rest eof = Some (first_name (buf @ rest))"
proof (induction "length (buf @ rest)" arbitrary: buf rest eof rule: less_induct)
  case less
  define k where "k = 127 - length buf"
  define buf1 rest1 where "buf1 = buf @ take k rest" and "rest1 = drop k rest"
  define eof1 where "eof1 = (eof \<or> length rest < k)"
  note run = name_line.simps[of buf rest eof, folded k_def, unfolded Let_def, folded buf1_def rest1_def eof1_def]
  have all: "buf @ rest = buf1 @ rest1" by (simp add: buf1_def rest1_def)
  have e1: "eof1 \<Longrightarrow> rest1 = []" using less.prems(3) by (auto simp: eof1_def rest1_def)
  have l1: "length buf1 \<le> 127" using less.prems(2) by (simp add: buf1_def k_def)
  show ?case
  proof (cases "split_line buf1")
    case None
    then have nl: "\<forall>c\<in>set buf1. \<not> is_eol c" by (auto simp: split_line_def list_ex_iff split: if_splits)
    have eof1
    proof (rule ccontr)
      assume "\<not> eof1"
      then have "length buf1 = 127" using less.prems(2) by (auto simp: buf1_def eof1_def k_def min_def)
      moreover have "length (takeWhile (\<lambda>c. \<not> is_eol c) (buf1 @ rest1)) \<ge> length buf1"
        using nl by (simp add: takeWhile_append2)
      ultimately show False using less.prems(1) unfolding all by (subst (asm) lines_fit.simps) auto
    qed
    then show ?thesis unfolding all run using None e1 by (simp add: first_name.simps[of buf1])
  next
    case (Some lr)
    obtain l r where lr: "split_line buf1 = Some (l, r)" using Some by (cases lr) auto
    have sp: "split_line (buf @ rest) = Some (l, r @ rest1)" unfolding all by (rule split_line_append[OF lr])
    show ?thesis
    proof (cases "strstr l ''Name:''")
      case None
      have "lines_fit (r @ rest1)" using less.prems(1) sp None by (subst (asm) lines_fit.simps) auto
      moreover have "length r \<le> 127" "length (r @ rest1) < length (buf @ rest)"
        using split_line_shorter[OF lr] l1 all by (simp, metis add_less_mono1 length_append)
      ultimately have "name_line r rest1 eof1 = Some (first_name (r @ rest1))" using e1 by (intro less.hyps) auto
      then show ?thesis unfolding run using lr None sp by (simp add: STATUS_LINE_ARG_def first_name.simps[of "buf @ rest"])
    next
      case (Some s)
      then show ?thesis unfolding run using lr sp by (simp add: STATUS_LINE_ARG_def first_name.simps[of "buf @ rest"] eval_nat_numeral)
    qed
  qed
qed

text \<open>A line that fills the buffer keeps the loop going for ever: nothing is read any more, and
  the end of the file is never seen.\<close>

definition stuck :: "string \<Rightarrow> bool \<Rightarrow> bool" where
  "stuck buf eof \<longleftrightarrow> length buf = 127 \<and> (\<forall>c\<in>set buf. \<not> is_eol c) \<and> \<not> eof"

lemma name_line_progress:
  assumes "name_line buf rest eof = Some y"
  shows "\<not> stuck buf eof"
proof (rule name_line.raw_induct[where P = "\<lambda>buf rest eof y. \<not> stuck buf eof", OF _ assms])
  fix f :: "string \<Rightarrow> string \<Rightarrow> bool \<Rightarrow> string option option" and buf rest eof y
  assume ih: "\<And>buf rest eof y. f buf rest eof = Some y \<Longrightarrow> \<not> stuck buf eof"
    and run: "(let k = 127 - length buf; buf1 = buf @ take k rest; rest1 = drop k rest; eof1 = eof \<or> length rest < k
      in case split_line buf1 of None \<Rightarrow> if eof1 then Some None else f buf1 rest1 eof1
         | Some (line, buf2) \<Rightarrow> case strstr line STATUS_LINE_ARG of None \<Rightarrow> f buf2 rest1 eof1
             | Some s \<Rightarrow> Some (Some (drop (length STATUS_LINE_ARG) s))) = Some y"
  show "\<not> stuck buf eof"
  proof
    assume s: "stuck buf eof"
    then have "split_line buf = None" by (auto simp: stuck_def split_line_def list_ex_iff)
    then have "f buf rest eof = Some y" using run s by (simp add: stuck_def)
    then show False using ih s by blast
  qed
qed

lemma name_line_stuck:
  assumes "length buf = 127" and "\<forall>c\<in>set buf. \<not> is_eol c"
  shows "name_line buf rest False = None"
  using name_line_progress[of buf rest False] assms by (cases "name_line buf rest False") (auto simp: stuck_def)

section \<open>What a scan finds\<close>

definition cmds :: "(int \<Rightarrow> string option) \<Rightarrow> string list \<Rightarrow> string list" where
  "cmds status ds = List.map_filter (\<lambda>d. Option.bind (open_status status d) first_name) ds"

definition present :: "(int \<Rightarrow> string option) \<Rightarrow> string list \<Rightarrow> string \<Rightarrow> bool" where
  "present status ds nm \<longleftrightarrow> list_ex (\<lambda>c. strstr c nm \<noteq> None) (cmds status ds)"

definition mark :: "bool \<Rightarrow> app_monitor \<Rightarrow> app_monitor" where
  "mark b m = (if b then m\<lparr>online := True, valid := True\<rparr> else m)"

definition missing :: "app_monitor list \<Rightarrow> int" where
  "missing ms = int (length (filter (\<lambda>m. online m \<and> \<not> valid m) ms))"

definition offline_n :: "app_monitor list \<Rightarrow> int" where
  "offline_n ms = int (length (filter (\<lambda>m. \<not> online m) ms))"

lemma counts_simps [simp]:
  "missing [] = 0" "offline_n [] = 0"
  "missing (m # ms) = (if online m \<and> \<not> valid m then 1 else 0) + missing ms"
  "offline_n (m # ms) = (if online m then 0 else 1) + offline_n ms"
  by (simp_all add: missing_def offline_n_def)

lemma mark_list_run:
  "\<exists>ev. mark_list c ms (u + missing ms) (f + offline_n ms) =
     (map (\<lambda>m. mark (strstr c (name m) \<noteq> None) m) ms, u + missing (map (\<lambda>m. mark (strstr c (name m) \<noteq> None) m) ms),
      f + offline_n (map (\<lambda>m. mark (strstr c (name m) \<noteq> None) m) ms), ev) \<and> Kick \<notin> set ev"
proof (induction ms arbitrary: u f)
  case (Cons m ms)
  consider "strstr c (name m) = None" | "strstr c (name m) \<noteq> None" "\<not> online m" | "strstr c (name m) \<noteq> None" "online m" "\<not> valid m"
    | "strstr c (name m) \<noteq> None" "online m" "valid m" by blast
  then show ?case
  proof cases
    case 1
    then show ?thesis
      using Cons.IH[of "u + (if online m \<and> \<not> valid m then 1 else 0)" "f + (if online m then 0 else 1)"]
      by (auto simp: mark_def algebra_simps split: prod.splits)
  next
    case 2
    then show ?thesis using Cons.IH[of u f] by (auto simp: mark_def algebra_simps split: prod.splits)
  next
    case 3
    then show ?thesis using Cons.IH[of u f] by (auto simp: mark_def algebra_simps split: prod.splits)
  next
    case 4
    then have "m\<lparr>online := True, valid := True\<rparr> = m" by (cases m) simp
    then show ?thesis using 4 Cons.IH[of u f] by (auto simp: mark_def algebra_simps split: prod.splits)
  qed
qed simp

lemma mark_mark: "mark b (mark a m) = mark (a \<or> b) m"
  by (simp add: mark_def)

lemma name_mark [simp]: "name (mark b m) = name m"
  by (simp add: mark_def)

lemma all_accounted: "\<not> 0 < missing ms \<Longrightarrow> \<not> 0 < offline_n ms \<Longrightarrow> m \<in> set ms \<Longrightarrow> mark b m = m"
  by (cases m) (auto simp: missing_def offline_n_def filter_empty_conv mark_def)

lemma scan_run:
  assumes "\<forall>d\<in>set ds. \<forall>fp. open_status status d = Some fp \<longrightarrow> lines_fit fp"
  shows "\<exists>ev. scan status ds ms (missing ms) (offline_n ms) =
    Some (map (\<lambda>m. mark (present status ds (name m)) m) ms, missing (map (\<lambda>m. mark (present status ds (name m)) m) ms), ev) \<and> Kick \<notin> set ev"
  using assms
proof (induction ds arbitrary: ms)
  case Nil
  then show ?case by (simp add: present_def cmds_def mark_def map_filter_simps)
next
  case (Cons d ds)
  have fit: "\<forall>d\<in>set ds. \<forall>fp. open_status status d = Some fp \<longrightarrow> lines_fit fp" using Cons.prems by simp
  show ?case
  proof (cases "0 < missing ms \<or> 0 < offline_n ms")
    case False
    then have "map (\<lambda>m. mark (present status (d # ds) (name m)) m) ms = ms"
      using all_accounted[of ms] by (simp add: map_idI)
    then show ?thesis using False by simp
  next
    case True
    show ?thesis
    proof (cases "Option.bind (open_status status d) first_name")
      case None
      then have "scan status (d # ds) ms (missing ms) (offline_n ms) = scan status ds ms (missing ms) (offline_n ms)"
        using True Cons.prems name_line_correct[of "[]" _ False] by (cases "open_status status d") auto
      moreover have "present status (d # ds) = present status ds"
        using None by (auto simp: present_def cmds_def map_filter_simps fun_eq_iff)
      ultimately show ?thesis using Cons.IH[OF fit, of ms] by simp
    next
      case (Some c)
      then obtain fp where fp: "open_status status d = Some fp" "first_name fp = Some c" by (cases "open_status status d") auto
      define ms1 where "ms1 = map (\<lambda>m. mark (strstr c (name m) \<noteq> None) m) ms"
      obtain ev where ev: "mark_list c ms (missing ms) (offline_n ms) = (ms1, missing ms1, offline_n ms1, ev)" "Kick \<notin> set ev"
        using mark_list_run[of c ms 0 0] by (auto simp: ms1_def)
      have "name_line [] fp False = Some (Some c)" using name_line_correct[of "[]" fp False] Cons.prems fp by auto
      moreover have "present status (d # ds) nm \<longleftrightarrow> strstr c nm \<noteq> None \<or> present status ds nm" for nm
        using Some by (simp add: present_def cmds_def map_filter_simps)
      then have "map (\<lambda>m. mark (present status (d # ds) (name m)) m) ms = map (\<lambda>m. mark (present status ds (name m)) m) ms1"
        by (simp add: ms1_def mark_mark)
      ultimately show ?thesis using Cons.IH[OF fit, of ms1] True fp(1) ev by auto
    qed
  qed
qed

text \<open>The status files that a scan opens.\<close>

definition files_fit :: "(int \<Rightarrow> string option) \<Rightarrow> string list \<Rightarrow> bool" where
  "files_fit status ds \<longleftrightarrow> list_all (\<lambda>d. case open_status status d of None \<Rightarrow> True | Some fp \<Rightarrow> lines_fit fp) ds"

lemma find_processes_run:
  assumes "files_fit status ds"
  shows "\<exists>ms' ev. find_processes (Some ds) status ms =
      Some (ms', int (length (filter (\<lambda>m. online m \<and> \<not> present status ds (name m)) ms)), ev) \<and>
    map name ms' = map name ms \<and> map online ms' = map (\<lambda>m. online m \<or> present status ds (name m)) ms \<and> Kick \<notin> set ev"
proof (cases "ms = []")
  case True
  then show ?thesis by (simp add: find_processes_def)
next
  case False
  define ms0 where "ms0 = map (\<lambda>m. m\<lparr>valid := False\<rparr>) ms"
  define ms' where "ms' = map (\<lambda>m. mark (present status ds (name m)) m) ms0"
  have c: "missing ms0 = int (length (filter online ms))" "offline_n ms0 = int (length (filter (\<lambda>m. \<not> online m) ms))"
    unfolding ms0_def by (induction ms) auto
  have "missing ms' = int (length (filter (\<lambda>m. online m \<and> \<not> present status ds (name m)) ms))"
    unfolding ms'_def ms0_def by (induction ms) (auto simp: mark_def)
  moreover have "map name ms' = map name ms" "map online ms' = map (\<lambda>m. online m \<or> present status ds (name m)) ms"
    by (auto simp: ms'_def ms0_def mark_def)
  moreover have "\<exists>ev. scan status ds ms0 (missing ms0) (offline_n ms0) = Some (ms', missing ms', ev) \<and> Kick \<notin> set ev"
    unfolding ms'_def using assms by (intro scan_run) (auto simp: files_fit_def list_all_iff split: option.splits)
  ultimately show ?thesis using False by (fastforce simp: find_processes_def c ms0_def[symmetric])
qed

section \<open>Rounds\<close>

text \<open>A round whose input can be read: \<open>/proc\<close> opens, its lines fit, the memory unit is sane.\<close>

definition good_env :: "pw_env \<Rightarrow> bool" where
  "good_env e \<longleftrightarrow>
     (case proc_dir e of None \<Rightarrow> False | Some ds \<Rightarrow> files_fit (proc_status e) ds) \<and>
     (case sys_info e of None \<Rightarrow> True | Some (freeram, mem_unit) \<Rightarrow> 1024 * mem_unit \<noteq> 0)"

definition running :: "pw_env \<Rightarrow> string \<Rightarrow> bool" where
  "running e nm = (case proc_dir e of None \<Rightarrow> False | Some ds \<Rightarrow> present (proc_status e) ds nm)"

lemma check_memory_run:
  assumes "good_env e"
  shows "\<exists>n' ev. check_memory p e n = Some (n', ev) \<and> Kick \<notin> set ev"
  using assms by (auto simp: check_memory_def good_env_def try_to_free_cache_def Let_def split: option.splits)

lemma kick_dog: "Kick \<in> set (snd (dog r b)) \<longleftrightarrow> r = 0"
  by (simp add: dog_def)

lemma monitors_after:
  assumes "map name ms' = map name ms" and "map online ms' = map (\<lambda>m. online m \<or> R (name m)) ms"
  shows "(\<forall>m\<in>set ms'. Q (name m) (online m)) \<longleftrightarrow> (\<forall>m\<in>set ms. Q (name m) (online m \<or> R (name m)))"
proof -
  have "length ms' = length ms" using assms(1) by (rule map_eq_imp_length_eq)
  then show ?thesis using assms by (induction ms' ms rule: list_induct2) simp_all
qed

lemma pw_iter_run:
  assumes "good_env e"
  shows "\<exists>s' ev. pw_iter p e s = Some (s', ev) \<and>
    (Kick \<in> set ev \<longleftrightarrow> (\<forall>m\<in>set (mons s). online m \<longrightarrow> running e (name m))) \<and>
    map name (mons s') = map name (mons s) \<and> map online (mons s') = map (\<lambda>m. online m \<or> running e (name m)) (mons s)"
proof -
  obtain ds where ds: "proc_dir e = Some ds" "files_fit (proc_status e) ds"
    using assms by (auto simp: good_env_def split: option.splits)
  then have h: "running e = present (proc_status e) ds" by (simp add: running_def fun_eq_iff)
  define r where "r = int (length (filter (\<lambda>m. online m \<and> \<not> running e (name m)) (mons s)))"
  obtain ms' ev where f: "find_processes (proc_dir e) (proc_status e) (mons s) = Some (ms', r, ev)"
    "map name ms' = map name (mons s)" "map online ms' = map (\<lambda>m. online m \<or> running e (name m)) (mons s)" "Kick \<notin> set ev"
    using find_processes_run[OF ds(2), of "mons s"] by (auto simp: ds(1) h r_def)
  obtain n mev where m: "check_memory p e (cache_flush_count s) = Some (n, mev)" "Kick \<notin> set mev"
    using check_memory_run[OF assms] by blast
  obtain sk dev where d: "dog r (last_dog_skipped s) = (sk, dev)" by force
  have "r = 0 \<longleftrightarrow> (\<forall>m\<in>set (mons s). online m \<longrightarrow> running e (name m))" by (auto simp: r_def filter_empty_conv)
  then show ?thesis using f m d kick_dog[of r "last_dog_skipped s"] by (auto simp: pw_iter_def)
qed

lemma pw_run_policy:
  "list_all good_env es \<Longrightarrow> \<exists>s' evs. pw_run p es s = Some (s', evs) \<and> length evs = length es \<and>
   (\<forall>k<length es. Kick \<in> set (evs ! k) \<longleftrightarrow>
      (\<forall>m\<in>set (mons s). online m \<or> (\<exists>j<k. running (es ! j) (name m)) \<longrightarrow> running (es ! k) (name m)))"
proof (induction es arbitrary: s)
  case (Cons e es)
  from pw_iter_run[of e p s] Cons.prems obtain s1 ev where i: "pw_iter p e s = Some (s1, ev)"
    "Kick \<in> set ev \<longleftrightarrow> (\<forall>m\<in>set (mons s). online m \<longrightarrow> running e (name m))"
    "map name (mons s1) = map name (mons s)" "map online (mons s1) = map (\<lambda>m. online m \<or> running e (name m)) (mons s)" by auto
  from Cons.IH[of s1] Cons.prems obtain s2 evs where r: "pw_run p es s1 = Some (s2, evs)" "length evs = length es"
    "\<forall>k<length es. Kick \<in> set (evs ! k) \<longleftrightarrow>
      (\<forall>m\<in>set (mons s1). online m \<or> (\<exists>j<k. running (es ! j) (name m)) \<longrightarrow> running (es ! k) (name m))" by auto
  have "Kick \<in> set ((ev # evs) ! k) \<longleftrightarrow>
      (\<forall>m\<in>set (mons s). online m \<or> (\<exists>j<k. running ((e # es) ! j) (name m)) \<longrightarrow> running ((e # es) ! k) (name m))"
    if "k < Suc (length es)" for k
  proof (cases k)
    case 0
    then show ?thesis using i(2) by simp
  next
    case (Suc n)
    have ex: "(\<exists>j<Suc n. running ((e # es) ! j) nm) \<longleftrightarrow> running e nm \<or> (\<exists>j<n. running (es ! j) nm)" for nm
      by (auto simp: less_Suc_eq_0_disj)
    show ?thesis
      using r(3) that Suc monitors_after[OF i(3,4), of "\<lambda>nm on. on \<or> (\<exists>j<n. running (es ! j) nm) \<longrightarrow> running (es ! n) nm"]
      by (simp add: ex)
  qed
  then show ?case using i(1) r(1,2) by simp
qed simp

section \<open>Properties\<close>

definition demo_env :: "string \<Rightarrow> pw_env" where
  "demo_env nm = \<lparr>proc_dir = Some [''self'', ''1''], proc_status = (\<lambda>_. Some (''Name: '' @ nm @ [CHR 0x0A])),
     sys_info = Some (64000000, 1), drop_ok = True\<rparr>"

lemma demo_open: "open_status (proc_status (demo_env nm)) ''1'' = Some (''Name: '' @ nm @ [CHR 0x0A])"
  "open_status (proc_status (demo_env nm)) ''self'' = None"
  by (simp_all add: open_status_def demo_env_def atoi_def isdigit_def code_def isspace_def digits_val_def)

lemma demo_files_fit: "files_fit (proc_status (demo_env ''asterisk'')) [''self'', ''1'']" "files_fit (proc_status (demo_env ''init'')) [''self'', ''1'']"
  unfolding files_fit_def list.pred_inject demo_open
  by (simp_all add: lines_fit.simps split_line_def is_eol_def code_def clean_def strstr.simps)

lemma demo_env_good: "good_env (demo_env ''asterisk'')" "good_env (demo_env ''init'')"
  using demo_files_fit by (simp_all add: good_env_def demo_env_def)

lemma demo_running: "running (demo_env ''asterisk'') ''asterisk''" "\<not> running (demo_env ''init'') ''asterisk''"
proof -
  have c: "cmds (proc_status (demo_env nm)) [''self'', ''1''] = (case first_name (''Name: '' @ nm @ [CHR 0x0A]) of None \<Rightarrow> [] | Some c \<Rightarrow> [c])" for nm
    using demo_open[of nm] by (simp add: cmds_def map_filter_simps split: option.splits)
  have "first_name (''Name: '' @ ''asterisk'' @ [CHR 0x0A]) = Some '' asterisk''" "first_name (''Name: '' @ ''init'' @ [CHR 0x0A]) = Some '' init''"
    by (simp_all add: first_name.simps split_line_def is_eol_def code_def clean_def strstr.simps)
  then show "running (demo_env ''asterisk'') ''asterisk''" "\<not> running (demo_env ''init'') ''asterisk''"
    using c[of "''asterisk''"] c[of "''init''"] by (simp_all add: running_def present_def demo_env_def strstr.simps)
qed

text \<open>
  C7.  The watchdog policy over any number of rounds, from a state where no process has been
  seen: every round ends, and it feeds the watchdog exactly if each monitored process that was
  running in an earlier round is running now.  A process not seen yet never blocks it, a
  process that has disappeared blocks it until it is back.
\<close>

theorem watchdog_policy:
  assumes "list_all good_env es" and "\<forall>m\<in>set (mons s). \<not> online m"
  shows "\<exists>s' evs. pw_run p es s = Some (s', evs) \<and> length evs = length es \<and>
    (\<forall>k<length es. Kick \<in> set (evs ! k) \<longleftrightarrow>
       (\<forall>m\<in>set (mons s). (\<exists>j<k. running (es ! j) (name m)) \<longrightarrow> running (es ! k) (name m)))"
  using pw_run_policy[OF assms(1), of p s] assms(2) by auto

theorem watchdog_policy_witness:
  "\<exists>s' evs. pw_run default_opts [demo_env ''init'', demo_env ''asterisk'', demo_env ''init'', demo_env ''asterisk'']
      \<lparr>mons = [\<lparr>name = ''asterisk'', valid = False, online = False\<rparr>], last_dog_skipped = False, cache_flush_count = 0\<rparr> = Some (s', evs) \<and>
    Kick \<in> set (evs ! 0) \<and> Kick \<in> set (evs ! 1) \<and> Kick \<notin> set (evs ! 2) \<and> Kick \<in> set (evs ! 3)"
  using watchdog_policy[of "[demo_env ''init'', demo_env ''asterisk'', demo_env ''init'', demo_env ''asterisk'']"
      "\<lparr>mons = [\<lparr>name = ''asterisk'', valid = False, online = False\<rparr>], last_dog_skipped = False, cache_flush_count = 0\<rparr>" default_opts]
    demo_env_good demo_running
  by (auto simp: less_Suc_eq numeral_eq_Suc nth_Cons')

text \<open>
  One scan is exact: it returns, its result is the number of processes that were known to be
  running and are not found any more, and it records as running those that were or are
  found now.  Stopping early, the order of the directory and repeated matches do not matter.
\<close>

lemma find_processes_exact:
  assumes "files_fit status ds"
  shows "\<exists>ms' ev. find_processes (Some ds) status ms =
      Some (ms', int (length (filter (\<lambda>m. online m \<and> \<not> present status ds (name m)) ms)), ev) \<and>
    map name ms' = map name ms \<and> map online ms' = map (\<lambda>m. online m \<or> present status ds (name m)) ms"
  using find_processes_run[OF assms, of ms] by blast

text \<open>
  C39.  The name reader, which moves the file through a buffer of 127 characters, computes the
  text after the keyword of the first terminated line that has it, as long as the lines up to
  there fit the buffer, and returns; a file that starts with 127 characters without
  a line end is never left.
\<close>

theorem name_line_reads:
  "(lines_fit file \<longrightarrow> name_line [] file False = Some (first_name file)) \<and>
   (127 \<le> length file \<and> (\<forall>c\<in>set (take 127 file). \<not> is_eol c) \<longrightarrow> name_line [] file False = None)"
proof (intro conjI impI)
  show "lines_fit file \<Longrightarrow> name_line [] file False = Some (first_name file)" using name_line_correct[of "[]" "file"] by simp
next
  assume a: "127 \<le> length file \<and> (\<forall>c\<in>set (take 127 file). \<not> is_eol c)"
  then have "split_line (take 127 file) = None" by (auto simp: split_line_def list_ex_iff)
  then have "name_line [] file False = name_line (take 127 file) (drop 127 file) False"
    using a by (subst name_line.simps) simp
  then show "name_line [] file False = None" using name_line_stuck[of "take 127 file"] a by simp
qed

theorem name_line_reads_witness:
  "name_line [] ''Name: x'' False = Some None \<and> name_line [] (replicate 200 CHR ''x'') False = None"
proof -
  have "lines_fit ''Name: x''" "first_name ''Name: x'' = None"
    by (simp_all add: lines_fit.simps first_name.simps split_line_def is_eol_def code_def)
  then show ?thesis using name_line_reads[of "''Name: x''"] name_line_reads[of "replicate 200 CHR ''x''"]
    by (simp add: is_eol_def code_def)
qed

text \<open>The thirty-third process on the command line is written behind the array.\<close>

lemma monitor_overflow:
  "parse_opts (replicate 33 (CHR ''p'', ''x'')) default_opts = Inl Monitor_overflow"
  by (simp add: default_opts_def MAX_PROCESS_def numeral_eq_Suc)

end
