(* ===== verification/Zapscan.thy ===== *)
theory Zapscan
  imports Cstr
begin

text \<open>
  The configuration generator \<open>src/src/zapscan.c\<close>: it removes the channel lines from
  \<open>zaptel.conf\<close> and \<open>zapata.conf\<close>, asks the Zaptel driver for the kind of each channel and
  writes new ones.  A file is its text, \<open>None\<close> where it does not exist.  Which files open
  and what the driver answers are parameters; the answers are those up to the first channel
  the driver does not know.
\<close>

section \<open>Data\<close>

text \<open>\<open>ztp.sigcap & (__ZT_SIG_FXO|__ZT_SIG_FXS)\<close>: one bit, the other, or neither or both.\<close>

datatype cap = Cap_FXO | Cap_FXS | Cap_other

record conf =
  zaptel_conf :: "string option"
  zapscan_conf :: "string option"
  zapata_conf :: "string option"

record access =
  dev_ok :: bool
  tmp_ok :: bool
  zdc_ok :: bool
  zsc_ok :: bool
  zap_ok :: bool

section \<open>Library calls\<close>

text \<open>\<open>fgets\<close> with room for \<open>n\<close> characters reads through the next line end.\<close>

fun fgets :: "nat \<Rightarrow> string \<Rightarrow> string \<times> string" where
  "fgets 0 s = ([], s)"
| "fgets (Suc n) [] = ([], [])"
| "fgets (Suc n) (c # cs) = (if c = NL then ([c], cs) else let (l, r) = fgets n cs in (c # l, r))"

lemma fgets_append: "fgets n s = (l, r) \<Longrightarrow> s = l @ r"
  by (induction n s arbitrary: l r rule: fgets.induct) (auto split: if_splits prod.splits)

lemma fgets_nonempty: "fgets (Suc n) (c # cs) = (l, r) \<Longrightarrow> l \<noteq> []"
  by (auto split: if_splits prod.splits)

section \<open>Removing lines\<close>

text \<open>\<open>sizeof(curr_line) - 1\<close>\<close>

definition LINE_MAX :: nat where "LINE_MAX = 254"

function fgets_all :: "string \<Rightarrow> string list" where
  "fgets_all s = (if s = [] then [] else let (l, r) = fgets LINE_MAX s in l # fgets_all r)"
  by pat_completeness auto

termination fgets_all
proof (relation "measure length", goal_cases)
  case (2 s lr l r)
  then have "s = l @ r" using fgets_append by metis
  moreover have "l \<noteq> []" using 2 fgets_nonempty[of 253] by (cases s) (auto simp: LINE_MAX_def numeral_eq_Suc split: if_splits prod.splits)
  ultimately show ?case by simp
qed simp

declare fgets_all.simps [simp del]

definition begins :: "string \<Rightarrow> string \<Rightarrow> bool" where
  "begins l text = (take (length text) l = text)"

text \<open>The loop with its one line of delay.\<close>

fun strip_loop :: "string \<Rightarrow> string \<Rightarrow> string \<Rightarrow> string list \<Rightarrow> string" where
  "strip_loop text1 text2 prev_line [] = prev_line"
| "strip_loop text1 text2 prev_line (curr_line # ls) =
     (if begins curr_line text1 \<or> begins curr_line text2
      then (if prev_line \<noteq> [] \<and> hd prev_line = NL then [] else prev_line) @ strip_loop text1 text2 [] ls
      else prev_line @ strip_loop text1 text2 curr_line ls)"

definition strip_lines :: "bool \<Rightarrow> string \<Rightarrow> string \<Rightarrow> string option \<Rightarrow> string option" where
  "strip_lines fptemp text1 text2 fp =
     (case fp of
        None \<Rightarrow> None
      | Some s \<Rightarrow> if fptemp then Some (strip_loop text1 text2 [] (fgets_all s)) else Some s)"

section \<open>The scan\<close>

text \<open>One channel: the new \<open>oldsig\<close> and what is written to the three files.\<close>

definition channel_out :: "int \<Rightarrow> nat \<Rightarrow> cap \<Rightarrow> int \<times> string \<times> string \<times> string" where
  "channel_out oldsig x cap =
     (case cap of
        Cap_FXO \<Rightarrow>
          if oldsig \<noteq> 1
          then (1, NL # ''fxoks='' @ dec x, ''['' @ dec x @ '']'' @ [NL] @ ''port=fxo'' @ [NL], NL # ''signalling = fxo_ks'' @ [NL] @ ''channel => '' @ dec x)
          else (1, '','' @ dec x, ''['' @ dec x @ '']'' @ [NL] @ ''port=fxo'' @ [NL], '','' @ dec x)
      | Cap_FXS \<Rightarrow>
          if oldsig \<noteq> 2
          then (2, NL # ''fxsks='' @ dec x, ''['' @ dec x @ '']'' @ [NL] @ ''port=fxs'' @ [NL], NL # ''signalling = fxs_ks'' @ [NL] @ ''channel => '' @ dec x)
          else (2, '','' @ dec x, ''['' @ dec x @ '']'' @ [NL] @ ''port=fxs'' @ [NL], '','' @ dec x)
      | Cap_other \<Rightarrow> (oldsig, [], [], []))"

fun scan_channels :: "int \<Rightarrow> nat \<Rightarrow> cap list \<Rightarrow> string \<times> string \<times> string" where
  "scan_channels oldsig x [] = ([NL], [NL], [NL])"
| "scan_channels oldsig x (cap # caps) =
     (let (oldsig, d, s, p) = channel_out oldsig x cap; (d', s', p') = scan_channels oldsig (x + 1) caps in (d @ d', s @ s', p @ p'))"

definition append_to :: "bool \<Rightarrow> string \<Rightarrow> string option \<Rightarrow> string option" where
  "append_to ok new fp = (if ok then Some ((case fp of None \<Rightarrow> [] | Some s \<Rightarrow> s) @ new) else fp)"

text \<open>\<open>fopen\<close> in mode \<open>a\<close> creates a missing file, in mode \<open>w\<close> empties it.\<close>

definition zapscan :: "access \<Rightarrow> cap list \<Rightarrow> conf \<Rightarrow> nat \<times> conf" where
  "zapscan a caps f =
     (let zt = strip_lines (tmp_ok a) ''fxoks='' ''fxsks='' (zaptel_conf f);
          zt = strip_lines (tmp_ok a) ''fxoks ='' ''fxsks ='' zt;
          za = strip_lines (tmp_ok a) ''signalling ='' ''channel =>'' (zapata_conf f);
          zt = append_to (zdc_ok a) [] zt;
          zs = (if zsc_ok a then Some [] else zapscan_conf f);
          za = append_to (zap_ok a) [] za
      in if \<not> dev_ok a then (1, \<lparr>zaptel_conf = zt, zapscan_conf = zs, zapata_conf = za\<rparr>)
         else let (d, s, p) = scan_channels (-1) 1 caps
              in (0, \<lparr>zaptel_conf = append_to (zdc_ok a) d zt, zapscan_conf = append_to (zsc_ok a) s zs, zapata_conf = append_to (zap_ok a) p za\<rparr>))"

section \<open>Lines\<close>

definition line_ok :: "string \<Rightarrow> bool" where
  "line_ok l \<longleftrightarrow> l \<noteq> [] \<and> last l = NL \<and> NL \<notin> set (butlast l) \<and> length l \<le> LINE_MAX"

text \<open>Text whose lines all end and fit the line buffer.\<close>

definition text_ok :: "string \<Rightarrow> bool" where
  "text_ok s \<longleftrightarrow> list_all line_ok (fgets_all s)"

lemma fgets_line: "NL \<notin> set b \<Longrightarrow> length b < n \<Longrightarrow> fgets n (b @ NL # r) = (b @ [NL], r)"
proof (induction b arbitrary: n)
  case Nil
  then show ?case by (cases n) auto
next
  case (Cons c b)
  then show ?case by (cases n) auto
qed

lemma fgets_line_ok:
  assumes "line_ok l"
  shows "fgets LINE_MAX (l @ r) = (l, r)"
proof -
  obtain b where b: "l = b @ [NL]" using assms by (metis append_butlast_last_id line_ok_def)
  then have "NL \<notin> set b" "length b < LINE_MAX" using assms by (auto simp: line_ok_def)
  then show ?thesis using fgets_line[of b LINE_MAX r] b by simp
qed

lemma fgets_all_concat: "list_all line_ok ls \<Longrightarrow> fgets_all (concat ls) = ls"
proof (induction ls)
  case (Cons l ls)
  then have "l @ concat ls \<noteq> []" by (auto simp: line_ok_def)
  then show ?case using Cons by (simp add: fgets_all.simps[of "l @ concat ls"] fgets_line_ok)
qed (simp add: fgets_all.simps)

lemma concat_fgets_all: "concat (fgets_all s) = s"
proof (induction s rule: fgets_all.induct)
  case (1 s)
  obtain l r where lr: "fgets LINE_MAX s = (l, r)" by force
  show ?case
  proof (cases "s = []")
    case False
    then have "concat (fgets_all r) = r" using 1 lr by simp
    then show ?thesis using False lr fgets_append[OF lr] by (subst fgets_all.simps) simp
  qed (simp add: fgets_all.simps)
qed

text \<open>What a pass keeps: the lines that do not match, without a blank one before a match.\<close>

fun keep :: "(string \<Rightarrow> bool) \<Rightarrow> string list \<Rightarrow> string list" where
  "keep m [] = []"
| "keep m (l # ls) = (if m l \<or> hd l = NL \<and> ls \<noteq> [] \<and> m (hd ls) then keep m ls else l # keep m ls)"

lemma strip_loop_keep:
  assumes "text1 \<noteq> []" "text2 \<noteq> []" "list_all line_ok ls" "m = (\<lambda>l. begins l text1 \<or> begins l text2)"
  shows "strip_loop text1 text2 [] ls = concat (keep m ls) \<and>
    (\<forall>p. line_ok p \<and> \<not> m p \<longrightarrow> strip_loop text1 text2 p ls = concat (keep m (p # ls)))"
  using assms(3)
proof (induction ls)
  case Nil
  then show ?case by (simp add: assms(4))
next
  case (Cons l ls)
  then have "line_ok l" "l \<noteq> []" by (auto simp: line_ok_def)
  then show ?case using Cons by (auto simp: assms(4) line_ok_def)
qed

definition sel :: "string \<Rightarrow> string \<Rightarrow> string \<Rightarrow> bool" where
  "sel text1 text2 l \<longleftrightarrow> begins l text1 \<or> begins l text2"

lemma strip_lines_keep:
  assumes "text1 \<noteq> []" "text2 \<noteq> []" "list_all line_ok ls"
  shows "strip_lines True text1 text2 (Some (concat ls)) = Some (concat (keep (sel text1 text2) ls))"
proof -
  have "sel text1 text2 = (\<lambda>l. begins l text1 \<or> begins l text2)" by (simp add: sel_def fun_eq_iff)
  from strip_loop_keep[OF assms this] show ?thesis using assms(3) by (simp add: strip_lines_def fgets_all_concat)
qed

lemma set_keep: "set (keep m ls) \<subseteq> {l \<in> set ls. \<not> m l}"
  by (induction ls) auto

lemma keep_ok: "list_all line_ok ls \<Longrightarrow> list_all line_ok (keep m ls)"
  using set_keep[of m ls] by (auto simp: list_all_iff)

lemma keep_none: "\<forall>l\<in>set ls. \<not> m l \<Longrightarrow> keep m ls = ls"
  by (induction ls) (auto simp: neq_Nil_conv)

lemma keep_all: "\<forall>l\<in>set ms. m l \<Longrightarrow> keep m ms = []"
  by (induction ms) auto

text \<open>A blank line and matching lines at the end go away.\<close>

lemma keep_tail:
  assumes "\<forall>l\<in>set ls. \<not> m l" "\<forall>l\<in>set ms. m l" "ms \<noteq> []" "\<not> m [NL]"
  shows "keep m (ls @ [NL] # ms) = ls"
  using assms(1)
proof (induction ls)
  case Nil
  obtain a b where "ms = a # b" using assms(3) by (cases ms) auto
  then show ?case using assms(2,4) keep_all[of ms m] by simp
next
  case (Cons l ls)
  then have "\<not> m (hd (ls @ [NL] # ms))" using assms(4) by (cases ls) auto
  then show ?case using Cons by simp
qed

section \<open>What the scan writes\<close>

lemma dec_chars: "c \<in> set (dec n) \<Longrightarrow> c \<noteq> NL"
proof (induction n rule: dec.induct)
  case (1 n)
  have nl: "char_of (48 + k) \<noteq> NL" if "k < 10" for k :: nat
  proof
    assume "char_of (48 + k) = NL"
    then have "of_char (char_of (48 + k) :: char) = (of_char NL :: nat)" by simp
    then show False using that by (simp add: NL_def)
  qed
  show ?case
  proof (cases "n < 10")
    case True
    then show ?thesis using 1(2) nl by (simp add: dec.simps[of n])
  next
    case False
    then show ?thesis using 1 nl[of "n mod 10"] by (auto simp: dec.simps[of n])
  qed
qed

lemma length_dec: "n < 100 \<Longrightarrow> length (dec n) \<le> 2"
  by (auto simp: dec.simps[of n] dec.simps[of "n div 10"])

text \<open>Both configuration files have the same structure: groups of channels, each opened by a
  head \<open>h1\<close> or \<open>h2\<close>.\<close>

fun group :: "string \<Rightarrow> string \<Rightarrow> int \<Rightarrow> nat \<Rightarrow> cap list \<Rightarrow> string" where
  "group h1 h2 oldsig x [] = [NL]"
| "group h1 h2 oldsig x (cap # caps) =
     (case cap of
        Cap_FXO \<Rightarrow> (if oldsig \<noteq> 1 then NL # h1 @ dec x else '','' @ dec x) @ group h1 h2 1 (x + 1) caps
      | Cap_FXS \<Rightarrow> (if oldsig \<noteq> 2 then NL # h2 @ dec x else '','' @ dec x) @ group h1 h2 2 (x + 1) caps
      | Cap_other \<Rightarrow> group h1 h2 oldsig (x + 1) caps)"

lemma scan_channels_group:
  "fst (scan_channels oldsig x caps) = group ''fxoks='' ''fxsks='' oldsig x caps"
  "snd (snd (scan_channels oldsig x caps)) =
     group (''signalling = fxo_ks'' @ [NL] @ ''channel => '') (''signalling = fxs_ks'' @ [NL] @ ''channel => '') oldsig x caps"
proof (induction caps arbitrary: oldsig x)
  case (Cons cap caps)
  { case 1 show ?case by (cases cap) (auto simp: channel_out_def split_beta Cons.IH(1)[simplified]) }
  { case 2 show ?case by (cases cap) (auto simp: channel_out_def split_beta Cons.IH(2)[simplified]) }
qed simp_all

text \<open>A head: complete matching lines and the start of one more.\<close>

definition head_ok :: "(string \<Rightarrow> bool) \<Rightarrow> string list \<Rightarrow> string \<Rightarrow> bool" where
  "head_ok m pre c \<longleftrightarrow> list_all (\<lambda>l. line_ok l \<and> m l) pre \<and> NL \<notin> set c \<and> length c \<le> 11 \<and> (\<forall>t. m (c @ t))"

lemma group_open:
  assumes "head_ok m pre1 c1" "head_ok m pre2 c2"
  shows "NL \<notin> set cur \<Longrightarrow> \<forall>t. m (cur @ t) \<Longrightarrow> oldsig = 1 \<or> oldsig = 2 \<Longrightarrow> x + length caps \<le> 100 \<Longrightarrow> length caps \<le> 79 \<Longrightarrow>
    length cur + 3 * length caps + 1 \<le> LINE_MAX \<Longrightarrow>
    \<exists>ms. cur @ group (concat pre1 @ c1) (concat pre2 @ c2) oldsig x caps = concat ms \<and> ms \<noteq> [] \<and> list_all (\<lambda>l. line_ok l \<and> m l) ms"
proof (induction caps arbitrary: cur oldsig x)
  case Nil
  then show ?case by (intro exI[of _ "[cur @ [NL]]"]) (simp add: line_ok_def)
next
  case (Cons cap caps)
  have x: "length (dec x) \<le> 2" "NL \<notin> set (dec x)" using Cons.prems(4) length_dec[of x] dec_chars by auto
  have cont: "\<exists>ms. cur @ '','' @ dec x @ group (concat pre1 @ c1) (concat pre2 @ c2) s (x + 1) caps = concat ms \<and> ms \<noteq> [] \<and> list_all (\<lambda>l. line_ok l \<and> m l) ms"
    if "s = 1 \<or> s = 2" for s
    using Cons.IH[of "cur @ '','' @ dec x" s "x + 1"] Cons.prems x that by (simp add: NL_def)
  have new: "\<exists>ms. cur @ NL # (concat pre @ c) @ dec x @ group (concat pre1 @ c1) (concat pre2 @ c2) s (x + 1) caps = concat ms \<and> ms \<noteq> [] \<and> list_all (\<lambda>l. line_ok l \<and> m l) ms"
    if "s = 1 \<or> s = 2" and h: "head_ok m pre c" for s pre c
  proof -
    have "NL \<notin> set (c @ dec x)" "\<forall>t. m ((c @ dec x) @ t)" "length (c @ dec x) + 3 * length caps + 1 \<le> LINE_MAX"
      using h x Cons.prems(5) by (auto simp: head_ok_def LINE_MAX_def)
    from Cons.IH[OF this(1,2) that(1), of "x + 1"] this(3) Cons.prems(4,5) obtain ms where
      "(c @ dec x) @ group (concat pre1 @ c1) (concat pre2 @ c2) s (x + 1) caps = concat ms" "list_all (\<lambda>l. line_ok l \<and> m l) ms" by auto
    moreover have "line_ok (cur @ [NL]) \<and> m (cur @ [NL])" using Cons.prems(1,2,6) by (simp add: line_ok_def)
    ultimately show ?thesis using h by (intro exI[of _ "(cur @ [NL]) # pre @ ms"]) (simp add: head_ok_def)
  qed
  show ?case
  proof (cases cap)
    case Cap_FXO
    then show ?thesis using cont[of 1] new[of 1, OF _ assms(1)] by (cases "oldsig = 1") simp_all
  next
    case Cap_FXS
    then show ?thesis using cont[of 2] new[of 2, OF _ assms(2)] by (cases "oldsig = 2") simp_all
  next
    case Cap_other
    then show ?thesis using Cons.IH[of cur oldsig "x + 1"] Cons.prems by simp
  qed
qed

lemma group_lines:
  assumes "head_ok m pre1 c1" "head_ok m pre2 c2"
  shows "x + length caps \<le> 100 \<Longrightarrow> length caps \<le> 80 \<Longrightarrow> \<exists>c\<in>set caps. c \<noteq> Cap_other \<Longrightarrow>
    \<exists>ms. group (concat pre1 @ c1) (concat pre2 @ c2) (-1) x caps = NL # concat ms \<and> ms \<noteq> [] \<and> list_all (\<lambda>l. line_ok l \<and> m l) ms"
proof (induction caps arbitrary: x)
  case (Cons cap caps)
  have x: "length (dec x) \<le> 2" "NL \<notin> set (dec x)" using Cons.prems(1) length_dec[of x] dec_chars by auto
  have new: "\<exists>ms. NL # (concat pre @ c) @ dec x @ group (concat pre1 @ c1) (concat pre2 @ c2) s (x + 1) caps = NL # concat ms \<and> ms \<noteq> [] \<and> list_all (\<lambda>l. line_ok l \<and> m l) ms"
    if "s = 1 \<or> s = 2" and h: "head_ok m pre c" for s pre c
  proof -
    have "NL \<notin> set (c @ dec x)" "\<forall>t. m ((c @ dec x) @ t)" "length (c @ dec x) + 3 * length caps + 1 \<le> LINE_MAX"
      using h x Cons.prems(2) by (auto simp: head_ok_def LINE_MAX_def)
    from group_open[OF assms this(1,2) that(1), of "x + 1" caps] this(3) Cons.prems(1,2) obtain ms where
      "(c @ dec x) @ group (concat pre1 @ c1) (concat pre2 @ c2) s (x + 1) caps = concat ms" "ms \<noteq> []" "list_all (\<lambda>l. line_ok l \<and> m l) ms" by auto
    then show ?thesis using h by (intro exI[of _ "pre @ ms"]) (simp add: head_ok_def)
  qed
  show ?case
  proof (cases cap)
    case Cap_FXO
    then show ?thesis using new[of 1, OF _ assms(1)] by simp
  next
    case Cap_FXS
    then show ?thesis using new[of 2, OF _ assms(2)] by simp
  next
    case Cap_other
    then show ?thesis using Cons.IH[of "x + 1"] Cons.prems by auto
  qed
qed simp

section \<open>Two runs\<close>

definition zt_sel :: "string \<Rightarrow> bool" where "zt_sel = sel ''fxoks='' ''fxsks=''"
definition zt2_sel :: "string \<Rightarrow> bool" where "zt2_sel = sel ''fxoks ='' ''fxsks =''"
definition za_sel :: "string \<Rightarrow> bool" where "za_sel = sel ''signalling ='' ''channel =>''"

lemma zt_heads: "head_ok zt_sel [] ''fxoks=''" "head_ok zt_sel [] ''fxsks=''"
  by (simp_all add: head_ok_def zt_sel_def sel_def begins_def NL_def)

lemma za_heads:
  "head_ok za_sel [''signalling = fxo_ks'' @ [NL]] ''channel => ''" "head_ok za_sel [''signalling = fxs_ks'' @ [NL]] ''channel => ''"
  by (simp_all add: head_ok_def za_sel_def sel_def begins_def NL_def line_ok_def LINE_MAX_def)

lemma sel_blank: "\<not> zt_sel [NL]" "\<not> zt2_sel [NL]" "\<not> za_sel [NL]"
  by (simp_all add: zt_sel_def zt2_sel_def za_sel_def sel_def begins_def NL_def)

lemma blank_ok: "line_ok [NL]"
  by (simp add: line_ok_def LINE_MAX_def)

lemma strip_zt:
  assumes "list_all line_ok ls"
  shows "strip_lines True ''fxoks ='' ''fxsks ='' (strip_lines True ''fxoks='' ''fxsks='' (Some (concat ls))) = Some (concat (keep zt2_sel (keep zt_sel ls)))"
  using strip_lines_keep[of "''fxoks=''" "''fxsks=''" ls] strip_lines_keep[of "''fxoks =''" "''fxsks =''" "keep zt_sel ls"] keep_ok[OF assms] assms
  by (simp add: zt_sel_def zt2_sel_def)

lemma strip_za:
  "list_all line_ok ls \<Longrightarrow> strip_lines True ''signalling ='' ''channel =>'' (Some (concat ls)) = Some (concat (keep za_sel ls))"
  using strip_lines_keep[of "''signalling =''" "''channel =>''" ls] by (simp add: za_sel_def)

text \<open>The files after a run: what was kept, a blank line, and the new channel lines.\<close>

definition all_open :: "access \<Rightarrow> bool" where
  "all_open a \<longleftrightarrow> dev_ok a \<and> tmp_ok a \<and> zdc_ok a \<and> zsc_ok a \<and> zap_ok a"

lemma zapscan_lines:
  assumes "all_open a" and "list_all line_ok zt" and "list_all line_ok za"
    and "zaptel_conf f = Some (concat zt)" and "zapata_conf f = Some (concat za)"
  shows "zapscan a caps f =
    (0, \<lparr>zaptel_conf = Some (concat (keep zt2_sel (keep zt_sel zt)) @ fst (scan_channels (-1) 1 caps)),
        zapscan_conf = Some (fst (snd (scan_channels (-1) 1 caps))),
        zapata_conf = Some (concat (keep za_sel za) @ snd (snd (scan_channels (-1) 1 caps)))\<rparr>)"
  using assms strip_zt[OF assms(2)] strip_za[OF assms(3)]
  by (simp add: zapscan_def all_open_def append_to_def Let_def split_beta)

lemma channels_lines:
  assumes "length caps \<le> 80" and "\<exists>c\<in>set caps. c \<noteq> Cap_other"
  obtains ms ns where "fst (scan_channels (-1) 1 caps) = concat ([NL] # ms)" "ms \<noteq> []" "list_all (\<lambda>l. line_ok l \<and> zt_sel l) ms"
    "snd (snd (scan_channels (-1) 1 caps)) = concat ([NL] # ns)" "ns \<noteq> []" "list_all (\<lambda>l. line_ok l \<and> za_sel l) ns"
proof -
  have l: "1 + length caps \<le> 100" using assms(1) by simp
  from group_lines[OF zt_heads l assms] group_lines[OF za_heads l assms] that show ?thesis
    unfolding scan_channels_group by auto
qed

lemma keep_generated_zt:
  assumes "list_all (\<lambda>l. line_ok l \<and> zt_sel l) ms" "ms \<noteq> []" "zt' = keep zt2_sel (keep zt_sel zt)"
  shows "keep zt2_sel (keep zt_sel (zt' @ [NL] # ms)) = zt'"
proof -
  have "\<forall>l\<in>set zt'. \<not> zt_sel l \<and> \<not> zt2_sel l"
    using set_keep[of zt2_sel "keep zt_sel zt"] set_keep[of zt_sel zt] assms(3) by auto
  then show ?thesis using keep_tail[of zt' zt_sel ms] keep_none[of zt' zt2_sel] assms(1,2) sel_blank by (simp add: list_all_iff)
qed

section \<open>Properties\<close>

text \<open>
  C40.  Scanning is idempotent: when all files open and the driver reports at least one
  analogue channel (and at most 80, so that a channel line fits the line buffer), a second
  scan with the same hardware leaves all three files as the first left them, for
  any configuration files of complete lines that fit the buffer.  The old channel lines and the
  blank line before them are removed, and nothing else.
\<close>

theorem zapscan_idempotent:
  assumes "all_open a" and "length caps \<le> 80" and "\<exists>c\<in>set caps. c \<noteq> Cap_other"
    and "zaptel_conf f = Some zt" and "text_ok zt" and "zapata_conf f = Some za" and "text_ok za"
  shows "zapscan a caps (snd (zapscan a caps f)) = zapscan a caps f"
proof -
  define zt' za' where "zt' = keep zt2_sel (keep zt_sel (fgets_all zt))" and "za' = keep za_sel (fgets_all za)"
  have ok: "list_all line_ok (fgets_all zt)" "list_all line_ok (fgets_all za)" using assms(5,7) by (simp_all add: text_ok_def)
  obtain ms ns where g: "fst (scan_channels (-1) 1 caps) = concat ([NL] # ms)" "ms \<noteq> []" "list_all (\<lambda>l. line_ok l \<and> zt_sel l) ms"
    "snd (snd (scan_channels (-1) 1 caps)) = concat ([NL] # ns)" "ns \<noteq> []" "list_all (\<lambda>l. line_ok l \<and> za_sel l) ns"
    by (rule channels_lines[OF assms(2,3)])
  note first = zapscan_lines[OF assms(1) ok, of f caps, unfolded concat_fgets_all, OF assms(4,6), folded zt'_def za'_def]
  have "list_all line_ok zt'" "list_all line_ok za'" using ok by (simp_all add: zt'_def za'_def keep_ok)
  then have l: "list_all line_ok (zt' @ [NL] # ms)" "list_all line_ok (za' @ [NL] # ns)" using g(3,6) blank_ok by (auto simp: list_all_iff)
  have "\<forall>l\<in>set za'. \<not> za_sel l" using set_keep[of za_sel "fgets_all za"] by (auto simp: za'_def)
  then have k: "keep zt2_sel (keep zt_sel (zt' @ [NL] # ms)) = zt'" "keep za_sel (za' @ [NL] # ns) = za'"
    using keep_generated_zt[OF g(3,2) zt'_def] keep_tail[of za' za_sel ns] g(5,6) sel_blank by (simp_all add: list_all_iff)
  define f1 where "f1 = snd (zapscan a caps f)"
  have "zaptel_conf f1 = Some (concat (zt' @ [NL] # ms))" "zapata_conf f1 = Some (concat (za' @ [NL] # ns))"
    unfolding f1_def first g(1,4) by (simp_all only: snd_conv conf.simps concat_append)
  from zapscan_lines[OF assms(1) l this, of caps] have "zapscan a caps f1 = zapscan a caps f" unfolding k first .
  then show ?thesis unfolding f1_def .
qed

theorem zapscan_idempotent_witness:
  "zapscan \<lparr>dev_ok = True, tmp_ok = True, zdc_ok = True, zsc_ok = True, zap_ok = True\<rparr> [Cap_FXO, Cap_FXO, Cap_FXS]
     (snd (zapscan \<lparr>dev_ok = True, tmp_ok = True, zdc_ok = True, zsc_ok = True, zap_ok = True\<rparr> [Cap_FXO, Cap_FXO, Cap_FXS]
        \<lparr>zaptel_conf = Some ([NL] @ ''fxoks=1'' @ [NL]), zapscan_conf = None, zapata_conf = Some []\<rparr>)) =
   zapscan \<lparr>dev_ok = True, tmp_ok = True, zdc_ok = True, zsc_ok = True, zap_ok = True\<rparr> [Cap_FXO, Cap_FXO, Cap_FXS]
     \<lparr>zaptel_conf = Some ([NL] @ ''fxoks=1'' @ [NL]), zapscan_conf = None, zapata_conf = Some []\<rparr>"
proof -
  have "list_all line_ok [[NL], ''fxoks=1'' @ [NL]]" by (simp add: line_ok_def LINE_MAX_def NL_def)
  from fgets_all_concat[OF this] this have "text_ok ([NL] @ ''fxoks=1'' @ [NL])" by (simp add: text_ok_def)
  moreover have "text_ok []" by (simp add: text_ok_def fgets_all.simps)
  ultimately show ?thesis
    using zapscan_idempotent[of "\<lparr>dev_ok = True, tmp_ok = True, zdc_ok = True, zsc_ok = True, zap_ok = True\<rparr>" "[Cap_FXO, Cap_FXO, Cap_FXS]"
        "\<lparr>zaptel_conf = Some ([NL] @ ''fxoks=1'' @ [NL]), zapscan_conf = None, zapata_conf = Some []\<rparr>" "[NL] @ ''fxoks=1'' @ [NL]" "[]"]
    by (simp add: all_open_def)
qed

text \<open>Without the device the old channel lines are removed all the same, and none are written.\<close>

lemma zapscan_loses_config:
  "snd (zapscan \<lparr>dev_ok = False, tmp_ok = True, zdc_ok = True, zsc_ok = True, zap_ok = True\<rparr> caps
     \<lparr>zaptel_conf = Some (''fxoks=1'' @ [NL]), zapscan_conf = Some ''x'', zapata_conf = Some []\<rparr>) =
   \<lparr>zaptel_conf = Some [], zapscan_conf = Some [], zapata_conf = Some []\<rparr>"
proof -
  have l: "list_all line_ok [''fxoks=1'' @ [NL]]" "list_all line_ok []" by (simp_all add: line_ok_def LINE_MAX_def NL_def)
  have "keep zt2_sel (keep zt_sel [''fxoks=1'' @ [NL]]) = []" "keep za_sel [] = []"
    by (simp_all add: zt_sel_def sel_def begins_def)
  then show ?thesis using strip_zt[OF l(1)] strip_za[OF l(2)] by (simp add: zapscan_def append_to_def)
qed

text \<open>Without an analogue channel every run adds an empty line.\<close>

lemma zapscan_grows: "fst (scan_channels (-1) 1 [Cap_other]) = [NL]"
  by (simp add: channel_out_def)

end
