(* ===== verification/Leds.thy ===== *)
theory Leds
  imports Prelude
begin

text \<open>
  The LED and reset-button driver \<open>src/src/leds/leds.c\<close> on the programmable flags of the
  BF533: a write of ones to \<open>FIO_FLAG_S\<close> sets flags, to \<open>FIO_FLAG_C\<close> clears them; a flag
  follows the board when it is not an output.  The files under \<open>/proc\<close> are a list of names.
\<close>

definition SD_LED :: nat where "SD_LED = 6"
definition SYS_LED :: nat where "SYS_LED = 7"
definition CFGRESET :: nat where "CFGRESET = 13"

record gpio =
  fio_flag :: u16
  fio_dir :: u16
  fio_inen :: u16
  proc_entries :: "string list"

definition write_FIO_FLAG_S :: "u16 \<Rightarrow> gpio \<Rightarrow> gpio" where
  "write_FIO_FLAG_S v g = g\<lparr>fio_flag := fio_flag g OR v\<rparr>"

definition write_FIO_FLAG_C :: "u16 \<Rightarrow> gpio \<Rightarrow> gpio" where
  "write_FIO_FLAG_C v g = g\<lparr>fio_flag := fio_flag g AND NOT v\<rparr>"

text \<open>The kernel's \<open>simple_strtol\<close> is the parameter \<open>strtol\<close>.\<close>

definition proc_write_sd_led :: "(string \<Rightarrow> int) \<Rightarrow> string \<Rightarrow> nat \<Rightarrow> gpio \<Rightarrow> nat \<times> gpio" where
  "proc_write_sd_led strtol buffer count g =
     (count, if strtol buffer \<noteq> 0 then write_FIO_FLAG_S (push_bit SD_LED 1) g else write_FIO_FLAG_C (push_bit SD_LED 1) g)"

definition proc_write_sys_led :: "(string \<Rightarrow> int) \<Rightarrow> string \<Rightarrow> nat \<Rightarrow> gpio \<Rightarrow> nat \<times> gpio" where
  "proc_write_sys_led strtol buffer count g =
     (count, if strtol buffer \<noteq> 0 then write_FIO_FLAG_S (push_bit SYS_LED 1) g else write_FIO_FLAG_C (push_bit SYS_LED 1) g)"

definition proc_read_cfgreset :: "gpio \<Rightarrow> string" where
  "proc_read_cfgreset g = (if fio_flag g AND push_bit CFGRESET 1 \<noteq> 0 then ''1'' else ''0'') @ [CHR 0x0A]"

definition leds_init :: "gpio \<Rightarrow> gpio" where
  "leds_init g = g\<lparr>proc_entries := proc_entries g @ [''sd_led'', ''sys_led'', ''cfgreset''],
     fio_dir := fio_dir g OR push_bit SD_LED 1 OR push_bit SYS_LED 1, fio_inen := fio_inen g OR push_bit CFGRESET 1\<rparr>"

definition leds_cleanup :: "gpio \<Rightarrow> gpio" where
  "leds_cleanup g = g\<lparr>proc_entries := remove1 ''sys_led'' (remove1 ''sd_led'' (proc_entries g))\<rparr>"

lemmas led_defs = proc_write_sd_led_def proc_write_sys_led_def write_FIO_FLAG_S_def write_FIO_FLAG_C_def SD_LED_def SYS_LED_def CFGRESET_def

section \<open>What the files do\<close>

text \<open>A write moves the pin of its LED to the value asked for, and no other pin.\<close>

lemma led_write:
  "k < 16 \<Longrightarrow> bit (fio_flag (snd (proc_write_sd_led f b n g))) k \<longleftrightarrow> (if k = 6 then f b \<noteq> 0 else bit (fio_flag g) k)"
  "k < 16 \<Longrightarrow> bit (fio_flag (snd (proc_write_sys_led f b n g))) k \<longleftrightarrow> (if k = 7 then f b \<noteq> 0 else bit (fio_flag g) k)"
  using bit_pin[of 6 k] bit_pin[of 7 k]
  by (auto simp: led_defs bit_or_iff bit_and_iff bit_not_iff simp del: push_bit_of_1 bit_pin)

text \<open>The two LEDs are independent, and the reset button is read through both.\<close>

lemma led_writes_commute:
  "snd (proc_write_sd_led f b n (snd (proc_write_sys_led f c m g))) = snd (proc_write_sys_led f c m (snd (proc_write_sd_led f b n g)))"
proof -
  have "fio_flag (snd (proc_write_sd_led f b n (snd (proc_write_sys_led f c m g)))) = fio_flag (snd (proc_write_sys_led f c m (snd (proc_write_sd_led f b n g))))"
    by (rule bit_word_eqI) (auto simp: led_write)
  then show ?thesis by (simp add: led_defs)
qed

text \<open>Unloading leaves the file of the reset button behind, whose reader is gone.\<close>

lemma cleanup_leaves_cfgreset:
  "proc_entries (leds_cleanup (leds_init g)) = remove1 ''sys_led'' (remove1 ''sd_led'' (proc_entries g @ [''sd_led'', ''sys_led'', ''cfgreset''])) \<and>
   ''cfgreset'' \<in> set (proc_entries (leds_cleanup (leds_init g)))"
  by (simp add: leds_cleanup_def leds_init_def in_set_remove1)

end
