(* ===== verification/Gsm_Uart.thy ===== *)
theory Gsm_Uart
  imports Wcfxs_Ctl Cstr
begin

text \<open>
  The GSM module of the \<open>zaptel-gsm\<close> variant of the driver, \<open>src/src/zaptel-gsm/gsm_module.c\<close>:
  access to its bus-to-serial converter (SC16IS750), detection, the converter's, the audio
  codec's (WM8510) and the modem's initialisation, and the exchange of text with the modem.

  The card answers to words of 16 bits on the bus that carries bytes for the other cards.
  The state holds the line-card driver's structure (\<open>core\<close>) and all bus requests in their
  order: those of the byte bus, and the words.  The environment gives the word that each
  word read returns, given the requests before it and the word sent.  The functions exist in the build with \<open>CONFIG_4FX_SPORT_INTERFACE\<close>.
  \<open>None\<close> is a computation without a result: a write outside \<open>GSM_string\<close>, or a loop that has
  used up the rounds it was given.
\<close>

section \<open>State\<close>

datatype greq = Byte bev | Word_tx bool u16 | Word_rx u16

datatype gport = Fx port_type_t | GPort

record gsm =
  core :: wc
  reqs :: "greq list"
  port_type :: "gport list"
  card2TDMslot_mapping :: "nat \<Rightarrow> int"
  outgoing_call_state :: nat
  incomming_call_state :: nat
  interrupt_count :: nat
  GSM_string :: string
  txstate :: "nat \<Rightarrow> nat"
  rxhooksig :: "nat \<Rightarrow> rxsig option"
  txdialbuf :: "nat \<Rightarrow> string"
  SIM_Enter_string :: string

record genv =
  base_env :: env
  rxw :: "greq list \<Rightarrow> u16 \<Rightarrow> u16"

text \<open>A step of the line-card driver: its byte requests join the common sequence.\<close>

definition on_core :: "(wc \<Rightarrow> wc) \<Rightarrow> gsm \<Rightarrow> gsm" where
  "on_core f g =
     (let s' = f (core g)
      in g\<lparr>core := s', reqs := reqs g @ map Byte (drop (length (bus (core g))) (bus s'))\<rparr>)"

section \<open>Access to the converter\<close>

text \<open>\<open>sport_tx_word\<close> with (\<open>SPI_NCSA\<close>) and without a chip select, \<open>sport_rx_word\<close>, each between
  the two reconfigurations of the port.\<close>

definition tx_word :: "bool \<Rightarrow> u16 \<Rightarrow> gsm \<Rightarrow> gsm" where
  "tx_word cs w g = g\<lparr>reqs := reqs g @ [Word_tx cs w]\<rparr>"

definition rx_word :: "genv \<Rightarrow> u16 \<Rightarrow> gsm \<Rightarrow> u16 \<times> gsm" where
  "rx_word e w g = (rxw e (reqs g) w, g\<lparr>reqs := reqs g @ [Word_rx w]\<rparr>)"

definition gsm_port :: "nat \<Rightarrow> nat" where
  "gsm_port port = (if 4 < port then port + (0x40 - 4) else port)"

definition fx_read_SPI2UART :: "genv \<Rightarrow> nat \<Rightarrow> u16 \<Rightarrow> gsm \<Rightarrow> u16 \<times> gsm" where
  "fx_read_SPI2UART e port v g = rx_word e v (on_core (wcfxs_setcard (gsm_port port)) g)"

definition fx_write_SPI2UART_wo_CS :: "u16 \<Rightarrow> gsm \<Rightarrow> gsm" where
  "fx_write_SPI2UART_wo_CS v g = tx_word False v g"

definition fx_write_SPI2UART :: "nat \<Rightarrow> u16 \<Rightarrow> gsm \<Rightarrow> gsm" where
  "fx_write_SPI2UART port v g = tx_word True v (on_core (wcfxs_setcard (gsm_port port)) g)"

definition fx_program_register_SPI2UART :: "genv \<Rightarrow> nat \<Rightarrow> u16 \<Rightarrow> gsm \<Rightarrow> int \<times> gsm" where
  "fx_program_register_SPI2UART e port v g =
     (let g = tx_word True v (on_core (wcfxs_setcard (gsm_port port)) g);
          v = v OR 0x8000;
          (reg, g) = rx_word e v g;
          temp = v OR 0xff00
      in (if temp \<noteq> reg then 1 else 0, g))"

section \<open>Detection\<close>

definition gsm_set_led :: "nat \<Rightarrow> u32 \<Rightarrow> gsm \<Rightarrow> gsm" where
  "gsm_set_led port colour g = on_core (fx_set_led port colour) g"

text \<open>Only the first module found is used.\<close>

fun gsm_detect_from :: "genv \<Rightarrow> nat list \<Rightarrow> gsm \<Rightarrow> gsm" where
  "gsm_detect_from e [] g = g"
| "gsm_detect_from e (i # is) g =
     (if port_type g ! i = Fx NoPort
      then let (reg, g) = fx_read_SPI2UART e i 0x9800 g
           in if reg = 0xff1D
              then let g = g\<lparr>port_type := (port_type g)[i := GPort]\<rparr>;
                       g = gsm_set_led (i + 1) 1 g
                   in g\<lparr>core := (core g)\<lparr>curcard := -1\<rparr>\<rparr>
              else gsm_detect_from e is g
      else gsm_detect_from e is g)"

definition gsm_auto_detect :: "genv \<Rightarrow> gsm \<Rightarrow> gsm" where
  "gsm_auto_detect e g = gsm_detect_from e [0..<8] g"

section \<open>Text to and from the modem\<close>

text \<open>A \<open>char\<close> is signed and extended when it becomes the word.\<close>

definition char_word :: "char \<Rightarrow> u16" where
  "char_word c = (if code c < 128 then of_nat (code c) else of_int (int (code c) - 256))"

definition GSM_send :: "nat \<Rightarrow> string \<Rightarrow> gsm \<Rightarrow> gsm" where
  "GSM_send port info g =
     (let g = fold (\<lambda>c. fx_write_SPI2UART port (char_word c)) info g
      in fx_write_SPI2UART port 0x000a (fx_write_SPI2UART port 0x000d g))"

definition STRING_SIZE :: nat where "STRING_SIZE = 60"

definition store_char :: "nat \<Rightarrow> char \<Rightarrow> gsm \<Rightarrow> gsm option" where
  "store_char i c g = (if i < STRING_SIZE then Some (g\<lparr>GSM_string := (GSM_string g)[i := c]\<rparr>) else None)"

text \<open>The receiving loop, for the given number of characters.\<close>

fun recv_chars :: "genv \<Rightarrow> nat \<Rightarrow> nat \<Rightarrow> nat \<Rightarrow> gsm \<Rightarrow> gsm option" where
  "recv_chars e port 0 keep_s g = Some g"
| "recv_chars e port (Suc n) keep_s g =
     (let (temp, g) = fx_read_SPI2UART e port 0x8000 g;
          temp = temp AND 0x00ff
      in if temp = 0x000d \<or> temp = 0x000a
         then if 0 < keep_s then do { g \<leftarrow> store_char keep_s (CHR 0x00) g; recv_chars e port n (keep_s + 1) g }
              else recv_chars e port n keep_s g
         else do { g \<leftarrow> store_char keep_s (char_of (unat temp)) g; recv_chars e port n (keep_s + 1) g })"

definition cstr :: "string \<Rightarrow> string" where
  "cstr s = takeWhile (\<lambda>c. c \<noteq> CHR 0x00) s"

definition GSM_receive :: "genv \<Rightarrow> nat \<Rightarrow> gsm \<Rightarrow> (string \<times> gsm) option" where
  "GSM_receive e port g =
     (let (reg, g) = fx_read_SPI2UART e port 0xC800 g;
          reg = reg AND 0x00ff
      in if reg = 0
         then let g = g\<lparr>GSM_string := (GSM_string g)[0 := CHR ''x'', 1 := CHR 0x00]\<rparr> in Some (cstr (GSM_string g), g)
         else do { g \<leftarrow> recv_chars e port (unat reg) 0 g; Some (cstr (GSM_string g), g) })"

section \<open>Initialisation of the converter and the codec\<close>

text \<open>The words of \<open>init_SC16IS750\<close>; \<open>True\<close> marks those that are read back.\<close>

definition sc16is750_words :: "(bool \<times> u16) list" where
  "sc16is750_words =
     [(True, 0x1880), (True, 0x0006), (True, 0x0800), (True, 0x18BF), (True, 0x10D0), (True, 0x1803), (True, 0x2004),
      (True, 0x301E), (False, 0x10c6), (True, 0x0801), (False, 0x1007), (False, 0x5825), (True, 0x5025)]"

fun program_words :: "genv \<Rightarrow> nat \<Rightarrow> (bool \<times> u16) list \<Rightarrow> gsm \<Rightarrow> int \<times> gsm" where
  "program_words e port [] g = (0, g)"
| "program_words e port ((verify, w) # ws) g =
     (if verify
      then let (ret, g) = fx_program_register_SPI2UART e port w g in if ret \<noteq> 0 then (1, g) else program_words e port ws g
      else program_words e port ws (fx_write_SPI2UART port w g))"

definition init_SC16IS750 :: "genv \<Rightarrow> nat \<Rightarrow> gsm \<Rightarrow> int \<times> gsm" where
  "init_SC16IS750 e port g = program_words e port sc16is750_words g"

definition Codec_reg_data_latch :: "nat \<Rightarrow> gsm \<Rightarrow> gsm" where
  "Codec_reg_data_latch port g = fx_write_SPI2UART port 0x5825 (fx_write_SPI2UART port 0x5821 g)"

definition wm8510_words :: "u16 list" where
  "wm8510_words =
     [0x000F, 0x020F, 0x4138, 0x16D0, 0x1D08, 0x420B, 0x4532, 0x4608, 0x3032, 0x3270, 0x0818, 0x0C00, 0x0A14, 0x0E0A,
      0x1408, 0x0415, 0x5F00, 0x6401, 0x7040, 0x0665]"

definition init_WM8510 :: "nat \<Rightarrow> gsm \<Rightarrow> gsm" where
  "init_WM8510 port g = fold (\<lambda>w g. Codec_reg_data_latch port (fx_write_SPI2UART_wo_CS w g)) wm8510_words g"

section \<open>Initialisation of the modem\<close>

definition wait_g :: "u32 \<Rightarrow> gsm \<Rightarrow> gsm" where
  "wait_g n g = on_core (wait_just_a_bit n) g"

text \<open>One command, a pause, and what has come back.\<close>

definition ask :: "genv \<Rightarrow> nat \<Rightarrow> string \<Rightarrow> u32 \<Rightarrow> gsm \<Rightarrow> (string \<times> gsm) option" where
  "ask e port cmd pause g = GSM_receive e port (wait_g pause (GSM_send port cmd g))"

text \<open>\<open>do ... while (strcmp(p2char, want) && --cntr > 0)\<close>: at most \<open>n\<close> rounds, the last answer is kept.\<close>

fun ask_upto :: "genv \<Rightarrow> nat \<Rightarrow> string \<Rightarrow> u32 \<Rightarrow> string \<Rightarrow> nat \<Rightarrow> gsm \<Rightarrow> (string \<times> gsm) option" where
  "ask_upto e port cmd pause want n g =
     do { (p, g) \<leftarrow> ask e port cmd pause g; if p \<noteq> want \<and> 1 < n then ask_upto e port cmd pause want (n - 1) g else Some (p, g) }"

declare ask_upto.simps [simp del]

text \<open>\<open>do ... while (strcmp(p2char, "0"))\<close>, with a number of rounds to spend.\<close>

fun ask_until :: "genv \<Rightarrow> nat \<Rightarrow> string \<Rightarrow> u32 \<Rightarrow> nat \<Rightarrow> gsm \<Rightarrow> gsm option" where
  "ask_until e port cmd pause 0 g = None"
| "ask_until e port cmd pause (Suc fuel) g =
     do { (p, g) \<leftarrow> ask e port cmd pause g; if p \<noteq> ''0'' then ask_until e port cmd pause fuel g else Some g }"

text \<open>Entering the PIN: an answer other than success and \<open>incorrect password\<close> repeats it.\<close>

fun enter_pin :: "genv \<Rightarrow> nat \<Rightarrow> u32 \<Rightarrow> nat \<Rightarrow> gsm \<Rightarrow> (int \<times> gsm) option" where
  "enter_pin e port pause 0 g = None"
| "enter_pin e port pause (Suc fuel) g =
     do { (p, g) \<leftarrow> ask e port (SIM_Enter_string g) pause g;
          if p = ''+CME ERROR: incorrect password'' then Some (1, g)
          else if p \<noteq> ''0'' then enter_pin e port pause fuel g else Some (0, g) }"

definition reset_modem :: "genv \<Rightarrow> nat \<Rightarrow> u32 \<Rightarrow> gsm \<Rightarrow> (int \<times> gsm) option" where
  "reset_modem e port hz g =
     do { (_, g) \<leftarrow> ask_upto e port ''at+cpowd=1'' (7 * hz) ''NORMAL POWER DOWN'' 3 g;
          let (reg, g) = fx_read_SPI2UART e port 0xd800 g;
          if reg AND 0x0002 \<noteq> 0 then Some (1, g) else Some (0, wait_g hz g) }"

definition start_modem :: "genv \<Rightarrow> nat \<Rightarrow> u32 \<Rightarrow> gsm \<Rightarrow> int \<times> gsm" where
  "start_modem e port hz g =
     (let g = wait_g (3 * hz) (fx_write_SPI2UART port 0x5824 g);
          g = wait_g hz (fx_write_SPI2UART port 0x5825 g);
          (reg, g) = fx_read_SPI2UART e port 0xd800 g
      in (if reg AND 0x0002 = 0 then 1 else 0, g))"

definition check_sim :: "genv \<Rightarrow> nat \<Rightarrow> u32 \<Rightarrow> nat \<Rightarrow> gsm \<Rightarrow> (int \<times> gsm) option" where
  "check_sim e port hz fuel g =
     do { (p, g) \<leftarrow> ask e port ''at+cpin?'' (hz div 2) g;
          if p = ''+CPIN: SIM PIN'' then enter_pin e port (3 * hz) fuel g
          else if p = ''+CME ERROR: SIM not inserted'' then Some (1, g)
          else if p = ''+CPIN: READY'' then Some (0, g)
          else Some (1, g) }"

text \<open>The commands of the second part, each repeated until it succeeds.\<close>

definition modem_setup :: "string list" where
  "modem_setup = [''atx4'', ''at+cmic=0,0'', ''at+sidet=0'', ''at+echo=5000,5,4,0'', ''at+clvl=90'']"

fun ask_all :: "genv \<Rightarrow> nat \<Rightarrow> u32 \<Rightarrow> nat \<Rightarrow> string list \<Rightarrow> gsm \<Rightarrow> gsm option" where
  "ask_all e port pause fuel [] g = Some g"
| "ask_all e port pause fuel (c # cs) g = do { g \<leftarrow> ask_until e port c pause fuel g; ask_all e port pause fuel cs g }"

definition init_GSM :: "genv \<Rightarrow> nat \<Rightarrow> u32 \<Rightarrow> nat \<Rightarrow> gsm \<Rightarrow> (int \<times> gsm) option" where
  "init_GSM e port hz fuel g =
     (let (reg, g) = fx_read_SPI2UART e port 0xd800 g
      in do {
        (r, g) \<leftarrow> (if reg AND 0x0002 \<noteq> 0 then reset_modem e port hz g else Some (0, g));
        if r \<noteq> 0 then Some (1, g)
        else let (r, g) = start_modem e port hz g
             in if r \<noteq> 0 then Some (1, g)
                else do {
                  (_, g) \<leftarrow> ask e port ''at'' hz g;
                  (_, g) \<leftarrow> ask_upto e port ''ate0'' (hz div 10) ''OK'' 3 g;
                  (_, g) \<leftarrow> ask_upto e port ''atv0'' (hz div 10) ''0'' 3 g;
                  (_, g) \<leftarrow> ask_upto e port ''at+cmee=2'' (hz div 10) ''0'' 3 g;
                  (r, g) \<leftarrow> check_sim e port hz fuel g;
                  if r \<noteq> 0 then Some (1, g)
                  else do { g \<leftarrow> ask_all e port (hz div 10) fuel modem_setup (wait_g (10 * hz) g); Some (0, g) }
                }
      })"

definition Initialize_GSM_module :: "genv \<Rightarrow> nat \<Rightarrow> u32 \<Rightarrow> nat \<Rightarrow> gsm \<Rightarrow> (int \<times> gsm) option" where
  "Initialize_GSM_module e port hz fuel g =
     (let (ret, g) = init_SC16IS750 e port g
      in if ret \<noteq> 0 then Some (1, g)
         else do { (ret, g) \<leftarrow> init_GSM e port hz fuel (init_WM8510 port g); if ret \<noteq> 0 then Some (1, g) else Some (0, g) })"

end
