(* ===== verification/Gsm_Chip.thy ===== *)
theory Gsm_Chip
  imports Gsm_Uart
begin

text \<open>
  The hardware of the GSM module, and what the driver's accesses achieve on it.

  The converter is the one its data sheet describes: a word carries the direction in bit 15,
  the register in bits 14 to 11 and data in the low byte; LCR switches between register banks;
  a read answers with ones in the upper byte.  The codec shifts in the words sent without
  chip select, and takes the shifted word, seven bits of register and nine of data, at the
  rising edge of the converter's output pin 2; register 0 resets it.  The modem sits behind the
  converter's serial line: while it is on (input pin 1) it answers each line with a line of its
  own, \<open>at+cpowd=1\<close> switches it off and a pulse on output pin 0 switches it on.
\<close>

section \<open>The module's hardware\<close>

record uart =
  dll :: u8
  dlh :: u8
  efr :: u8
  lcr :: u8
  mcr :: u8
  tcr :: u8
  ier :: u8
  fcr :: u8
  iostate :: u8
  iodir :: u8
  pins :: u8
  sent :: "u8 list"
  fifo :: "u8 list"
  cshift :: u16
  creg :: "u16 \<Rightarrow> u16"
  line :: string
  answer :: "string \<Rightarrow> string"

definition reg_of :: "u16 \<Rightarrow> u16" where
  "reg_of w = drop_bit 11 w AND 0xf"

definition data_of :: "u16 \<Rightarrow> u8" where
  "data_of w = ucast w"

definition is_read :: "u16 \<Rightarrow> bool" where
  "is_read w \<longleftrightarrow> bit w 15"

definition codec_edge :: "u8 \<Rightarrow> uart \<Rightarrow> uart" where
  "codec_edge new u =
     (if \<not> bit (iostate u) 2 \<and> bit new 2
      then let r = drop_bit 9 (cshift u)
           in if r = 0 then u\<lparr>creg := (\<lambda>_. 0)\<rparr> else u\<lparr>creg := (creg u)(r := cshift u AND 0x1ff)\<rparr>
      else u)"

definition power_key :: "u8 \<Rightarrow> uart \<Rightarrow> uart" where
  "power_key new u = (if bit (iostate u) 0 \<and> \<not> bit new 0 then u\<lparr>pins := pins u OR 2\<rparr> else u)"

definition bytes :: "string \<Rightarrow> u8 list" where
  "bytes s = map (\<lambda>c. of_nat (code c)) s"

definition reply :: "string \<Rightarrow> u8 list" where
  "reply s = [13, 10] @ bytes s @ [13, 10]"

definition modem_line :: "uart \<Rightarrow> uart" where
  "modem_line u =
     (let cmd = line u; u = u\<lparr>line := []\<rparr>
      in if bit (pins u) 1
         then let u = u\<lparr>fifo := take 64 (fifo u @ reply (answer u cmd))\<rparr>
              in if cmd = ''at+cpowd=1'' then u\<lparr>pins := pins u AND NOT 2\<rparr> else u
         else u)"

definition modem_byte :: "u8 \<Rightarrow> uart \<Rightarrow> uart" where
  "modem_byte d u =
     (let u = u\<lparr>sent := sent u @ [d]\<rparr>
      in if d = 10 then modem_line u else if d = 13 then u else u\<lparr>line := line u @ [char_of (unat d)]\<rparr>)"

definition uart_write :: "u16 \<Rightarrow> uart \<Rightarrow> uart" where
  "uart_write w u =
     (let a = reg_of w; d = data_of w
      in if a = 3 then u\<lparr>lcr := d\<rparr>
         else if a = 10 then u\<lparr>iodir := d\<rparr>
         else if a = 11 then (power_key d (codec_edge d u))\<lparr>iostate := d\<rparr>
         else if lcr u = 0xBF then (if a = 2 then u\<lparr>efr := d\<rparr> else u)
         else if a = 0 then (if bit (lcr u) 7 then u\<lparr>dll := d\<rparr> else modem_byte d u)
         else if a = 1 then (if bit (lcr u) 7 then u\<lparr>dlh := d\<rparr> else u\<lparr>ier := d\<rparr>)
         else if a = 2 then u\<lparr>fcr := d, fifo := (if bit d 1 then [] else fifo u)\<rparr>
         else if a = 4 then u\<lparr>mcr := d\<rparr>
         else if a = 6 \<and> bit (mcr u) 2 \<and> bit (efr u) 4 then u\<lparr>tcr := d\<rparr>
         else u)"

definition uart_val :: "u16 \<Rightarrow> uart \<Rightarrow> u8" where
  "uart_val w u =
     (let a = reg_of w
      in if a = 3 then lcr u
         else if a = 9 then of_nat (length (fifo u))
         else if a = 10 then iodir u
         else if a = 11 then (iostate u AND iodir u) OR (pins u AND NOT (iodir u))
         else if lcr u = 0xBF then (if a = 2 then efr u else 0)
         else if a = 0 then (if bit (lcr u) 7 then dll u else case fifo u of [] \<Rightarrow> 0 | b # _ \<Rightarrow> b)
         else if a = 1 then (if bit (lcr u) 7 then dlh u else ier u)
         else if a = 4 then mcr u
         else if a = 6 \<and> bit (mcr u) 2 \<and> bit (efr u) 4 then tcr u
         else 0)"

definition uart_fetch :: "u16 \<Rightarrow> uart \<Rightarrow> uart" where
  "uart_fetch w u = (if reg_of w = 0 \<and> lcr u \<noteq> 0xBF \<and> \<not> bit (lcr u) 7 then u\<lparr>fifo := tl (fifo u)\<rparr> else u)"

definition uart_word :: "u16 \<Rightarrow> uart \<Rightarrow> uart" where
  "uart_word w u = (if is_read w then uart_fetch w u else uart_write w u)"

text \<open>The module in slot \<open>p\<close>, behind the routing register that the byte bus writes.\<close>

record gboard =
  gmux :: u8
  gchip :: uart

fun gboard_step :: "nat \<Rightarrow> greq \<Rightarrow> gboard \<Rightarrow> gboard" where
  "gboard_step p (Byte ev) b = (case ev of Tx NCSB m \<Rightarrow> b\<lparr>gmux := m\<rparr> | _ \<Rightarrow> b)"
| "gboard_step p (Word_tx cs w) b =
     (if \<not> cs then b\<lparr>gchip := (gchip b)\<lparr>cshift := w\<rparr>\<rparr>
      else if mux_card (gmux b) = Some p then b\<lparr>gchip := uart_word w (gchip b)\<rparr> else b)"
| "gboard_step p (Word_rx w) b = (if mux_card (gmux b) = Some p then b\<lparr>gchip := uart_word w (gchip b)\<rparr> else b)"

definition gboard_of :: "nat \<Rightarrow> gboard \<Rightarrow> greq list \<Rightarrow> gboard" where
  "gboard_of p b0 rs = fold (gboard_step p) rs b0"

definition on_module :: "genv \<Rightarrow> nat \<Rightarrow> gboard \<Rightarrow> bool" where
  "on_module e p b0 \<longleftrightarrow>
     (\<forall>rs w. rxw e rs w = (let b = gboard_of p b0 rs in
        if mux_card (gmux b) = Some p then 0xff00 OR ucast (uart_val w (gchip b)) else 0xffff))"

text \<open>The cached card is the module's exactly if the module is the routed card; \<open>-1\<close> is no knowledge.\<close>

definition routed :: "nat \<Rightarrow> gboard \<Rightarrow> gsm \<Rightarrow> bool" where
  "routed p b0 g \<longleftrightarrow>
     (if curcard (core g) = int p then mux_card (gmux (gboard_of p b0 (reqs g))) = Some p
      else curcard (core g) = -1 \<or> mux_card (gmux (gboard_of p b0 (reqs g))) \<noteq> Some p)"

abbreviation chip_of :: "nat \<Rightarrow> gboard \<Rightarrow> gsm \<Rightarrow> uart" where
  "chip_of p b0 g \<equiv> gchip (gboard_of p b0 (reqs g))"

lemma gboard_of_simps [hw]: "gboard_of p b0 [] = b0" "gboard_of p b0 (rs @ rs') = gboard_of p (gboard_of p b0 rs) rs'"
  "gboard_of p b0 (r # rs) = gboard_of p (gboard_step p r b0) rs"
  by (simp_all add: gboard_of_def)

section \<open>Words reach the module\<close>

text \<open>Ports 0 to 4 are passed on as they are, and select their card.  The larger numbers are
  translated to the upper half of the routing codes twice, and select none.\<close>

lemma gsm_port_low: "p \<le> 4 \<Longrightarrow> gsm_port p = p"
  by (simp add: gsm_port_def)

lemma gsm_port_high:
  assumes "4 < p" "p < 8" "curcard (core g) < 8"
  shows "\<exists>m. reqs (on_core (wcfxs_setcard (gsm_port p)) g) = reqs g @ [Byte (Tx NCSB m)] \<and> mux_card m = None"
proof -
  have "p = 5 \<or> p = 6 \<or> p = 7" using assms(1,2) by auto
  then show ?thesis using assms(3)
    by (elim disjE) (simp_all add: on_core_def wcfxs_setcard_def gsm_port_def mux_card_def)
qed

lemma select_module:
  assumes "p \<le> 4" "routed p b0 g"
  shows "mux_card (gmux (gboard_of p b0 (reqs (on_core (wcfxs_setcard (gsm_port p)) g)))) = Some p"
    "chip_of p b0 (on_core (wcfxs_setcard (gsm_port p)) g) = chip_of p b0 g"
    "curcard (core (on_core (wcfxs_setcard (gsm_port p)) g)) = int p"
proof -
  have m: "mux_card (card_code p) = Some p" using assms(1) mux_card_code by simp
  have c: "card_code p = (if p < 4 then of_nat (p + 1) else of_nat (0x40 + (p - 4) + 1))" by (simp add: card_code_def)
  show "mux_card (gmux (gboard_of p b0 (reqs (on_core (wcfxs_setcard (gsm_port p)) g)))) = Some p"
    using assms m unfolding c by (auto simp: on_core_def wcfxs_setcard_def gsm_port_low routed_def hw Let_def)
  show "chip_of p b0 (on_core (wcfxs_setcard (gsm_port p)) g) = chip_of p b0 g"
    "curcard (core (on_core (wcfxs_setcard (gsm_port p)) g)) = int p"
    using assms by (auto simp: on_core_def wcfxs_setcard_def gsm_port_low hw Let_def)
qed

lemma write_module:
  assumes "p \<le> 4" "routed p b0 g"
  shows "chip_of p b0 (fx_write_SPI2UART p w g) = uart_word w (chip_of p b0 g)" "routed p b0 (fx_write_SPI2UART p w g)"
  using select_module[OF assms] by (simp_all add: fx_write_SPI2UART_def tx_word_def routed_def hw)

lemma write_codec:
  assumes "routed p b0 g"
  shows "chip_of p b0 (fx_write_SPI2UART_wo_CS w g) = (chip_of p b0 g)\<lparr>cshift := w\<rparr>"
    "routed p b0 (fx_write_SPI2UART_wo_CS w g)"
  using assms by (simp_all add: fx_write_SPI2UART_wo_CS_def tx_word_def routed_def hw)

lemma read_module:
  assumes "on_module e p b0" "p \<le> 4" "routed p b0 g"
  shows "fst (fx_read_SPI2UART e p w g) = 0xff00 OR ucast (uart_val w (chip_of p b0 g))"
    "chip_of p b0 (snd (fx_read_SPI2UART e p w g)) = uart_word w (chip_of p b0 g)"
    "routed p b0 (snd (fx_read_SPI2UART e p w g))"
  using select_module[OF assms(2,3)] assms(1)
  by (simp_all add: fx_read_SPI2UART_def rx_word_def routed_def on_module_def hw Let_def)

lemma program_module:
  assumes "on_module e p b0" "p \<le> 4" "routed p b0 g"
  shows "fst (fx_program_register_SPI2UART e p w g) =
      (if (w OR 0x8000) OR 0xff00 \<noteq> 0xff00 OR ucast (uart_val (w OR 0x8000) (uart_word w (chip_of p b0 g))) then 1 else 0)"
    "chip_of p b0 (snd (fx_program_register_SPI2UART e p w g)) = uart_word (w OR 0x8000) (uart_word w (chip_of p b0 g))"
    "routed p b0 (snd (fx_program_register_SPI2UART e p w g))"
  using select_module[OF assms(2,3)] assms(1)
  by (simp_all add: fx_program_register_SPI2UART_def tx_word_def rx_word_def routed_def on_module_def hw Let_def split_beta)

section \<open>Initialisation programs the converter and the codec\<close>

text \<open>The sequence of words as the converter sees it.\<close>

fun chip_program :: "(bool \<times> u16) list \<Rightarrow> uart \<Rightarrow> bool \<times> uart" where
  "chip_program [] u = (True, u)"
| "chip_program ((verify, w) # ws) u =
     (let u = uart_word w u
      in if verify
         then let r = w OR 0x8000; ok = (r OR 0xff00 = 0xff00 OR ucast (uart_val r u)); u = uart_word r u
              in if ok then chip_program ws u else (False, u)
         else chip_program ws u)"

lemma program_words_chip_aux:
  assumes "on_module e p b0" "p \<le> 4" "routed p b0 g"
  shows "(fst (program_words e p ws g) = 0) = fst (chip_program ws (chip_of p b0 g)) \<and>
    chip_of p b0 (snd (program_words e p ws g)) = snd (chip_program ws (chip_of p b0 g)) \<and>
    routed p b0 (snd (program_words e p ws g))"
  using assms(3)
proof (induction ws arbitrary: g)
  case (Cons x ws)
  obtain v w where x: "x = (v, w)" by (cases x)
  note W = write_module[OF assms(2) Cons.prems, of w] and P = program_module[OF assms(1,2) Cons.prems, of w]
  show ?case using Cons.IH[OF W(2)] Cons.IH[OF P(3)] P(3) by (simp add: x W(1) P(1,2) split_beta Let_def)
qed simp

lemmas program_words_chip = program_words_chip_aux[THEN conjunct1]
  program_words_chip_aux[THEN conjunct2, THEN conjunct1] program_words_chip_aux[THEN conjunct2, THEN conjunct2]

lemma readback: "(w OR 0x8000) OR 0xff00 = (0xff00 OR ucast b :: u16) \<longleftrightarrow> b = (ucast w :: u8)"
proof -
  have n: "bit (0xff00 :: u16) i \<longleftrightarrow> 8 \<le> i \<and> i < 16" "bit (0x8000 :: u16) i \<longleftrightarrow> i = 15" for i
  proof -
    have "(0xff00 :: u16) = push_bit 8 (mask 8)" "(0x8000 :: u16) = push_bit 15 1" by code_simp+
    then show "bit (0xff00 :: u16) i \<longleftrightarrow> 8 \<le> i \<and> i < 16" "bit (0x8000 :: u16) i \<longleftrightarrow> i = 15"
      by (auto simp only: bit_push_bit_iff bit_mask_iff) (auto simp: bit_simps)
  qed
  show ?thesis
  proof
    assume a: "(w OR 0x8000) OR 0xff00 = (0xff00 OR ucast b :: u16)"
    show "b = ucast w"
    proof (rule bit_word_eqI)
      fix i assume "i < LENGTH(8)"
      then show "bit b i = bit (ucast w :: u8) i" using arg_cong[OF a, of "\<lambda>x. bit x i"]
        by (simp only: bit_or_iff n bit_ucast_iff) simp
    qed
  next
    assume b: "b = ucast w"
    show "(w OR 0x8000) OR 0xff00 = (0xff00 OR ucast b :: u16)"
      by (rule bit_word_eqI) (auto simp only: b bit_or_iff n bit_ucast_iff, auto)
  qed
qed

text \<open>The effect of a write by the register it addresses.\<close>

lemma uart_write_cases:
  "reg_of w = 3 \<Longrightarrow> uart_write w u = u\<lparr>lcr := data_of w\<rparr>"
  "reg_of w = 10 \<Longrightarrow> uart_write w u = u\<lparr>iodir := data_of w\<rparr>"
  "reg_of w = 11 \<Longrightarrow> uart_write w u = (power_key (data_of w) (codec_edge (data_of w) u))\<lparr>iostate := data_of w\<rparr>"
  "reg_of w = 2 \<Longrightarrow> lcr u = 0xBF \<Longrightarrow> uart_write w u = u\<lparr>efr := data_of w\<rparr>"
  "reg_of w = 2 \<Longrightarrow> lcr u = 3 \<Longrightarrow> bit (data_of w) 1 \<Longrightarrow> uart_write w u = u\<lparr>fcr := data_of w, fifo := []\<rparr>"
  "reg_of w = 0 \<Longrightarrow> lcr u = 0x80 \<Longrightarrow> uart_write w u = u\<lparr>dll := data_of w\<rparr>"
  "reg_of w = 0 \<Longrightarrow> lcr u = 3 \<Longrightarrow> uart_write w u = modem_byte (data_of w) u"
  "reg_of w = 1 \<Longrightarrow> lcr u = 0x80 \<Longrightarrow> uart_write w u = u\<lparr>dlh := data_of w\<rparr>"
  "reg_of w = 1 \<Longrightarrow> lcr u = 3 \<Longrightarrow> uart_write w u = u\<lparr>ier := data_of w\<rparr>"
  "reg_of w = 4 \<Longrightarrow> lcr u = 3 \<Longrightarrow> uart_write w u = u\<lparr>mcr := data_of w\<rparr>"
  "reg_of w = 6 \<Longrightarrow> lcr u = 3 \<Longrightarrow> mcr u = 4 \<Longrightarrow> efr u = 0xD0 \<Longrightarrow> uart_write w u = u\<lparr>tcr := data_of w\<rparr>"
  by (simp_all add: uart_write_def Let_def)

lemma uart_val_cases:
  "reg_of w = 3 \<Longrightarrow> uart_val w u = lcr u"
  "reg_of w = 9 \<Longrightarrow> uart_val w u = of_nat (length (fifo u))"
  "reg_of w = 10 \<Longrightarrow> uart_val w u = iodir u"
  "reg_of w = 2 \<Longrightarrow> lcr u = 0xBF \<Longrightarrow> uart_val w u = efr u"
  "reg_of w = 0 \<Longrightarrow> lcr u = 0x80 \<Longrightarrow> uart_val w u = dll u"
  "reg_of w = 0 \<Longrightarrow> lcr u = 3 \<Longrightarrow> uart_val w u = (case fifo u of [] \<Rightarrow> 0 | b # _ \<Rightarrow> b)"
  "reg_of w = 1 \<Longrightarrow> lcr u = 0x80 \<Longrightarrow> uart_val w u = dlh u"
  "reg_of w = 1 \<Longrightarrow> lcr u = 3 \<Longrightarrow> uart_val w u = ier u"
  "reg_of w = 4 \<Longrightarrow> lcr u = 3 \<Longrightarrow> uart_val w u = mcr u"
  "reg_of w = 6 \<Longrightarrow> lcr u = 3 \<Longrightarrow> mcr u = 4 \<Longrightarrow> efr u = 0xD0 \<Longrightarrow> uart_val w u = tcr u"
  by (simp_all add: uart_val_def Let_def)

lemma uart_fetch_cases:
  "reg_of w \<noteq> 0 \<Longrightarrow> uart_fetch w u = u" "lcr u = 0x80 \<Longrightarrow> uart_fetch w u = u"
  "reg_of w = 0 \<Longrightarrow> lcr u = 3 \<Longrightarrow> uart_fetch w u = u\<lparr>fifo := tl (fifo u)\<rparr>"
  by (simp_all add: uart_fetch_def)

lemma is_read_or: "is_read (w OR 0x8000)"
proof -
  have "bit (0x8000 :: u16) 15" by code_simp
  then show ?thesis unfolding is_read_def bit_or_iff by (rule disjI2)
qed

lemma chip_program_Cons:
  "\<not> is_read w \<Longrightarrow> chip_program ((True, w) # ws) u =
     (let v = uart_write w u; r = w OR 0x8000
      in if uart_val r v = data_of w then chip_program ws (uart_fetch r v) else (False, uart_fetch r v))"
  "\<not> is_read w \<Longrightarrow> chip_program ((False, w) # ws) u = chip_program ws (uart_write w u)"
  by (simp_all only: chip_program.simps Let_def readback data_of_def uart_word_def is_read_or if_True if_False)

text \<open>The registers that the words of the table address.\<close>

lemma sc16is750_regs:
  "reg_of 0x1880 = 3" "reg_of 0x0006 = 0" "reg_of 0x0800 = 1" "reg_of 0x18BF = 3" "reg_of 0x10D0 = 2" "reg_of 0x1803 = 3"
  "reg_of 0x2004 = 4" "reg_of 0x301E = 6" "reg_of 0x10c6 = 2" "reg_of 0x0801 = 1" "reg_of 0x1007 = 2" "reg_of 0x5825 = 11"
  "reg_of 0x5821 = 11" "reg_of 0x5824 = 11" "reg_of 0xd800 = 11" "reg_of 0x5025 = 10"
  "reg_of 0x9880 = 3" "reg_of 0x8006 = 0" "reg_of 0x8800 = 1" "reg_of 0x98BF = 3" "reg_of 0x90D0 = 2" "reg_of 0x9803 = 3"
  "reg_of 0xa004 = 4" "reg_of 0xb01E = 6" "reg_of 0x8801 = 1" "reg_of 0xd025 = 10"
  "reg_of 0xC800 = 9" "reg_of 0x8000 = 0"
  by code_simp+

lemma sc16is750_data:
  "data_of 0x1880 = 0x80" "data_of 0x0006 = 6" "data_of 0x0800 = 0" "data_of 0x18BF = 0xBF" "data_of 0x10D0 = 0xD0"
  "data_of 0x1803 = 3" "data_of 0x2004 = 4" "data_of 0x301E = 0x1E" "data_of 0x10c6 = 0xC6" "data_of 0x0801 = 1"
  "data_of 0x1007 = 7" "data_of 0x5825 = 0x25" "data_of 0x5821 = 0x21" "data_of 0x5824 = 0x24" "data_of 0x5025 = 0x25"
  by code_simp+

lemma sc16is750_dir:
  "\<not> is_read 0x1880" "\<not> is_read 0x0006" "\<not> is_read 0x0800" "\<not> is_read 0x18BF" "\<not> is_read 0x10D0" "\<not> is_read 0x1803"
  "\<not> is_read 0x2004" "\<not> is_read 0x301E" "\<not> is_read 0x10c6" "\<not> is_read 0x0801" "\<not> is_read 0x1007"
  "\<not> is_read 0x5825" "\<not> is_read 0x5821" "\<not> is_read 0x5824" "\<not> is_read 0x5025" "is_read 0xC800" "is_read 0x8000" "is_read 0xd800"
  by code_simp+

lemmas sc16is750_words_facts = sc16is750_regs sc16is750_data sc16is750_dir

lemma codec_edge_creg: "\<exists>cr. codec_edge b u = u\<lparr>creg := cr\<rparr>"
proof -
  have "\<exists>cr. u = u\<lparr>creg := cr\<rparr>" by (rule exI[of _ "creg u"]) simp
  then show ?thesis by (auto simp: codec_edge_def Let_def)
qed

lemma sc16is750_program:
  "\<exists>cr. chip_program sc16is750_words u = (True,
     u\<lparr>dll := 6, dlh := 0, efr := 0xD0, lcr := 3, mcr := 4, tcr := 0x1E, ier := 1, fcr := 7, iostate := 0x25, iodir := 0x25,
       fifo := [], creg := cr\<rparr>)"
proof -
  let ?u = "u\<lparr>dll := 6, dlh := 0, efr := 0xD0, lcr := 3, mcr := 4, tcr := 0x1E, ier := 1, fcr := 7, fifo := []\<rparr>"
  obtain cr where "codec_edge 0x25 ?u = ?u\<lparr>creg := cr\<rparr>" using codec_edge_creg by blast
  then show ?thesis
    by (intro exI[of _ cr], simp add: sc16is750_words_def chip_program_Cons sc16is750_words_facts uart_write_cases power_key_def uart_val_cases
          uart_fetch_cases Let_def del: chip_program.simps(2))
qed

lemma init_SC16IS750_chip:
  assumes "on_module e p b0" "p \<le> 4" "routed p b0 g"
  shows "fst (init_SC16IS750 e p g) = 0" "routed p b0 (snd (init_SC16IS750 e p g))"
    "\<exists>cr. chip_of p b0 (snd (init_SC16IS750 e p g)) =
       (chip_of p b0 g)\<lparr>dll := 6, dlh := 0, efr := 0xD0, lcr := 3, mcr := 4, tcr := 0x1E, ier := 1, fcr := 7,
         iostate := 0x25, iodir := 0x25, fifo := [], creg := cr\<rparr>"
proof -
  note P = program_words_chip[OF assms, of sc16is750_words, folded init_SC16IS750_def]
  from sc16is750_program[of "chip_of p b0 g"] obtain cr where
    C: "chip_program sc16is750_words (chip_of p b0 g) = (True,
      (chip_of p b0 g)\<lparr>dll := 6, dlh := 0, efr := 0xD0, lcr := 3, mcr := 4, tcr := 0x1E, ier := 1, fcr := 7,
         iostate := 0x25, iodir := 0x25, fifo := [], creg := cr\<rparr>)" by blast
  show "fst (init_SC16IS750 e p g) = 0" "routed p b0 (snd (init_SC16IS750 e p g))" using P(1,3) by (simp_all only: C fst_conv)
  show "\<exists>cr. chip_of p b0 (snd (init_SC16IS750 e p g)) =
       (chip_of p b0 g)\<lparr>dll := 6, dlh := 0, efr := 0xD0, lcr := 3, mcr := 4, tcr := 0x1E, ier := 1, fcr := 7,
         iostate := 0x25, iodir := 0x25, fifo := [], creg := cr\<rparr>"
    using P(2) by (intro exI[of _ cr]) (simp only: C snd_conv)
qed

text \<open>A word sent without chip select and latched arrives in the codec's register.\<close>

definition codec_set :: "u16 \<Rightarrow> (u16 \<Rightarrow> u16) \<Rightarrow> u16 \<Rightarrow> u16" where
  "codec_set w cr = (if drop_bit 9 w = 0 then (\<lambda>_. 0) else cr(drop_bit 9 w := w AND 0x1ff))"

lemma iostate_same: "iostate u = b \<Longrightarrow> u\<lparr>cshift := w, creg := cr, iostate := b\<rparr> = u\<lparr>cshift := w, creg := cr\<rparr>"
  by (cases u) simp

lemma latch_codec:
  assumes "p \<le> 4" "routed p b0 g" "iostate (chip_of p b0 g) = 0x25"
  shows "chip_of p b0 (Codec_reg_data_latch p (fx_write_SPI2UART_wo_CS w g)) =
      (chip_of p b0 g)\<lparr>cshift := w, creg := codec_set w (creg (chip_of p b0 g))\<rparr>"
    "routed p b0 (Codec_reg_data_latch p (fx_write_SPI2UART_wo_CS w g))"
proof -
  note C = write_codec[OF assms(2), of w]
  note W1 = write_module[OF assms(1) C(2), of "0x5821"]
  note W2 = write_module[OF assms(1) W1(2), of "0x5825"]
  show "routed p b0 (Codec_reg_data_latch p (fx_write_SPI2UART_wo_CS w g))" using W2(2) by (simp add: Codec_reg_data_latch_def)
  have "chip_of p b0 (Codec_reg_data_latch p (fx_write_SPI2UART_wo_CS w g)) =
      (chip_of p b0 g)\<lparr>cshift := w, creg := codec_set w (creg (chip_of p b0 g)), iostate := 0x25\<rparr>"
    by (simp add: Codec_reg_data_latch_def W2 W1 C uart_word_def uart_write_cases power_key_def sc16is750_words_facts codec_edge_def codec_set_def
        Let_def)
  then show "chip_of p b0 (Codec_reg_data_latch p (fx_write_SPI2UART_wo_CS w g)) =
      (chip_of p b0 g)\<lparr>cshift := w, creg := codec_set w (creg (chip_of p b0 g))\<rparr>"
    by (simp only: iostate_same[OF assms(3)])
qed

lemma codec_words_aux:
  assumes "p \<le> 4" "routed p b0 g" "iostate (chip_of p b0 g) = 0x25"
  shows "(\<exists>sh. chip_of p b0 (fold (\<lambda>w g. Codec_reg_data_latch p (fx_write_SPI2UART_wo_CS w g)) ws g) =
      (chip_of p b0 g)\<lparr>cshift := sh, creg := fold codec_set ws (creg (chip_of p b0 g))\<rparr>) \<and>
    routed p b0 (fold (\<lambda>w g. Codec_reg_data_latch p (fx_write_SPI2UART_wo_CS w g)) ws g)"
  using assms(2,3)
proof (induction ws arbitrary: g)
  case Nil
  then show ?case by (intro conjI exI[of _ "cshift (chip_of p b0 g)"]) simp_all
next
  case (Cons w ws)
  note L = latch_codec[OF assms(1) Cons.prems, of w]
  have "iostate (chip_of p b0 (Codec_reg_data_latch p (fx_write_SPI2UART_wo_CS w g))) = 0x25"
    unfolding L(1) using Cons.prems(2) by simp
  from Cons.IH[OF L(2) this] show ?case unfolding L(1) by auto
qed

text \<open>The registers the codec ends up with: master clock, u-law at 8 kHz in PCM mode, both
  converters on, limiter and gains as the table says, the others at their reset values.\<close>

definition wm8510_regs :: "(u16 \<times> u16) list" where
  "wm8510_regs =
     [(0x01, 0x0F), (0x20, 0x138), (0x0B, 0xD0), (0x0E, 0x108), (0x21, 0x0B), (0x22, 0x132), (0x23, 0x08), (0x18, 0x32),
      (0x19, 0x70), (0x04, 0x18), (0x06, 0x00), (0x05, 0x14), (0x07, 0x0A), (0x0A, 0x08), (0x02, 0x15), (0x2F, 0x100),
      (0x32, 0x01), (0x38, 0x40), (0x03, 0x65)]"

lemma codec_set_fold:
  assumes "0 \<notin> set (map (drop_bit 9) ws)" "distinct (map (drop_bit 9) ws)"
  shows "fold codec_set ws cr =
    (\<lambda>r. case map_of (map (\<lambda>w. (drop_bit 9 w, w AND 0x1ff)) ws) r of None \<Rightarrow> cr r | Some d \<Rightarrow> d)"
  using assms
proof (induction ws arbitrary: cr)
  case (Cons w ws)
  have n: "map_of (map (\<lambda>w. (drop_bit 9 w, w AND 0x1ff)) ws) (drop_bit 9 w) = None"
    using Cons.prems(2) by (auto simp: map_of_eq_None_iff)
  have f: "fold codec_set ws (codec_set w cr) =
    (\<lambda>r. case map_of (map (\<lambda>w. (drop_bit 9 w, w AND 0x1ff)) ws) r of None \<Rightarrow> codec_set w cr r | Some d \<Rightarrow> d)"
    using Cons.prems by (intro Cons.IH) auto
  have s: "codec_set w cr = cr(drop_bit 9 w := w AND 0x1ff)" using Cons.prems(1) by (auto simp: codec_set_def)
  show ?case unfolding fold_Cons comp_def f[unfolded s] s using n by (auto split: option.splits)
qed simp

lemma codec_set_table: "fold codec_set wm8510_words cr = (\<lambda>r. case map_of wm8510_regs r of None \<Rightarrow> 0 | Some d \<Rightarrow> d)"
proof -
  have t: "map (\<lambda>w. (drop_bit 9 w, w AND 0x1ff)) (tl wm8510_words) = wm8510_regs"
    "0 \<notin> set (map (drop_bit 9) (tl wm8510_words))" "distinct (map (drop_bit 9) (tl wm8510_words))"
    "drop_bit 9 (hd wm8510_words) = 0" by code_simp+
  have "fold codec_set wm8510_words cr = fold codec_set (tl wm8510_words) (codec_set (hd wm8510_words) cr)"
    by (simp add: wm8510_words_def)
  also have "codec_set (hd wm8510_words) cr = (\<lambda>_. 0)" by (simp add: codec_set_def t(4))
  finally show ?thesis using codec_set_fold[OF t(2,3), of "\<lambda>_. 0"] unfolding t(1) by simp
qed

lemma init_WM8510_chip:
  assumes "p \<le> 4" "routed p b0 g" "iostate (chip_of p b0 g) = 0x25"
  shows "\<exists>sh. chip_of p b0 (init_WM8510 p g) =
      (chip_of p b0 g)\<lparr>cshift := sh, creg := (\<lambda>r. case map_of wm8510_regs r of None \<Rightarrow> 0 | Some d \<Rightarrow> d)\<rparr>"
    "routed p b0 (init_WM8510 p g)"
  using codec_words_aux[OF assms, of wm8510_words] by (simp_all add: init_WM8510_def codec_set_table)

section \<open>Text to and from the modem\<close>

text \<open>The state in which the driver leaves the converter: text registers in reach, eight data bits.\<close>

definition text_mode :: "nat \<Rightarrow> gboard \<Rightarrow> gsm \<Rightarrow> bool" where
  "text_mode p b0 g \<longleftrightarrow> routed p b0 g \<and> lcr (chip_of p b0 g) = 3 \<and> length (GSM_string g) = STRING_SIZE"

definition ascii :: "string \<Rightarrow> bool" where
  "ascii s \<longleftrightarrow> (\<forall>c\<in>set s. code c < 128)"

text \<open>Writes and reads leave everything but the requests and the routing alone.\<close>

lemma on_core_frame [simp]: "GSM_string (on_core f g) = GSM_string g" "SIM_Enter_string (on_core f g) = SIM_Enter_string g"
  by (simp_all add: on_core_def Let_def)

lemma access_frame [simp]:
  "GSM_string (fx_write_SPI2UART p w g) = GSM_string g" "GSM_string (snd (fx_read_SPI2UART e p w g)) = GSM_string g"
  "SIM_Enter_string (fx_write_SPI2UART p w g) = SIM_Enter_string g"
  "SIM_Enter_string (snd (fx_read_SPI2UART e p w g)) = SIM_Enter_string g"
  by (simp_all add: fx_write_SPI2UART_def fx_read_SPI2UART_def tx_word_def rx_word_def)

lemma char_word_ascii:
  assumes "code c < 128"
  shows "reg_of (char_word c) = 0" "data_of (char_word c) = of_nat (code c)" "\<not> is_read (char_word c)"
    "unat (of_nat (code c) :: u8) = code c" "char_of (code c) = c"
proof -
  have u: "unat (char_word c) = code c" using assms by (simp add: char_word_def unat_of_nat take_bit_nat_eq_self)
  have "drop_bit 11 (char_word c) = 0" by (rule word_unat_eq_iff[THEN iffD2]) (use assms in \<open>simp add: unat_drop_bit_eq u drop_bit_nat_def div_eq_0_iff\<close>)
  then show "reg_of (char_word c) = 0" by (simp add: reg_of_def)
  show "data_of (char_word c) = of_nat (code c)" using assms
    by (simp add: data_of_def char_word_def word_unat_eq_iff unsigned_ucast_eq unat_of_nat take_bit_nat_eq_self)
  have "bit (char_word c) 15 = bit (unat (char_word c)) 15" by (simp add: bit_unsigned_iff)
  then have "bit (char_word c) 15 = odd (unat (char_word c) div 2 ^ 15)" by (simp only: bit_iff_odd)
  then show "\<not> is_read (char_word c)" using assms by (simp add: is_read_def u)
  show "unat (of_nat (code c) :: u8) = code c" using assms by (simp add: unat_of_nat take_bit_nat_eq_self)
  show "char_of (code c) = c" by (simp add: code_def)
qed

lemma send_char:
  assumes "p \<le> 4" "text_mode p b0 g" "code c < 128"
  shows "chip_of p b0 (fx_write_SPI2UART p (char_word c) g) = modem_byte (of_nat (code c)) (chip_of p b0 g)"
    "routed p b0 (fx_write_SPI2UART p (char_word c) g)"
  using assms write_module[OF assms(1), of b0 g "char_word c"] char_word_ascii[OF assms(3)]
  by (simp_all add: text_mode_def uart_word_def uart_write_cases)

lemma modem_byte_lcr [simp]: "lcr (modem_byte d u) = lcr u" "iodir (modem_byte d u) = iodir u" "iostate (modem_byte d u) = iostate u"
  "answer (modem_byte d u) = answer u"
  by (simp_all add: modem_byte_def modem_line_def Let_def)

text \<open>A command reaches the modem as one line, whatever the converter still holds for the driver.\<close>

definition printable :: "string \<Rightarrow> bool" where
  "printable s \<longleftrightarrow> (\<forall>c\<in>set s. 32 \<le> code c \<and> code c < 128)"

lemma send_chars:
  assumes "p \<le> 4" "text_mode p b0 g" "printable s"
  shows "chip_of p b0 (fold (\<lambda>c. fx_write_SPI2UART p (char_word c)) s g) =
      (chip_of p b0 g)\<lparr>sent := sent (chip_of p b0 g) @ bytes s, line := line (chip_of p b0 g) @ s\<rparr> \<and>
    text_mode p b0 (fold (\<lambda>c. fx_write_SPI2UART p (char_word c)) s g) \<and>
    GSM_string (fold (\<lambda>c. fx_write_SPI2UART p (char_word c)) s g) = GSM_string g \<and>
    SIM_Enter_string (fold (\<lambda>c. fx_write_SPI2UART p (char_word c)) s g) = SIM_Enter_string g"
  using assms(2,3)
proof (induction s arbitrary: g)
  case Nil
  then show ?case by (simp add: bytes_def)
next
  case (Cons c s)
  let ?g = "fx_write_SPI2UART p (char_word c) g" and ?u = "chip_of p b0 g"
  have c: "32 \<le> code c" "code c < 128" "printable s" using Cons.prems(2) by (auto simp: printable_def)
  note S = send_char[OF assms(1) Cons.prems(1) c(2)]
  have "(of_nat (code c) :: u8) \<noteq> 10" "(of_nat (code c) :: u8) \<noteq> 13"
    using c(1) char_word_ascii(4)[OF c(2)] by (auto dest!: arg_cong[of _ _ unat])
  then have u: "chip_of p b0 ?g = ?u\<lparr>sent := sent ?u @ [of_nat (code c)], line := line ?u @ [c]\<rparr>"
    unfolding S(1) by (simp add: modem_byte_def char_word_ascii[OF c(2)])
  have "text_mode p b0 ?g" using Cons.prems(1) S(2) by (simp add: text_mode_def u)
  from Cons.IH[OF this c(3)] show ?case by (simp add: u bytes_def)
qed

lemma GSM_send_chip:
  assumes "p \<le> 4" "text_mode p b0 g" "printable s"
  shows "chip_of p b0 (GSM_send p s g) =
      modem_line ((chip_of p b0 g)\<lparr>line := line (chip_of p b0 g) @ s, sent := sent (chip_of p b0 g) @ bytes s @ [13, 10]\<rparr>)"
    "text_mode p b0 (GSM_send p s g)" "GSM_string (GSM_send p s g) = GSM_string g"
    "SIM_Enter_string (GSM_send p s g) = SIM_Enter_string g"
proof -
  let ?g = "fold (\<lambda>c. fx_write_SPI2UART p (char_word c)) s g"
  have C: "chip_of p b0 ?g = (chip_of p b0 g)\<lparr>sent := sent (chip_of p b0 g) @ bytes s, line := line (chip_of p b0 g) @ s\<rparr>"
    and T: "text_mode p b0 ?g" and F: "GSM_string ?g = GSM_string g" "SIM_Enter_string ?g = SIM_Enter_string g"
    using send_chars[OF assms] by blast+
  have w: "(0x000d :: u16) = char_word (CHR 0x0D)" "(0x000a :: u16) = char_word (CHR 0x0A)" by code_simp+
  have k: "code (CHR 0x0D) < 128" "code (CHR 0x0A) < 128" "(of_nat (code (CHR 0x0D)) :: u8) = 13" "(of_nat (code (CHR 0x0A)) :: u8) = 10"
    by code_simp+
  note S1 = send_char[OF assms(1) T k(1)]
  have T1: "text_mode p b0 (fx_write_SPI2UART p 0x000d ?g)" using T S1 unfolding w by (simp add: text_mode_def)
  note S2 = send_char[OF assms(1) T1 k(2)]
  show "text_mode p b0 (GSM_send p s g)" using S2 T1 by (simp add: GSM_send_def text_mode_def w)
  show "chip_of p b0 (GSM_send p s g) =
      modem_line ((chip_of p b0 g)\<lparr>line := line (chip_of p b0 g) @ s, sent := sent (chip_of p b0 g) @ bytes s @ [13, 10]\<rparr>)"
    using S2(1) S1(1) C by (simp add: GSM_send_def w k modem_byte_def)
  show "GSM_string (GSM_send p s g) = GSM_string g" "SIM_Enter_string (GSM_send p s g) = SIM_Enter_string g"
    using F by (simp_all add: GSM_send_def)
qed

text \<open>Reading the answer: leading line ends are dropped, the others end a string.\<close>

definition eol :: "u8 \<Rightarrow> bool" where
  "eol b \<longleftrightarrow> b = 13 \<or> b = 10"

definition stored_char :: "u8 \<Rightarrow> char" where
  "stored_char b = (if eol b then CHR 0x00 else char_of (unat b))"

definition stored :: "u8 list \<Rightarrow> string" where
  "stored bs = map stored_char (dropWhile eol bs)"

lemma low_byte: "(0xff00 OR ucast (b :: u8) :: u16) AND 0x00ff = ucast b"
proof -
  have "(0xff00 :: u16) = push_bit 8 (mask 8)" "(0x00ff :: u16) = mask 8" by code_simp+
  then show ?thesis by (intro bit_word_eqI) (auto simp only: bit_and_iff bit_or_iff bit_push_bit_iff bit_mask_iff bit_ucast_iff,
        auto dest: bit_imp_le_length)
qed

lemma read_char:
  assumes "on_module e p b0" "p \<le> 4" "text_mode p b0 g" "fifo (chip_of p b0 g) = b # bs"
  shows "fst (fx_read_SPI2UART e p 0x8000 g) AND 0x00ff = ucast b"
    "chip_of p b0 (snd (fx_read_SPI2UART e p 0x8000 g)) = (chip_of p b0 g)\<lparr>fifo := bs\<rparr>"
    "text_mode p b0 (snd (fx_read_SPI2UART e p 0x8000 g))"
proof -
  have r: "routed p b0 g" and l: "lcr (chip_of p b0 g) = 3" using assms(3) by (simp_all add: text_mode_def)
  note R = read_module[OF assms(1,2) r, of "0x8000"]
  show "fst (fx_read_SPI2UART e p 0x8000 g) AND 0x00ff = ucast b"
    unfolding R(1) low_byte by (simp add: uart_val_cases sc16is750_words_facts l assms(4))
  show c: "chip_of p b0 (snd (fx_read_SPI2UART e p 0x8000 g)) = (chip_of p b0 g)\<lparr>fifo := bs\<rparr>"
    unfolding R(2) by (simp add: uart_word_def uart_fetch_cases sc16is750_words_facts l assms(4))
  show "text_mode p b0 (snd (fx_read_SPI2UART e p 0x8000 g))" using assms(3) R(3) c by (simp add: text_mode_def)
qed

lemma ucast_eol: "((ucast (b :: u8) :: u16) = 0x000d \<or> (ucast b :: u16) = 0x000a) = eol b" "unat (ucast (b :: u8) :: u16) = unat b"
proof -
  show u: "unat (ucast (b :: u8) :: u16) = unat b" by (simp add: unsigned_ucast_eq take_bit_nat_eq_self order.strict_trans[OF unsigned_less])
  show "((ucast (b :: u8) :: u16) = 0x000d \<or> (ucast b :: u16) = 0x000a) = eol b"
    by (simp add: word_unat_eq_iff u eol_def)
qed

lemma store_char_ok:
  "i < STRING_SIZE \<Longrightarrow> store_char i c g = Some (g\<lparr>GSM_string := (GSM_string g)[i := c]\<rparr>)"
  "STRING_SIZE \<le> i \<Longrightarrow> store_char i c g = None"
  by (simp_all add: store_char_def)

lemma text_mode_store: "text_mode p b0 g \<Longrightarrow> text_mode p b0 (g\<lparr>GSM_string := (GSM_string g)[i := c]\<rparr>)"
  by (simp add: text_mode_def routed_def)

text \<open>The receiving loop once a character has been kept: every character is stored.\<close>

lemma recv_chars_kept:
  assumes "on_module e p b0" "p \<le> 4" "text_mode p b0 g" "fifo (chip_of p b0 g) = bs" "0 < k \<or> bs = [] \<or> \<not> eol (hd bs)"
    "k \<le> STRING_SIZE"
  shows "case recv_chars e p (length bs) k g of
      None \<Rightarrow> STRING_SIZE < k + length bs
    | Some g' \<Rightarrow> k + length bs \<le> STRING_SIZE \<and> text_mode p b0 g' \<and> chip_of p b0 g' = (chip_of p b0 g)\<lparr>fifo := []\<rparr> \<and>
        SIM_Enter_string g' = SIM_Enter_string g \<and>
        GSM_string g' = take k (GSM_string g) @ map stored_char bs @
          drop (k + length bs) (GSM_string g)"
  using assms(3-6)
proof (induction bs arbitrary: g k)
  case Nil
  then show ?case by simp
next
  case (Cons b bs)
  note R = read_char[OF assms(1,2) Cons.prems(1,2)]
  let ?g = "snd (fx_read_SPI2UART e p 0x8000 g)" and ?c = "stored_char b"
  let ?h = "?g\<lparr>GSM_string := (GSM_string ?g)[k := ?c]\<rparr>"
  have e: "recv_chars e p (length (b # bs)) k g = Option.bind (store_char k ?c ?g) (recv_chars e p (length bs) (k + 1))"
    using Cons.prems(3) R(1) ucast_eol[of b] by (auto simp: Let_def split_beta stored_char_def)
  show ?case
  proof (cases "k < STRING_SIZE")
    case False
    then show ?thesis using Cons.prems(4) unfolding e by (simp add: store_char_def)
  next
    case True
    have T: "text_mode p b0 ?h" by (rule text_mode_store[OF R(3)])
    have f: "fifo (chip_of p b0 ?h) = bs" using R(2) by simp
    have len: "length (GSM_string g) = STRING_SIZE" using Cons.prems(1) by (simp add: text_mode_def)
    have "take (Suc k) (GSM_string ?h) = take k (GSM_string g) @ [?c]" "drop (Suc k + n) (GSM_string ?h) = drop (Suc k + n) (GSM_string g)" for n
      using True len by (simp_all add: take_Suc_conv_app_nth)
    then show ?thesis using Cons.IH[OF T f, of "Suc k"] True R(2) unfolding e
      by (simp add: store_char_def split: option.splits)
  qed
qed

lemma recv_chars_stored:
  assumes "on_module e p b0" "p \<le> 4" "text_mode p b0 g" "fifo (chip_of p b0 g) = bs"
  shows "case recv_chars e p (length bs) 0 g of
      None \<Rightarrow> STRING_SIZE < length (stored bs)
    | Some g' \<Rightarrow> length (stored bs) \<le> STRING_SIZE \<and> text_mode p b0 g' \<and> chip_of p b0 g' = (chip_of p b0 g)\<lparr>fifo := []\<rparr> \<and>
        SIM_Enter_string g' = SIM_Enter_string g \<and> GSM_string g' = stored bs @ drop (length (stored bs)) (GSM_string g)"
  using assms(3,4)
proof (induction bs arbitrary: g)
  case Nil
  then show ?case by (simp add: stored_def)
next
  case (Cons b bs)
  show ?case
  proof (cases "eol b")
    case True
    note R = read_char[OF assms(1,2) Cons.prems]
    have "recv_chars e p (length (b # bs)) 0 g = recv_chars e p (length bs) 0 (snd (fx_read_SPI2UART e p 0x8000 g))"
      using True R(1) ucast_eol[of b] by (auto simp: Let_def split_beta)
    moreover have "stored (b # bs) = stored bs" using True by (simp add: stored_def)
    ultimately show ?thesis using Cons.IH[OF R(3)] R(2) by (simp split: option.splits)
  next
    case False
    then show ?thesis using recv_chars_kept[OF assms(1,2) Cons.prems, of 0] by (simp add: stored_def split: option.splits)
  qed
qed

lemma GSM_receive_chip:
  assumes "on_module e p b0" "p \<le> 4" "text_mode p b0 g" "length (fifo (chip_of p b0 g)) \<le> 64"
  shows "case GSM_receive e p g of
      None \<Rightarrow> STRING_SIZE < length (stored (fifo (chip_of p b0 g)))
    | Some (s, g') \<Rightarrow> text_mode p b0 g' \<and> chip_of p b0 g' = (chip_of p b0 g)\<lparr>fifo := []\<rparr> \<and>
        SIM_Enter_string g' = SIM_Enter_string g \<and> length (stored (fifo (chip_of p b0 g))) \<le> STRING_SIZE \<and>
        s = (if fifo (chip_of p b0 g) = [] then ''x''
             else cstr (stored (fifo (chip_of p b0 g)) @ drop (length (stored (fifo (chip_of p b0 g)))) (GSM_string g)))"
proof -
  let ?u = "chip_of p b0 g" and ?g = "snd (fx_read_SPI2UART e p 0xC800 g)"
  have r: "routed p b0 g" using assms(3) by (simp add: text_mode_def)
  note R = read_module[OF assms(1,2) r, of "0xC800"]
  have l: "fst (fx_read_SPI2UART e p 0xC800 g) AND 0x00ff = ucast (of_nat (length (fifo ?u)) :: u8)"
    unfolding R(1) low_byte by (simp add: uart_val_cases sc16is750_words_facts)
  have n: "unat (of_nat (length (fifo ?u)) :: u8) = length (fifo ?u)" using assms(4) by (simp add: unat_of_nat take_bit_nat_eq_self)
  have C: "chip_of p b0 ?g = ?u" unfolding R(2) by (simp add: uart_word_def uart_fetch_cases sc16is750_words_facts)
  have T: "text_mode p b0 ?g" using assms(3) R(3) C by (simp add: text_mode_def)
  have len: "length (GSM_string g) = 60" using assms(3) by (simp add: text_mode_def STRING_SIZE_def)
  show ?thesis
  proof (cases "fifo ?u = []")
    case True
    moreover obtain a b cs where "GSM_string g = a # b # cs"
      using len by (metis (no_types) length_0_conv numeral_eq_one_iff One_nat_def length_Suc_conv list.exhaust numeral_One semiring_norm(85) zero_neq_numeral)
    ultimately show ?thesis using l T C assms(3) unfolding GSM_receive_def
      by (simp add: split_beta Let_def cstr_def stored_def text_mode_def routed_def)
  next
    case False
    have z: "(ucast (of_nat (length (fifo ?u)) :: u8) :: u16) \<noteq> 0" using False n ucast_eol(2)
      by (metis length_0_conv unsigned_0)
    have "GSM_receive e p g = Option.bind (recv_chars e p (length (fifo ?u)) 0 ?g) (\<lambda>g. Some (cstr (GSM_string g), g))"
      unfolding GSM_receive_def split_beta Let_def l ucast_eol(2) n using z by simp
    then show ?thesis using recv_chars_stored[OF assms(1,2) T] False
      by (simp add: C split: option.splits)
  qed
qed

section \<open>Dialogue with the modem\<close>

text \<open>Between two commands: nothing waits to be read, the modem is at the start of a line.\<close>

definition conf :: "uart \<Rightarrow> u8 list \<times> (u16 \<Rightarrow> u16)" where
  "conf u = ([dll u, dlh u, efr u, lcr u, mcr u, tcr u, ier u, fcr u], creg u)"

definition modem_at :: "nat \<Rightarrow> gboard \<Rightarrow> u8 list \<times> (u16 \<Rightarrow> u16) \<Rightarrow> bool \<Rightarrow> (string \<Rightarrow> string) \<Rightarrow> u8 list \<Rightarrow> gsm \<Rightarrow> bool" where
  "modem_at p b0 cf pw ans ss g \<longleftrightarrow>
     text_mode p b0 g \<and> fifo (chip_of p b0 g) = [] \<and> line (chip_of p b0 g) = [] \<and> bit (pins (chip_of p b0 g)) 1 = pw \<and>
     answer (chip_of p b0 g) = ans \<and> sent (chip_of p b0 g) = ss \<and> iostate (chip_of p b0 g) = 0x25 \<and> iodir (chip_of p b0 g) = 0x25 \<and>
     conf (chip_of p b0 g) = cf"

lemma conf_simps [simp]:
  "conf (u\<lparr>fifo := f\<rparr>) = conf u" "conf (u\<lparr>line := l\<rparr>) = conf u" "conf (u\<lparr>sent := bs\<rparr>) = conf u" "conf (u\<lparr>pins := b\<rparr>) = conf u"
  "conf (u\<lparr>iostate := b\<rparr>) = conf u"
  by (simp_all add: conf_def)

definition cmd_bytes :: "string \<Rightarrow> u8 list" where
  "cmd_bytes c = bytes c @ [13, 10]"

text \<open>An answer that fits into the converter's buffer.\<close>

definition good_answer :: "string \<Rightarrow> bool" where
  "good_answer a \<longleftrightarrow> a \<noteq> [] \<and> length a \<le> 56 \<and> printable a"

lemma stored_reply:
  assumes "good_answer a"
  shows "stored (reply a) = a @ [CHR 0x00, CHR 0x00]" "cstr (a @ [CHR 0x00, CHR 0x00] @ xs) = a"
proof -
  have c: "\<not> eol (of_nat (code c)) \<and> stored_char (of_nat (code c)) = c \<and> c \<noteq> CHR 0x00" if "c \<in> set a" for c
  proof -
    have k: "32 \<le> code c" "code c < 128" using that assms by (auto simp: good_answer_def printable_def)
    then have "\<not> eol (of_nat (code c))" using char_word_ascii(4)[OF k(2)] by (auto simp: eol_def dest!: arg_cong[of _ _ unat])
    then show ?thesis using k char_word_ascii(4,5)[OF k(2)] by (auto simp: stored_char_def code_def)
  qed
  have b: "map stored_char (bytes a) = a" using c by (simp add: bytes_def map_idI)
  have h: "\<not> eol (hd (bytes a))" "bytes a \<noteq> []" using c assms by (auto simp: bytes_def good_answer_def hd_map)
  have "dropWhile eol (reply a) = bytes a @ [13, 10]"
    using h by (cases "bytes a") (simp_all add: reply_def eol_def)
  then show "stored (reply a) = a @ [CHR 0x00, CHR 0x00]" by (simp add: stored_def b stored_char_def eol_def)
  show "cstr (a @ [CHR 0x00, CHR 0x00] @ xs) = a" using c by (auto simp: cstr_def takeWhile_append2)
qed

lemma wait_g_frame [simp]: "reqs (wait_g n g) = reqs g" "curcard (core (wait_g n g)) = curcard (core g)"
  "GSM_string (wait_g n g) = GSM_string g" "SIM_Enter_string (wait_g n g) = SIM_Enter_string g"
  by (simp_all add: wait_g_def on_core_def wait_just_a_bit_def)

lemma modem_at_wait [simp]: "modem_at p b0 cf pw ans ss (wait_g n g) = modem_at p b0 cf pw ans ss g"
  by (simp add: modem_at_def text_mode_def routed_def)

lemma bit_and_not_2: "\<not> bit (b AND NOT 2 :: u8) 1"
proof -
  have "bit (2 :: u8) 1" by code_simp
  then show ?thesis by (simp only: bit_and_iff bit_not_iff) simp
qed

lemma ask_answered:
  assumes "on_module e p b0" "p \<le> 4" "modem_at p b0 cf True ans ss g" "printable cmd" "good_answer (ans cmd)"
  shows "\<exists>g'. ask e p cmd pause g = Some (ans cmd, g') \<and> modem_at p b0 cf (cmd \<noteq> ''at+cpowd=1'') ans (ss @ cmd_bytes cmd) g' \<and>
    SIM_Enter_string g' = SIM_Enter_string g"
proof -
  let ?u = "chip_of p b0 g" and ?g = "wait_g pause (GSM_send p cmd g)"
  have T: "text_mode p b0 g" and m: "fifo ?u = []" "line ?u = []" "bit (pins ?u) 1" "answer ?u = ans" "sent ?u = ss"
    "iostate ?u = 0x25" "iodir ?u = 0x25" "conf ?u = cf" using assms(3) by (simp_all add: modem_at_def)
  note S = GSM_send_chip[OF assms(2) T assms(4)]
  have C: "chip_of p b0 ?g = modem_line (?u\<lparr>line := cmd, sent := ss @ cmd_bytes cmd\<rparr>)"
    using S(1) by (simp add: m cmd_bytes_def)
  have T': "text_mode p b0 ?g" using S(2) by (simp add: text_mode_def routed_def)
  have l: "length (reply (ans cmd)) \<le> 64" "reply (ans cmd) \<noteq> []" "length (stored (reply (ans cmd))) \<le> STRING_SIZE"
    using assms(5) stored_reply[OF assms(5)] by (simp_all add: good_answer_def reply_def bytes_def STRING_SIZE_def)
  have f: "fifo (chip_of p b0 ?g) = reply (ans cmd)" using m l(1) unfolding C by (auto simp: modem_line_def Let_def)
  from GSM_receive_chip[OF assms(1,2) T'] l f obtain g' where
    g': "GSM_receive e p ?g = Some (cstr (ans cmd @ [CHR 0x00, CHR 0x00] @ drop (length (stored (reply (ans cmd)))) (GSM_string ?g)), g')"
      "text_mode p b0 g'" "chip_of p b0 g' = (chip_of p b0 ?g)\<lparr>fifo := []\<rparr>" "SIM_Enter_string g' = SIM_Enter_string ?g"
    using stored_reply(1)[OF assms(5)] by (auto split: option.splits)
  have "modem_at p b0 cf (cmd \<noteq> ''at+cpowd=1'') ans (ss @ cmd_bytes cmd) g'"
    using g'(2) m unfolding modem_at_def g'(3) C by (auto simp: modem_line_def Let_def bit_and_not_2[simplified])
  then show ?thesis using g'(1,4) S(4) unfolding stored_reply(2)[OF assms(5)] by (auto simp: ask_def)
qed

lemma ask_upto_answered:
  assumes "on_module e p b0" "p \<le> 4" "modem_at p b0 cf True ans ss g" "printable cmd" "good_answer (ans cmd)"
    "cmd \<noteq> ''at+cpowd=1''"
  shows "\<exists>g' ss'. ask_upto e p cmd pause want n g = Some (ans cmd, g') \<and> modem_at p b0 cf True ans ss' g' \<and>
    SIM_Enter_string g' = SIM_Enter_string g"
  using assms(3)
proof (induction n arbitrary: g ss rule: less_induct)
  case (less n)
  from ask_answered[OF assms(1,2) less.prems assms(4,5), of pause] assms(6) obtain g1 where
    g1: "ask e p cmd pause g = Some (ans cmd, g1)" "modem_at p b0 cf True ans (ss @ cmd_bytes cmd) g1"
      "SIM_Enter_string g1 = SIM_Enter_string g" by auto
  show ?case
  proof (cases "ans cmd \<noteq> want \<and> 1 < n")
    case True
    then have "n - 1 < n" by simp
    from less.IH[OF this g1(2)] show ?thesis using True g1 by (simp add: ask_upto.simps[of _ _ _ _ _ n])
  next
    case False
    then show ?thesis using g1 by (auto simp: ask_upto.simps[of _ _ _ _ _ n])
  qed
qed

lemma ask_until_answered:
  assumes "on_module e p b0" "p \<le> 4" "modem_at p b0 cf True ans ss g" "printable cmd" "ans cmd = ''0''"
    "cmd \<noteq> ''at+cpowd=1''" "0 < fuel"
  shows "\<exists>g'. ask_until e p cmd pause fuel g = Some g' \<and> modem_at p b0 cf True ans (ss @ cmd_bytes cmd) g'"
proof -
  have "good_answer ''0''" by code_simp
  then show ?thesis using ask_answered[OF assms(1-4), of pause] assms(5,6,7) by (cases fuel) auto
qed

lemma ask_all_answered:
  assumes "on_module e p b0" "p \<le> 4" "modem_at p b0 cf True ans ss g" "0 < fuel"
    "\<forall>c\<in>set cs. printable c \<and> ans c = ''0'' \<and> c \<noteq> ''at+cpowd=1''"
  shows "\<exists>g'. ask_all e p pause fuel cs g = Some g' \<and> modem_at p b0 cf True ans (ss @ concat (map cmd_bytes cs)) g'"
  using assms(3,5)
proof (induction cs arbitrary: g ss)
  case (Cons c cs)
  from ask_until_answered[OF assms(1,2) Cons.prems(1), of c fuel pause] Cons.prems(2) assms(4) obtain g1 where
    g1: "ask_until e p c pause fuel g = Some g1" "modem_at p b0 cf True ans (ss @ cmd_bytes c) g1" by auto
  from Cons.IH[OF g1(2)] Cons.prems(2) g1(1) show ?case by auto
qed simp

text \<open>The modem's power: the status pin, and the key.\<close>

lemma status_read:
  assumes "on_module e p b0" "p \<le> 4" "modem_at p b0 cf pw ans ss g"
  shows "(fst (fx_read_SPI2UART e p 0xd800 g) AND 0x0002 \<noteq> 0) = pw" "modem_at p b0 cf pw ans ss (snd (fx_read_SPI2UART e p 0xd800 g))"
proof -
  let ?u = "chip_of p b0 g"
  have r: "routed p b0 g" and m: "bit (pins ?u) 1 = pw" "iostate ?u = 0x25" "iodir ?u = 0x25"
    using assms(3) by (simp_all add: modem_at_def text_mode_def)
  note R = read_module[OF assms(1,2) r, of "0xd800"]
  show "modem_at p b0 cf pw ans ss (snd (fx_read_SPI2UART e p 0xd800 g))"
    using assms(3) R(3) by (simp add: modem_at_def text_mode_def R(2) uart_word_def uart_fetch_cases sc16is750_words_facts)
  have b2: "(x AND 2 \<noteq> 0) = bit x 1" for x :: u16 using and_exp_eq_0_iff_not_bit[of x 1] by simp
  have k: "\<not> bit (0xff00 :: u16) 1" "\<not> bit (0x25 :: u8) 1" by code_simp+
  have v: "uart_val 0xd800 ?u = (0x25 AND 0x25) OR (pins ?u AND NOT 0x25)"
    by (simp only: uart_val_def sc16is750_words_facts m(2,3) Let_def) simp
  show "(fst (fx_read_SPI2UART e p 0xd800 g) AND 0x0002 \<noteq> 0) = pw"
    unfolding R(1) b2 v by (simp only: bit_or_iff bit_and_iff bit_not_iff bit_ucast_iff k m(1)) simp
qed

lemma start_modem_on:
  assumes "on_module e p b0" "p \<le> 4" "modem_at p b0 cf pw ans ss g"
  shows "fst (start_modem e p hz g) = 0" "modem_at p b0 cf True ans ss (snd (start_modem e p hz g))"
    "SIM_Enter_string (snd (start_modem e p hz g)) = SIM_Enter_string g"
proof -
  let ?u = "chip_of p b0 g" and ?g1 = "fx_write_SPI2UART p 0x5824 g"
  let ?g2 = "wait_g hz (fx_write_SPI2UART p 0x5825 (wait_g (3 * hz) ?g1))"
  have r: "routed p b0 g" and io: "iostate ?u = 0x25" using assms(3) by (simp_all add: modem_at_def text_mode_def)
  note W1 = write_module[OF assms(2) r, of "0x5824"]
  have r1: "routed p b0 (wait_g (3 * hz) ?g1)" using W1(2) by (simp add: routed_def)
  note W2 = write_module[OF assms(2) r1, of "0x5825"]
  have k: "bit (0x25 :: u8) 0" "\<not> bit (0x24 :: u8) 0" "bit (0x25 :: u8) 2" "bit (0x24 :: u8) 2" "bit (2 :: u8) 1" by code_simp+
  have c1: "chip_of p b0 (wait_g (3 * hz) ?g1) = ?u\<lparr>pins := pins ?u OR 2, iostate := 0x24\<rparr>"
    using W1(1) by (simp add: uart_word_def uart_write_cases sc16is750_words_facts power_key_def codec_edge_def io k)
  have c2: "chip_of p b0 ?g2 = ?u\<lparr>pins := pins ?u OR 2, iostate := 0x25\<rparr>"
    using W2(1) unfolding c1 by (simp add: uart_word_def uart_write_cases sc16is750_words_facts power_key_def codec_edge_def k)
  have "bit (pins ?u OR 2) 1" unfolding bit_or_iff using k(5) by blast
  then have m: "modem_at p b0 cf True ans ss ?g2"
    using assms(3) W2(2) unfolding modem_at_def c2 by (simp add: text_mode_def routed_def c2[simplified])
  note S = status_read[OF assms(1,2) m]
  have e: "start_modem e p hz g = (if fst (fx_read_SPI2UART e p 0xd800 ?g2) AND 0x0002 = 0 then 1 else 0, snd (fx_read_SPI2UART e p 0xd800 ?g2))"
    by (simp add: start_modem_def Let_def split_beta)
  show "fst (start_modem e p hz g) = 0" using S(1) by (simp add: e)
  show "modem_at p b0 cf True ans ss (snd (start_modem e p hz g))" using S(2) by (simp only: e snd_conv)
  show "SIM_Enter_string (snd (start_modem e p hz g)) = SIM_Enter_string g" by (simp add: e)
qed

lemma reset_modem_off:
  assumes "on_module e p b0" "p \<le> 4" "modem_at p b0 cf True ans ss g" "ans ''at+cpowd=1'' = ''NORMAL POWER DOWN''"
  shows "\<exists>g' ss'. reset_modem e p hz g = Some (0, g') \<and> modem_at p b0 cf False ans ss' g' \<and> SIM_Enter_string g' = SIM_Enter_string g"
proof -
  have k: "printable ''at+cpowd=1''" "good_answer ''NORMAL POWER DOWN''" by code_simp+
  from ask_answered[OF assms(1-3) k(1), of "7 * hz"] k(2) assms(4) obtain g1 where
    g1: "ask e p ''at+cpowd=1'' (7 * hz) g = Some (''NORMAL POWER DOWN'', g1)" "modem_at p b0 cf False ans (ss @ cmd_bytes ''at+cpowd=1'') g1"
      "SIM_Enter_string g1 = SIM_Enter_string g" by auto
  note S = status_read[OF assms(1,2) g1(2)]
  show ?thesis using g1 S by (simp add: reset_modem_def ask_upto.simps[of _ _ _ _ _ 3] split_beta Let_def) blast
qed

text \<open>A modem that takes the commands of \<open>init_GSM\<close>.\<close>

definition takes_setup :: "string \<Rightarrow> (string \<Rightarrow> string) \<Rightarrow> bool" where
  "takes_setup pin ans \<longleftrightarrow>
     (\<forall>c\<in>{''at'', ''ate0'', ''atv0'', ''at+cmee=2''}. good_answer (ans c)) \<and>
     ans ''at+cpowd=1'' = ''NORMAL POWER DOWN'' \<and>
     (ans ''at+cpin?'' = ''+CPIN: READY'' \<or> ans ''at+cpin?'' = ''+CPIN: SIM PIN'' \<and> printable pin \<and> pin \<noteq> ''at+cpowd=1'' \<and> ans pin = ''0'') \<and>
     (\<forall>c\<in>set modem_setup. ans c = ''0'')"

lemma check_sim_ok:
  assumes "on_module e p b0" "p \<le> 4" "modem_at p b0 cf True ans ss g" "takes_setup (SIM_Enter_string g) ans" "0 < fuel"
  shows "\<exists>g' ss'. check_sim e p hz fuel g = Some (0, g') \<and> modem_at p b0 cf True ans ss' g'"
proof -
  have k: "printable ''at+cpin?''" "good_answer ''+CPIN: READY''" "good_answer ''+CPIN: SIM PIN''" "good_answer ''0''" by code_simp+
  then have "good_answer (ans ''at+cpin?'')" using assms(4) by (auto simp: takes_setup_def)
  from ask_answered[OF assms(1-3) k(1) this, of "hz div 2"] obtain g1 where
    g1: "ask e p ''at+cpin?'' (hz div 2) g = Some (ans ''at+cpin?'', g1)" "modem_at p b0 cf True ans (ss @ cmd_bytes ''at+cpin?'') g1"
      "SIM_Enter_string g1 = SIM_Enter_string g" by auto
  show ?thesis
  proof (cases "ans ''at+cpin?'' = ''+CPIN: READY''")
    case True
    then show ?thesis using g1 by (auto simp: check_sim_def)
  next
    case False
    then have a: "ans ''at+cpin?'' = ''+CPIN: SIM PIN''" "printable (SIM_Enter_string g1)" "SIM_Enter_string g1 \<noteq> ''at+cpowd=1''"
      "ans (SIM_Enter_string g1) = ''0''" using assms(4) g1(3) by (auto simp: takes_setup_def)
    from ask_answered[OF assms(1,2) g1(2) a(2), of "3 * hz"] a(3,4) k(4) obtain g2 where
      "ask e p (SIM_Enter_string g1) (3 * hz) g1 = Some (''0'', g2)" "\<exists>ss'. modem_at p b0 cf True ans ss' g2" by auto
    then show ?thesis using g1(1) a(1) assms(5) by (cases fuel) (auto simp: check_sim_def)
  qed
qed

text \<open>Bringing up the module, from either state of the modem's power.\<close>

lemma init_GSM_ok:
  assumes "on_module e p b0" "p \<le> 4" "modem_at p b0 cf pw ans ss g" "takes_setup (SIM_Enter_string g) ans" "0 < fuel"
  shows "\<exists>g' ss'. init_GSM e p hz fuel g = Some (0, g') \<and> modem_at p b0 cf True ans (ss' @ concat (map cmd_bytes modem_setup)) g'"
proof -
  note S = status_read[OF assms(1-3)]
  let ?g = "snd (fx_read_SPI2UART e p 0xd800 g)"
  have "\<exists>g1 ss1. (if pw then reset_modem e p hz ?g else Some (0, ?g)) = Some (0, g1) \<and> modem_at p b0 cf False ans ss1 g1 \<and>
      SIM_Enter_string g1 = SIM_Enter_string g"
  proof (cases pw)
    case True
    then show ?thesis using reset_modem_off[OF assms(1,2)] S(2) assms(4) by (fastforce simp: takes_setup_def)
  qed (use S(2) in auto)
  then obtain g1 ss1 where g1: "(if pw then reset_modem e p hz ?g else Some (0, ?g)) = Some (0, g1)" "modem_at p b0 cf False ans ss1 g1"
      "SIM_Enter_string g1 = SIM_Enter_string g" by blast
  let ?g2 = "snd (start_modem e p hz g1)"
  note M = start_modem_on[OF assms(1,2) g1(2), of hz]
  have k: "printable ''at''" "printable ''ate0''" "printable ''atv0''" "printable ''at+cmee=2''"
    "\<forall>c\<in>set modem_setup. printable c \<and> c \<noteq> ''at+cpowd=1''" by code_simp+
  have good: "good_answer (ans ''at'')" "good_answer (ans ''ate0'')" "good_answer (ans ''atv0'')" "good_answer (ans ''at+cmee=2'')"
    "\<forall>c\<in>set modem_setup. ans c = ''0''" using assms(4) by (simp_all add: takes_setup_def)
  from ask_answered[OF assms(1,2) M(2) k(1) good(1), of hz] obtain g3 where
    g3: "ask e p ''at'' hz ?g2 = Some (ans ''at'', g3)" "modem_at p b0 cf True ans (ss1 @ cmd_bytes ''at'') g3"
      "SIM_Enter_string g3 = SIM_Enter_string ?g2" by auto
  from ask_upto_answered[OF assms(1,2) g3(2) k(2) good(2), of "hz div 10" "''OK''" 3] obtain g4 ss4 where
    g4: "ask_upto e p ''ate0'' (hz div 10) ''OK'' 3 g3 = Some (ans ''ate0'', g4)" "modem_at p b0 cf True ans ss4 g4"
      "SIM_Enter_string g4 = SIM_Enter_string g3" by auto
  from ask_upto_answered[OF assms(1,2) g4(2) k(3) good(3), of "hz div 10" "''0''" 3] obtain g5 ss5 where
    g5: "ask_upto e p ''atv0'' (hz div 10) ''0'' 3 g4 = Some (ans ''atv0'', g5)" "modem_at p b0 cf True ans ss5 g5"
      "SIM_Enter_string g5 = SIM_Enter_string g4" by auto
  from ask_upto_answered[OF assms(1,2) g5(2) k(4) good(4), of "hz div 10" "''0''" 3] obtain g6 ss6 where
    g6: "ask_upto e p ''at+cmee=2'' (hz div 10) ''0'' 3 g5 = Some (ans ''at+cmee=2'', g6)" "modem_at p b0 cf True ans ss6 g6"
      "SIM_Enter_string g6 = SIM_Enter_string g5" by auto
  have "takes_setup (SIM_Enter_string g6) ans" using assms(4) by (simp add: g6(3) g5(3) g4(3) g3(3) M(3) g1(3))
  from check_sim_ok[OF assms(1,2) g6(2) this assms(5), of hz] obtain g7 ss7 where
    g7: "check_sim e p hz fuel g6 = Some (0, g7)" "modem_at p b0 cf True ans ss7 (wait_g (10 * hz) g7)" by auto
  from ask_all_answered[OF assms(1,2) g7(2) assms(5), of modem_setup "hz div 10"] k(5) good(5) obtain g8 where
    g8: "ask_all e p (hz div 10) fuel modem_setup (wait_g (10 * hz) g7) = Some g8"
      "modem_at p b0 cf True ans (ss7 @ concat (map cmd_bytes modem_setup)) g8" by auto
  show ?thesis using g8 M(1) by (auto simp: init_GSM_def split_beta Let_def S(1) g1(1) g3(1) g4(1) g5(1) g6(1) g7(1))
qed

text \<open>The two initialisations touch no string.\<close>

lemma program_frame [simp]:
  "GSM_string (snd (fx_program_register_SPI2UART e p w g)) = GSM_string g"
  "SIM_Enter_string (snd (fx_program_register_SPI2UART e p w g)) = SIM_Enter_string g"
  by (simp_all add: fx_program_register_SPI2UART_def tx_word_def rx_word_def Let_def)

lemma program_words_frame [simp]:
  "GSM_string (snd (program_words e p ws g)) = GSM_string g" "SIM_Enter_string (snd (program_words e p ws g)) = SIM_Enter_string g"
proof (induction ws arbitrary: g)
  case (Cons x ws)
  { case 1 show ?case using Cons.IH(1) by (cases x) (simp add: Let_def split_beta) }
  { case 2 show ?case using Cons.IH(2) by (cases x) (simp add: Let_def split_beta) }
qed simp_all

lemma codec_fold_frame [simp]:
  "GSM_string (fold (\<lambda>w g. Codec_reg_data_latch p (fx_write_SPI2UART_wo_CS w g)) ws g) = GSM_string g"
  "SIM_Enter_string (fold (\<lambda>w g. Codec_reg_data_latch p (fx_write_SPI2UART_wo_CS w g)) ws g) = SIM_Enter_string g"
  by (induction ws arbitrary: g) (simp_all add: Codec_reg_data_latch_def fx_write_SPI2UART_wo_CS_def tx_word_def)

lemma init_frame:
  "GSM_string (init_WM8510 p (snd (init_SC16IS750 e p g))) = GSM_string g"
  "SIM_Enter_string (init_WM8510 p (snd (init_SC16IS750 e p g))) = SIM_Enter_string g"
  by (simp_all add: init_WM8510_def init_SC16IS750_def)

lemma setup_chip:
  assumes "on_module e p b0" "p \<le> 4" "routed p b0 g" "length (GSM_string g) = STRING_SIZE" "line (chip_of p b0 g) = []"
  shows "fst (init_SC16IS750 e p g) = 0"
    "\<exists>pw. modem_at p b0 ([6, 0, 0xD0, 3, 4, 0x1E, 1, 7], \<lambda>r. case map_of wm8510_regs r of None \<Rightarrow> 0 | Some d \<Rightarrow> d) pw
       (answer (chip_of p b0 g)) (sent (chip_of p b0 g)) (init_WM8510 p (snd (init_SC16IS750 e p g)))"
proof -
  note C = init_SC16IS750_chip[OF assms(1-3)]
  show "fst (init_SC16IS750 e p g) = 0" by (rule C(1))
  let ?g = "snd (init_SC16IS750 e p g)"
  from C(3) obtain cr where cr: "chip_of p b0 ?g = (chip_of p b0 g)\<lparr>dll := 6, dlh := 0, efr := 0xD0, lcr := 3, mcr := 4, tcr := 0x1E,
      ier := 1, fcr := 7, iostate := 0x25, iodir := 0x25, fifo := [], creg := cr\<rparr>" by blast
  then have io: "iostate (chip_of p b0 ?g) = 0x25" by simp
  note W = init_WM8510_chip[OF assms(2) C(2) io]
  from W(1) obtain sh where "chip_of p b0 (init_WM8510 p ?g) =
      (chip_of p b0 ?g)\<lparr>cshift := sh, creg := (\<lambda>r. case map_of wm8510_regs r of None \<Rightarrow> 0 | Some d \<Rightarrow> d)\<rparr>" by blast
  then show "\<exists>pw. modem_at p b0 ([6, 0, 0xD0, 3, 4, 0x1E, 1, 7], \<lambda>r. case map_of wm8510_regs r of None \<Rightarrow> 0 | Some d \<Rightarrow> d) pw
       (answer (chip_of p b0 g)) (sent (chip_of p b0 g)) (init_WM8510 p ?g)"
    using W(2) assms(4,5) cr init_frame[of p e g] by (simp add: modem_at_def text_mode_def conf_def)
qed

lemma gsm_module_up_step:
  assumes "on_module e p b0" "p \<le> 4" "routed p b0 g" "length (GSM_string g) = STRING_SIZE" "line (chip_of p b0 g) = []"
    and "takes_setup (SIM_Enter_string g) (answer (chip_of p b0 g))" "0 < fuel"
  shows "\<exists>g' pre. Initialize_GSM_module e p hz fuel g = Some (0, g') \<and>
    (let u = chip_of p b0 g' in
       (dll u, dlh u, lcr u, efr u, mcr u, tcr u, ier u, fcr u) = (6, 0, 3, 0xD0, 4, 0x1E, 1, 7) \<and>
       (\<forall>r. creg u r = (case map_of wm8510_regs r of None \<Rightarrow> 0 | Some d \<Rightarrow> d)) \<and>
       bit (pins u) 1 \<and> sent u = pre @ concat (map cmd_bytes modem_setup))"
proof -
  let ?h = "init_WM8510 p (snd (init_SC16IS750 e p g))"
  note S = setup_chip[OF assms(1-5)]
  from S(2) obtain pw where M: "modem_at p b0 ([6, 0, 0xD0, 3, 4, 0x1E, 1, 7], \<lambda>r. case map_of wm8510_regs r of None \<Rightarrow> 0 | Some d \<Rightarrow> d) pw
       (answer (chip_of p b0 g)) (sent (chip_of p b0 g)) ?h" by blast
  have "takes_setup (SIM_Enter_string ?h) (answer (chip_of p b0 g))" using assms(6) init_frame[of p e g] by simp
  from init_GSM_ok[OF assms(1,2) M this assms(7), of hz] obtain g' ss' where
    "init_GSM e p hz fuel ?h = Some (0, g')"
    "modem_at p b0 ([6, 0, 0xD0, 3, 4, 0x1E, 1, 7], \<lambda>r. case map_of wm8510_regs r of None \<Rightarrow> 0 | Some d \<Rightarrow> d) True
       (answer (chip_of p b0 g)) (ss' @ concat (map cmd_bytes modem_setup)) g'" by blast
  then show ?thesis using S(1)
    by (intro exI[of _ g'] exI[of _ ss']) (simp add: Initialize_GSM_module_def split_beta Let_def modem_at_def conf_def)
qed

text \<open>
  C10.  Bringing up the GSM module.  Take a module in one of the ports 0 to 4 with its modem on or
  off, whatever the registers of the converter and the codec hold, and a modem that takes
  the commands: it answers \<open>at+cpin?\<close> with \<open>READY\<close>, or asks for the PIN and accepts it, and
  answers the five settings with 0.  Then \<open>Initialize_GSM_module\<close> comes to an end with success, one round of
  each unbounded retry loop being enough; the converter runs at divisor 6 with eight
  data bits and hardware flow control, every codec register has the value that the table of
  settings gives it, the modem is on and the last it was sent are the five settings, in order.
\<close>

theorem gsm_module_up:
  assumes "on_module e p b0" "p \<le> 4" "routed p b0 g" "length (GSM_string g) = STRING_SIZE" "line (chip_of p b0 g) = []"
    and "takes_setup (SIM_Enter_string g) (answer (chip_of p b0 g))" "0 < fuel"
  shows "\<exists>g' pre. Initialize_GSM_module e p hz fuel g = Some (0, g') \<and>
    (let u = chip_of p b0 g' in
       (dll u, dlh u, lcr u, efr u, mcr u, tcr u, ier u, fcr u) = (6, 0, 3, 0xD0, 4, 0x1E, 1, 7) \<and>
       (\<forall>r. creg u r = (case map_of wm8510_regs r of None \<Rightarrow> 0 | Some d \<Rightarrow> d)) \<and>
       bit (pins u) 1 \<and> sent u = pre @ concat (map cmd_bytes modem_setup))"
  using assms by (rule gsm_module_up_step)

text \<open>A module in port 2, powered off, with a card that needs no PIN.\<close>

definition demo_answer :: "string \<Rightarrow> string" where
  "demo_answer c = (if c = ''at+cpowd=1'' then ''NORMAL POWER DOWN'' else if c = ''at+cpin?'' then ''+CPIN: READY''
     else if c \<in> set modem_setup then ''0'' else ''OK'')"

definition demo_uart :: uart where
  "demo_uart = \<lparr>dll = 0, dlh = 0, efr = 0, lcr = 0x1D, mcr = 0, tcr = 0, ier = 0, fcr = 0, iostate = 0, iodir = 0, pins = 0,
     sent = [], fifo = [], cshift = 0, creg = (\<lambda>_. 0), line = [], answer = demo_answer\<rparr>"

definition demo_gboard :: gboard where
  "demo_gboard = \<lparr>gmux = 0, gchip = demo_uart\<rparr>"

definition module_env :: "nat \<Rightarrow> gboard \<Rightarrow> genv" where
  "module_env p b0 = \<lparr>base_env = \<lparr>rxv = (\<lambda>es. 0xff), clk = (\<lambda>n. of_nat n)\<rparr>,
     rxw = (\<lambda>rs w. let b = gboard_of p b0 rs in if mux_card (gmux b) = Some p then 0xff00 OR ucast (uart_val w (gchip b)) else 0xffff)\<rparr>"

lemma on_module_env: "on_module (module_env p b0) p b0"
  by (simp add: on_module_def module_env_def)

definition demo_gsm :: gsm where
  "demo_gsm = \<lparr>core = demo_wc, reqs = [], port_type = replicate 8 (Fx NoPort), card2TDMslot_mapping = (\<lambda>_. -1),
     outgoing_call_state = 0, incomming_call_state = 0, interrupt_count = 0, GSM_string = replicate 60 (CHR 0x00),
     txstate = (\<lambda>_. 0), rxhooksig = (\<lambda>_. None), txdialbuf = (\<lambda>_. []), SIM_Enter_string = ''at+cpin='' @ [CHR 0x22] @ ''3700'' @ [CHR 0x22]\<rparr>"

theorem gsm_module_up_witness:
  "\<exists>g' pre. Initialize_GSM_module (module_env 2 demo_gboard) 2 100 1 demo_gsm = Some (0, g') \<and>
    (let u = chip_of 2 demo_gboard g' in
       (dll u, dlh u, lcr u, efr u, mcr u, tcr u, ier u, fcr u) = (6, 0, 3, 0xD0, 4, 0x1E, 1, 7) \<and>
       (\<forall>r. creg u r = (case map_of wm8510_regs r of None \<Rightarrow> 0 | Some d \<Rightarrow> d)) \<and>
       bit (pins u) 1 \<and> sent u = pre @ concat (map cmd_bytes modem_setup))"
proof (rule gsm_module_up[OF on_module_env])
  show "takes_setup (SIM_Enter_string demo_gsm) (answer (chip_of 2 demo_gboard demo_gsm))"
    by (simp add: demo_gsm_def demo_gboard_def demo_uart_def hw) code_simp
qed (simp_all add: routed_def demo_gsm_def demo_wc_def demo_gboard_def demo_uart_def STRING_SIZE_def hw)

section \<open>What the modem's answers can do to the driver\<close>

lemma length_stored: "length (stored bs) = length (dropWhile eol bs)"
  by (simp add: stored_def)

lemma cstr_append: "cstr (xs @ CHR 0x00 # ys) = cstr xs"
  by (induction xs) (simp_all add: cstr_def)

lemma stored_line:
  fixes fs :: "u8 list"
  defines "bs \<equiv> dropWhile eol fs"
  defines "ln \<equiv> map (char_of \<circ> unat) (takeWhile (Not \<circ> eol) bs)"
  shows "cstr (stored fs @ drop (length (stored fs)) old) = (if list_ex eol bs then cstr ln else cstr (ln @ drop (length ln) old))"
proof -
  have m: "map stored_char (takeWhile (Not \<circ> eol) bs) = ln"
    unfolding ln_def by (rule map_cong[OF refl]) (auto dest: set_takeWhileD simp: stored_char_def)
  show ?thesis
  proof (cases "list_ex eol bs")
    case True
    then obtain b cs where d: "dropWhile (Not \<circ> eol) bs = b # cs" "eol b"
      by (cases "dropWhile (Not \<circ> eol) bs") (auto simp: list_ex_iff dropWhile_eq_Nil_conv dropWhile_eq_Cons_conv)
    have "stored fs = map stored_char (takeWhile (Not \<circ> eol) bs @ dropWhile (Not \<circ> eol) bs)" by (simp add: stored_def bs_def)
    then have "stored fs = ln @ CHR 0x00 # map stored_char cs" by (simp only: map_append m d) (simp add: stored_char_def d)
    then show ?thesis using True by (simp add: cstr_append)
  next
    case False
    then have tw: "takeWhile (Not \<circ> eol) bs = bs" by (auto simp: list_ex_iff takeWhile_eq_all_conv)
    have "stored fs = ln" using m unfolding tw by (simp add: stored_def bs_def)
    then show ?thesis using False by simp
  qed
qed

text \<open>
  C22.  Reading an answer.  On a converter set up for text with at most 64 characters waiting,
  \<open>GSM_receive\<close> takes all of them.  It has a result exactly if no more than 60 characters are
  left when the line ends in front are dropped; otherwise it writes past the end of
  \<open>GSM_string\<close>.  The result is \<open>x\<close> if nothing was waiting, and the first line if a line ended; without
  a line end, or if only line ends came, what earlier answers left in \<open>GSM_string\<close> follows.
\<close>

theorem gsm_receive_answer:
  assumes "on_module e p b0" "p \<le> 4" "text_mode p b0 g" "length (fifo (chip_of p b0 g)) \<le> 64"
  shows "let bs = dropWhile eol (fifo (chip_of p b0 g)); ln = map (char_of \<circ> unat) (takeWhile (Not \<circ> eol) bs) in
    (GSM_receive e p g = None) = (60 < length bs) \<and>
    (\<forall>s g'. GSM_receive e p g = Some (s, g') \<longrightarrow>
       fifo (chip_of p b0 g') = [] \<and> sent (chip_of p b0 g') = sent (chip_of p b0 g) \<and>
       s = (if fifo (chip_of p b0 g) = [] then ''x''
            else if list_ex eol bs then cstr ln
            else cstr (ln @ drop (length ln) (GSM_string g))))"
  using GSM_receive_chip[OF assms]
  by (auto simp: Let_def stored_line[unfolded length_stored length_map] length_stored STRING_SIZE_def split: option.splits)

definition ringing :: gboard where
  "ringing = \<lparr>gmux = 0, gchip = demo_uart\<lparr>lcr := 3, fifo := reply ''2''\<rparr>\<rparr>"

theorem gsm_receive_answer_witness:
  "\<exists>g'. GSM_receive (module_env 2 ringing) 2 demo_gsm = Some (''2'', g') \<and> fifo (chip_of 2 ringing g') = []"
proof -
  have f: "fifo (chip_of 2 ringing demo_gsm) = [13, 10, 50, 13, 10]" unfolding demo_gsm_def ringing_def
    by (simp add: hw reply_def bytes_def) code_simp
  have t: "text_mode 2 ringing demo_gsm"
    by (simp add: text_mode_def routed_def ringing_def demo_gsm_def demo_wc_def STRING_SIZE_def hw)
  have e: "\<not> eol 50" "eol 13" "eol 10" "char_of (unat (50 :: u8)) = CHR ''2''" by code_simp+
  show ?thesis using gsm_receive_answer[OF on_module_env _ t, unfolded f] e
    by (cases "GSM_receive (module_env 2 ringing) 2 demo_gsm") (auto simp: Let_def cstr_def)
qed

text \<open>A modem that neither accepts nor rejects the PIN by that exact text, for instance one that
  answers with the error's number or asks for the PUK, is sent the PIN again without end.\<close>

lemma enter_pin_forever:
  assumes "on_module e p b0" "p \<le> 4" "modem_at p b0 cf True ans ss g" "printable (SIM_Enter_string g)"
    "good_answer (ans (SIM_Enter_string g))" "SIM_Enter_string g \<noteq> ''at+cpowd=1''"
    "ans (SIM_Enter_string g) \<noteq> ''0''" "ans (SIM_Enter_string g) \<noteq> ''+CME ERROR: incorrect password''"
  shows "enter_pin e p pause fuel g = None"
  using assms(3-8)
proof (induction fuel arbitrary: g ss)
  case (Suc fuel)
  from ask_answered[OF assms(1,2) Suc.prems(1,2,3), of pause] Suc.prems(4) obtain g1 where
    g1: "ask e p (SIM_Enter_string g) pause g = Some (ans (SIM_Enter_string g), g1)"
      "modem_at p b0 cf True ans (ss @ cmd_bytes (SIM_Enter_string g)) g1" "SIM_Enter_string g1 = SIM_Enter_string g" by auto
  have "enter_pin e p pause fuel g1 = None" using Suc.IH[OF g1(2)] Suc.prems(2-6) by (simp add: g1(3))
  then show ?case using g1(1) Suc.prems(5,6) by simp
qed simp

lemma ask_until_forever:
  assumes "on_module e p b0" "p \<le> 4" "modem_at p b0 cf True ans ss g" "printable cmd" "good_answer (ans cmd)" "cmd \<noteq> ''at+cpowd=1''"
    "ans cmd \<noteq> ''0''"
  shows "ask_until e p cmd pause fuel g = None"
  using assms(3)
proof (induction fuel arbitrary: g ss)
  case (Suc fuel)
  from ask_answered[OF assms(1,2) Suc.prems assms(4,5), of pause] assms(6) obtain g1 where
    "ask e p cmd pause g = Some (ans cmd, g1)" "modem_at p b0 cf True ans (ss @ cmd_bytes cmd) g1" by auto
  then show ?case using Suc.IH assms(7) by auto
qed simp

end
