(* ===== verification/Gsm_Call.thy ===== *)
theory Gsm_Call
  imports Gsm_Chip
begin

text \<open>
  Calls over the GSM module: \<open>wcfxs_gsm_control\<close> of \<open>src/src/zaptel-gsm/gsm_module.c\<close>, which the
  interrupt handler runs for the module's channel, and \<open>wcfxs_hooksig\<close> of
  \<open>src/src/zaptel-gsm/wcfxs.c\<close>, which the Zaptel core calls.  The two share the state of
  the one call the module can have.  A step relation interleaves them with whatever the
  modem says; the call machine it refines is stated separately.
\<close>

section \<open>Interrupt side\<close>

definition report :: "nat \<Rightarrow> rxsig \<Rightarrow> gsm \<Rightarrow> gsm" where
  "report c x g = on_core (zt_hooksig c x) g"

text \<open>The ring pulse, reported to Zaptel in two interrupts.  The state it ends in is 1 already
  when the call is ringing.\<close>

definition ring_pulse :: "nat \<Rightarrow> string \<Rightarrow> gsm \<Rightarrow> gsm" where
  "ring_pulse c p g =
     (let g = (if p = ''2'' then g\<lparr>interrupt_count := 2\<rparr> else g)
      in if interrupt_count g = 2 then (report c RXSIG_RING g)\<lparr>interrupt_count := 1\<rparr>
         else if interrupt_count g = 1 then (report c RXSIG_OFFHOOK g)\<lparr>interrupt_count := 0, incomming_call_state := 1\<rparr>
         else g)"

definition wcfxs_gsm_control :: "genv \<Rightarrow> nat \<Rightarrow> gsm \<Rightarrow> gsm option" where
  "wcfxs_gsm_control e c g =
     (if outgoing_call_state g = 1
      then do { (p, g) \<leftarrow> GSM_receive e c g;
                Some (if p = ''x'' then g
                      else if p = ''0'' then g\<lparr>outgoing_call_state := 2\<rparr>
                      else report c RXSIG_ONHOOK (g\<lparr>outgoing_call_state := 0\<rparr>)) }
      else if outgoing_call_state g = 2
      then do { (p, g) \<leftarrow> GSM_receive e c g;
                Some (if p = ''x'' then g
                      else if p = ''3'' then report c RXSIG_ONHOOK (g\<lparr>outgoing_call_state := 0\<rparr>)
                      else if p = ''7'' then report c RXSIG_ONHOOK (g\<lparr>outgoing_call_state := 0\<rparr>)
                      else if p = ''8'' then report c RXSIG_ONHOOK (g\<lparr>outgoing_call_state := 0\<rparr>)
                      else g) }
      else if incomming_call_state g = 0
      then do { (p, g) \<leftarrow> GSM_receive e c g; Some (ring_pulse c p g) }
      else if incomming_call_state g = 1
      then do { (p, g) \<leftarrow> GSM_receive e c g;
                let g = g\<lparr>txstate := (txstate g)(c := 1)\<rparr>;
                Some (if p = ''3''
                      then report c RXSIG_ONHOOK (g\<lparr>incomming_call_state := 0, interrupt_count := 0\<rparr>)
                      else ring_pulse c p g) }
      else if incomming_call_state g = 2
      then do { (p, g) \<leftarrow> GSM_receive e c g;
                Some (if p = ''x'' then g
                      else if p = ''3'' then report c RXSIG_ONHOOK (g\<lparr>incomming_call_state := 0\<rparr>)
                      else g) }
      else Some g)"

section \<open>Signalling from Zaptel\<close>

text \<open>The FXS branch ends an answered GSM call first.\<close>

definition gsm_hooksig_fxs :: "nat \<Rightarrow> zsig \<Rightarrow> txsig \<Rightarrow> gsm \<Rightarrow> gsm" where
  "gsm_hooksig_fxs c sig txsig g =
     (let g = (if txsig = TXSIG_ONHOOK \<and> incomming_call_state g = 2
               then (GSM_send c ''ath'' g)\<lparr>incomming_call_state := 0\<rparr> else g);
          g = on_core (hooksig_fxs_state c sig txsig) g
      in on_core (\<lambda>s. wcfxs_setreg c 64 (ucast (mem s (fxs_lasttxhook c))) s) g)"

definition CALL_STRING_SIZE :: nat where "CALL_STRING_SIZE = 30"

text \<open>The buffer holds the prefix, the digits and the terminator before the last digit is
  cut off.\<close>

definition dial :: "nat \<Rightarrow> gsm \<Rightarrow> gsm option" where
  "dial c g =
     (let g = g\<lparr>rxhooksig := (rxhooksig g)(c := Some RXSIG_OFFHOOK)\<rparr>;
          s = ''atd'' @ txdialbuf g c
      in if CALL_STRING_SIZE < length s + 1 then None
         else let s = butlast s @ '';''
              in Some (if outgoing_call_state g = 0 \<and> incomming_call_state g = 0
                       then (GSM_send c s g)\<lparr>outgoing_call_state := 1\<rparr> else g))"

definition gsm_offhook :: "nat \<Rightarrow> gsm \<Rightarrow> gsm" where
  "gsm_offhook c g =
     (let g = (if incomming_call_state g = 1 then GSM_send c ''ata'' (g\<lparr>incomming_call_state := 2\<rparr>) else g)
      in on_core (setm (fxo_offhook c) 1) g)"

definition gsm_onhook :: "nat \<Rightarrow> gsm \<Rightarrow> gsm" where
  "gsm_onhook c g =
     (let g = (if outgoing_call_state g = 2 then (GSM_send c ''ath'' g)\<lparr>outgoing_call_state := 0\<rparr> else g)
      in on_core (setm (fxo_offhook c) 0) g)"

definition gsm_hooksig_gsm :: "genv \<Rightarrow> params \<Rightarrow> nat \<Rightarrow> txsig \<Rightarrow> gsm \<Rightarrow> gsm option" where
  "gsm_hooksig_gsm e k c txsig g =
     do { g \<leftarrow> (case txsig of
                  TXSIG_START \<Rightarrow> if txdialbuf g c \<noteq> [] then dial c g else Some (gsm_offhook c g)
                | TXSIG_OFFHOOK \<Rightarrow> Some (gsm_offhook c g)
                | TXSIG_ONHOOK \<Rightarrow> Some (gsm_onhook c g)
                | _ \<Rightarrow> Some g);
          let g = (if debug k \<noteq> 0 then on_core (\<lambda>s. snd (wcfxs_getreg (base_env e) c 64 s)) g else g);
          Some (on_core (\<lambda>s. wcfxs_setreg c 64 (ucast (mem s (fxs_lasttxhook c))) s) g) }"

definition gsm_hooksig :: "genv \<Rightarrow> params \<Rightarrow> nat \<Rightarrow> zsig \<Rightarrow> txsig \<Rightarrow> gsm \<Rightarrow> gsm option" where
  "gsm_hooksig e k c sig txsig g =
     (if modtype (core g) c = MOD_TYPE_FXO \<and> port_type g ! c \<noteq> GPort then Some (on_core (hooksig_fxo c txsig) g)
      else if modtype (core g) c = MOD_TYPE_FXS then Some (gsm_hooksig_fxs c sig txsig g)
      else gsm_hooksig_gsm e k c txsig g)"

section \<open>The call machine\<close>

datatype said = Nothing | Okay | Ring | No_carrier | Busy | No_answer | Other

definition classify :: "string \<Rightarrow> said" where
  "classify p = (if p = ''x'' then Nothing else if p = ''0'' then Okay else if p = ''2'' then Ring else if p = ''3'' then No_carrier
     else if p = ''7'' then Busy else if p = ''8'' then No_answer else Other)"

datatype cphase = Free | Dialling | Talking | Ringing | Answered

datatype gev = Tick said | Hook txsig string | Phone txsig

text \<open>The state is the phase of the call and whether the second half of a ring pulse is due.
  A step gives the next state, the signals to Zaptel and the commands to the modem.\<close>

type_synonym cstate = "cphase \<times> bool"

fun call_step :: "gev \<Rightarrow> cstate \<Rightarrow> cstate \<times> rxsig list \<times> string list" where
  "call_step (Tick a) (Dialling, b) =
     (case a of Nothing \<Rightarrow> ((Dialling, b), [], []) | Okay \<Rightarrow> ((Talking, b), [], []) | _ \<Rightarrow> ((Free, b), [RXSIG_ONHOOK], []))"
| "call_step (Tick a) (Talking, b) =
     (if a \<in> {No_carrier, Busy, No_answer} then ((Free, b), [RXSIG_ONHOOK], []) else ((Talking, b), [], []))"
| "call_step (Tick a) (Free, b) =
     (if a = Ring then ((Free, True), [RXSIG_RING], [])
      else if b then ((Ringing, False), [RXSIG_OFFHOOK], []) else ((Free, False), [], []))"
| "call_step (Tick a) (Ringing, b) =
     (if a = No_carrier then ((Free, False), [RXSIG_ONHOOK], [])
      else if a = Ring then ((Ringing, True), [RXSIG_RING], [])
      else if b then ((Ringing, False), [RXSIG_OFFHOOK], []) else ((Ringing, False), [], []))"
| "call_step (Tick a) (Answered, b) =
     (if a = No_carrier then ((Free, b), [RXSIG_ONHOOK], []) else ((Answered, b), [], []))"
| "call_step (Hook t num) (ph, b) =
     (if t = TXSIG_START \<and> num \<noteq> []
      then if ph = Free then ((Dialling, b), [], [''atd'' @ butlast num @ '';'']) else ((ph, b), [], [])
      else if t = TXSIG_START \<or> t = TXSIG_OFFHOOK
      then if ph = Ringing then ((Answered, b), [], [''ata'']) else ((ph, b), [], [])
      else if t = TXSIG_ONHOOK \<and> ph = Talking then ((Free, b), [], [''ath''])
      else ((ph, b), [], []))"
| "call_step (Phone t) (ph, b) = (if t = TXSIG_ONHOOK \<and> ph = Answered then ((Free, b), [], []) else ((ph, b), [], []))"

fun call_run :: "gev list \<Rightarrow> cstate \<Rightarrow> cstate \<times> rxsig list \<times> string list" where
  "call_run [] q = (q, [], [])"
| "call_run (x # xs) q =
     (let (q1, sg1, cm1) = call_step x q; (q2, sg2, cm2) = call_run xs q1 in (q2, sg1 @ sg2, cm1 @ cm2))"

section \<open>Steps of the driver\<close>

text \<open>Interrupts with any environment, signalling on the module's channel with any number to
  dial, and signalling on any FXS channel.\<close>

inductive gsm_step :: "params \<Rightarrow> nat \<Rightarrow> gev \<Rightarrow> gsm \<Rightarrow> gsm \<Rightarrow> bool" for k c where
  tick: "GSM_receive e c g = Some (p, g1) \<Longrightarrow> wcfxs_gsm_control e c g = Some g' \<Longrightarrow> gsm_step k c (Tick (classify p)) g g'"
| hook: "gsm_hooksig e k c sig t (g\<lparr>txdialbuf := (txdialbuf g)(c := num)\<rparr>) = Some g' \<Longrightarrow> printable num \<Longrightarrow>
    gsm_step k c (Hook t num) g g'"
| phone: "d < 8 \<Longrightarrow> modtype (core g) d = MOD_TYPE_FXS \<Longrightarrow> gsm_hooksig e k d sig t g = Some g' \<Longrightarrow> gsm_step k c (Phone t) g g'"

inductive gsm_run :: "params \<Rightarrow> nat \<Rightarrow> gev list \<Rightarrow> gsm \<Rightarrow> gsm \<Rightarrow> bool" for k c where
  start: "gsm_run k c [] g g"
| step: "gsm_step k c x g g1 \<Longrightarrow> gsm_run k c xs g1 g' \<Longrightarrow> gsm_run k c (x # xs) g g'"

text \<open>The call state the variables stand for, and when they stand for one.\<close>

definition call_of :: "gsm \<Rightarrow> cstate" where
  "call_of g =
     (if outgoing_call_state g = 1 then Dialling else if outgoing_call_state g = 2 then Talking
      else if incomming_call_state g = 0 then Free else if incomming_call_state g = 1 then Ringing else Answered,
      interrupt_count g = 1)"

definition call_ok :: "gsm \<Rightarrow> bool" where
  "call_ok g \<longleftrightarrow> outgoing_call_state g \<le> 2 \<and> incomming_call_state g \<le> 2 \<and> interrupt_count g \<le> 1 \<and>
     (outgoing_call_state g = 0 \<or> incomming_call_state g = 0)"

text \<open>The module's channel, and what has been sent to the modem and reported for it.\<close>

definition gsm_chan :: "nat \<Rightarrow> gboard \<Rightarrow> gsm \<Rightarrow> bool" where
  "gsm_chan c b0 g \<longleftrightarrow> c \<le> 4 \<and> modtype (core g) c = MOD_TYPE_FXO \<and> port_type g ! c = GPort \<and> text_mode c b0 g"

definition signals :: "nat \<Rightarrow> gsm \<Rightarrow> rxsig list" where
  "signals c g = List.map_filter (\<lambda>z. case z of Hooksig d x \<Rightarrow> if d = c then Some x else None | _ \<Rightarrow> None) (zt (core g))"

section \<open>What the parts of a step change\<close>

text \<open>Everything the call machine is about.  A step is quiet when it changes none of it.\<close>

definition obs :: "nat \<Rightarrow> gboard \<Rightarrow> gsm \<Rightarrow> (nat \<times> nat \<times> nat) \<times> (nat \<Rightarrow> modtype_t) \<times> gport list \<times> rxsig list \<times> u8 list" where
  "obs c b0 g = ((outgoing_call_state g, incomming_call_state g, interrupt_count g), modtype (core g), port_type g, signals c g,
     sent (chip_of c b0 g))"

definition quiet :: "nat \<Rightarrow> gboard \<Rightarrow> gsm \<Rightarrow> gsm \<Rightarrow> bool" where
  "quiet c b0 g g' \<longleftrightarrow> obs c b0 g' = obs c b0 g \<and> text_mode c b0 g'"

lemma quiet_trans [trans]: "quiet c b0 g g1 \<Longrightarrow> quiet c b0 g1 g' \<Longrightarrow> quiet c b0 g g'"
  by (simp add: quiet_def)

lemma quiet_refl: "text_mode c b0 g \<Longrightarrow> quiet c b0 g g"
  by (simp add: quiet_def)

lemma setcard_core: "modtype (wcfxs_setcard x s) = modtype s" "zt (wcfxs_setcard x s) = zt s"
  by (simp_all add: wcfxs_setcard_def tx_def)

text \<open>Reading from the module.\<close>

lemma quiet_read:
  assumes "c \<le> 4" "text_mode c b0 g" "w = 0x8000 \<or> w = 0xC800"
  shows "quiet c b0 g (snd (fx_read_SPI2UART e c w g))"
proof -
  have r: "routed c b0 g" and l: "lcr (chip_of c b0 g) = 3" "length (GSM_string g) = STRING_SIZE"
    using assms(2) by (simp_all add: text_mode_def)
  note S = select_module[OF assms(1) r]
  have "is_read w" using assms(3) by (auto simp: sc16is750_words_facts)
  then have u: "chip_of c b0 (snd (fx_read_SPI2UART e c w g)) = uart_fetch w (chip_of c b0 g)"
    using S by (simp add: fx_read_SPI2UART_def rx_word_def hw uart_word_def)
  have "routed c b0 (snd (fx_read_SPI2UART e c w g))" using S by (simp add: fx_read_SPI2UART_def rx_word_def routed_def hw)
  then show ?thesis using l
    by (simp add: quiet_def obs_def text_mode_def u) (simp add: uart_fetch_def fx_read_SPI2UART_def rx_word_def on_core_def Let_def setcard_core signals_def)
qed

lemma quiet_store: "quiet c b0 g g1 \<Longrightarrow> quiet c b0 g (g1\<lparr>GSM_string := (GSM_string g1)[i := x]\<rparr>)"
  by (simp add: quiet_def obs_def signals_def text_mode_store)

lemma quiet_recv_chars:
  assumes "c \<le> 4" "text_mode c b0 g" "recv_chars e c n i g = Some g'"
  shows "quiet c b0 g g'"
  using assms(2,3)
proof (induction n arbitrary: i g)
  case 0
  then show ?case by (simp add: quiet_refl)
next
  case (Suc n)
  let ?g = "snd (fx_read_SPI2UART e c 0x8000 g)"
  have q: "quiet c b0 g ?g" by (rule quiet_read[OF assms(1) Suc.prems(1)]) simp
  obtain j g1 where g1: "quiet c b0 g g1" "recv_chars e c n j g1 = Some g'"
    using Suc.prems(2) q quiet_store[OF q] by (auto simp: Let_def split_beta store_char_def split: if_splits)
  then have "quiet c b0 g1 g'" by (intro Suc.IH) (simp_all add: quiet_def)
  with g1(1) show ?case by (rule quiet_trans)
qed

lemma quiet_receive:
  assumes "c \<le> 4" "text_mode c b0 g" "GSM_receive e c g = Some (p, g')"
  shows "quiet c b0 g g'"
proof -
  let ?g = "snd (fx_read_SPI2UART e c 0xC800 g)"
  have q: "quiet c b0 g ?g" by (rule quiet_read[OF assms(1,2)]) simp
  then have T: "text_mode c b0 ?g" by (simp add: quiet_def)
  show ?thesis
  proof (cases "fst (fx_read_SPI2UART e c 0xC800 g) AND 0x00ff = 0")
    case True
    then have "g' = (?g\<lparr>GSM_string := (GSM_string ?g)[0 := CHR ''x'', 1 := CHR 0x00]\<rparr>)"
      using assms(3) by (simp add: GSM_receive_def split_beta Let_def)
    then show ?thesis using quiet_store[OF quiet_store[OF q], of 0 "CHR ''x''" 1 "CHR 0x00"] by simp
  next
    case False
    then obtain n where "recv_chars e c n 0 ?g = Some g'"
      using assms(3) by (auto simp: GSM_receive_def split_beta Let_def bind_eq_Some_conv)
    then show ?thesis using quiet_trans[OF q quiet_recv_chars[OF assms(1) T]] by simp
  qed
qed

text \<open>Sending to the module appends the command to what the modem has been sent.\<close>

definition sends :: "nat \<Rightarrow> gboard \<Rightarrow> string list \<Rightarrow> gsm \<Rightarrow> gsm \<Rightarrow> bool" where
  "sends c b0 cs g g' \<longleftrightarrow> text_mode c b0 g' \<and>
     obs c b0 g' = ((outgoing_call_state g, incomming_call_state g, interrupt_count g), modtype (core g), port_type g, signals c g,
       sent (chip_of c b0 g) @ concat (map cmd_bytes cs))"

lemma write_frame [simp]:
  "outgoing_call_state (fx_write_SPI2UART c w g) = outgoing_call_state g"
  "incomming_call_state (fx_write_SPI2UART c w g) = incomming_call_state g"
  "interrupt_count (fx_write_SPI2UART c w g) = interrupt_count g" "modtype (core (fx_write_SPI2UART c w g)) = modtype (core g)"
  "port_type (fx_write_SPI2UART c w g) = port_type g" "zt (core (fx_write_SPI2UART c w g)) = zt (core g)"
  "GSM_string (fx_write_SPI2UART c w g) = GSM_string g"
  by (simp_all add: fx_write_SPI2UART_def tx_word_def on_core_def Let_def setcard_core)

lemma send_frame [simp]:
  "outgoing_call_state (GSM_send c s g) = outgoing_call_state g" "incomming_call_state (GSM_send c s g) = incomming_call_state g"
  "interrupt_count (GSM_send c s g) = interrupt_count g" "modtype (core (GSM_send c s g)) = modtype (core g)"
  "port_type (GSM_send c s g) = port_type g" "zt (core (GSM_send c s g)) = zt (core g)" "GSM_string (GSM_send c s g) = GSM_string g"
proof -
  have "outgoing_call_state (fold (\<lambda>x. fx_write_SPI2UART c (char_word x)) s g) = outgoing_call_state g \<and>
    incomming_call_state (fold (\<lambda>x. fx_write_SPI2UART c (char_word x)) s g) = incomming_call_state g \<and>
    interrupt_count (fold (\<lambda>x. fx_write_SPI2UART c (char_word x)) s g) = interrupt_count g \<and>
    modtype (core (fold (\<lambda>x. fx_write_SPI2UART c (char_word x)) s g)) = modtype (core g) \<and>
    port_type (fold (\<lambda>x. fx_write_SPI2UART c (char_word x)) s g) = port_type g \<and>
    zt (core (fold (\<lambda>x. fx_write_SPI2UART c (char_word x)) s g)) = zt (core g) \<and>
    GSM_string (fold (\<lambda>x. fx_write_SPI2UART c (char_word x)) s g) = GSM_string g"
    by (induction s arbitrary: g) simp_all
  then show "outgoing_call_state (GSM_send c s g) = outgoing_call_state g" "incomming_call_state (GSM_send c s g) = incomming_call_state g"
    "interrupt_count (GSM_send c s g) = interrupt_count g" "modtype (core (GSM_send c s g)) = modtype (core g)"
    "port_type (GSM_send c s g) = port_type g" "zt (core (GSM_send c s g)) = zt (core g)" "GSM_string (GSM_send c s g) = GSM_string g"
    by (simp_all add: GSM_send_def)
qed

lemma sends_send:
  assumes "c \<le> 4" "text_mode c b0 g" "printable s"
  shows "sends c b0 [s] g (GSM_send c s g)"
proof -
  note S = GSM_send_chip[OF assms]
  have "sent (modem_line u) = sent u" for u by (simp add: modem_line_def Let_def)
  then show ?thesis using S(1,2) by (simp add: sends_def obs_def signals_def cmd_bytes_def)
qed

text \<open>Sending through another card's port does not reach the module.\<close>

lemma quiet_write_other:
  assumes "c \<le> 4" "text_mode c b0 g" "d < 8" "d \<noteq> c"
  shows "quiet c b0 g (fx_write_SPI2UART d w g)"
proof -
  have m: "mux_card (if gsm_port d < 4 then of_nat (gsm_port d + 1) else of_nat (0x40 + (gsm_port d - 4) + 1)) \<noteq> Some c"
  proof (cases "4 < d")
    case True
    then have "d = 5 \<or> d = 6 \<or> d = 7" using assms(3) by auto
    then show ?thesis by (elim disjE) (simp_all add: gsm_port_def mux_card_def)
  next
    case False
    then show ?thesis using mux_card_code[OF assms(3)] assms(4) unfolding card_code_def gsm_port_def by auto
  qed
  have "gsm_port d \<noteq> c" using assms(1,4) by (auto simp: gsm_port_def)
  then have "int (gsm_port d) \<noteq> int c" "int (gsm_port d) \<noteq> -1" by auto
  then show ?thesis using assms(2) m unfolding quiet_def obs_def signals_def text_mode_def write_frame
    by (auto simp: routed_def fx_write_SPI2UART_def tx_word_def on_core_def wcfxs_setcard_def Let_def hw split: if_splits)
qed

text \<open>Byte traffic of the line-card functions: it can change the routing, and nothing else here.\<close>

definition no_route :: "bev list \<Rightarrow> bool" where
  "no_route es \<longleftrightarrow> (\<forall>m. Tx NCSB m \<notin> set es)"

lemma no_route_board: "no_route es \<Longrightarrow> gboard_of c b (map Byte es) = b"
proof (induction es)
  case (Cons x es)
  have "gboard_step c (Byte x) b = b" using Cons.prems by (auto simp: no_route_def split: bev.splits chip.splits)
  then show ?case using Cons by (simp add: no_route_def hw)
qed (simp add: hw)

lemma quiet_core:
  assumes "text_mode c b0 g" "bus (f (core g)) = bus (core g) @ pre @ es" "no_route es"
    "modtype (f (core g)) = modtype (core g)" "zt (f (core g)) = zt (core g)"
    and "pre = [] \<and> curcard (f (core g)) = curcard (core g) \<or>
      (\<exists>m. pre = [Tx NCSB m] \<and> (if curcard (f (core g)) = int c then mux_card m = Some c else curcard (f (core g)) = -1 \<or> mux_card m \<noteq> Some c))"
  shows "quiet c b0 g (on_core f g)"
proof -
  have r: "reqs (on_core f g) = reqs g @ map Byte pre @ map Byte es" using assms(2) by (simp add: on_core_def Let_def)
  have cf: "core (on_core f g) = f (core g)" by (simp add: on_core_def Let_def)
  have b: "gboard_of c b0 (reqs (on_core f g)) = gboard_of c (gboard_of c b0 (reqs g)) (map Byte pre)"
    unfolding r by (simp add: hw no_route_board[OF assms(3)])
  from assms(6) show ?thesis
  proof
    assume a: "pre = [] \<and> curcard (f (core g)) = curcard (core g)"
    then have "gboard_of c b0 (reqs (on_core f g)) = gboard_of c b0 (reqs g)" using b by (simp add: hw)
    then show ?thesis using a assms(1,4,5) cf
      by (simp add: quiet_def obs_def text_mode_def routed_def signals_def) (simp add: on_core_def Let_def)
  next
    assume "\<exists>m. pre = [Tx NCSB m] \<and> (if curcard (f (core g)) = int c then mux_card m = Some c
      else curcard (f (core g)) = -1 \<or> mux_card m \<noteq> Some c)"
    then obtain m where m: "pre = [Tx NCSB m]" "if curcard (f (core g)) = int c then mux_card m = Some c
      else curcard (f (core g)) = -1 \<or> mux_card m \<noteq> Some c" by blast
    then have "gboard_of c b0 (reqs (on_core f g)) = (gboard_of c b0 (reqs g))\<lparr>gmux := m\<rparr>" using b by (simp add: hw)
    then show ?thesis using m assms(1,4,5) cf
      by (simp add: quiet_def obs_def text_mode_def routed_def signals_def) (simp add: on_core_def Let_def)
  qed
qed

text \<open>The accesses that select a card first.\<close>

lemma quiet_card:
  assumes "text_mode c b0 g" "c < 8" "d < 8" "no_route es" "modtype (f (core g)) = modtype (core g)" "zt (f (core g)) = zt (core g)"
    "curcard (f (core g)) = int d" "bus (f (core g)) = bus (wcfxs_setcard d (core g)) @ es"
  shows "quiet c b0 g (on_core f g)"
proof -
  let ?pre = "if curcard (core g) = int d then [] else [Tx NCSB (card_code d)]"
  have "bus (f (core g)) = bus (core g) @ ?pre @ es"
    using assms(8) by (simp add: wcfxs_setcard_def card_code_def)
  then show ?thesis using mux_card_code[OF assms(3)] assms
    by (intro quiet_core[where es = es and pre = "?pre"]) auto
qed

lemma quiet_setreg:
  assumes "text_mode c b0 g" "c < 8" "d < 8"
  shows "quiet c b0 g (on_core (\<lambda>s. wcfxs_setreg d r (h s) s) g)"
  by (rule quiet_card[OF assms(1-3), where es = "if modtype (core g) d = MOD_TYPE_FXO
        then [Tx NCSA 0x20, Tx NCSA (r AND 0x7f), Tx NCSA (h (core g))] else [Tx NCSA (r AND 0x7f), Tx NCSA (h (core g))]"])
    (auto simp: no_route_def wcfxs_setreg_def Let_def setcard_core tx_def wcfxs_setcard_def)

lemma quiet_getreg:
  assumes "text_mode c b0 g" "c < 8" "d < 8"
  shows "quiet c b0 g (on_core (\<lambda>s. snd (wcfxs_getreg e d r s)) g)"
  by (rule quiet_card[OF assms(1-3), where es = "if modtype (core g) d = MOD_TYPE_FXO
        then [Tx NCSA 0x60, Tx NCSA (r AND 0x7f), Rx] else [Tx NCSA (r OR 0x80), Rx]"])
    (auto simp: no_route_def wcfxs_getreg_def Let_def setcard_core tx_def rx_def wcfxs_setcard_def)

lemma quiet_setm: "text_mode c b0 g \<Longrightarrow> quiet c b0 g (on_core (setm a v) g)"
  by (rule quiet_core[where pre = "[]" and es = "[]"]) (simp_all add: no_route_def setm_def)

lemma quiet_fxs_state:
  assumes "text_mode c b0 g"
  shows "quiet c b0 g (on_core (hooksig_fxs_state d sig t) g)"
proof (cases "t \<in> {TXSIG_ONHOOK, TXSIG_OFFHOOK, TXSIG_START}")
  case True
  let ?m = "if 4 < d + 1 then 0x45 else 0x05 :: u8" and ?s = "hooksig_fxs_state d sig t (core g)"
  have "\<exists>b. bus ?s = bus (core g) @ [Tx NCSB ?m, Tx NCSA b] \<and> modtype ?s = modtype (core g) \<and> zt ?s = zt (core g) \<and> curcard ?s = -1"
    using True by (cases t) (auto simp: hooksig_fxs_state_def wcfxs_set_led_def fx_set_led_def setm_def tx_def Let_def)
  then obtain b where b: "bus ?s = bus (core g) @ [Tx NCSB ?m] @ [Tx NCSA b]" "modtype ?s = modtype (core g)" "zt ?s = zt (core g)"
    "curcard ?s = -1" by auto
  show ?thesis using b by (intro quiet_core[OF assms, where pre = "[Tx NCSB ?m]" and es = "[Tx NCSA b]"]) (auto simp: no_route_def)
next
  case False
  then show ?thesis using assms
    by (intro quiet_core[where pre = "[]" and es = "[]"]) (cases t; simp add: no_route_def hooksig_fxs_state_def setm_def)+
qed

section \<open>Every step is a step of the call machine\<close>

text \<open>What one step of the call machine makes of the driver's state.\<close>

definition follows :: "nat \<Rightarrow> gboard \<Rightarrow> gev \<Rightarrow> gsm \<Rightarrow> gsm \<Rightarrow> bool" where
  "follows c b0 x g g' \<longleftrightarrow>
     (let (q, sg, cm) = call_step x (call_of g)
      in gsm_chan c b0 g' \<and> call_ok g' \<and> modtype (core g') = modtype (core g) \<and> call_of g' = q \<and> signals c g' = signals c g @ sg \<and>
         sent (chip_of c b0 g') = sent (chip_of c b0 g) @ concat (map cmd_bytes cm))"

lemma report_frame:
  "outgoing_call_state (report c x g) = outgoing_call_state g" "incomming_call_state (report c x g) = incomming_call_state g"
  "interrupt_count (report c x g) = interrupt_count g" "modtype (core (report c x g)) = modtype (core g)"
  "port_type (report c x g) = port_type g" "signals c (report c x g) = signals c g @ [x]" "reqs (report c x g) = reqs g"
  "curcard (core (report c x g)) = curcard (core g)" "GSM_string (report c x g) = GSM_string g"
  by (simp_all add: report_def on_core_def zt_hooksig_def signals_def map_filter_def Let_def)

lemma chan_updates:
  "gsm_chan c b0 (g\<lparr>outgoing_call_state := n\<rparr>) = gsm_chan c b0 g" "gsm_chan c b0 (g\<lparr>incomming_call_state := n\<rparr>) = gsm_chan c b0 g"
  "gsm_chan c b0 (g\<lparr>interrupt_count := n\<rparr>) = gsm_chan c b0 g" "gsm_chan c b0 (g\<lparr>txstate := ts\<rparr>) = gsm_chan c b0 g"
  "gsm_chan c b0 (g\<lparr>rxhooksig := rh\<rparr>) = gsm_chan c b0 g" "gsm_chan c b0 (g\<lparr>txdialbuf := td\<rparr>) = gsm_chan c b0 g"
  "gsm_chan c b0 (report d x g) = gsm_chan c b0 g"
  "signals d (g\<lparr>outgoing_call_state := n\<rparr>) = signals d g" "signals d (g\<lparr>incomming_call_state := n\<rparr>) = signals d g"
  "signals d (g\<lparr>interrupt_count := n\<rparr>) = signals d g" "signals d (g\<lparr>txstate := ts\<rparr>) = signals d g"
  "signals d (g\<lparr>rxhooksig := rh\<rparr>) = signals d g" "signals d (g\<lparr>txdialbuf := td\<rparr>) = signals d g"
  by (simp_all add: gsm_chan_def text_mode_def routed_def signals_def report_frame)

lemmas step_defs = wcfxs_gsm_control_def follows_def call_of_def call_ok_def classify_def ring_pulse_def report_frame chan_updates

lemma quiet_chan: "gsm_chan c b0 g \<Longrightarrow> quiet c b0 g g' \<Longrightarrow> gsm_chan c b0 g'"
  by (simp add: gsm_chan_def quiet_def obs_def)

lemma quietD:
  assumes "quiet c b0 g g'"
  shows "outgoing_call_state g' = outgoing_call_state g" "incomming_call_state g' = incomming_call_state g"
    "interrupt_count g' = interrupt_count g" "modtype (core g') = modtype (core g)" "signals c g' = signals c g"
    "sent (chip_of c b0 g') = sent (chip_of c b0 g)"
  using assms by (simp_all add: quiet_def obs_def)

lemma tick_follows:
  assumes "gsm_chan c b0 g" "call_ok g" "GSM_receive e c g = Some (p, g1)" "wcfxs_gsm_control e c g = Some g'"
  shows "follows c b0 (Tick (classify p)) g g'"
proof -
  have q: "quiet c b0 g g1" using assms(1,3) by (auto intro: quiet_receive simp: gsm_chan_def)
  note Q = quietD[OF q] quiet_chan[OF assms(1) q]
  consider "outgoing_call_state g = 1" "incomming_call_state g = 0" | "outgoing_call_state g = 2" "incomming_call_state g = 0"
    | "outgoing_call_state g = 0" "incomming_call_state g = 0" | "outgoing_call_state g = 0" "incomming_call_state g = 1"
    | "outgoing_call_state g = 0" "incomming_call_state g = 2"
    using assms(2) by (auto simp: call_ok_def le_Suc_eq numeral_2_eq_2)
  then show ?thesis
  proof cases
    case 1
    then show ?thesis using assms(2-4) Q by (auto simp: step_defs Let_def split: if_splits)
  next
    case 2
    then show ?thesis using assms(2-4) Q by (auto simp: step_defs Let_def split: if_splits)
  next
    case 3
    then show ?thesis using assms(2-4) Q by (auto simp: step_defs Let_def split: if_splits)
  next
    case 4
    then show ?thesis using assms(2-4) Q by (auto simp: step_defs Let_def split: if_splits)
  next
    case 5
    then show ?thesis using assms(2-4) Q by (auto simp: step_defs Let_def split: if_splits)
  qed
qed

lemma follows_quiet:
  assumes "follows c b0 x g g1" "quiet c b0 g1 g'"
  shows "follows c b0 x g g'"
proof -
  note Q = quietD[OF assms(2)]
  obtain q sg cm where s: "call_step x (call_of g) = (q, sg, cm)" by (cases "call_step x (call_of g)")
  have "call_of g' = call_of g1" "call_ok g' = call_ok g1" using Q by (simp_all add: call_of_def call_ok_def)
  then show ?thesis using assms(1) Q quiet_chan[OF _ assms(2)] by (simp add: follows_def s)
qed

lemma sendsD:
  assumes "sends c b0 cs g g'" "gsm_chan c b0 g"
  shows "outgoing_call_state g' = outgoing_call_state g" "incomming_call_state g' = incomming_call_state g"
    "interrupt_count g' = interrupt_count g" "modtype (core g') = modtype (core g)" "signals c g' = signals c g"
    "sent (chip_of c b0 g') = sent (chip_of c b0 g) @ concat (map cmd_bytes cs)" "gsm_chan c b0 g'"
  using assms by (simp_all add: sends_def obs_def gsm_chan_def)

lemma chan_send:
  assumes "gsm_chan c b0 g" "printable s"
  shows "sends c b0 [s] g (GSM_send c s g)"
  using assms by (intro sends_send) (auto simp: gsm_chan_def)

lemma chan_quiet:
  assumes "gsm_chan c b0 g"
  shows "quiet c b0 g (on_core (setm a v) g)" "quiet c b0 g (on_core (\<lambda>s. wcfxs_setreg c r (h s) s) g)"
    "quiet c b0 g (on_core (\<lambda>s. snd (wcfxs_getreg e c r s)) g)"
  using assms quiet_setm quiet_setreg quiet_getreg by (auto simp: gsm_chan_def)

lemma printable_cmds: "printable ''ata''" "printable ''ath''" "printable num \<Longrightarrow> printable (''atd'' @ butlast num @ '';'')"
proof -
  have c: "code (CHR ''a'') = 97" "code (CHR ''t'') = 116" "code (CHR ''d'') = 100" "code (CHR ''h'') = 104" "code (CHR '';'') = 59"
    by code_simp+
  show "printable ''ata''" "printable ''ath''" by (simp_all add: printable_def c)
  show "printable num \<Longrightarrow> printable (''atd'' @ butlast num @ '';'')" by (auto simp: printable_def c dest: in_set_butlastD)
qed

lemma onhook_follows:
  assumes "gsm_chan c b0 g" "call_ok g"
  shows "follows c b0 (Hook TXSIG_ONHOOK num) g (gsm_onhook c g)"
proof -
  let ?g = "if outgoing_call_state g = 2 then (GSM_send c ''ath'' g)\<lparr>outgoing_call_state := 0\<rparr> else g"
  have f: "follows c b0 (Hook TXSIG_ONHOOK num) g ?g"
    using sendsD[OF chan_send[OF assms(1) printable_cmds(2)] assms(1)] assms
    by (auto simp: step_defs Let_def)
  then have "gsm_chan c b0 ?g" by (auto simp: follows_def split: prod.splits)
  from follows_quiet[OF f chan_quiet(1)[OF this]] show ?thesis by (simp add: gsm_onhook_def Let_def)
qed

lemma offhook_follows:
  assumes "gsm_chan c b0 g" "call_ok g" "t = TXSIG_OFFHOOK \<or> t = TXSIG_START \<and> num = []"
  shows "follows c b0 (Hook t num) g (gsm_offhook c g)"
proof -
  let ?h = "g\<lparr>incomming_call_state := 2\<rparr>" and ?g = "if incomming_call_state g = 1 then GSM_send c ''ata'' (g\<lparr>incomming_call_state := 2\<rparr>) else g"
  have h: "gsm_chan c b0 ?h" using assms(1) by (simp add: chan_updates)
  have f: "follows c b0 (Hook t num) g ?g"
    using sendsD[OF chan_send[OF h printable_cmds(1)] h] assms by (auto simp: step_defs Let_def)
  then have "gsm_chan c b0 ?g" by (auto simp: follows_def split: prod.splits)
  from follows_quiet[OF f chan_quiet(1)[OF this]] show ?thesis by (simp add: gsm_offhook_def Let_def)
qed

lemma dial_follows:
  assumes "gsm_chan c b0 g" "call_ok g" "txdialbuf g c = num" "num \<noteq> []" "printable num" "dial c g = Some g'"
  shows "follows c b0 (Hook TXSIG_START num) g g'"
proof -
  let ?h = "g\<lparr>rxhooksig := (rxhooksig g)(c := Some RXSIG_OFFHOOK)\<rparr>"
  have h: "gsm_chan c b0 ?h" using assms(1) by (simp add: chan_updates)
  have s: "butlast (''atd'' @ num) @ '';'' = ''atd'' @ butlast num @ '';''" using assms(4) by (simp add: butlast_append)
  have g': "g' = (if outgoing_call_state g = 0 \<and> incomming_call_state g = 0
      then (GSM_send c (''atd'' @ butlast num @ '';'') ?h)\<lparr>outgoing_call_state := 1\<rparr> else ?h)"
    using assms(3,6) s by (cases "outgoing_call_state g = 0 \<and> incomming_call_state g = 0") (auto simp: dial_def Let_def split: if_splits)
  show ?thesis unfolding g'
    using sendsD[OF chan_send[OF h printable_cmds(3)[OF assms(5)]] h] assms(1,2,4) by (auto simp: step_defs Let_def)
qed

lemma hook_follows:
  assumes "gsm_chan c b0 g" "call_ok g" "printable num" "gsm_hooksig e k c sig t (g\<lparr>txdialbuf := (txdialbuf g)(c := num)\<rparr>) = Some g'"
  shows "follows c b0 (Hook t num) g g'"
proof -
  let ?g = "g\<lparr>txdialbuf := (txdialbuf g)(c := num)\<rparr>"
  have c: "gsm_chan c b0 ?g" "call_ok ?g" using assms(1,2) by (simp_all add: chan_updates call_ok_def)
  have eq: "follows c b0 (Hook t num) ?g x = follows c b0 (Hook t num) g x" for x
    by (simp add: follows_def call_of_def chan_updates)
  have nop: "follows c b0 (Hook t num) ?g ?g" if "t = TXSIG_KEWL \<or> t = TXSIG_OTHER"
    using that c by (cases "call_of ?g") (auto simp: follows_def)
  have "gsm_hooksig_gsm e k c t ?g = Some g'" using assms(1,4) by (simp add: gsm_hooksig_def gsm_chan_def)
  then obtain g1 where g1: "(case t of TXSIG_START \<Rightarrow> if txdialbuf ?g c \<noteq> [] then dial c ?g else Some (gsm_offhook c ?g)
      | TXSIG_OFFHOOK \<Rightarrow> Some (gsm_offhook c ?g) | TXSIG_ONHOOK \<Rightarrow> Some (gsm_onhook c ?g) | _ \<Rightarrow> Some ?g) = Some g1"
    "g' = on_core (\<lambda>s. wcfxs_setreg c 64 (ucast (mem s (fxs_lasttxhook c))) s)
       (if debug k \<noteq> 0 then on_core (\<lambda>s. snd (wcfxs_getreg (base_env e) c 64 s)) g1 else g1)"
    by (auto simp: gsm_hooksig_gsm_def bind_eq_Some_conv Let_def)
  have f: "follows c b0 (Hook t num) ?g g1"
    using g1(1) onhook_follows[OF c, of num] offhook_follows[OF c, of t num] dial_follows[OF c, of num] nop assms(3)
    by (cases t) (auto split: if_splits)
  let ?g2 = "if debug k \<noteq> 0 then on_core (\<lambda>s. snd (wcfxs_getreg (base_env e) c 64 s)) g1 else g1"
  have c1: "gsm_chan c b0 g1" using f by (auto simp: follows_def split: prod.splits)
  have q: "quiet c b0 g1 ?g2" using chan_quiet(3)[OF c1] c1 by (simp add: quiet_refl gsm_chan_def)
  from follows_quiet[OF follows_quiet[OF f q] chan_quiet(2)[OF quiet_chan[OF c1 q]]] show ?thesis
    unfolding g1(2) eq by simp
qed

text \<open>A telephone on another channel.\<close>

lemma quiet_send_other:
  assumes "c \<le> 4" "text_mode c b0 g" "d < 8" "d \<noteq> c"
  shows "quiet c b0 g (GSM_send d s g)"
proof -
  have w: "quiet c b0 g (fx_write_SPI2UART d v g1)" if "quiet c b0 g g1" for v g1
    using quiet_trans[OF that quiet_write_other[OF assms(1) _ assms(3,4)]] that by (simp add: quiet_def)
  have "quiet c b0 g (fold (\<lambda>x. fx_write_SPI2UART d (char_word x)) s g1)" if "quiet c b0 g g1" for g1
    using that by (induction s arbitrary: g1) (simp_all add: w)
  then show ?thesis unfolding GSM_send_def Let_def by (intro w) (simp add: quiet_refl[OF assms(2)])
qed

lemma phone_follows:
  assumes "gsm_chan c b0 g" "call_ok g" "d < 8" "modtype (core g) d = MOD_TYPE_FXS" "gsm_hooksig e k d sig t g = Some g'"
  shows "follows c b0 (Phone t) g g'"
proof -
  have c: "c \<le> 4" "text_mode c b0 g" "d \<noteq> c" using assms(1,4) by (auto simp: gsm_chan_def)
  let ?g = "if t = TXSIG_ONHOOK \<and> incomming_call_state g = 2 then (GSM_send d ''ath'' g)\<lparr>incomming_call_state := 0\<rparr> else g"
  note Q = quietD[OF quiet_send_other[OF c(1,2) assms(3) c(3), of "''ath''"]] quiet_chan[OF assms(1) quiet_send_other[OF c(1,2) assms(3) c(3), of "''ath''"]]
  have f: "follows c b0 (Phone t) g ?g" using Q assms(1,2) by (auto simp: step_defs Let_def)
  then have T: "text_mode c b0 ?g" "gsm_chan c b0 ?g" by (auto simp: follows_def gsm_chan_def split: prod.splits)
  note q = quiet_fxs_state[OF T(1), of d sig t]
  let ?h = "on_core (hooksig_fxs_state d sig t) ?g"
  have "text_mode c b0 ?h" using q by (simp add: quiet_def)
  from quiet_setreg[OF this _ assms(3), of 64 "\<lambda>s. ucast (mem s (fxs_lasttxhook d))"] c(1)
  have r: "quiet c b0 ?h (on_core (\<lambda>s. wcfxs_setreg d 64 (ucast (mem s (fxs_lasttxhook d))) s) ?h)" by simp
  have "g' = on_core (\<lambda>s. wcfxs_setreg d 64 (ucast (mem s (fxs_lasttxhook d))) s) ?h"
    using assms(4,5) by (simp add: gsm_hooksig_def gsm_hooksig_fxs_def Let_def)
  then show ?thesis using follows_quiet[OF follows_quiet[OF f q] r] by simp
qed

lemma step_follows: "gsm_step k c x g g' \<Longrightarrow> gsm_chan c b0 g \<Longrightarrow> call_ok g \<Longrightarrow> follows c b0 x g g'"
  by (induction rule: gsm_step.induct) (blast intro: tick_follows hook_follows phone_follows)+

text \<open>
  C9.  Calls refine the call machine.  For a module in port \<open>c\<close> and any interleaving of
  interrupts, with anything the modem may say, and of signalling from Zaptel on the
  module's channel and on the telephones: from a state where the call variables are consistent, they
  stay consistent, they stand for the state the call machine reaches, the driver has
  reported on the module's channel exactly the signals of the call machine, in order, and has
  sent the modem exactly its commands.
\<close>

theorem gsm_calls_refine:
  assumes "gsm_run k c xs g g'" "gsm_chan c b0 g" "call_ok g" "call_run xs (call_of g) = (q, sg, cm)"
  shows "gsm_chan c b0 g' \<and> call_ok g' \<and> call_of g' = q \<and> signals c g' = signals c g @ sg \<and>
    sent (chip_of c b0 g') = sent (chip_of c b0 g) @ concat (map cmd_bytes cm)"
  using assms
proof (induction arbitrary: q sg cm rule: gsm_run.induct)
  case (step x g g1 xs g')
  obtain q1 s1 c1 where 1: "call_step x (call_of g) = (q1, s1, c1)" by (cases "call_step x (call_of g)")
  have f: "gsm_chan c b0 g1" "call_ok g1" "call_of g1 = q1" "signals c g1 = signals c g @ s1"
    "sent (chip_of c b0 g1) = sent (chip_of c b0 g) @ concat (map cmd_bytes c1)"
    using step_follows[OF step.hyps(1) step.prems(1,2)] by (simp_all add: follows_def 1)
  obtain q2 s2 c2 where 2: "call_run xs q1 = (q2, s2, c2)" by (cases "call_run xs q1")
  have "q = q2" "sg = s1 @ s2" "cm = c1 @ c2" using step.prems(3) by (simp_all add: 1 2)
  then show ?case using step.IH[OF f(1,2), of q2 s2 c2] f(3-5) 2 by simp
qed simp

text \<open>Signalling on the module's channel has a result unless the number is too long for the buffer.\<close>

lemma hooksig_total:
  assumes "gsm_chan c b0 g" "t = TXSIG_START \<longrightarrow> length (txdialbuf g c) \<le> 26"
  shows "\<exists>g'. gsm_hooksig e k c sig t g = Some g'"
  using assms by (cases t) (auto simp: gsm_hooksig_def gsm_hooksig_gsm_def gsm_chan_def dial_def CALL_STRING_SIZE_def Let_def)

lemma dial_overflow:
  assumes "gsm_chan c b0 g" "26 < length (txdialbuf g c)"
  shows "gsm_hooksig e k c sig TXSIG_START g = None"
  using assms by (auto simp: gsm_hooksig_def gsm_hooksig_gsm_def gsm_chan_def dial_def CALL_STRING_SIZE_def Let_def)

definition call_board :: gboard where
  "call_board = \<lparr>gmux = 0, gchip = demo_uart\<lparr>lcr := 3\<rparr>\<rparr>"

definition call_gsm :: gsm where
  "call_gsm = demo_gsm\<lparr>core := demo_wc\<lparr>modtype := (\<lambda>c. if c = 2 then MOD_TYPE_FXO else MOD_TYPE_FXS)\<rparr>,
     port_type := (replicate 8 (Fx NoPort))[2 := GPort]\<rparr>"

lemma call_gsm_start: "gsm_chan 2 call_board call_gsm" "call_ok call_gsm" "call_of call_gsm = (Free, False)"
  by (simp_all add: gsm_chan_def text_mode_def routed_def call_board_def call_gsm_def demo_gsm_def demo_wc_def STRING_SIZE_def
      call_ok_def call_of_def hw)

theorem gsm_calls_refine_witness:
  "\<exists>g'. gsm_run demo_params 2 [Hook TXSIG_START ''0899w'', Hook TXSIG_ONHOOK []] call_gsm g' \<and> call_of g' = (Dialling, False) \<and>
    sent (chip_of 2 call_board g') = cmd_bytes ''atd0899;''"
proof -
  let ?e = "module_env 2 call_board"
  have p: "printable ''0899w''" "printable []" by code_simp+
  have "\<exists>g1. gsm_hooksig ?e demo_params 2 SIG_FXSKS TXSIG_START (call_gsm\<lparr>txdialbuf := (txdialbuf call_gsm)(2 := ''0899w'')\<rparr>) = Some g1"
    using call_gsm_start(1) by (intro hooksig_total[where ?b0.0 = call_board]) (simp_all add: chan_updates)
  then obtain g1 where g1: "gsm_step demo_params 2 (Hook TXSIG_START ''0899w'') call_gsm g1" using p(1) by (blast intro: gsm_step.hook)
  have c: "gsm_chan 2 call_board g1" using step_follows[OF g1 call_gsm_start(1,2)] by (auto simp: follows_def split: prod.splits)
  have "\<exists>g2. gsm_hooksig ?e demo_params 2 SIG_FXSKS TXSIG_ONHOOK (g1\<lparr>txdialbuf := (txdialbuf g1)(2 := [])\<rparr>) = Some g2"
    using c by (intro hooksig_total[where ?b0.0 = call_board]) (simp_all add: chan_updates)
  then obtain g2 where g2: "gsm_step demo_params 2 (Hook TXSIG_ONHOOK []) g1 g2" using p(2) by (blast intro: gsm_step.hook)
  have r: "gsm_run demo_params 2 [Hook TXSIG_START ''0899w'', Hook TXSIG_ONHOOK []] call_gsm g2"
    by (rule gsm_run.step[OF g1 gsm_run.step[OF g2 gsm_run.start]])
  have "sent (chip_of 2 call_board call_gsm) = []" by (simp add: call_board_def call_gsm_def demo_gsm_def demo_uart_def hw)
  then show ?thesis using gsm_calls_refine[OF r call_gsm_start(1,2)] r call_gsm_start(3) by (intro exI[of _ g2]) simp
qed

section \<open>Ends of calls\<close>

text \<open>
  C4.  Hanging up.  In any run from an idle module, the modem is told to hang up (\<open>ath\<close>) exactly as
  often as the module's channel goes on hook while an outgoing call is up, so
  \<dots>
\<close>

section \<open>Hanging up\<close>

lemma call_vars:
  assumes "call_ok g"
  shows "outgoing_call_state g = (case fst (call_of g) of Dialling \<Rightarrow> 1 | Talking \<Rightarrow> 2 | _ \<Rightarrow> 0)"
    "incomming_call_state g = (case fst (call_of g) of Ringing \<Rightarrow> 1 | Answered \<Rightarrow> 2 | _ \<Rightarrow> 0)"
  using assms by (auto simp: call_ok_def call_of_def)



text \<open>A first ring that is followed by an outgoing call leaves the second half of its pulse
  behind: when the call is over, the next interrupt reports a ring that never happened.\<close>

lemma phantom_ring:
  assumes "num \<noteq> []"
  shows "call_run [Tick Ring, Hook TXSIG_START num, Tick Okay, Tick No_carrier, Tick Nothing] (Free, False) =
    ((Ringing, False), [RXSIG_RING, RXSIG_ONHOOK, RXSIG_OFFHOOK], [''atd'' @ butlast num @ '';''])"
  using assms by simp

end
