(* ===== verification/Gsm_Tdm.thy ===== *)
theory Gsm_Tdm
  imports Gsm_Call
begin

text \<open>
  Timeslots in the \<open>zaptel-gsm\<close> variant, \<open>src/src/zaptel-gsm/wcfxs.c\<close>.  The GSM module's codec
  always sends 16-bit words in the first two of the eight timeslots, so the cards no longer
  use the slot of their port: initialisation hands out slots and records them in
  \<open>card2TDMslot_mapping\<close>, and the audio path goes through that table.  The functions here are
  those of \<open>Wcfxs_Init\<close>, \<open>Wcfxs_Hook\<close> and \<open>Wcfxs_Tdm\<close> with the changes of the variant; \<open>None\<close> is also
  an access outside the audio buffer.
\<close>

section \<open>Initialisation of a card for a timeslot\<close>

definition slot_start :: "int \<Rightarrow> u8" where
  "slot_start off = of_int (off * 8 + 1)"

definition gsm_init_voicedaa :: "env \<Rightarrow> params \<Rightarrow> nat \<Rightarrow> nat \<Rightarrow> int \<Rightarrow> bool \<Rightarrow> wc \<Rightarrow> (int \<times> wc) option" where
  "gsm_init_voicedaa e k fuel c off sane s =
     (let s = s\<lparr>modtype := (modtype s)(c := MOD_TYPE_FXO)\<rparr>;
          (r, s) = (if sane then (0, s) else wcfxs_voicedaa_insane e c s)
      in if r \<noteq> 0 then Some (-2, s)
         else
           let s = wcfxs_setreg c 1 0x80 s;
               s = wait_just_a_bit (HZ k div 10) s;
               s = wcfxs_setreg c 33 0x28 s;
               s = wcfxs_setreg c 16 (daa_reg16 (cur_mode k)) s;
               s = wcfxs_setreg c 26 (daa_reg26 (cur_mode k)) s;
               s = wcfxs_setreg c 30 (acim (cur_mode k)) s;
               s = wcfxs_setreg c 31 (daa_reg31 (cur_mode k)) s;
               s = wcfxs_setreg c 34 (slot_start off) s;
               s = wcfxs_setreg c 35 0 s;
               s = wcfxs_setreg c 36 (slot_start off) s;
               s = wcfxs_setreg c 37 0 s;
               s = wcfxs_setreg c 6 0 s;
               (j, s) = jiffies e s
           in do {
             s \<leftarrow> iso_cap_wait e k c fuel (j + 2 * HZ k) s;
             let (x, s) = wcfxs_getreg e c 11 s;
             if x AND 0xf0 = 0 then Some (-1, s)
             else do {
               let s = (if debug k \<noteq> 0 then snd (wcfxs_getreg e c 13 (snd (wcfxs_getreg e c 11 s))) else s);
               let s = wcfxs_setreg c 5 0x08 s;
               Some (0, if loopback k then wcfxs_setreg c 10 0x01 s else s)
             }
           })"

definition gsm_final_registers :: "env \<Rightarrow> params \<Rightarrow> nat \<Rightarrow> int \<Rightarrow> wc \<Rightarrow> int \<times> wc" where
  "gsm_final_registers e k c off s =
     (let s = fold (\<lambda>(r, v). wcfxs_setreg c r v) [(1, 0x28), (2, slot_start off), (3, 0), (4, slot_start off), (5, 0),
            (18, 0xff), (19, 0xff), (20, 0xff), (73, 0x04)] s;
          s = (if fxshonormode k
               then let s = wcfxs_setreg c 10 (0x08 OR acim2tiss ! unat (acim (cur_mode k))) s;
                        s = (if ring_osc (cur_mode k) \<noteq> 0
                             then snd (wcfxs_proslic_setreg_indirect e k c 20 (ring_osc (cur_mode k)) s) else s)
                    in if ring_x (cur_mode k) \<noteq> 0
                       then snd (wcfxs_proslic_setreg_indirect e k c 21 (ring_x (cur_mode k)) s) else s
               else s);
          s = (if lowpower k \<noteq> 0 then wcfxs_setreg c 72 0x10 s else s);
          (r, s) = (if boostringer k then wcfxs_proslic_setreg_indirect e k c 21 0x1d1 s
                    else if lowpower k \<noteq> 0 then wcfxs_proslic_setreg_indirect e k c 21 0x108 s
                    else (0, s))
      in if r \<noteq> 0 then (-1, s) else (0, wcfxs_setreg c 64 0x01 s))"

definition gsm_init_proslic ::
    "env \<Rightarrow> params \<Rightarrow> nat \<Rightarrow> nat \<Rightarrow> int \<Rightarrow> bool \<Rightarrow> bool \<Rightarrow> bool \<Rightarrow> wc \<Rightarrow> (int \<times> wc) option" where
  "gsm_init_proslic e k fuel c off fast manual sane s =
     (let manual = True;
          s = setm (fxs_idletxhookstate c) 1 s;
          (r, s) = (if sane then (0, s) else wcfxs_proslic_insane e c s)
      in if r \<noteq> 0 then Some (-2, s)
         else
           let s = (if sane then wcfxs_setreg c 14 0x10 s else s);
               (r, s) = wcfxs_proslic_init_indirect_regs e k c s
           in if r \<noteq> 0 then Some (-1, s)
              else
                let (_, s) = wcfxs_proslic_setreg_indirect e k c 97 0 s;
                    s = fold (\<lambda>(r, v). wcfxs_setreg c r v) [(8, 0), (108, 0xeb), (67, 0x17), (66, 1)] s;
                    (tmp, s) = save_filters e k c [35, 36, 37, 38, 39] s
                in do {
                  (r, s) \<leftarrow> wcfxs_powerup_proslic e k fuel c fast s;
                  if r \<noteq> 0 then Some (-1, s)
                  else do {
                    (r, s) \<leftarrow> (if fast then Some (0, restore_cal c s) else full_calibration e k fuel c manual s);
                    if r \<noteq> 0 then Some (-1, s)
                    else do {
                      let s = restore_filters e k c (zip [35, 36, 37, 38, 39] tmp) s;
                      let (r, s) = wcfxs_proslic_verify_indirect_regs e k c s;
                      if r \<noteq> 0 then Some (-1, s) else Some (gsm_final_registers e k c off s)
                    }
                  }
                })"

section \<open>Handing out the timeslots\<close>

text \<open>A line-card function with a result.\<close>

definition on_core_opt :: "(wc \<Rightarrow> ('a \<times> wc) option) \<Rightarrow> gsm \<Rightarrow> ('a \<times> gsm) option" where
  "on_core_opt f g = (case f (core g) of None \<Rightarrow> None | Some (r, s) \<Rightarrow> Some (r, on_core (\<lambda>_. s) g))"

text \<open>A card that came up: its flag, and its slot.\<close>

definition install :: "nat \<Rightarrow> nat \<Rightarrow> gsm \<Rightarrow> gsm" where
  "install x off g = (on_core (set_cardflag x) g)\<lparr>card2TDMslot_mapping := (card2TDMslot_mapping g)(x := int off)\<rparr>"

text \<open>The first module that comes up takes the first two slots.  The offset that follows is the first free slot.\<close>

fun gsm_bring_up :: "genv \<Rightarrow> params \<Rightarrow> nat \<Rightarrow> nat list \<Rightarrow> gsm \<Rightarrow> (nat \<times> gsm) option" where
  "gsm_bring_up e k fuel [] g = Some (0, g)"
| "gsm_bring_up e k fuel (x # xs) g =
     (if port_type g ! x = GPort
      then do {
        (ret, g) \<leftarrow> Initialize_GSM_module e x (HZ k) fuel g;
        if ret = 0
        then Some (2, install x 0 (on_core (\<lambda>s. s\<lparr>modtype := (modtype s)(x := MOD_TYPE_FXO)\<rparr>) g))
        else gsm_bring_up e k fuel xs g
      }
      else gsm_bring_up e k fuel xs g)"

definition gsm_configure_port :: "genv \<Rightarrow> params \<Rightarrow> nat \<Rightarrow> nat \<Rightarrow> nat \<Rightarrow> gsm \<Rightarrow> (nat \<times> gsm) option" where
  "gsm_configure_port e k fuel x off g =
     (if port_type g ! x = Fx OPort
      then do {
        (ret, g) \<leftarrow> on_core_opt (gsm_init_voicedaa (base_env e) k fuel x (int off) False) g;
        Some (off + 1, if ret = 0 then install x off g else g)
      }
      else if port_type g ! x = Fx SPort
      then do {
        (ret, g) \<leftarrow> on_core_opt (gsm_init_proslic (base_env e) k fuel x (int off) False False False) g;
        if ret = 0 then Some (off + 1, on_core (read_limit (base_env e) k x) (install x off g))
        else if ret \<noteq> -2
        then do {
          (ret, g) \<leftarrow> on_core_opt (gsm_init_proslic (base_env e) k fuel x (int off) False True True) g;
          Some (if ret = 0 then (off + 1, on_core (read_limit (base_env e) k x) (install x off g)) else (off, g))
        }
        else Some (off, g)
      }
      else Some (off, g))"

fun gsm_configure_ports :: "genv \<Rightarrow> params \<Rightarrow> nat \<Rightarrow> nat list \<Rightarrow> nat \<Rightarrow> gsm \<Rightarrow> (nat \<times> gsm) option" where
  "gsm_configure_ports e k fuel [] off g = Some (off, g)"
| "gsm_configure_ports e k fuel (x # xs) off g =
     do { (off, g) \<leftarrow> gsm_configure_port e k fuel x off g; gsm_configure_ports e k fuel xs off g }"

text \<open>The line-card part of \<open>wcfxs_hardware_init\<close>: reset and detection, then the two configuration loops;
  \<open>TDM_channel_offset\<close> counts to 9 at most, below the range of its \<open>unsigned char\<close>.\<close>

definition gsm_ports_detect :: "genv \<Rightarrow> gsm \<Rightarrow> gsm" where
  "gsm_ports_detect e g =
     (let g = on_core (bus_reset 4) g;
          (pts, s) = fx_auto_detect (base_env e) 4 (core g);
          g = (on_core (\<lambda>_. s) g)\<lparr>port_type := map Fx pts\<rparr>;
          g = gsm_auto_detect e g;
          g = on_core (bus_reset 4) g
      in g\<lparr>card2TDMslot_mapping := (\<lambda>_. -1)\<rparr>)"

definition gsm_cards_init :: "genv \<Rightarrow> params \<Rightarrow> nat \<Rightarrow> gsm \<Rightarrow> (int \<times> gsm) option" where
  "gsm_cards_init e k fuel g =
     do {
       let g = gsm_ports_detect e g;
       (off, g) \<leftarrow> gsm_bring_up e k fuel [0..<cards (core g)] g;
       (off, g) \<leftarrow> gsm_configure_ports e k fuel [0..<cards (core g)] off g;
       Some (if cardflag (core g) = 0 \<and> \<not> timingonly k then -1 else 0, g)
     }"

text \<open>The command that enters the PIN, put together in a static buffer by \<open>wcfxs_init_one\<close>.\<close>

definition SIM_STRING_SIZE :: nat where "SIM_STRING_SIZE = 20"

definition sim_enter :: "string \<Rightarrow> gsm \<Rightarrow> gsm option" where
  "sim_enter pin g =
     (let s = SIM_Enter_string g @ pin @ [CHR 0x22]
      in if SIM_STRING_SIZE < length s + 1 then None else Some (g\<lparr>SIM_Enter_string := s\<rparr>))"

section \<open>Audio\<close>

text \<open>The place of card \<open>c\<close>'s sample in frame \<open>x\<close>, if it is in the buffer.\<close>

definition sample_at :: "gsm \<Rightarrow> nat \<Rightarrow> nat \<Rightarrow> u8 list \<Rightarrow> nat option" where
  "sample_at g x c buf =
     (let i = 8 * int x + card2TDMslot_mapping g c in if 0 \<le> i \<and> i < int (length buf) then Some (nat i) else None)"

fun gsm_put :: "gsm \<Rightarrow> (nat \<times> nat) list \<Rightarrow> u8 list \<Rightarrow> u8 list option" where
  "gsm_put g [] buf = Some buf"
| "gsm_put g ((x, c) # ps) buf =
     (if card_present (core g) c
      then do { i \<leftarrow> sample_at g x c buf; gsm_put g ps (buf[i := wchunk (core g) c x]) }
      else gsm_put g ps buf)"

text \<open>The order of the two loops: frames, and in each the cards from 7 down to 0.\<close>

definition frame_order :: "(nat \<times> nat) list" where
  "frame_order = concat (map (\<lambda>x. map (\<lambda>c. (x, c)) slots) [0..<ZT_CHUNKSIZE])"

definition gsm_transmitprep :: "zcore \<Rightarrow> gsm \<Rightarrow> u8 list \<Rightarrow> (gsm \<times> u8 list) option" where
  "gsm_transmitprep z g buf =
     (let g = on_core (\<lambda>s. s\<lparr>wchunk := ztx z s, zt := zt s @ [Zt_transmit]\<rparr>) g
      in do { buf \<leftarrow> gsm_put g frame_order buf; Some (g, buf) })"

fun gsm_get :: "u8 list \<Rightarrow> (nat \<times> nat) list \<Rightarrow> gsm \<Rightarrow> gsm option" where
  "gsm_get buf [] g = Some g"
| "gsm_get buf ((x, c) # ps) g =
     (if card_present (core g) c
      then do {
        i \<leftarrow> sample_at g x c buf;
        gsm_get buf ps (on_core (\<lambda>s. s\<lparr>rchunk := (rchunk s)(c := (rchunk s c)(x := buf ! i))\<rparr>) g)
      }
      else gsm_get buf ps g)"

definition gsm_receiveprep :: "zcore \<Rightarrow> gsm \<Rightarrow> u8 list \<Rightarrow> gsm option" where
  "gsm_receiveprep z g buf =
     do {
       g \<leftarrow> gsm_get buf frame_order g;
       Some (on_core (\<lambda>s. let s = fold (ec_chunk z) [0..<cards s] s in s\<lparr>zt := zt s @ [Zt_receive]\<rparr>) g)
     }"

section \<open>The interrupt handler\<close>

definition gsm_hook_report :: "genv \<Rightarrow> params \<Rightarrow> nat \<Rightarrow> nat \<Rightarrow> int \<Rightarrow> wc \<Rightarrow> wc option" where
  "gsm_hook_report e k fuel c off s =
     (if mem s (fxs_oldrxhook c) = 0 \<and> mem s (fxs_debouncehook c) \<noteq> 0
      then do {
        let s = zt_hooksig c RXSIG_OFFHOOK s;
        s \<leftarrow> (if robust k then map_option snd (gsm_init_proslic (base_env e) k fuel c off True False True s) else Some s);
        Some (setm (fxs_oldrxhook c) 1 s)
      }
      else if mem s (fxs_oldrxhook c) \<noteq> 0 \<and> mem s (fxs_debouncehook c) = 0
      then Some (setm (fxs_oldrxhook c) 0 (zt_hooksig c RXSIG_ONHOOK s))
      else Some s)"

definition gsm_check_hook :: "genv \<Rightarrow> params \<Rightarrow> nat \<Rightarrow> nat \<Rightarrow> int \<Rightarrow> wc \<Rightarrow> wc option" where
  "gsm_check_hook e k fuel c off s =
     (let (res, s) = wcfxs_getreg (base_env e) c 68 s;
          hook = ucast (res AND 1)
      in do {
        s \<leftarrow>
          (if hook \<noteq> mem s (fxs_lastrxhook c) then Some (setm (fxs_debounce c) (8 * (4 * 8)) s)
           else if 0 < geti s (fxs_debounce c)
           then let s = setm (fxs_debounce c) (mem s (fxs_debounce c) - of_nat (4 * ZT_CHUNKSIZE)) s;
                    s = (if mem s (fxs_debounce c) = 0 then setm (fxs_debouncehook c) hook s else s)
                in gsm_hook_report e k fuel c off s
           else Some s);
        Some (setm (fxs_lastrxhook c) hook s)
      })"

definition gsm_hook_poll :: "genv \<Rightarrow> params \<Rightarrow> nat \<Rightarrow> nat \<Rightarrow> gsm \<Rightarrow> gsm option" where
  "gsm_hook_poll e k fuel x g =
     (if x < cards (core g) \<and> card_present (core g) x
      then if modtype (core g) x = MOD_TYPE_FXS
           then map_option snd (on_core_opt (\<lambda>s. map_option (Pair ()) (gsm_check_hook e k fuel x (card2TDMslot_mapping g x) s)) g)
           else if port_type g ! x \<noteq> GPort then Some (on_core (wcfxs_voicedaa_check_hook (base_env e) x) g)
           else wcfxs_gsm_control e x g
      else Some g)"

definition gsm_interrupt_processing ::
    "genv \<Rightarrow> params \<Rightarrow> nat \<Rightarrow> zcore \<Rightarrow> bool \<Rightarrow> u8 list \<Rightarrow> u8 list \<Rightarrow> gsm \<Rightarrow> (gsm \<times> u8 list) option" where
  "gsm_interrupt_processing e k fuel z wcfxs_init_ok read_samples write_samples g =
     do {
       let g = on_core (\<lambda>s. s\<lparr>intcount := intcount s + 1\<rparr>) g;
       g \<leftarrow> (if wcfxs_init_ok then gsm_hook_poll e k fuel (poll_card (core g)) g else Some g);
       (g, write_samples) \<leftarrow> gsm_transmitprep z g write_samples;
       g \<leftarrow> gsm_receiveprep z g read_samples;
       Some (g, write_samples)
     }"

section \<open>Initialising a card does not touch the card flags\<close>

definition flags_of :: "wc \<Rightarrow> nat \<times> u32" where
  "flags_of s = (cards s, cardflag s)"

lemma flags_access [simp]:
  "flags_of (wcfxs_setreg c r v s) = flags_of s" "flags_of (snd (wcfxs_getreg e c r s)) = flags_of s"
  "flags_of (snd (jiffies e s)) = flags_of s" "flags_of (wait_just_a_bit n s) = flags_of s" "flags_of (setm i x s) = flags_of s"
  "flags_of (s\<lparr>modtype := m\<rparr>) = flags_of s" "flags_of (s\<lparr>wflags := w\<rparr>) = flags_of s" "flags_of (zt_hooksig c sg s) = flags_of s"
  by (simp_all add: flags_of_def jiffies_def wait_just_a_bit_def zt_hooksig_def)

lemma flags_if [simp]: "flags_of s = F \<Longrightarrow> flags_of s' = F \<Longrightarrow> flags_of (if b then s else s') = F"
  by simp

lemma flags_wait [simp]: "flags_of (wait_loop e k c n s) = flags_of s"
  by (induction n arbitrary: s) (simp_all add: split_beta)

lemma flags_indirect [simp]:
  "flags_of (snd (wcfxs_proslic_setreg_indirect e k c a d s)) = flags_of s"
  "flags_of (snd (wcfxs_proslic_getreg_indirect e k c a s)) = flags_of s"
  by (simp_all add: wcfxs_proslic_setreg_indirect_def wcfxs_proslic_getreg_indirect_def wait_access_def Let_def split_beta)

lemma flags_fold [simp]:
  assumes "\<And>x s. flags_of (f x s) = flags_of s"
  shows "flags_of (fold f xs s) = flags_of s"
  by (induction xs arbitrary: s) (simp_all add: assms)

lemma flags_tables [simp]:
  "flags_of (snd (init_indirect_from e k c as s)) = flags_of s" "flags_of (snd (verify_indirect_from e k c as b s)) = flags_of s"
  "flags_of (snd (save_filters e k c xs s)) = flags_of s" "flags_of (save_cal e c ys s) = flags_of s"
proof -
  show "flags_of (snd (init_indirect_from e k c as s)) = flags_of s" by (induction as arbitrary: s) (simp_all add: split_beta)
  show "flags_of (snd (verify_indirect_from e k c as b s)) = flags_of s" by (induction as arbitrary: s b) (simp_all add: split_beta)
  show "flags_of (snd (save_filters e k c xs s)) = flags_of s" by (induction xs arbitrary: s) (simp_all add: split_beta Let_def)
  show "flags_of (save_cal e c ys s) = flags_of s" by (induction ys arbitrary: s) (simp_all add: split_beta Let_def set_cal_def)
qed

lemma flags_init [simp]:
  "flags_of (snd (wcfxs_proslic_init_indirect_regs e k c s)) = flags_of s"
  "flags_of (snd (wcfxs_proslic_verify_indirect_regs e k c s)) = flags_of s"
  "flags_of (restore_filters e k c ts s) = flags_of s" "flags_of (restore_cal c s) = flags_of s"
  "flags_of (snd (wcfxs_voicedaa_insane e c s)) = flags_of s" "flags_of (snd (wcfxs_proslic_insane e c s)) = flags_of s"
  "flags_of (read_limit e k c s) = flags_of s" "flags_of (snd (gsm_final_registers e k c off s)) = flags_of s"
proof -
  show "flags_of (snd (wcfxs_proslic_verify_indirect_regs e k c s)) = flags_of s"
    using flags_tables(2)[of e k c indirect_regs True s]
    by (cases "verify_indirect_from e k c indirect_regs True s") (auto simp: wcfxs_proslic_verify_indirect_regs_def split: option.splits)
qed (simp_all add: wcfxs_proslic_init_indirect_regs_def restore_filters_def restore_cal_def wcfxs_voicedaa_insane_def
    wcfxs_proslic_insane_def read_limit_def gsm_final_registers_def Let_def split_beta)

text \<open>The functions that may not return: what holds when they do, with a rule for each way they are put together.\<close>

definition ret_flags :: "nat \<times> u32 \<Rightarrow> ('a \<times> wc) option \<Rightarrow> bool" where
  "ret_flags F m \<longleftrightarrow> (\<forall>p. m = Some p \<longrightarrow> flags_of (snd p) = F)"

definition ret_flags1 :: "nat \<times> u32 \<Rightarrow> wc option \<Rightarrow> bool" where
  "ret_flags1 F m \<longleftrightarrow> (\<forall>s. m = Some s \<longrightarrow> flags_of s = F)"

lemma ret_flags_simps [simp]:
  "ret_flags F (Some p) = (flags_of (snd p) = F)" "ret_flags F None" "ret_flags1 F (Some s) = (flags_of s = F)" "ret_flags1 F None"
  by (simp_all add: ret_flags_def ret_flags1_def)

lemma ret_flags_bind:
  "ret_flags F m \<Longrightarrow> (\<And>p. flags_of (snd p) = F \<Longrightarrow> ret_flags F (f p)) \<Longrightarrow> ret_flags F (Option.bind m f)"
  "ret_flags1 F n \<Longrightarrow> (\<And>s. flags_of s = F \<Longrightarrow> ret_flags F (g s)) \<Longrightarrow> ret_flags F (Option.bind n g)"
  by (auto simp: ret_flags_def ret_flags1_def bind_eq_Some_conv)

lemma ret_flags_if:
  "(b \<Longrightarrow> ret_flags F m) \<Longrightarrow> (\<not> b \<Longrightarrow> ret_flags F m') \<Longrightarrow> ret_flags F (if b then m else m')"
  by simp

lemma flags_waits:
  "flags_of s = F \<Longrightarrow> ret_flags1 F (iso_cap_wait e k c n j s)" "flags_of s = F \<Longrightarrow> ret_flags F (leak_wait e k c n j s)"
  "flags_of s = F \<Longrightarrow> ret_flags F (power_wait e k c n j s)" "flags_of s = F \<Longrightarrow> ret_flags F (cal_wait e c lim n j s)"
  "flags_of s = F \<Longrightarrow> ret_flags1 F (spin e n j lim s)"
proof -
  show "flags_of s = F \<Longrightarrow> ret_flags1 F (iso_cap_wait e k c n j s)" by (induction n arbitrary: s) (simp_all add: split_beta)
  show "flags_of s = F \<Longrightarrow> ret_flags F (leak_wait e k c n j s)" by (induction n arbitrary: s) (simp_all add: split_beta)
  show "flags_of s = F \<Longrightarrow> ret_flags F (power_wait e k c n j s)" by (induction n arbitrary: s) (simp_all add: split_beta)
  show "flags_of s = F \<Longrightarrow> ret_flags F (cal_wait e c lim n j s)" by (induction n arbitrary: s) (simp_all add: split_beta)
  show "flags_of s = F \<Longrightarrow> ret_flags1 F (spin e n j lim s)" by (induction n arbitrary: s) (simp_all add: split_beta)
qed

lemma flags_gain: "flags_of s = F \<Longrightarrow> ret_flags F (gain_search e f c res cmp i j s)"
  by (induction i arbitrary: j s) (auto simp: split_beta Let_def intro!: ret_flags_bind flags_waits)

lemma flags_setregs [simp]: "flags_of (fold (\<lambda>(r, v). wcfxs_setreg c r v) ps s) = flags_of s"
  by (rule flags_fold) auto

lemma flags_calibrate:
  "flags_of s = F \<Longrightarrow> ret_flags F (wcfxs_proslic_manual_calibrate e k n c s)"
  "flags_of s = F \<Longrightarrow> ret_flags F (wcfxs_proslic_calibrate e k n c s)"
  "flags_of s = F \<Longrightarrow> ret_flags F (wcfxs_proslic_powerleak_test e k n c s)"
  "flags_of s = F \<Longrightarrow> ret_flags F (wcfxs_powerup_proslic e k n c b s)"
  unfolding wcfxs_proslic_manual_calibrate_def wcfxs_proslic_calibrate_def wcfxs_proslic_powerleak_test_def
      wcfxs_powerup_proslic_def split_beta Let_def
  by (auto simp del: fold_simps intro!: ret_flags_bind ret_flags_if flags_waits flags_gain cong: if_cong)

lemma flags_full: "flags_of s = F \<Longrightarrow> ret_flags F (full_calibration e k n c m s)"
  unfolding full_calibration_def split_beta Let_def
  by (auto simp: split_beta intro!: ret_flags_bind ret_flags_if flags_calibrate cong: if_cong)

lemma flags_init_card:
  "flags_of s = F \<Longrightarrow> ret_flags F (gsm_init_voicedaa e k n c off sane s)"
  "flags_of s = F \<Longrightarrow> ret_flags F (gsm_init_proslic e k n c off fast m sane s)"
  unfolding gsm_init_voicedaa_def gsm_init_proslic_def split_beta Let_def
  by (auto simp: split_beta simp del: fold_simps intro!: ret_flags_bind ret_flags_if flags_waits flags_calibrate flags_full)

lemma on_core_opt_flags:
  assumes "on_core_opt f g = Some (r, g')" "\<And>s. ret_flags (flags_of s) (f s)"
  shows "flags_of (core g') = flags_of (core g)" "card2TDMslot_mapping g' = card2TDMslot_mapping g" "port_type g' = port_type g"
  using assms(1) assms(2)[of "core g"] by (auto simp: on_core_opt_def on_core_def Let_def split: option.splits)

section \<open>The slots handed out are distinct\<close>

definition present :: "gsm \<Rightarrow> nat set" where
  "present g = {x. x < 8 \<and> card_present (core g) x}"

definition slots_below :: "nat \<Rightarrow> gsm \<Rightarrow> bool" where
  "slots_below off g \<longleftrightarrow> inj_on (card2TDMslot_mapping g) (present g) \<and> card2TDMslot_mapping g ` present g \<subseteq> {0..<int off}"

lemma slots_below_mono: "slots_below off g \<Longrightarrow> off \<le> off' \<Longrightarrow> slots_below off' g"
  by (auto simp: slots_below_def)

lemma present_flags: "flags_of (core g') = flags_of (core g) \<Longrightarrow> present g' = present g"
  by (simp add: present_def card_present_def flags_of_def)

lemma slots_frame:
  "flags_of (core g') = flags_of (core g) \<Longrightarrow> card2TDMslot_mapping g' = card2TDMslot_mapping g \<Longrightarrow> slots_below off g' = slots_below off g"
  using present_flags[of g' g] by (simp add: slots_below_def)

lemma card_present_bit: "card_present s c \<longleftrightarrow> bit (cardflag s) c"
  by (simp add: card_present_def and_exp_eq_0_iff_not_bit)

lemma card_present_set: "x < 8 \<Longrightarrow> y < 8 \<Longrightarrow> card_present (set_cardflag x s) y \<longleftrightarrow> y = x \<or> card_present s y"
  by (auto simp: card_present_bit set_cardflag_def bit_simps)

lemma install_facts:
  assumes "x < 8"
  shows "present (install x off g) = insert x (present g)"
    "card2TDMslot_mapping (install x off g) = (card2TDMslot_mapping g)(x := int off)" "port_type (install x off g) = port_type g"
    "cards (core (install x off g)) = cards (core g)"
  using assms by (auto simp: install_def present_def on_core_def Let_def card_present_set set_cardflag_def[symmetric]) (simp add: set_cardflag_def)

lemma slots_install:
  assumes "slots_below off g" "x < 8"
  shows "slots_below (off + 1) (install x off g)"
proof -
  have n: "\<forall>y\<in>present g. card2TDMslot_mapping g y \<noteq> int off" "inj_on (card2TDMslot_mapping g) (present g)"
    using assms(1) by (auto simp: slots_below_def)
  have "inj_on ((card2TDMslot_mapping g)(x := int off)) (insert x (present g))" using n by (auto simp: inj_on_def)
  then show ?thesis using assms(1) by (auto simp: slots_below_def install_facts[OF assms(2)])
qed

text \<open>Bringing up the module leaves flags, slots and port types alone.\<close>

definition gtab :: "gsm \<Rightarrow> (nat \<times> u32) \<times> (nat \<Rightarrow> int) \<times> gport list" where
  "gtab g = (flags_of (core g), card2TDMslot_mapping g, port_type g)"

definition ret_tab :: "(nat \<times> u32) \<times> (nat \<Rightarrow> int) \<times> gport list \<Rightarrow> ('a \<times> gsm) option \<Rightarrow> bool" where
  "ret_tab F m \<longleftrightarrow> (\<forall>p. m = Some p \<longrightarrow> gtab (snd p) = F)"

definition ret_tab1 :: "(nat \<times> u32) \<times> (nat \<Rightarrow> int) \<times> gport list \<Rightarrow> gsm option \<Rightarrow> bool" where
  "ret_tab1 F m \<longleftrightarrow> (\<forall>g. m = Some g \<longrightarrow> gtab g = F)"

lemma ret_tab_simps [simp]:
  "ret_tab F (Some p) = (gtab (snd p) = F)" "ret_tab F None" "ret_tab1 F (Some g) = (gtab g = F)" "ret_tab1 F None"
  by (simp_all add: ret_tab_def ret_tab1_def)

lemma ret_tab_bind:
  "ret_tab F m \<Longrightarrow> (\<And>p. gtab (snd p) = F \<Longrightarrow> ret_tab F (f p)) \<Longrightarrow> ret_tab F (Option.bind m f)"
  "ret_tab1 F n \<Longrightarrow> (\<And>g. gtab g = F \<Longrightarrow> ret_tab F (h g)) \<Longrightarrow> ret_tab F (Option.bind n h)"
  "ret_tab F m \<Longrightarrow> (\<And>p. gtab (snd p) = F \<Longrightarrow> ret_tab1 F (f1 p)) \<Longrightarrow> ret_tab1 F (Option.bind m f1)"
  "ret_tab1 F n \<Longrightarrow> (\<And>g. gtab g = F \<Longrightarrow> ret_tab1 F (h1 g)) \<Longrightarrow> ret_tab1 F (Option.bind n h1)"
  by (auto simp: ret_tab_def ret_tab1_def bind_eq_Some_conv)

lemma ret_tab_if:
  "(b \<Longrightarrow> ret_tab F m) \<Longrightarrow> (\<not> b \<Longrightarrow> ret_tab F m') \<Longrightarrow> ret_tab F (if b then m else m')"
  "(b \<Longrightarrow> ret_tab1 F n) \<Longrightarrow> (\<not> b \<Longrightarrow> ret_tab1 F n') \<Longrightarrow> ret_tab1 F (if b then n else n')"
  by simp_all

lemma gtab_access [simp]:
  "gtab (fx_write_SPI2UART p w g) = gtab g" "gtab (snd (fx_read_SPI2UART e p w g)) = gtab g" "gtab (fx_write_SPI2UART_wo_CS w g) = gtab g"
  "gtab (snd (fx_program_register_SPI2UART e p w g)) = gtab g" "gtab (wait_g n g) = gtab g" "gtab (g\<lparr>GSM_string := s\<rparr>) = gtab g"
  by (simp_all add: gtab_def flags_of_def fx_write_SPI2UART_def fx_read_SPI2UART_def fx_write_SPI2UART_wo_CS_def
      fx_program_register_SPI2UART_def tx_word_def rx_word_def on_core_def wcfxs_setcard_def tx_def wait_g_def wait_just_a_bit_def Let_def)

lemma gtab_fold [simp]:
  assumes "\<And>x g. gtab (f x g) = gtab g"
  shows "gtab (fold f xs g) = gtab g"
  by (induction xs arbitrary: g) (simp_all add: assms)

lemma gtab_send [simp]: "gtab (GSM_send p s g) = gtab g" "gtab (init_WM8510 p g) = gtab g" "gtab (snd (init_SC16IS750 e p g)) = gtab g"
  "gtab (snd (start_modem e p hz g)) = gtab g"
proof -
  have "gtab (snd (program_words e p ws g)) = gtab g" for ws
  proof (induction ws arbitrary: g)
    case (Cons x ws)
    then show ?case by (cases x) (simp add: split_beta Let_def)
  qed simp
  then show "gtab (snd (init_SC16IS750 e p g)) = gtab g" by (simp add: init_SC16IS750_def)
qed (simp_all add: GSM_send_def init_WM8510_def Codec_reg_data_latch_def start_modem_def Let_def split_beta)

lemma tab_store: "gtab g = F \<Longrightarrow> ret_tab1 F (store_char i c g)"
  by (simp add: store_char_def)

lemma tab_recv: "gtab g = F \<Longrightarrow> ret_tab1 F (recv_chars e p n i g)"
  by (induction n arbitrary: i g) (auto simp: split_beta Let_def intro!: ret_tab_bind tab_store)

lemma tab_receive: "gtab g = F \<Longrightarrow> ret_tab F (GSM_receive e p g)"
  by (auto simp: GSM_receive_def split_beta Let_def intro!: ret_tab_bind tab_recv)

lemma tab_ask: "gtab g = F \<Longrightarrow> ret_tab F (ask e p cmd n g)"
  by (simp add: ask_def tab_receive)

lemma tab_ask_upto: "gtab g = F \<Longrightarrow> ret_tab F (ask_upto e p cmd t want n g)"
proof (induction n arbitrary: g rule: less_induct)
  case (less n)
  show ?case unfolding ask_upto.simps[of _ _ _ _ _ n] using less
    by (auto simp: split_beta intro!: ret_tab_bind tab_ask)
qed

lemma tab_until: "gtab g = F \<Longrightarrow> ret_tab1 F (ask_until e p cmd t n g)"
  by (induction n arbitrary: g) (auto simp: split_beta intro!: ret_tab_bind tab_ask)

lemma tab_pin: "gtab g = F \<Longrightarrow> ret_tab F (enter_pin e p t n g)"
  by (induction n arbitrary: g) (auto simp: split_beta intro!: ret_tab_bind tab_ask)

lemma tab_all: "gtab g = F \<Longrightarrow> ret_tab1 F (ask_all e p t n cs g)"
  by (induction cs arbitrary: g) (auto intro!: ret_tab_bind tab_until)

lemmas tab_loops = tab_until tab_pin tab_all

lemma tab_parts: "gtab g = F \<Longrightarrow> ret_tab F (reset_modem e p hz g)" "gtab g = F \<Longrightarrow> ret_tab F (check_sim e p hz n g)"
  unfolding reset_modem_def check_sim_def
  by (auto simp: split_beta Let_def intro!: ret_tab_bind tab_ask tab_ask_upto tab_loops)

lemma tab_init_GSM: "gtab g = F \<Longrightarrow> ret_tab F (init_GSM e p hz n g)"
  unfolding init_GSM_def
  by (auto simp: split_beta Let_def intro!: ret_tab_bind ret_tab_if tab_ask tab_ask_upto tab_loops tab_parts)

lemma tab_module: "gtab g = F \<Longrightarrow> ret_tab F (Initialize_GSM_module e p hz n g)"
  unfolding Initialize_GSM_module_def by (auto simp: split_beta Let_def intro!: ret_tab_bind ret_tab_if tab_init_GSM)

text \<open>The offset counts the slots in use.\<close>

lemma tab_slots: "gtab g' = gtab g \<Longrightarrow> slots_below off g' = slots_below off g"
  by (rule slots_frame) (simp_all add: gtab_def)

lemma gsm_bring_up_slots:
  assumes "gsm_bring_up e k n xs g = Some (off, g')" "present g = {}" "set xs \<subseteq> {..<8}"
  shows "slots_below off g' \<and> port_type g' = port_type g \<and> cards (core g') = cards (core g) \<and>
    (off = 0 \<or> off = 2 \<and> (\<exists>x\<in>set xs. port_type g ! x = GPort))"
  using assms
proof (induction xs arbitrary: g)
  case Nil
  then show ?case by (simp add: slots_below_def)
next
  case (Cons x xs)
  show ?case
  proof (cases "port_type g ! x = GPort")
    case False
    then show ?thesis using Cons by auto
  next
    case True
    then obtain r g1 where 1: "Initialize_GSM_module e x (HZ k) n g = Some (r, g1)" using Cons.prems(1) by (auto simp: bind_eq_Some_conv)
    have t: "gtab g1 = gtab g" using tab_module[OF refl, of g e x "HZ k" n] 1 by simp
    then have f: "present g1 = {}" "port_type g1 = port_type g" "cards (core g1) = cards (core g)"
      using Cons.prems(2) present_flags[of g1 g] by (simp_all add: gtab_def flags_of_def)
    show ?thesis
    proof (cases "r = 0")
      case False
      then show ?thesis using Cons.IH[of g1] Cons.prems True 1 f by auto
    next
      case r0: True
      let ?h = "on_core (\<lambda>s. s\<lparr>modtype := (modtype s)(x := MOD_TYPE_FXO)\<rparr>) g1"
      have p: "present ?h = {}" "port_type ?h = port_type g" "cards (core ?h) = cards (core g)"
        using f by (simp_all add: present_def card_present_def on_core_def Let_def)
      then have "slots_below 0 ?h" by (simp add: slots_below_def)
      moreover have x: "x < 8" using Cons.prems(3) by simp
      ultimately have s: "slots_below 2 (install x 0 ?h)" using slots_install[of 0 ?h x] slots_below_mono[of 1 _ 2] by simp
      have "off = 2" "g' = install x 0 ?h" using Cons.prems(1) True 1 r0 by simp_all
      then show ?thesis using s True p install_facts[OF x, of 0 ?h] by auto
    qed
  qed
qed

lemma card_init_tab:
  assumes "on_core_opt (gsm_init_voicedaa e k n x o1 b) g = Some (r, g') \<or> on_core_opt (gsm_init_proslic e k n x o1 b1 b2 b3) g = Some (r, g')"
  shows "gtab g' = gtab g"
proof -
  have v: "ret_flags (flags_of s) (gsm_init_voicedaa e k n x o1 b s)" "ret_flags (flags_of s) (gsm_init_proslic e k n x o1 b1 b2 b3 s)" for s
    using flags_init_card[OF refl] by blast+
  from assms show ?thesis
    using on_core_opt_flags[of "gsm_init_voicedaa e k n x o1 b" g r g', OF _ v(1)]
      on_core_opt_flags[of "gsm_init_proslic e k n x o1 b1 b2 b3" g r g', OF _ v(2)] by (auto simp: gtab_def)
qed

lemma install_slots:
  assumes "gtab h = gtab g" "slots_below off g" "x < 8"
  shows "slots_below (off + 1) (install x off h) \<and> port_type (install x off h) = port_type g \<and> cards (core (install x off h)) = cards (core g)"
  using slots_install[OF _ assms(3), of off h] tab_slots[OF assms(1)] assms(1,2) install_facts[OF assms(3), of off h]
  by (simp add: gtab_def flags_of_def)

lemma read_limit_tab: "gtab (on_core (read_limit e k x) g) = gtab g"
  using flags_init(7)[of e k x "core g"] by (simp add: gtab_def on_core_def Let_def)

lemma gsm_configure_port_slots:
  assumes "gsm_configure_port e k n x off g = Some (off', g')" "slots_below off g" "x < 8"
  shows "slots_below off' g' \<and> port_type g' = port_type g \<and> cards (core g') = cards (core g) \<and>
    off' \<le> off + of_bool (port_type g ! x = Fx OPort \<or> port_type g ! x = Fx SPort)"
proof -
  have keep: "slots_below off h \<and> port_type h = port_type g \<and> cards (core h) = cards (core g)" if "gtab h = gtab g" for h
    using that tab_slots[OF that, of off] assms(2) by (simp add: gtab_def flags_of_def)
  have up: "slots_below (off + 1) (on_core (read_limit (base_env e) k x) (install x off h)) \<and>
      port_type (on_core (read_limit (base_env e) k x) (install x off h)) = port_type g \<and>
      cards (core (on_core (read_limit (base_env e) k x) (install x off h))) = cards (core g)" if "gtab h = gtab g" for h
    using install_slots[OF that assms(2,3)] read_limit_tab[of "base_env e" k x "install x off h"]
      tab_slots[OF read_limit_tab, of "off + 1" "base_env e" k x "install x off h"] by (simp add: gtab_def flags_of_def)
  consider "port_type g ! x = Fx OPort" | "port_type g ! x = Fx SPort" | "port_type g ! x \<noteq> Fx OPort" "port_type g ! x \<noteq> Fx SPort" by blast
  then show ?thesis
  proof cases
    case 1
    then obtain r g1 where 2: "on_core_opt (gsm_init_voicedaa (base_env e) k n x (int off) False) g = Some (r, g1)"
      using assms(1) by (auto simp: gsm_configure_port_def bind_eq_Some_conv)
    have t: "gtab g1 = gtab g" using card_init_tab 2 by blast
    then show ?thesis using assms(1) 1 2 install_slots[OF t assms(2,3)] keep[OF t] slots_below_mono[of off g1 "off + 1"]
      by (cases "r = 0") (auto simp: gsm_configure_port_def)
  next
    case 2
    then obtain r g1 where 3: "on_core_opt (gsm_init_proslic (base_env e) k n x (int off) False False False) g = Some (r, g1)"
      using assms(1) by (auto simp: gsm_configure_port_def bind_eq_Some_conv)
    have t: "gtab g1 = gtab g" using card_init_tab 3 by blast
    consider "r = 0" | "r = -2" | "r \<noteq> 0" "r \<noteq> -2" by blast
    then show ?thesis
    proof cases
      case 1
      then show ?thesis using assms(1) 2 3 up[OF t] by (auto simp: gsm_configure_port_def)
    next
      case r2: 2
      then show ?thesis using assms(1) 2 3 keep[OF t] by (auto simp: gsm_configure_port_def)
    next
      case r3: 3
      then obtain q g2 where 4: "on_core_opt (gsm_init_proslic (base_env e) k n x (int off) False True True) g1 = Some (q, g2)"
        using assms(1) 2 3 by (auto simp: gsm_configure_port_def bind_eq_Some_conv)
      have t2: "gtab g2 = gtab g" using card_init_tab 4 t by metis
      then show ?thesis using assms(1) 2 3 4 r3 up[OF t2] keep[OF t2] by (cases "q = 0") (auto simp: gsm_configure_port_def)
    qed
  next
    case 3
    then show ?thesis using assms(1,2) by (simp add: gsm_configure_port_def)
  qed
qed

text \<open>Ports that take a slot.\<close>

definition line_ports :: "gport list \<Rightarrow> nat list \<Rightarrow> nat" where
  "line_ports pts xs = length (filter (\<lambda>x. pts ! x = Fx OPort \<or> pts ! x = Fx SPort) xs)"

lemma gsm_configure_ports_slots:
  assumes "gsm_configure_ports e k n xs off g = Some (off', g')" "slots_below off g" "set xs \<subseteq> {..<8}"
  shows "slots_below off' g' \<and> port_type g' = port_type g \<and> off' \<le> off + line_ports (port_type g) xs"
  using assms
proof (induction xs arbitrary: off g)
  case (Cons x xs)
  obtain o1 g1 where 1: "gsm_configure_port e k n x off g = Some (o1, g1)" "gsm_configure_ports e k n xs o1 g1 = Some (off', g')"
    using Cons.prems(1) by (auto simp: bind_eq_Some_conv)
  have f: "slots_below o1 g1 \<and> port_type g1 = port_type g \<and> cards (core g1) = cards (core g) \<and>
    o1 \<le> off + of_bool (port_type g ! x = Fx OPort \<or> port_type g ! x = Fx SPort)"
    using gsm_configure_port_slots[OF 1(1) Cons.prems(2)] Cons.prems(3) by simp
  then show ?case using Cons.IH[OF 1(2)] Cons.prems(3) by (auto simp: line_ports_def)
qed (simp add: line_ports_def)

lemma detect_flags: "flags_of (snd (fx_detect_from e n is s)) = flags_of s" "length (fst (fx_detect_from e n is s)) = length is"
proof -
  have d: "flags_of (snd (detect_port e n i s)) = flags_of s" for i s
    by (simp add: detect_port_def fx_read_fxo_def fx_read_fxs_def fx_set_led_def tx_def rx_def bus_reset_def flags_of_def Let_def split_beta)
  show "flags_of (snd (fx_detect_from e n is s)) = flags_of s" by (induction "is" arbitrary: s) (simp_all add: split_beta Let_def d)
  show "length (fst (fx_detect_from e n is s)) = length is" by (induction "is" arbitrary: s) (simp_all add: split_beta Let_def)
qed

lemma gsm_detect_flags: "flags_of (core (gsm_detect_from e is g)) = flags_of (core g)"
proof (induction "is" arbitrary: g)
  case (Cons i "is")
  have r: "flags_of (core (snd (fx_read_SPI2UART e i w g))) = flags_of (core g)" for w using gtab_access(2) by (simp add: gtab_def)
  have l: "flags_of (core (gsm_set_led p c h)) = flags_of (core h)" for p c h
    by (simp add: gsm_set_led_def on_core_def Let_def fx_set_led_def tx_def flags_of_def)
  have c: "flags_of (s\<lparr>curcard := v\<rparr>) = flags_of s" for s v by (simp add: flags_of_def)
  show ?case using Cons.IH r by (simp add: split_beta Let_def l c)
qed simp

lemma ports_detect_flags: "flags_of (core (gsm_ports_detect e g)) = flags_of (core g)"
proof -
  have b: "flags_of (bus_reset 4 s) = flags_of s" "core (on_core f h) = f (core h)" for f h s
    by (simp_all add: on_core_def Let_def bus_reset_def flags_of_def)
  show ?thesis by (simp add: gsm_ports_detect_def gsm_auto_detect_def gsm_detect_flags fx_auto_detect_def detect_flags(1) b Let_def split_beta)
qed


text \<open>A port without the module answers with ones.\<close>

lemma read_other_port:
  assumes "on_module e p b0" "p \<le> 4" "d \<le> 4" "d \<noteq> p" "curcard (core g) \<noteq> int d"
  shows "fst (fx_read_SPI2UART e d w g) = 0xffff" "chip_of p b0 (snd (fx_read_SPI2UART e d w g)) = chip_of p b0 g"
    "curcard (core (snd (fx_read_SPI2UART e d w g))) = int d" "port_type (snd (fx_read_SPI2UART e d w g)) = port_type g"
    "routed p b0 (snd (fx_read_SPI2UART e d w g))"
proof -
  let ?g = "on_core (wcfxs_setcard d) g"
  have m: "mux_card (card_code d) \<noteq> Some p" using mux_card_code[of d] assms(3,4) by simp
  have b: "gboard_of p b0 (reqs ?g) = (gboard_of p b0 (reqs g))\<lparr>gmux := card_code d\<rparr>"
    using assms(5) by (simp add: on_core_def wcfxs_setcard_def card_code_def hw)
  show "fst (fx_read_SPI2UART e d w g) = 0xffff" "chip_of p b0 (snd (fx_read_SPI2UART e d w g)) = chip_of p b0 g"
    using assms(1,3) b m by (simp_all add: fx_read_SPI2UART_def rx_word_def gsm_port_low on_module_def hw Let_def)
  show c: "curcard (core (snd (fx_read_SPI2UART e d w g))) = int d" "port_type (snd (fx_read_SPI2UART e d w g)) = port_type g"
    using assms(3,5) by (simp_all add: fx_read_SPI2UART_def rx_word_def gsm_port_low on_core_def wcfxs_setcard_def Let_def)
  have "gmux (gboard_of p b0 (reqs (snd (fx_read_SPI2UART e d w g)))) = card_code d"
    using assms(3) b m by (simp add: fx_read_SPI2UART_def rx_word_def gsm_port_low hw)
  then show "routed p b0 (snd (fx_read_SPI2UART e d w g))" using c(1) m assms(4) by (simp add: routed_def)
qed

lemma bytes_chip: "gchip (gboard_of p b (map Byte es)) = gchip b"
  by (induction es arbitrary: b) (simp_all add: hw split: bev.splits chip.splits)

lemma on_core_chip: "chip_of p b0 (on_core f g) = chip_of p b0 g" "core (on_core f g) = f (core g)"
  by (simp_all add: on_core_def Let_def hw bytes_chip)

lemma detect_curcard: "curcard (snd (fx_detect_from e n is s)) = curcard s"
proof (induction "is" arbitrary: s)
  case (Cons i "is")
  have "curcard (snd (detect_port e n i s)) = curcard s"
    by (simp add: detect_port_def fx_read_fxo_def fx_read_fxs_def fx_set_led_def tx_def rx_def bus_reset_def Let_def split_beta)
  then show ?case using Cons by (simp add: split_beta Let_def)
qed simp

text \<open>Detection finds the module in port 2 of an otherwise empty board.\<close>

lemma detect_module:
  assumes "on_module e 2 b0" "lcr (chip_of 2 b0 g) = 0x1D" "curcard (core g) = -1" "port_type g = replicate 8 (Fx NoPort)"
  shows "port_type (gsm_auto_detect e g) = (replicate 8 (Fx NoPort))[2 := GPort]" "curcard (core (gsm_auto_detect e g)) = -1"
    "chip_of 2 b0 (gsm_auto_detect e g) = chip_of 2 b0 g" "GSM_string (gsm_auto_detect e g) = GSM_string g"
    "SIM_Enter_string (gsm_auto_detect e g) = SIM_Enter_string g"
proof -
  let ?g0 = "snd (fx_read_SPI2UART e 0 0x9800 g)"
  let ?g1 = "snd (fx_read_SPI2UART e 1 0x9800 ?g0)"
  let ?g2 = "snd (fx_read_SPI2UART e 2 0x9800 ?g1)"
  have R0: "fst (fx_read_SPI2UART e 0 0x9800 g) = 0xffff" "chip_of 2 b0 ?g0 = chip_of 2 b0 g" "curcard (core ?g0) = int 0"
    "port_type ?g0 = port_type g" using read_other_port[OF assms(1), of 0 g "0x9800"] assms(3) by simp_all
  then have R1: "fst (fx_read_SPI2UART e 1 0x9800 ?g0) = 0xffff" "chip_of 2 b0 ?g1 = chip_of 2 b0 g" "port_type ?g1 = port_type g" "routed 2 b0 ?g1"
    using read_other_port[OF assms(1), of 1 ?g0 "0x9800"] by simp_all
  note R2 = read_module[OF assms(1) _ R1(4), of "0x9800"]
  have k: "reg_of 0x9800 = 3" "is_read 0x9800" "(0xff00 OR ucast (0x1D :: u8) :: u16) = 0xff1D" by code_simp+
  have v: "fst (fx_read_SPI2UART e 2 0x9800 ?g1) = 0xff1D" using R2(1) R1(2) assms(2) k by (simp add: uart_val_cases)
  have c: "chip_of 2 b0 ?g2 = chip_of 2 b0 g" using R2(2) R1(2) k by (simp add: uart_word_def uart_fetch_cases)
  have p2: "port_type ?g2 = port_type ?g1" by (simp add: fx_read_SPI2UART_def rx_word_def on_core_def Let_def)
  have u: "[0..<8] = [0, 1, 2, 3, 4, 5, 6, 7 :: nat]" by (simp add: upt_rec)
  let ?g3 = "gsm_set_led 3 1 (?g2\<lparr>port_type := (port_type ?g2)[2 := GPort]\<rparr>)"
  have e: "gsm_auto_detect e g = ?g3\<lparr>core := (core ?g3)\<lparr>curcard := -1\<rparr>\<rparr>"
    unfolding gsm_auto_detect_def u using R0 R1 v assms(4) p2 by (simp add: split_beta Let_def)
  show "port_type (gsm_auto_detect e g) = (replicate 8 (Fx NoPort))[2 := GPort]" "curcard (core (gsm_auto_detect e g)) = -1"
    "GSM_string (gsm_auto_detect e g) = GSM_string g" "SIM_Enter_string (gsm_auto_detect e g) = SIM_Enter_string g"
    unfolding e using p2 R1(3) assms(4) by (simp_all add: gsm_set_led_def on_core_def Let_def)
  show "chip_of 2 b0 (gsm_auto_detect e g) = chip_of 2 b0 g" unfolding e using c by (simp add: gsm_set_led_def on_core_chip)
qed

definition blank_gsm :: gsm where
  "blank_gsm = demo_gsm\<lparr>core := demo_wc\<lparr>cardflag := 0\<rparr>\<rparr>"

lemma blank_detect:
  defines "g \<equiv> gsm_ports_detect (module_env 2 demo_gboard) blank_gsm"
  shows "port_type g = (replicate 8 (Fx NoPort))[2 := GPort]" "curcard (core g) = -1" "chip_of 2 demo_gboard g = demo_uart"
    "length (GSM_string g) = 60" "flags_of (core g) = (8, 0)" "SIM_Enter_string g = SIM_Enter_string demo_gsm"
proof -
  let ?e = "module_env 2 demo_gboard" and ?h = "on_core (bus_reset 4) blank_gsm"
  let ?d = "fx_auto_detect (base_env ?e) 4 (core ?h)"
  let ?g0 = "(on_core (\<lambda>_. snd ?d) ?h)\<lparr>port_type := map Fx (fst ?d)\<rparr>"
  have s: "silent (base_env ?e)" by (simp add: silent_def module_env_def)
  have d: "fst ?d = replicate 8 NoPort" using detect_from_silent[OF s, of 4 "[0..<8]" "core ?h"] by (simp add: fx_auto_detect_def)
  have c: "chip_of 2 demo_gboard ?g0 = demo_uart" by (simp add: on_core_chip blank_gsm_def demo_gsm_def demo_gboard_def hw)
  have cc: "curcard (core ?g0) = -1"
    by (simp add: on_core_chip fx_auto_detect_def detect_curcard bus_reset_def blank_gsm_def demo_gsm_def demo_wc_def)
  have p: "port_type ?g0 = replicate 8 (Fx NoPort)" by (simp add: d)
  have l: "lcr (chip_of 2 demo_gboard ?g0) = 0x1D" unfolding c by (simp add: demo_uart_def)
  note D = detect_module[OF on_module_env l cc p]
  have g: "g = (on_core (bus_reset 4) (gsm_auto_detect ?e ?g0))\<lparr>card2TDMslot_mapping := (\<lambda>_. -1)\<rparr>"
    by (simp add: g_def gsm_ports_detect_def Let_def split_beta)
  have f: "port_type (on_core f h) = port_type h" "GSM_string (on_core f h) = GSM_string h" "SIM_Enter_string (on_core f h) = SIM_Enter_string h" for f h
    by (simp_all add: on_core_def Let_def)
  show "port_type g = (replicate 8 (Fx NoPort))[2 := GPort]" "curcard (core g) = -1" using D(1,2) by (simp_all add: g f on_core_chip bus_reset_def)
  show "chip_of 2 demo_gboard g = demo_uart" using D(3) c by (simp add: g on_core_chip)
  show "length (GSM_string g) = 60" "SIM_Enter_string g = SIM_Enter_string demo_gsm"
    using D(4,5) by (simp_all add: g f blank_gsm_def) (simp add: demo_gsm_def)
  show "flags_of (core g) = (8, 0)" unfolding g_def ports_detect_flags by (simp add: blank_gsm_def flags_of_def demo_wc_def)
qed

lemma blank_init:
  "\<exists>g'. gsm_cards_init (module_env 2 demo_gboard) demo_params 1 blank_gsm = Some (0, g') \<and> card2TDMslot_mapping g' 2 = 0 \<and>
    port_type g' = (replicate 8 (Fx NoPort))[2 := GPort]"
proof -
  let ?e = "module_env 2 demo_gboard"
  let ?g = "gsm_ports_detect ?e blank_gsm"
  note B = blank_detect
  have "takes_setup (SIM_Enter_string ?g) (answer (chip_of 2 demo_gboard ?g))" unfolding B(3,6)
    by (simp add: demo_gsm_def demo_uart_def) code_simp
  from gsm_module_up_step[OF on_module_env _ _ _ _ this, of 1 "HZ demo_params"] B(2,3,4)
  obtain g1 where g1: "Initialize_GSM_module ?e 2 (HZ demo_params) 1 ?g = Some (0, g1)"
    by (auto simp: routed_def STRING_SIZE_def demo_uart_def)
  have t: "gtab g1 = gtab ?g" using tab_module[OF refl, of ?g ?e 2 "HZ demo_params" 1] g1 by simp
  have u: "[0..<8] = [0, 1, 2, 3, 4, 5, 6, 7 :: nat]" by (simp add: upt_rec)
  let ?i = "install 2 0 (on_core (\<lambda>s. s\<lparr>modtype := (modtype s)(2 := MOD_TYPE_FXO)\<rparr>) g1)"
  have b: "gsm_bring_up ?e demo_params 1 [0..<8] ?g = Some (2, ?i)" unfolding u using B(1) g1 by simp
  have p: "port_type ?i = port_type ?g" "cards (core ?i) = 8" "card2TDMslot_mapping ?i 2 = 0" "cardflag (core ?i) = 4"
    using t B(5) by (simp_all add: gtab_def flags_of_def install_def on_core_def Let_def set_cardflag_def)
  have q: "gsm_configure_ports ?e demo_params 1 [0..<8] 2 ?i = Some (2, ?i)"
    unfolding u using p(1) B(1) by (simp add: gsm_configure_port_def)
  have n: "cards (core ?g) = 8" using B(5) by (simp add: flags_of_def)
  show ?thesis unfolding gsm_cards_init_def Let_def n using b p q B(1) by simp
qed


section \<open>Audio through the slot table\<close>

lemma frame_order_set: "set frame_order = {..<8} \<times> {..<8}"
  by (auto simp: frame_order_def slots_simps ZT_CHUNKSIZE_def)

lemma sample_at_slot:
  assumes "slots_below 8 g" "c \<in> present g" "x < 8" "length buf = 64"
  shows "sample_at g x c buf = Some (8 * x + nat (card2TDMslot_mapping g c))" "8 * x + nat (card2TDMslot_mapping g c) < 64"
proof -
  have s: "0 \<le> card2TDMslot_mapping g c" "card2TDMslot_mapping g c < 8" using assms(1,2) by (auto simp: slots_below_def)
  then show "sample_at g x c buf = Some (8 * x + nat (card2TDMslot_mapping g c))" "8 * x + nat (card2TDMslot_mapping g c) < 64"
    using assms(3,4) by (auto simp: sample_at_def Let_def nat_add_distrib)
qed

lemma slot_pos_inj:
  assumes "slots_below 8 g" "c \<in> present g" "d \<in> present g"
    "8 * x + nat (card2TDMslot_mapping g c) = 8 * y + nat (card2TDMslot_mapping g d)"
  shows "x = y \<and> c = d"
proof -
  have s: "nat (card2TDMslot_mapping g a) < 8" "0 \<le> card2TDMslot_mapping g a" if "a \<in> present g" for a
  proof -
    have "card2TDMslot_mapping g a \<in> {0..<8}" using assms(1) that by (auto simp: slots_below_def)
    then show "nat (card2TDMslot_mapping g a) < 8" "0 \<le> card2TDMslot_mapping g a" by auto
  qed
  have "(8 * x + nat (card2TDMslot_mapping g c)) div 8 = x" "(8 * y + nat (card2TDMslot_mapping g d)) div 8 = y"
    using s(1)[OF assms(2)] s(1)[OF assms(3)] by simp_all
  then have xy: "x = y" using assms(4) by simp
  then have "card2TDMslot_mapping g c = card2TDMslot_mapping g d" using assms(4) s(2)[OF assms(2)] s(2)[OF assms(3)] by simp
  then show ?thesis using xy assms(1-3) by (auto simp: slots_below_def dest: inj_onD)
qed

lemma gsm_put_slots:
  assumes "slots_below 8 g" "length buf = 64" "set ps \<subseteq> {..<8} \<times> {..<8}"
  shows "\<exists>out. gsm_put g ps buf = Some out \<and> length out = 64 \<and>
    (\<forall>c\<in>present g. \<forall>x. out ! (8 * x + nat (card2TDMslot_mapping g c)) =
       (if (x, c) \<in> set ps then wchunk (core g) c x else buf ! (8 * x + nat (card2TDMslot_mapping g c))))"
  using assms(2,3)
proof (induction ps arbitrary: buf)
  case (Cons p ps)
  obtain x c where p: "p = (x, c)" by (cases p)
  have xc: "x < 8" "c < 8" using Cons.prems(2) p by auto
  show ?case
  proof (cases "c \<in> present g")
    case False
    then have "\<not> card_present (core g) c" using xc by (simp add: present_def)
    moreover have "(y, d) = p \<longrightarrow> d \<notin> present g" for y d using False p by simp
    ultimately show ?thesis using Cons.IH[of buf] Cons.prems p by auto
  next
    case True
    note S = sample_at_slot[OF assms(1) True xc(1) Cons.prems(1)]
    let ?i = "8 * x + nat (card2TDMslot_mapping g c)" and ?b = "buf[8 * x + nat (card2TDMslot_mapping g c) := wchunk (core g) c x]"
    have e: "gsm_put g (p # ps) buf = gsm_put g ps ?b" using True S(1) by (simp add: p present_def)
    have b: "?b ! (8 * y + nat (card2TDMslot_mapping g d)) = (if (y, d) = (x, c) then wchunk (core g) c x else buf ! (8 * y + nat (card2TDMslot_mapping g d)))"
      if "d \<in> present g" for y d
      using slot_pos_inj[OF assms(1) True that, of x y] S(2) Cons.prems(1) by (auto simp: nth_list_update)
    obtain out where "gsm_put g ps ?b = Some out" "length out = 64"
      "\<forall>d\<in>present g. \<forall>y. out ! (8 * y + nat (card2TDMslot_mapping g d)) =
         (if (y, d) \<in> set ps then wchunk (core g) d y else ?b ! (8 * y + nat (card2TDMslot_mapping g d)))"
      using Cons.IH[of ?b] Cons.prems by auto
    then show ?thesis unfolding e using b p by auto
  qed
qed simp

lemma gsm_get_slots:
  assumes "slots_below 8 g" "length buf = 64" "set ps \<subseteq> {..<8} \<times> {..<8}"
  shows "\<exists>g'. gsm_get buf ps g = Some g' \<and> gtab g' = gtab g \<and> wchunk (core g') = wchunk (core g) \<and>
    (\<forall>c y. rchunk (core g') c y =
       (if c \<in> present g \<and> (y, c) \<in> set ps then buf ! (8 * y + nat (card2TDMslot_mapping g c)) else rchunk (core g) c y))"
  using assms(1,3)
proof (induction ps arbitrary: g)
  case (Cons p ps)
  obtain x c where p: "p = (x, c)" by (cases p)
  have xc: "x < 8" "c < 8" using Cons.prems(2) p by auto
  show ?case
  proof (cases "c \<in> present g")
    case False
    then have "\<not> card_present (core g) c" using xc by (simp add: present_def)
    then have e: "gsm_get buf (p # ps) g = gsm_get buf ps g" by (simp add: p)
    have "(d \<in> present g \<and> (y, d) \<in> set (p # ps)) = (d \<in> present g \<and> (y, d) \<in> set ps)" for y d using False p by auto
    then show ?thesis unfolding e using Cons.IH[OF Cons.prems(1)] Cons.prems(2) by simp
  next
    case True
    let ?h = "on_core (\<lambda>s. s\<lparr>rchunk := (rchunk s)(c := (rchunk s c)(x := buf ! (8 * x + nat (card2TDMslot_mapping g c))))\<rparr>) g"
    have e: "gsm_get buf (p # ps) g = gsm_get buf ps ?h"
      using True sample_at_slot(1)[OF Cons.prems(1) True xc(1) assms(2)] by (simp add: p present_def)
    have t: "gtab ?h = gtab g" "wchunk (core ?h) = wchunk (core g)" by (simp_all add: gtab_def flags_of_def on_core_def Let_def)
    then have h: "slots_below 8 ?h" "present ?h = present g" "card2TDMslot_mapping ?h = card2TDMslot_mapping g"
      using tab_slots[OF t(1)] Cons.prems(1) present_flags[of ?h g] by (simp_all add: gtab_def)
    have r: "rchunk (core ?h) d y = (if (y, d) = (x, c) then buf ! (8 * y + nat (card2TDMslot_mapping g d)) else rchunk (core g) d y)" for y d
      by (auto simp: on_core_def Let_def)
    from Cons.IH[OF h(1)] Cons.prems(2) obtain g' where g': "gsm_get buf ps ?h = Some g'" "gtab g' = gtab ?h" "wchunk (core g') = wchunk (core ?h)"
      "\<forall>d y. rchunk (core g') d y = (if d \<in> present g \<and> (y, d) \<in> set ps then buf ! (8 * y + nat (card2TDMslot_mapping g d)) else rchunk (core ?h) d y)"
      unfolding h(2,3) by auto
    then show ?thesis unfolding e using t True by (intro exI[of _ g']) (auto simp: r p)
  qed
qed simp

text \<open>
  C20.  Audio keeps to its slots.  Whenever the slots of the installed cards are distinct and below 8, as initialisation leaves
  them, an interrupt's audio work stays inside the 64-byte buffers, and what a card sends
  comes back to the same card and no other when the buffer written is looped back: the card's read chunk is the echo canceller's output
  for its own write chunk.
\<close>

theorem gsm_audio_loopback:
  assumes "slots_below 8 g" "length buf = 64" "cards (core g) = 8"
  shows "\<exists>g1 out g2. gsm_transmitprep z g buf = Some (g1, out) \<and> gsm_receiveprep z g1 out = Some g2 \<and>
    (\<forall>c\<in>present g. rchunk (core g2) c =
       zec z c (\<lambda>x. if x < 8 then ztx z (core g) c x else rchunk (core g) c x) (ztx z (core g) c))"
proof -
  let ?g1 = "on_core (\<lambda>s. s\<lparr>wchunk := ztx z s, zt := zt s @ [Zt_transmit]\<rparr>) g"
  have t: "gtab ?g1 = gtab g" by (simp add: gtab_def flags_of_def on_core_def Let_def)
  have w: "wchunk (core ?g1) = ztx z (core g)" "rchunk (core ?g1) = rchunk (core g)" "cards (core ?g1) = 8" "card2TDMslot_mapping ?g1 = card2TDMslot_mapping g"
    using assms(3) by (simp_all add: on_core_def Let_def)
  have s1: "slots_below 8 ?g1" "present ?g1 = present g" using tab_slots[OF t] assms(1) present_flags[of ?g1 g] t by (simp_all add: gtab_def)
  have fo: "set frame_order \<subseteq> {..<8} \<times> {..<8}" by (simp add: frame_order_set)
  from gsm_put_slots[OF s1(1) assms(2) fo] obtain out where out: "gsm_put ?g1 frame_order buf = Some out" "length out = 64"
    "\<forall>c\<in>present g. \<forall>x<8. out ! (8 * x + nat (card2TDMslot_mapping g c)) = ztx z (core g) c x"
    unfolding s1(2) w frame_order_set by (auto simp: present_def)
  from gsm_get_slots[OF s1(1) out(2) fo] obtain g2 where g2: "gsm_get out frame_order ?g1 = Some g2" "gtab g2 = gtab ?g1" "wchunk (core g2) = ztx z (core g)"
    "\<forall>c y. rchunk (core g2) c y = (if c \<in> present g \<and> y < 8 then out ! (8 * y + nat (card2TDMslot_mapping g c)) else rchunk (core g) c y)"
    unfolding s1(2) w frame_order_set by (auto simp: present_def)
  let ?f = "\<lambda>s. let s = fold (ec_chunk z) [0..<cards s] s in s\<lparr>zt := zt s @ [Zt_receive]\<rparr>"
  have c2: "cards (core g2) = 8" "card_present (core g2) = card_present (core g)"
    using g2(2) t assms(3) by (auto simp: gtab_def flags_of_def card_present_def)
  have r: "rchunk (core (on_core ?f g2)) c = zec z c (rchunk (core g2) c) (wchunk (core g2) c)" if "c \<in> present g" for c
    using that fold_ec_rchunk[of "[0..<8]" z "core g2" c] c2 by (simp add: on_core_def Let_def present_def)
  have "rchunk (core g2) c = (\<lambda>x. if x < 8 then ztx z (core g) c x else rchunk (core g) c x)" if "c \<in> present g" for c
    using that g2(4) out(3) by (auto simp: fun_eq_iff)
  then show ?thesis using out(1) g2(1,3) r
    by (intro exI[of _ ?g1] exI[of _ out] exI[of _ "on_core ?f g2"]) (simp add: gsm_transmitprep_def gsm_receiveprep_def Let_def)
qed

theorem gsm_audio_loopback_witness:
  "\<exists>g1 out g2. gsm_transmitprep \<lparr>ztx = (\<lambda>s c x. of_nat (10 * c + x)), zec = (\<lambda>c r w. r)\<rparr>
      (install 5 3 (install 2 0 blank_gsm)) (replicate 64 0) = Some (g1, out) \<and>
    gsm_receiveprep \<lparr>ztx = (\<lambda>s c x. of_nat (10 * c + x)), zec = (\<lambda>c r w. r)\<rparr> g1 out = Some g2 \<and> rchunk (core g2) 5 1 = 51"
proof -
  let ?g = "install 5 3 (install 2 0 blank_gsm)" and ?z = "\<lparr>ztx = (\<lambda>s c x. of_nat (10 * c + x)), zec = (\<lambda>c r w. r)\<rparr>"
  have "present blank_gsm = {}" by (auto simp: present_def card_present_def blank_gsm_def)
  then have p: "present ?g = {5, 2}" by (simp add: install_facts)
  have s: "slots_below 8 ?g" unfolding slots_below_def p by (simp add: install_facts)
  have "cards (core ?g) = 8" by (simp add: install_facts blank_gsm_def demo_wc_def)
  from gsm_audio_loopback[OF s _ this, of "replicate 64 0" ?z] show ?thesis by (auto simp: p)
qed

text \<open>A module and seven line cards: the last card gets slot 8, and its last sample would lie behind the buffer.\<close>

lemma slot_eight_overflow:
  assumes "card_present (core g) c" "card2TDMslot_mapping g c = 8" "length buf = 64"
  shows "gsm_put g ((7, c) # ps) buf = None"
  using assms by (simp add: sample_at_def)

lemma sim_enter_overflow: "SIM_Enter_string g = ''at+cpin='' @ [CHR 0x22] \<Longrightarrow> (sim_enter pin g = None) = (9 < length pin)"
  by (simp add: sim_enter_def SIM_STRING_SIZE_def Let_def)

end
