(* ===== verification/Gsm_Sport.thy ===== *)
theory Gsm_Sport
  imports Sport_If Gsm_Uart
begin

text \<open>
  The bus under the \<open>zaptel-gsm\<close> variant: \<open>src/src/zaptel-gsm/sport_interface.c\<close> for bytes and the
  first part of \<open>src/src/zaptel-gsm/gsm_module.c\<close> for the 16-bit words of the GSM module, both over
  SPORT1.  Unlike in \<open>Sport_If\<close> the port is reconfigured for each word and back, and stopped by each
  reconfiguration.  The locale \<open>word_bus\<close> is the contract that \<open>Gsm_Uart\<close> relies on; the interpretation shows
  that these functions keep it on hardware that answers.
\<close>

section \<open>Operations\<close>

record gsm_hdr = sport_hdr +
  gTCR1_cfg :: u16
  gRCR1_cfg :: u16

definition gsport_configure :: "'x sport_hdr_scheme \<Rightarrow> device \<Rightarrow> u16 \<Rightarrow> trace \<Rightarrow> trace" where
  "gsport_configure h dev baud =
     seq [wr_and dev S1_TCR1 (NOT (sTSPEN h)), wr_and dev S1_RCR1 (NOT (sRSPEN h)),
          wr16 S1_TCR1 (sTCR1_cfg h), wr16 S1_TCR2 7, wr16 S1_TCLKDIV baud, wr16 S1_TFSDIV 7,
          wr16 S1_RCR1 (sRCR1_cfg h), wr16 S1_RCR2 7, wr16 S1_RCLKDIV baud, wr16 S1_RFSDIV 7]"

definition sport_configure_gsm :: "gsm_hdr \<Rightarrow> device \<Rightarrow> u16 \<Rightarrow> trace \<Rightarrow> trace" where
  "sport_configure_gsm h dev baud =
     seq [wr_and dev S1_TCR1 (NOT (sTSPEN h)), wr_and dev S1_RCR1 (NOT (sRSPEN h)),
          wr16 S1_TCR1 (gTCR1_cfg h), wr16 S1_TCR2 0xf, wr16 S1_TCLKDIV baud, wr16 S1_TFSDIV 0xf,
          wr16 S1_RCR1 (gRCR1_cfg h), wr16 S1_RCR2 0xf, wr16 S1_RCLKDIV baud, wr16 S1_RFSDIV 0xf]"

text \<open>Setting an enable bit, and waiting until it reads back.\<close>

definition enable :: "mmr \<Rightarrow> u16 \<Rightarrow> device \<Rightarrow> nat \<Rightarrow> trace \<Rightarrow> trace option" where
  "enable r m dev fuel t = wait_bit r m dev fuel (wr_or dev r m t)"

definition drop_cs :: "nat \<Rightarrow> trace \<Rightarrow> trace" where
  "drop_cs chip_select t = (if 7 < chip_select then udelay 2 (wr16 FIO_FLAG_C (bit16 chip_select) t) else t)"

definition raise_cs :: "nat \<Rightarrow> trace \<Rightarrow> trace" where
  "raise_cs chip_select t = (if 7 < chip_select then udelay 20 (wr16 FIO_FLAG_S (bit16 chip_select) t) else t)"

definition gsport_tx_byte :: "'x sport_hdr_scheme \<Rightarrow> device \<Rightarrow> nat \<Rightarrow> nat \<Rightarrow> u8 \<Rightarrow> trace \<Rightarrow> trace option" where
  "gsport_tx_byte h dev fuel chip_select bits t =
     do {
       t \<leftarrow> enable S1_TCR1 (sTSPEN h) dev fuel t;
       let t = drop_cs chip_select t;
       let t = wr16 S1_TX16 (ucast bits AND 0x0ff) t;
       t \<leftarrow> wait_bit S1_STAT (sTXHRE h) dev fuel t;
       Some (raise_cs chip_select (udelay 10 t))
     }"

definition gsport_rx_byte :: "'x sport_hdr_scheme \<Rightarrow> device \<Rightarrow> nat \<Rightarrow> nat \<Rightarrow> trace \<Rightarrow> (u8 \<times> trace) option" where
  "gsport_rx_byte h dev fuel chip_select t =
     do {
       t \<leftarrow> enable S1_RCR1 (sRSPEN h) dev fuel t;
       let t = (if 7 < chip_select then wr16 FIO_FLAG_C (bit16 chip_select) t else t);
       let t = wr16 S1_TX16 0xff t;
       t \<leftarrow> wait_bit S1_STAT (sRXNE h) dev fuel t;
       let (x, t) = rd dev S1_RX16 t;
       let t = (if 7 < chip_select then wr16 FIO_FLAG_S (bit16 chip_select) t else t);
       Some (ucast x, ndelay 200 (wr_and dev S1_RCR1 (NOT (sRSPEN h)) t))
     }"

definition sport_tx_word :: "gsm_hdr \<Rightarrow> device \<Rightarrow> nat \<Rightarrow> nat \<Rightarrow> u16 \<Rightarrow> trace \<Rightarrow> trace option" where
  "sport_tx_word h dev fuel chip_select bits t =
     do {
       t \<leftarrow> enable S1_TCR1 (sTSPEN h) dev fuel t;
       let t = wr16 S1_TX16 bits (drop_cs chip_select t);
       t \<leftarrow> wait_bit S1_STAT (sTXHRE h) dev fuel t;
       Some (raise_cs chip_select (udelay 30 t))
     }"

definition sport_rx_word :: "gsm_hdr \<Rightarrow> device \<Rightarrow> nat \<Rightarrow> nat \<Rightarrow> u16 \<Rightarrow> trace \<Rightarrow> (u16 \<times> trace) option" where
  "sport_rx_word h dev fuel chip_select regdata t =
     do {
       t \<leftarrow> enable S1_TCR1 (sTSPEN h) dev fuel t;
       t \<leftarrow> enable S1_RCR1 (sRSPEN h) dev fuel t;
       let t = wr16 S1_TX16 regdata (drop_cs chip_select t);
       t \<leftarrow> wait_bit S1_STAT (sRXNE h) dev fuel t;
       let (x, t) = rd dev S1_RX16 (udelay 13 t);
       Some (ucast x, raise_cs chip_select t)
     }"

definition gsport_interface_init :: "'x sport_hdr_scheme \<Rightarrow> device \<Rightarrow> u16 \<Rightarrow> u16 \<Rightarrow> trace \<Rightarrow> trace" where
  "gsport_interface_init h dev baud new_chip_select_mask t =
     (let t = gsport_configure h dev baud t;
          t = seq [wr16 FIO_FLAG_S (bit16 8), wr16 FIO_FLAG_S (bit16 9), wr16 FIO_FLAG_S (bit16 12)] t;
          t = (if new_chip_select_mask AND 0xff00 \<noteq> 0
               then wr_or dev FIO_DIR ((new_chip_select_mask AND 0xff00) OR bit16 12) t else t)
      in wr16 FIO_FLAG_S (bit16 12) t)"

text \<open>A word with the port reconfigured before and after, as the access functions of the
  converter do; \<open>SPI_BAUDS_GSM\<close> and \<open>SPI_BAUDS\<close> are both 49.\<close>

definition word_tx :: "gsm_hdr \<Rightarrow> device \<Rightarrow> nat \<Rightarrow> bool \<Rightarrow> u16 \<Rightarrow> trace \<Rightarrow> trace option" where
  "word_tx h dev fuel cs w t =
     do { t \<leftarrow> sport_tx_word h dev fuel (if cs then 8 else 0) w (sport_configure_gsm h dev 49 t);
          Some (gsport_configure h dev 49 t) }"

definition word_rx :: "gsm_hdr \<Rightarrow> device \<Rightarrow> nat \<Rightarrow> u16 \<Rightarrow> trace \<Rightarrow> (u16 \<times> trace) option" where
  "word_rx h dev fuel w t =
     do { (v, t) \<leftarrow> sport_rx_word h dev fuel 8 w (sport_configure_gsm h dev 49 t);
          Some (v, gsport_configure h dev 49 t) }"

section \<open>The contract\<close>

text \<open>The client's requests, and what they put on the wire: the chip selected if any, the word
  length and the word.  A read of a byte needs the transmitter running, which a byte written
  starts and a word stops.\<close>

type_synonym wire_word = "chip option \<times> nat \<times> u16"

fun gwire :: "greq \<Rightarrow> wire_word list" where
  "gwire (Byte e) = map (\<lambda>(c, b). (Some c, 8, ucast b)) (wire e)"
| "gwire (Word_tx cs w) = [(if cs then Some NCSA else None, 16, w)]"
| "gwire (Word_rx w) = [(Some NCSA, 16, w)]"

fun legal :: "bool \<Rightarrow> greq list \<Rightarrow> bool" where
  "legal r [] = True"
| "legal r (Byte (Tx c b) # rs) = legal True rs"
| "legal r (Byte Rx # rs) = (r \<and> legal r rs)"
| "legal r (Byte (Bus_reset n) # rs) = legal r rs"
| "legal r (Word_tx cs w # rs) = legal False rs"
| "legal r (Word_rx w # rs) = legal False rs"

fun greplay ::
    "(chip \<Rightarrow> u8 \<Rightarrow> 's \<Rightarrow> 's option) \<Rightarrow> ('s \<Rightarrow> (u8 \<times> 's) option) \<Rightarrow> (nat \<Rightarrow> 's \<Rightarrow> 's) \<Rightarrow> (bool \<Rightarrow> u16 \<Rightarrow> 's \<Rightarrow> 's option) \<Rightarrow>
     (u16 \<Rightarrow> 's \<Rightarrow> (u16 \<times> 's) option) \<Rightarrow> greq list \<Rightarrow> 's \<Rightarrow> 's option" where
  "greplay txb rxb rst wtx wrx [] s = Some s"
| "greplay txb rxb rst wtx wrx (Byte (Tx c b) # rs) s = do { s \<leftarrow> txb c b s; greplay txb rxb rst wtx wrx rs s }"
| "greplay txb rxb rst wtx wrx (Byte Rx # rs) s = do { (_, s) \<leftarrow> rxb s; greplay txb rxb rst wtx wrx rs s }"
| "greplay txb rxb rst wtx wrx (Byte (Bus_reset n) # rs) s = greplay txb rxb rst wtx wrx rs (rst n s)"
| "greplay txb rxb rst wtx wrx (Word_tx cs w # rs) s = do { s \<leftarrow> wtx cs w s; greplay txb rxb rst wtx wrx rs s }"
| "greplay txb rxb rst wtx wrx (Word_rx w # rs) s = do { (_, s) \<leftarrow> wrx w s; greplay txb rxb rst wtx wrx rs s }"

locale word_bus =
  fixes txb :: "chip \<Rightarrow> u8 \<Rightarrow> 's \<Rightarrow> 's option"
    and rxb :: "'s \<Rightarrow> (u8 \<times> 's) option"
    and rst :: "nat \<Rightarrow> 's \<Rightarrow> 's"
    and wtx :: "bool \<Rightarrow> u16 \<Rightarrow> 's \<Rightarrow> 's option"
    and wrx :: "u16 \<Rightarrow> 's \<Rightarrow> (u16 \<times> 's) option"
    and idle :: "'s \<Rightarrow> bool"
    and running :: "'s \<Rightarrow> bool"
    and seen :: "'s \<Rightarrow> wire_word list"
  assumes tx_law: "idle s \<Longrightarrow> \<exists>s'. txb c b s = Some s' \<and> idle s' \<and> running s' \<and> seen s' = seen s @ [(Some c, 8, ucast b)]"
    and rx_law: "idle s \<Longrightarrow> running s \<Longrightarrow>
      \<exists>v s'. rxb s = Some (v, s') \<and> idle s' \<and> running s' \<and> seen s' = seen s @ [(Some NCSA, 8, 0xff)]"
    and rst_law: "idle s \<Longrightarrow> idle (rst n s) \<and> running (rst n s) = running s \<and> seen (rst n s) = seen s"
    and txw_law: "idle s \<Longrightarrow> \<exists>s'. wtx cs w s = Some s' \<and> idle s' \<and> seen s' = seen s @ [(if cs then Some NCSA else None, 16, w)]"
    and rxw_law: "idle s \<Longrightarrow> \<exists>v s'. wrx w s = Some (v, s') \<and> idle s' \<and> seen s' = seen s @ [(Some NCSA, 16, w)]"
begin

lemma greplay_seen:
  "idle s \<Longrightarrow> (r \<Longrightarrow> running s) \<Longrightarrow> legal r rs \<Longrightarrow>
   \<exists>s'. greplay txb rxb rst wtx wrx rs s = Some s' \<and> idle s' \<and> seen s' = seen s @ concat (map gwire rs)"
proof (induction r rs arbitrary: s rule: legal.induct)
  case (2 r c b rs)
  obtain s1 where "txb c b s = Some s1" "idle s1" "running s1" "seen s1 = seen s @ [(Some c, 8, ucast b)]" using tx_law[OF 2(2)] by blast
  then show ?case using 2(1)[of s1] 2(4) by auto
next
  case (3 r rs)
  obtain v s1 where "rxb s = Some (v, s1)" "idle s1" "running s1" "seen s1 = seen s @ [(Some NCSA, 8, 0xff)]" using rx_law[OF 3(2)] 3(3,4) by auto
  then show ?case using 3(1)[of s1] 3(4) by auto
next
  case (4 r n rs)
  then show ?case using rst_law[OF 4(2), of n] 4(1)[of "rst n s"] by simp
next
  case (5 r cs w rs)
  obtain s1 where "wtx cs w s = Some s1" "idle s1" "seen s1 = seen s @ [(if cs then Some NCSA else None, 16, w)]" using txw_law[OF 5(2)] by blast
  then show ?case using 5(1)[of s1] 5(4) by auto
next
  case (6 r w rs)
  obtain v s1 where "wrx w s = Some (v, s1)" "idle s1" "seen s1 = seen s @ [(Some NCSA, 16, w)]" using rxw_law[OF 6(2)] by blast
  then show ?case using 6(1)[of s1] 6(4) by auto
qed simp

end

section \<open>What the chips see\<close>

text \<open>A word goes out when TX16 is written while the transmitter is enabled, with the length set in TCR2.\<close>

record port_lines =
  pl :: spi_lines
  ptcr1 :: u16
  ptcr2 :: u16

definition port_step :: "ev \<Rightarrow> port_lines \<Rightarrow> port_lines" where
  "port_step e l =
     (let l = l\<lparr>pl := Bfsi_Spi.line_step e (pl l)\<rparr>
      in case e of W r v \<Rightarrow> if r = S1_TCR1 then l\<lparr>ptcr1 := ucast v\<rparr> else if r = S1_TCR2 then l\<lparr>ptcr2 := ucast v\<rparr> else l
         | _ \<Rightarrow> l)"

definition port_of :: "port_lines \<Rightarrow> trace \<Rightarrow> port_lines" where
  "port_of l t = fold port_step t l"

definition who :: "spi_lines \<Rightarrow> chip option" where
  "who l = (if selected l 8 then Some NCSA else if selected l 9 then Some NCSB else None)"

fun gxfers :: "u16 \<Rightarrow> port_lines \<Rightarrow> trace \<Rightarrow> wire_word list" where
  "gxfers en l [] = []"
| "gxfers en l (e # t) =
     (case e of W r v \<Rightarrow> if r = S1_TX16 \<and> ptcr1 l AND en \<noteq> 0 then [(who (pl l), unat (ptcr2 l) + 1, ucast v)] else [] | _ \<Rightarrow> []) @
     gxfers en (port_step e l) t"

lemma port_of_simps [hw]: "port_of l [] = l" "port_of l (t @ t') = port_of (port_of l t) t'" "port_of l (e # t) = port_of (port_step e l) t"
  by (simp_all add: port_of_def)

lemma gxfers_append [hw]: "gxfers en l (t @ t') = gxfers en l t @ gxfers en (port_of l t) t'"
  by (induction t arbitrary: l) (simp_all add: hw)

lemma port_step_other [hw]:
  "port_step (R r) l = l" "port_step (Udelay n) l = l" "port_step (Ndelay n) l = l"
  by (simp_all add: port_step_def)

lemma port_reads [hw]: "port_of l (replicate n (R r)) = l" "gxfers en l (replicate n (R r)) = []"
  by (induction n arbitrary: l) (simp_all add: hw)

text \<open>Hardware that answers within the polls allowed, with a transmit-enable bit that the configurations leave alone.\<close>

definition gsport_live :: "gsm_hdr \<Rightarrow> device \<Rightarrow> nat \<Rightarrow> bool" where
  "gsport_live h dev fuel \<longleftrightarrow>
     (\<forall>t. \<exists>n<fuel. ucast (dev (t @ replicate n (R S1_STAT)) S1_STAT) AND sTXHRE h \<noteq> 0) \<and>
     (\<forall>t. \<exists>n<fuel. ucast (dev (t @ replicate n (R S1_STAT)) S1_STAT) AND sRXNE h \<noteq> 0) \<and>
     (\<forall>t. \<exists>n<fuel. ucast (dev (t @ replicate n (R S1_RCR1)) S1_RCR1) AND sRSPEN h \<noteq> 0) \<and>
     (\<forall>t. \<exists>n<fuel. ucast (dev (t @ replicate n (R S1_TCR1)) S1_TCR1) AND sTSPEN h \<noteq> 0) \<and>
     sTSPEN h \<noteq> 0"

lemma gsport_live_wait:
  assumes "gsport_live h dev fuel"
  shows "\<exists>n. wait_bit S1_STAT (sTXHRE h) dev fuel t = Some (t @ replicate n (R S1_STAT))"
    "\<exists>n. wait_bit S1_STAT (sRXNE h) dev fuel t = Some (t @ replicate n (R S1_STAT))"
    "\<exists>n. wait_bit S1_RCR1 (sRSPEN h) dev fuel t = Some (t @ replicate n (R S1_RCR1))"
    "\<exists>n. wait_bit S1_TCR1 (sTSPEN h) dev fuel t = Some (t @ replicate n (R S1_TCR1))"
  using assms wait_bit_ready unfolding gsport_live_def by blast+

definition port_idle :: "gsm_hdr \<Rightarrow> device \<Rightarrow> nat \<Rightarrow> port_lines \<Rightarrow> trace \<Rightarrow> bool" where
  "port_idle h dev fuel l t \<longleftrightarrow> gsport_live h dev fuel \<and> bus_idle {8, 9} (pl (port_of l t)) \<and> ptcr2 (port_of l t) = 7"

definition port_running :: "gsm_hdr \<Rightarrow> port_lines \<Rightarrow> trace \<Rightarrow> bool" where
  "port_running h l t \<longleftrightarrow> ptcr1 (port_of l t) AND sTSPEN h \<noteq> 0"

lemma tspen_or: "sTSPEN h \<noteq> 0 \<Longrightarrow> (x OR sTSPEN h) AND sTSPEN h \<noteq> 0"
proof -
  have "(x OR m) AND m = m" for m :: u16 by (rule bit_word_eqI) (auto simp: bit_simps)
  then show "sTSPEN h \<noteq> 0 \<Longrightarrow> (x OR sTSPEN h) AND sTSPEN h \<noteq> 0" by simp
qed

text \<open>Which chip sees the word while a select line is low, and the lines afterwards.\<close>

lemma who_idle: "bus_idle {8, 9} l \<Longrightarrow> who l = None"
  by (simp add: who_def bus_idle_def)

lemma who_selected:
  assumes "bus_idle {8, 9} l"
  shows "who (l\<lparr>lpf := lpf l AND NOT (bit16 (sport_num c))\<rparr>) = Some c"
proof -
  let ?l = "l\<lparr>lpf := lpf l AND NOT (bit16 (sport_num c))\<rparr>"
  have "{d \<in> {8, 9}. selected ?l d} = {sport_num c}"
    by (rule high_select[OF assms]) (cases c; simp)+
  then have "d \<in> {8, 9} \<and> selected ?l d \<longleftrightarrow> d = sport_num c" for d by blast
  from this[of 8] this[of 9] have "selected ?l 8 \<longleftrightarrow> c = NCSA" "selected ?l 9 \<longleftrightarrow> c = NCSB" by (cases c; simp)+
  then show ?thesis by (cases c) (simp_all add: who_def)
qed

lemma cs_restored:
  assumes "bus_idle {8, 9} l"
  shows "l\<lparr>lpf := (lpf l AND NOT (bit16 (sport_num c))) OR bit16 (sport_num c)\<rparr> = l"
  using restore_high[OF assms, of "sport_num c"] by (cases c) simp_all

definition tx_part :: "u16 \<Rightarrow> nat \<Rightarrow> trace" where
  "tx_part x k = [R S1_TCR1, W S1_TCR1 (ucast x)] @ replicate k (R S1_TCR1)"

definition rx_part :: "u16 \<Rightarrow> nat \<Rightarrow> trace" where
  "rx_part y k = [R S1_RCR1, W S1_RCR1 (ucast y)] @ replicate k (R S1_RCR1)"

definition pulse :: "nat \<Rightarrow> trace \<Rightarrow> u16 \<Rightarrow> trace \<Rightarrow> trace \<Rightarrow> trace" where
  "pulse cs pre w mid post = [W FIO_FLAG_C (ucast (bit16 cs))] @ pre @ [W S1_TX16 (ucast w)] @ mid @ [W FIO_FLAG_S (ucast (bit16 cs))] @ post"

text \<open>The two enables, as what they append to the trace.\<close>

lemma enable_events:
  assumes "gsport_live h dev fuel"
  shows "\<exists>x k. enable S1_TCR1 (sTSPEN h) dev fuel t = Some (t @ tx_part x k) \<and> x AND sTSPEN h \<noteq> 0"
    "\<exists>y k. enable S1_RCR1 (sRSPEN h) dev fuel t = Some (t @ rx_part y k)"
proof -
  have o: "wr_or dev r m t = t @ [R r, W r (ucast (ucast (dev t r) OR m))]" for r m by (simp add: wr_or_def rd_def wr16_def)
  obtain k where "wait_bit S1_TCR1 (sTSPEN h) dev fuel (wr_or dev S1_TCR1 (sTSPEN h) t) = Some (wr_or dev S1_TCR1 (sTSPEN h) t @ replicate k (R S1_TCR1))"
    using gsport_live_wait(4)[OF assms] by blast
  then show "\<exists>x k. enable S1_TCR1 (sTSPEN h) dev fuel t = Some (t @ tx_part x k) \<and> x AND sTSPEN h \<noteq> 0"
    using tspen_or[of h] assms by (intro exI[of _ "ucast (dev t S1_TCR1) OR sTSPEN h"] exI[of _ k]) (simp add: enable_def o tx_part_def gsport_live_def)
  obtain k where "wait_bit S1_RCR1 (sRSPEN h) dev fuel (wr_or dev S1_RCR1 (sRSPEN h) t) = Some (wr_or dev S1_RCR1 (sRSPEN h) t @ replicate k (R S1_RCR1))"
    using gsport_live_wait(3)[OF assms] by blast
  then show "\<exists>y k. enable S1_RCR1 (sRSPEN h) dev fuel t = Some (t @ rx_part y k)"
    by (intro exI[of _ "ucast (dev t S1_RCR1) OR sRSPEN h"] exI[of _ k]) (simp add: enable_def o rx_part_def)
qed

text \<open>Delays and reads change nothing.\<close>

definition silent_ev :: "ev \<Rightarrow> bool" where
  "silent_ev e \<longleftrightarrow> (case e of W r v \<Rightarrow> False | _ \<Rightarrow> True)"

lemma silent_port: "list_all silent_ev t \<Longrightarrow> port_of l t = l" "list_all silent_ev t \<Longrightarrow> gxfers en l t = []"
  by (induction t arbitrary: l) (auto simp: hw silent_ev_def port_step_def split: ev.splits)

lemma silent_reads [simp]: "list_all silent_ev (replicate n (R r))"
  by (induction n) (simp_all add: silent_ev_def)

lemma enable_seen:
  "port_of l (tx_part x k) = l\<lparr>ptcr1 := x\<rparr>" "gxfers en l (tx_part x k) = []" "port_of l (rx_part y k) = l" "gxfers en l (rx_part y k) = []"
  by (simp_all add: tx_part_def rx_part_def hw port_step_def)

lemma pulse_seen:
  assumes "bus_idle {8, 9} (pl l)" "ptcr1 l AND en \<noteq> 0" "list_all silent_ev pre" "list_all silent_ev mid" "list_all silent_ev post"
  shows "gxfers en l (pulse (sport_num c) pre w mid post) = [(Some c, unat (ptcr2 l) + 1, w)]"
    "port_of l (pulse (sport_num c) pre w mid post) = l"
  using assms who_selected[OF assms(1), of c] cs_restored[OF assms(1), of c]
  by (simp_all add: pulse_def hw silent_port port_step_def)

definition conf_events :: "u16 \<Rightarrow> u16 \<Rightarrow> u16 \<Rightarrow> u16 \<Rightarrow> u16 \<Rightarrow> u16 \<Rightarrow> trace" where
  "conf_events a b tc rc n baud =
     [R S1_TCR1, W S1_TCR1 (ucast a), R S1_RCR1, W S1_RCR1 (ucast b), W S1_TCR1 (ucast tc), W S1_TCR2 (ucast n), W S1_TCLKDIV (ucast baud),
      W S1_TFSDIV (ucast n), W S1_RCR1 (ucast rc), W S1_RCR2 (ucast n), W S1_RCLKDIV (ucast baud), W S1_RFSDIV (ucast n)]"

lemma configure_events:
  "\<exists>a b. gsport_configure h dev baud t = t @ conf_events a b (sTCR1_cfg h) (sRCR1_cfg h) 7 baud"
  "\<exists>a b. sport_configure_gsm g dev baud t = t @ conf_events a b (gTCR1_cfg g) (gRCR1_cfg g) 0xf baud"
  by (simp_all add: gsport_configure_def sport_configure_gsm_def wr_and_def rd_def wr16_def conf_events_def; intro conjI exI; rule refl)+

lemma conf_seen: "port_of l (conf_events a b tc rc n baud) = l\<lparr>ptcr1 := tc, ptcr2 := n\<rparr>" "gxfers en l (conf_events a b tc rc n baud) = []"
  by (simp_all add: conf_events_def hw port_step_def)

definition after :: "nat \<Rightarrow> nat \<Rightarrow> trace" where
  "after n d = replicate n (R S1_STAT) @ [Udelay d]"

lemma silent_after: "list_all silent_ev (after n d)"
  by (simp add: after_def silent_ev_def)

lemma tx_byte_events:
  assumes "gsport_live h dev fuel"
  shows "\<exists>x k n. gsport_tx_byte h dev fuel (sport_num c) b t =
      Some (t @ tx_part x k @ pulse (sport_num c) [Udelay 2] (ucast b) (after n 10) [Udelay 20]) \<and> x AND sTSPEN h \<noteq> 0"
proof -
  obtain x k where e: "enable S1_TCR1 (sTSPEN h) dev fuel t = Some (t @ tx_part x k)" "x AND sTSPEN h \<noteq> 0" using enable_events(1)[OF assms] by blast
  let ?t = "t @ tx_part x k @ [W FIO_FLAG_C (ucast (bit16 (sport_num c))), Udelay 2, W S1_TX16 (ucast (ucast b :: u16))]"
  obtain n where n: "wait_bit S1_STAT (sTXHRE h) dev fuel ?t = Some (?t @ replicate n (R S1_STAT))" using gsport_live_wait(1)[OF assms] by blast
  have c: "7 < sport_num c" by (cases c) simp_all
  show ?thesis using e n c
    by (intro exI[of _ x] exI[of _ k] exI[of _ n]) (simp add: gsport_tx_byte_def drop_cs_def raise_cs_def wr16_def udelay_def and_ff pulse_def after_def)
qed

lemma rx_byte_events:
  assumes "gsport_live h dev fuel"
  shows "\<exists>v y k n z. gsport_rx_byte h dev fuel 8 t =
      Some (v, t @ rx_part y k @ pulse 8 [] 0xff (replicate n (R S1_STAT) @ [R S1_RX16]) [] @ [R S1_RCR1, W S1_RCR1 (ucast (z :: u16)), Ndelay 200])"
proof -
  obtain y k where e: "enable S1_RCR1 (sRSPEN h) dev fuel t = Some (t @ rx_part y k)" using enable_events(2)[OF assms] by blast
  let ?t = "t @ rx_part y k @ [W FIO_FLAG_C (ucast (bit16 8)), W S1_TX16 0xff]"
  obtain n where n: "wait_bit S1_STAT (sRXNE h) dev fuel ?t = Some (?t @ replicate n (R S1_STAT))" using gsport_live_wait(2)[OF assms] by blast
  show ?thesis using e n
    by (auto simp: gsport_rx_byte_def wr16_def wr_and_def rd_def ndelay_def pulse_def)
qed

lemma tx_word_events:
  assumes "gsport_live h dev fuel"
  shows "\<exists>x k n. sport_tx_word h dev fuel 8 w t = Some (t @ tx_part x k @ pulse 8 [Udelay 2] w (after n 30) [Udelay 20]) \<and> x AND sTSPEN h \<noteq> 0"
    "\<exists>x k n. sport_tx_word h dev fuel 0 w t = Some (t @ tx_part x k @ [W S1_TX16 (ucast w)] @ after n 30) \<and> x AND sTSPEN h \<noteq> 0"
proof -
  obtain x k where e: "enable S1_TCR1 (sTSPEN h) dev fuel t = Some (t @ tx_part x k)" "x AND sTSPEN h \<noteq> 0" using enable_events(1)[OF assms] by blast
  let ?t = "t @ tx_part x k @ [W FIO_FLAG_C (ucast (bit16 8)), Udelay 2, W S1_TX16 (ucast w)]" and ?u = "t @ tx_part x k @ [W S1_TX16 (ucast w)]"
  obtain n where n: "wait_bit S1_STAT (sTXHRE h) dev fuel ?t = Some (?t @ replicate n (R S1_STAT))" using gsport_live_wait(1)[OF assms] by blast
  show "\<exists>x k n. sport_tx_word h dev fuel 8 w t = Some (t @ tx_part x k @ pulse 8 [Udelay 2] w (after n 30) [Udelay 20]) \<and> x AND sTSPEN h \<noteq> 0"
    using e n by (intro exI[of _ x] exI[of _ k] exI[of _ n]) (simp add: sport_tx_word_def drop_cs_def raise_cs_def wr16_def udelay_def pulse_def after_def)
  obtain m where m: "wait_bit S1_STAT (sTXHRE h) dev fuel ?u = Some (?u @ replicate m (R S1_STAT))" using gsport_live_wait(1)[OF assms] by blast
  show "\<exists>x k n. sport_tx_word h dev fuel 0 w t = Some (t @ tx_part x k @ [W S1_TX16 (ucast w)] @ after n 30) \<and> x AND sTSPEN h \<noteq> 0"
    using e m by (intro exI[of _ x] exI[of _ k] exI[of _ m]) (simp add: sport_tx_word_def drop_cs_def raise_cs_def wr16_def udelay_def after_def)
qed

lemma rx_word_events:
  assumes "gsport_live h dev fuel"
  shows "\<exists>v x k y j n. sport_rx_word h dev fuel 8 w t =
      Some (v, t @ tx_part x k @ rx_part y j @ pulse 8 [Udelay 2] w (after n 13 @ [R S1_RX16]) [Udelay 20]) \<and> x AND sTSPEN h \<noteq> 0"
proof -
  obtain x k where e: "enable S1_TCR1 (sTSPEN h) dev fuel t = Some (t @ tx_part x k)" "x AND sTSPEN h \<noteq> 0" using enable_events(1)[OF assms] by blast
  obtain y j where r: "enable S1_RCR1 (sRSPEN h) dev fuel (t @ tx_part x k) = Some ((t @ tx_part x k) @ rx_part y j)" using enable_events(2)[OF assms] by blast
  let ?t = "t @ tx_part x k @ rx_part y j @ [W FIO_FLAG_C (ucast (bit16 8)), Udelay 2, W S1_TX16 (ucast w)]"
  obtain n where n: "wait_bit S1_STAT (sRXNE h) dev fuel ?t = Some (?t @ replicate n (R S1_STAT))" using gsport_live_wait(2)[OF assms] by blast
  show ?thesis using e r n
    by (intro exI[of _ "ucast (dev (?t @ after n 13) S1_RX16)"] exI[of _ x] exI[of _ k] exI[of _ y] exI[of _ j] exI[of _ n])
      (simp add: sport_rx_word_def drop_cs_def raise_cs_def wr16_def udelay_def rd_def pulse_def after_def)
qed

text \<open>The five laws.\<close>

lemma port_tx_law:
  assumes "port_idle h dev fuel l t"
  shows "\<exists>t'. gsport_tx_byte h dev fuel (sport_num c) b t = Some t' \<and> port_idle h dev fuel l t' \<and> port_running h l t' \<and>
    gxfers (sTSPEN h) l t' = gxfers (sTSPEN h) l t @ [(Some c, 8, ucast b)]"
proof -
  from assms have a: "gsport_live h dev fuel" "bus_idle {8, 9} (pl (port_of l t))" "ptcr2 (port_of l t) = 7" by (simp_all add: port_idle_def)
  obtain x k n where e: "gsport_tx_byte h dev fuel (sport_num c) b t = Some (t @ tx_part x k @ pulse (sport_num c) [Udelay 2] (ucast b) (after n 10) [Udelay 20])"
    "x AND sTSPEN h \<noteq> 0" using tx_byte_events[OF a(1)] by blast
  show ?thesis using e a by (simp add: port_idle_def port_running_def port_of_simps gxfers_append enable_seen pulse_seen silent_after silent_ev_def)
qed

lemma port_rx_law:
  assumes "port_idle h dev fuel l t" "port_running h l t"
  shows "\<exists>v t'. gsport_rx_byte h dev fuel 8 t = Some (v, t') \<and> port_idle h dev fuel l t' \<and> port_running h l t' \<and>
    gxfers (sTSPEN h) l t' = gxfers (sTSPEN h) l t @ [(Some NCSA, 8, 0xff)]"
proof -
  from assms have a: "gsport_live h dev fuel" "bus_idle {8, 9} (pl (port_of l t))" "ptcr2 (port_of l t) = 7" "ptcr1 (port_of l t) AND sTSPEN h \<noteq> 0"
    by (simp_all add: port_idle_def port_running_def)
  obtain v y k n z where e: "gsport_rx_byte h dev fuel 8 t =
      Some (v, t @ rx_part y k @ pulse 8 [] 0xff (replicate n (R S1_STAT) @ [R S1_RX16]) [] @ [R S1_RCR1, W S1_RCR1 (ucast (z :: u16)), Ndelay 200])"
    using rx_byte_events[OF a(1)] by blast
  note p = pulse_seen[OF a(2,4), where c = NCSA and pre = "[]" and w = "0xff" and mid = "replicate n (R S1_STAT) @ [R S1_RX16]" and post = "[]"]
  have q: "port_of m [R (SPORT_RCR1 i), W (SPORT_RCR1 i) v, Ndelay d] = m" "gxfers en m [R (SPORT_RCR1 i), W (SPORT_RCR1 i) v, Ndelay d] = []" for m en i v d
    by (simp_all add: hw port_step_def)
  show ?thesis using e a p by (simp add: port_idle_def port_running_def port_of_simps(2) gxfers_append enable_seen silent_ev_def q)
qed

lemma port_rst_law:
  assumes "port_idle h dev fuel l t"
  shows "port_idle h dev fuel l (sport_interface_reset dev n t) \<and> port_running h l (sport_interface_reset dev n t) = port_running h l t \<and>
    gxfers (sTSPEN h) l (sport_interface_reset dev n t) = gxfers (sTSPEN h) l t"
  using assms bus_idle_pulse[of "{8, 9}" "pl (port_of l t)" "bit16 n"]
  by (simp add: sport_interface_reset_def wr_or_def rd_def wr16_def udelay_def port_idle_def port_running_def hw port_step_def)

lemma port_wtx_law:
  assumes "port_idle h dev fuel l t"
  shows "\<exists>t'. word_tx h dev fuel cs w t = Some t' \<and> port_idle h dev fuel l t' \<and>
    gxfers (sTSPEN h) l t' = gxfers (sTSPEN h) l t @ [(if cs then Some NCSA else None, 16, w)]"
proof -
  from assms have a: "gsport_live h dev fuel" "bus_idle {8, 9} (pl (port_of l t))" "ptcr2 (port_of l t) = 7" by (simp_all add: port_idle_def)
  obtain a1 b1 where c: "sport_configure_gsm h dev 49 t = t @ conf_events a1 b1 (gTCR1_cfg h) (gRCR1_cfg h) 0xf 49" using configure_events(2) by blast
  let ?t = "t @ conf_events a1 b1 (gTCR1_cfg h) (gRCR1_cfg h) 0xf 49"
  show ?thesis
  proof (cases cs)
    case True
    obtain x k n where e: "sport_tx_word h dev fuel 8 w ?t = Some (?t @ tx_part x k @ pulse 8 [Udelay 2] w (after n 30) [Udelay 20])" "x AND sTSPEN h \<noteq> 0"
      using tx_word_events(1)[OF a(1)] by blast
    obtain a2 b2 where d: "gsport_configure h dev 49 (?t @ tx_part x k @ pulse 8 [Udelay 2] w (after n 30) [Udelay 20]) =
       (?t @ tx_part x k @ pulse 8 [Udelay 2] w (after n 30) [Udelay 20]) @ conf_events a2 b2 (sTCR1_cfg h) (sRCR1_cfg h) 7 49"
      using configure_events(1) by blast
    show ?thesis using True c e d a pulse_seen[where c = NCSA]
      by (simp add: word_tx_def port_idle_def port_of_simps(2) gxfers_append enable_seen conf_seen silent_after silent_ev_def)
  next
    case False
    obtain x k n where e: "sport_tx_word h dev fuel 0 w ?t = Some (?t @ tx_part x k @ [W S1_TX16 (ucast w)] @ after n 30)" "x AND sTSPEN h \<noteq> 0"
      using tx_word_events(2)[OF a(1)] by blast
    obtain a2 b2 where d: "gsport_configure h dev 49 (?t @ tx_part x k @ [W S1_TX16 (ucast w)] @ after n 30) =
       (?t @ tx_part x k @ [W S1_TX16 (ucast w)] @ after n 30) @ conf_events a2 b2 (sTCR1_cfg h) (sRCR1_cfg h) 7 49"
      using configure_events(1) by blast
    show ?thesis using False c e d a who_idle[OF a(2)]
      by (simp add: word_tx_def port_idle_def port_of_simps gxfers_append enable_seen conf_seen silent_port silent_after port_step_def)
  qed
qed

lemma port_wrx_law:
  assumes "port_idle h dev fuel l t"
  shows "\<exists>v t'. word_rx h dev fuel w t = Some (v, t') \<and> port_idle h dev fuel l t' \<and>
    gxfers (sTSPEN h) l t' = gxfers (sTSPEN h) l t @ [(Some NCSA, 16, w)]"
proof -
  from assms have a: "gsport_live h dev fuel" "bus_idle {8, 9} (pl (port_of l t))" "ptcr2 (port_of l t) = 7" by (simp_all add: port_idle_def)
  obtain a1 b1 where c: "sport_configure_gsm h dev 49 t = t @ conf_events a1 b1 (gTCR1_cfg h) (gRCR1_cfg h) 0xf 49" using configure_events(2) by blast
  let ?t = "t @ conf_events a1 b1 (gTCR1_cfg h) (gRCR1_cfg h) 0xf 49"
  obtain v x k y j n where e: "sport_rx_word h dev fuel 8 w ?t =
      Some (v, ?t @ tx_part x k @ rx_part y j @ pulse 8 [Udelay 2] w (after n 13 @ [R S1_RX16]) [Udelay 20])" "x AND sTSPEN h \<noteq> 0"
    using rx_word_events[OF a(1)] by blast
  obtain a2 b2 where d: "gsport_configure h dev 49 (?t @ tx_part x k @ rx_part y j @ pulse 8 [Udelay 2] w (after n 13 @ [R S1_RX16]) [Udelay 20]) =
     (?t @ tx_part x k @ rx_part y j @ pulse 8 [Udelay 2] w (after n 13 @ [R S1_RX16]) [Udelay 20]) @ conf_events a2 b2 (sTCR1_cfg h) (sRCR1_cfg h) 7 49"
    using configure_events(1) by blast
  show ?thesis using c e d a pulse_seen[where c = NCSA]
    by (simp add: word_rx_def port_idle_def port_of_simps(2) gxfers_append enable_seen conf_seen silent_after silent_ev_def)
qed

interpretation gport_bus: word_bus "\<lambda>c. gsport_tx_byte h dev fuel (sport_num c)" "gsport_rx_byte h dev fuel 8" "sport_interface_reset dev"
    "word_tx h dev fuel" "word_rx h dev fuel" "port_idle h dev fuel l" "port_running h l" "gxfers (sTSPEN h) l"
  for h dev fuel l
  by unfold_locales (rule port_tx_law port_rx_law port_rst_law port_wtx_law port_wrx_law; assumption)+

text \<open>
  The initialisation leaves the lines in the state the contract starts from, whatever they were: both selects
  high and the port set for bytes.
\<close>

lemma gsport_init_idle:
  assumes "gsport_live h dev fuel"
  shows "port_idle h dev fuel l (gsport_interface_init h dev baud cs_mask []) \<and> gxfers (sTSPEN h) l (gsport_interface_init h dev baud cs_mask []) = []"
proof -
  obtain a b where c: "gsport_configure h dev baud [] = [] @ conf_events a b (sTCR1_cfg h) (sRCR1_cfg h) 7 baud" using configure_events(1) by blast
  have i: "bus_idle {8, 9} (l\<lparr>lpf := ((lpf l OR bit16 8) OR bit16 9) OR bit16 12\<rparr>)" for l
    by (simp add: bus_idle_def selected_def bit_simps)
  have j: "(x OR bit16 12) OR bit16 12 = x OR bit16 12" for x by (rule bit_word_eqI) (auto simp: bit_simps)
  show ?thesis using assms i j c
    by (simp add: gsport_interface_init_def wr_or_def rd_def wr16_def port_idle_def port_of_simps gxfers_append conf_seen port_step_def Let_def)
qed

section \<open>Properties\<close>

definition demo_gsport :: gsm_hdr where
  "demo_gsport = \<lparr>sTXHRE = 0x40, sRXNE = 1, sTSPEN = 1, sRSPEN = 1, sTCR1_cfg = 0x7e02, sRCR1_cfg = 0x7c00, gTCR1_cfg = 0x3e02, gRCR1_cfg = 0x3c00\<rparr>"



text \<open>
  A byte read right after a word access stops with the transmitter off: the byte goes nowhere.  The driver always
  writes a byte (the card select or the register address) first.
\<close>

lemma rx_byte_after_word:
  assumes "gsport_live h dev fuel" "ptcr1 (port_of l t) AND sTSPEN h = 0" "gsport_rx_byte h dev fuel 8 t = Some (v, t')"
  shows "gxfers (sTSPEN h) l t' = gxfers (sTSPEN h) l t"
proof -
  obtain v' y k n z where e: "gsport_rx_byte h dev fuel 8 t =
      Some (v', t @ rx_part y k @ pulse 8 [] 0xff (replicate n (R S1_STAT) @ [R S1_RX16]) [] @ [R S1_RCR1, W S1_RCR1 (ucast (z :: u16)), Ndelay 200])"
    using rx_byte_events[OF assms(1)] by blast
  show ?thesis using e assms(2,3) by (auto simp: gxfers_append port_of_simps enable_seen pulse_def silent_port port_step_def silent_ev_def)
qed

end
