(* ===== verification/Speex.thy ===== *)
theory Speex
  imports Framing Cstr Complex_Main
begin

text \<open>
  The Speex translator of Asterisk, \<open>src/src/codec_speex.c\<close>, in the build with \<open>_SPEEX_TYPES_H\<close>: configuration,
  construction, encoding and decoding.  The Speex library, the cycle counter and the part of Asterisk
  that hands out frames are parameters.  Buffers are the bytes that \<open>memcpy\<close> and \<open>memmove\<close> move, two per
  sample.  \<open>None\<close> is a computation without a result: an access outside a buffer, a use of a
  preprocessor that was never created, or a loop that does not end.
\<close>

section \<open>Configuration\<close>

record config =
  quality :: int
  complexity :: int
  enhancement :: int
  vad :: int
  vbr :: int
  vbr_quality :: real
  abr :: int
  dtx :: int
  preproc :: int
  pp_vad :: int
  pp_agc :: int
  pp_agc_level :: real
  pp_denoise :: int
  pp_dereverb :: int
  pp_dereverb_decay :: real
  pp_dereverb_level :: real

definition default_config :: config where
  "default_config = \<lparr>quality = 3, complexity = 2, enhancement = 0, vad = 0, vbr = 0, vbr_quality = 4, abr = 0, dtx = 0, preproc = 0,
     pp_vad = 0, pp_agc = 0, pp_agc_level = 8000, pp_denoise = 0, pp_dereverb = 0, pp_dereverb_decay = 4 / 10, pp_dereverb_level = 3 / 10\<rparr>"

text \<open>\<open>ast_true\<close> of Asterisk, and the value that \<open>sscanf\<close> reads for \<open>%f\<close>, if it reads one.\<close>

record readers =
  ast_true :: "string \<Rightarrow> bool"
  scan_f :: "string \<Rightarrow> real option"

definition tolower :: "char \<Rightarrow> char" where
  "tolower c = (if 65 \<le> code c \<and> code c \<le> 90 then char_of (code c + 32) else c)"

definition strcaseeq :: "string \<Rightarrow> string \<Rightarrow> bool" where
  "strcaseeq a b \<longleftrightarrow> map tolower a = map tolower b"

text \<open>\<open>abs(atoi(value))\<close>; the absolute value of the smallest \<open>int\<close> wraps to itself.\<close>

definition abs_atoi :: "string \<Rightarrow> int" where
  "abs_atoi v = to_int \<bar>atoi v\<bar>"

definition truth :: "readers \<Rightarrow> string \<Rightarrow> int" where
  "truth R v = (if ast_true R v then 1 else 0)"

definition set_variable :: "readers \<Rightarrow> string \<times> string \<Rightarrow> config \<Rightarrow> config" where
  "set_variable R = (\<lambda>(name, value) k.
     if strcaseeq name ''quality'' then let res = abs_atoi value in if -1 < res \<and> res < 11 then k\<lparr>quality := res\<rparr> else k
     else if strcaseeq name ''complexity'' then let res = abs_atoi value in if -1 < res \<and> res < 11 then k\<lparr>complexity := res\<rparr> else k
     else if strcaseeq name ''vbr_quality''
          then (case scan_f R value of Some r \<Rightarrow> if 0 \<le> r \<and> r \<le> 10 then k\<lparr>vbr_quality := r\<rparr> else k | None \<Rightarrow> k)
     else if strcaseeq name ''abr_quality'' then k
     else if strcaseeq name ''enhancement'' then k\<lparr>enhancement := truth R value\<rparr>
     else if strcaseeq name ''vbr'' then k\<lparr>vbr := truth R value\<rparr>
     else if strcaseeq name ''abr'' then let res = abs_atoi value in if 0 \<le> res then k\<lparr>abr := res\<rparr> else k
     else if strcaseeq name ''vad'' then k\<lparr>vad := truth R value\<rparr>
     else if strcaseeq name ''dtx'' then k\<lparr>dtx := truth R value\<rparr>
     else if strcaseeq name ''preprocess'' then k\<lparr>preproc := truth R value\<rparr>
     else if strcaseeq name ''pp_vad'' then k\<lparr>pp_vad := truth R value\<rparr>
     else if strcaseeq name ''pp_agc'' then k\<lparr>pp_agc := truth R value\<rparr>
     else if strcaseeq name ''pp_agc_level''
          then (case scan_f R value of Some r \<Rightarrow> if 0 \<le> r then k\<lparr>pp_agc_level := r\<rparr> else k | None \<Rightarrow> k)
     else if strcaseeq name ''pp_denoise'' then k\<lparr>pp_denoise := truth R value\<rparr>
     else if strcaseeq name ''pp_dereverb'' then k\<lparr>pp_dereverb := truth R value\<rparr>
     else if strcaseeq name ''pp_dereverb_decay''
          then (case scan_f R value of Some r \<Rightarrow> if 0 \<le> r then k\<lparr>pp_dereverb_decay := r\<rparr> else k | None \<Rightarrow> k)
     else if strcaseeq name ''pp_dereverb_level''
          then (case scan_f R value of Some r \<Rightarrow> if 0 \<le> r then k\<lparr>pp_dereverb_level := r\<rparr> else k | None \<Rightarrow> k)
     else k)"

text \<open>The file is the list of the variables of its section \<open>speex\<close>, or absent.\<close>

definition parse_config :: "readers \<Rightarrow> (string \<times> string) list option \<Rightarrow> config \<Rightarrow> config" where
  "parse_config R cfg k = (case cfg of None \<Rightarrow> k | Some vars \<Rightarrow> fold (set_variable R) vars k)"

section \<open>The library\<close>

datatype ectl =
    SET_COMPLEXITY int | SET_QUALITY int | SET_VAD int | SET_VBR int | SET_VBR_QUALITY real | SET_ABR int | SET_DTX int

datatype pctl =
    PP_VAD int | PP_AGC int | PP_AGC_LEVEL real | PP_DENOISE int | PP_DEREVERB int | PP_DEREVERB_DECAY real | PP_DEREVERB_LEVEL real

text \<open>The states of encoder, preprocessor, decoder and bit stream are type parameters.  Preprocessor and encoder may
  overwrite the samples they are given.\<close>

record ('e, 'p, 'd, 'b) speex_lib =
  encoder_init :: "'e option"
  encoder_ctl :: "ectl \<Rightarrow> 'e \<Rightarrow> 'e"
  encoder_frame_size :: "'e \<Rightarrow> nat"
  preprocess_state_init :: "nat \<Rightarrow> nat \<Rightarrow> 'p"
  preprocess_ctl :: "pctl \<Rightarrow> 'p \<Rightarrow> 'p"
  preprocess :: "'p \<Rightarrow> u8 list \<Rightarrow> bool \<times> 'p \<times> u8 list"
  encode_int :: "'e \<Rightarrow> u8 list \<Rightarrow> 'b \<Rightarrow> bool \<times> 'e \<times> u8 list \<times> 'b"
  decoder_init :: "'d option"
  decoder_set_enh :: "int \<Rightarrow> 'd \<Rightarrow> 'd"
  decoder_frame_size :: "'d \<Rightarrow> nat"
  decode_int :: "'d \<Rightarrow> 'b \<Rightarrow> int \<times> 'd \<times> 'b \<times> u8 list"
  decode_lost :: "'d \<Rightarrow> 'd \<times> u8 list"
  bits_init :: "'b"
  bits_reset :: "'b \<Rightarrow> 'b"
  bits_pack :: "nat \<Rightarrow> nat \<Rightarrow> 'b \<Rightarrow> 'b"
  bits_read_from :: "u8 list \<Rightarrow> 'b \<Rightarrow> 'b"
  bits_write :: "nat \<Rightarrow> 'b \<Rightarrow> u8 list"
  cycles :: "nat \<Rightarrow> u32"

record stats =
  total_enc_cycles :: u32
  total_dec_cycles :: u32
  enc_calls :: u32
  dec_calls :: u32
  start_enc_cycles :: u32
  start_dec_cycles :: u32
  tk :: nat

definition BUFFER_SAMPLES :: nat where "BUFFER_SAMPLES = 8000"

text \<open>The private part of the translator and the fields of Asterisk's part that it uses.\<close>

record ('e, 'p, 'b) encoder =
  enc :: "'e"
  ebits :: "'b"
  framesize :: nat
  silent_state :: bool
  pp :: "'p option"
  buf :: "u8 list"
  samples :: nat

record ('d, 'b) decoder =
  dec_state :: "'d"
  dbits :: "'b"
  dframesize :: nat
  outbuf :: "u8 list"
  dsamples :: nat
  datalen :: nat

section \<open>Construction\<close>

definition pp_settings :: "config \<Rightarrow> pctl list" where
  "pp_settings k = [PP_VAD (pp_vad k), PP_AGC (pp_agc k), PP_AGC_LEVEL (pp_agc_level k), PP_DENOISE (pp_denoise k), PP_DEREVERB (pp_dereverb k),
     PP_DEREVERB_DECAY (pp_dereverb_decay k), PP_DEREVERB_LEVEL (pp_dereverb_level k)]"

definition enc_settings :: "config \<Rightarrow> ectl list" where
  "enc_settings k =
     (if abr k = 0 \<and> vbr k = 0 then SET_QUALITY (quality k) # (if vad k \<noteq> 0 then [SET_VAD (vad k)] else []) else []) @
     (if vbr k \<noteq> 0 then [SET_VBR (vbr k), SET_VBR_QUALITY (vbr_quality k)] else []) @
     (if abr k \<noteq> 0 then [SET_ABR (abr k)] else []) @
     (if dtx k \<noteq> 0 then [SET_DTX (dtx k)] else [])"

text \<open>The structure comes zeroed from Asterisk: no preprocessor.\<close>

definition lintospeex_new :: "('e, 'p, 'd, 'b) speex_lib \<Rightarrow> config \<Rightarrow> ('e, 'p, 'b) encoder option" where
  "lintospeex_new L k =
     (case encoder_init L of
        None \<Rightarrow> None
      | Some e \<Rightarrow>
          let fs = encoder_frame_size L e;
              e = encoder_ctl L (SET_COMPLEXITY (complexity k)) e;
              p = (if preproc k \<noteq> 0 then Some (fold (preprocess_ctl L) (pp_settings k) (preprocess_state_init L fs 8000)) else None)
          in Some \<lparr>enc = fold (encoder_ctl L) (enc_settings k) e, ebits = bits_reset L (bits_init L), framesize = fs, silent_state = False,
                   pp = p, buf = replicate (2 * BUFFER_SAMPLES) 0, samples = 0\<rparr>)"

definition speextolin_new :: "('e, 'p, 'd, 'b) speex_lib \<Rightarrow> config \<Rightarrow> ('d, 'b) decoder option" where
  "speextolin_new L k =
     (case decoder_init L of
        None \<Rightarrow> None
      | Some d \<Rightarrow>
          Some \<lparr>dec_state = (if enhancement k \<noteq> 0 then decoder_set_enh L (enhancement k) d else d), dbits = bits_init L,
                dframesize = decoder_frame_size L d, outbuf = replicate (2 * BUFFER_SAMPLES) 0, dsamples = 0, datalen = 0\<rparr>)"

section \<open>Load measurement\<close>

definition count_enc :: "('e, 'p, 'd, 'b) speex_lib \<Rightarrow> stats \<Rightarrow> stats" where
  "count_enc L g =
     (let cyc = cycles L; n = tk g; t = cyc n; tot = total_enc_cycles g + (cyc (n + 1) - t)
      in if 200 \<le> enc_calls g
         then g\<lparr>total_enc_cycles := 0, enc_calls := 0, start_enc_cycles := cyc (n + 3), tk := n + 4\<rparr>
         else g\<lparr>total_enc_cycles := tot, enc_calls := enc_calls g + 1, tk := n + 2\<rparr>)"

definition count_dec :: "('e, 'p, 'd, 'b) speex_lib \<Rightarrow> stats \<Rightarrow> stats" where
  "count_dec L g =
     (let cyc = cycles L; n = tk g; t = cyc n; tot = total_dec_cycles g + (cyc (n + 1) - t)
      in if dec_calls g = 200
         then g\<lparr>total_dec_cycles := 0, dec_calls := 0, start_dec_cycles := cyc (n + 3), tk := n + 4\<rparr>
         else g\<lparr>total_dec_cycles := tot, dec_calls := dec_calls g + 1, tk := n + 2\<rparr>)"

section \<open>Encoding\<close>

text \<open>A frame of Asterisk: \<open>datalen\<close> bytes of \<open>data\<close>, said to be \<open>samples\<close> samples.\<close>

definition lintospeex_framein :: "u8 list \<Rightarrow> nat \<Rightarrow> nat \<Rightarrow> ('e, 'p, 'b) encoder \<Rightarrow> ('e, 'p, 'b) encoder option" where
  "lintospeex_framein data len n st =
     (if length data < len \<or> 2 * BUFFER_SAMPLES < 2 * samples st + len then None
      else Some (st\<lparr>buf := blit (buf st) (2 * samples st) (take len data), samples := samples st + n\<rparr>))"

text \<open>One round of the loop in \<open>lintospeex_frameout\<close>; \<open>is_speech\<close> keeps its value from the round before unless the
  preprocessor sets it.\<close>

definition code_frame ::
    "('e, 'p, 'd, 'b) speex_lib \<Rightarrow> config \<Rightarrow> nat \<Rightarrow> bool \<Rightarrow> ('e, 'p, 'b) encoder \<Rightarrow> stats \<Rightarrow> (bool \<times> ('e, 'p, 'b) encoder \<times> stats) option" where
  "code_frame L k n is_speech st g =
     (let off = 2 * n; len = 2 * framesize st
      in if length (buf st) < off + len then None
         else do {
           (is_speech, st) \<leftarrow>
             (if preproc k \<noteq> 0
              then (case pp st of
                      None \<Rightarrow> None
                    | Some p \<Rightarrow> let (r, p, blk) = preprocess L p (take len (drop off (buf st)))
                               in Some (r, st\<lparr>pp := Some p, buf := blit (buf st) off blk\<rparr>))
              else Some (is_speech, st));
           Some (if is_speech
                 then let (r, e, blk, b) = encode_int L (enc st) (take len (drop off (buf st))) (ebits st)
                      in (r \<or> dtx k = 0, st\<lparr>enc := e, ebits := b, buf := blit (buf st) off blk\<rparr>, count_enc L g)
                 else (is_speech, st\<lparr>ebits := bits_pack L 0 5 (ebits st)\<rparr>, g))
         })"

function code_loop ::
    "('e, 'p, 'd, 'b) speex_lib \<Rightarrow> config \<Rightarrow> nat \<Rightarrow> bool \<Rightarrow> ('e, 'p, 'b) encoder \<Rightarrow> stats \<Rightarrow> (nat \<times> bool \<times> ('e, 'p, 'b) encoder \<times> stats) option" where
  "code_loop L k n is_speech st g =
     (if framesize st \<le> samples st
      then if framesize st = 0 then None
           else (case code_frame L k n is_speech st g of
                   None \<Rightarrow> None
                 | Some (is_speech, st', g) \<Rightarrow>
                     code_loop L k (n + framesize st) is_speech (st'\<lparr>samples := samples st - framesize st\<rparr>) g)
      else Some (n, is_speech, st, g))"
  by pat_completeness auto

termination code_loop
  by (relation "measure (\<lambda>(L, k, n, sp, st, g). samples st)") auto

declare code_loop.simps [simp del]

text \<open>What is handed to Asterisk: nothing, or \<open>ast_trans_frameout\<close> with the bytes in \<open>outbuf\<close> and the number of samples, the
  frame marked as comfort noise or not.\<close>

datatype out = No_frame | Packet bool "u8 list" nat

definition lintospeex_frameout ::
    "('e, 'p, 'd, 'b) speex_lib \<Rightarrow> config \<Rightarrow> ('e, 'p, 'b) encoder \<Rightarrow> stats \<Rightarrow> (('e, 'p, 'b) encoder \<times> stats \<times> out) option" where
  "lintospeex_frameout L k st g =
     (if samples st < framesize st then Some (st, g, No_frame)
      else do {
        (n, is_speech, st, g) \<leftarrow> code_loop L k 0 True (st\<lparr>ebits := bits_reset L (ebits st)\<rparr>) g;
        let st = (if samples st \<noteq> 0 then st\<lparr>buf := blit (buf st) 0 (take (2 * samples st) (drop (2 * n) (buf st)))\<rparr> else st);
        if is_speech
        then Some (st\<lparr>silent_state := False\<rparr>, g, Packet False (bits_write L (2 * BUFFER_SAMPLES) (ebits st)) n)
        else if silent_state st then Some (st, g, No_frame)
        else let st = st\<lparr>silent_state := True, ebits := bits_reset L (ebits st)\<rparr>
             in Some (st, g, Packet True (bits_write L (2 * BUFFER_SAMPLES) (ebits st)) n)
      })"

section \<open>Decoding\<close>

text \<open>\<open>fout\<close> has room for 1024 samples; the library writes a frame.\<close>

definition FOUT_SAMPLES :: nat where "FOUT_SAMPLES = 1024"

function decode_loop ::
    "('e, 'p, 'd, 'b) speex_lib \<Rightarrow> ('d, 'b) decoder \<Rightarrow> stats \<Rightarrow> (int \<times> ('d, 'b) decoder \<times> stats) option" where
  "decode_loop L st g =
     (if FOUT_SAMPLES < dframesize st then None
      else
        let (res, d, b, pcm) = decode_int L (dec_state st) (dbits st);
            g = count_dec L g;
            st' = st\<lparr>dec_state := d, dbits := b\<rparr>
        in if res < 0 then Some (0, st', g)
           else if BUFFER_SAMPLES < dsamples st + dframesize st then Some (-1, st', g)
           else if dframesize st = 0 then None
           else decode_loop L
                  (st'\<lparr>outbuf := blit (outbuf st) (2 * dsamples st) (take (2 * dframesize st) pcm), dsamples := dsamples st + dframesize st,
                       datalen := datalen st + 2 * dframesize st\<rparr>) g)"
  by pat_completeness auto

termination decode_loop
  by (relation "measure (\<lambda>(L, st, g). BUFFER_SAMPLES - dsamples st)") (auto simp: BUFFER_SAMPLES_def)

declare decode_loop.simps [simp del]

definition speextolin_framein ::
    "('e, 'p, 'd, 'b) speex_lib \<Rightarrow> u8 list \<Rightarrow> ('d, 'b) decoder \<Rightarrow> stats \<Rightarrow> (int \<times> ('d, 'b) decoder \<times> stats) option" where
  "speextolin_framein L data st g =
     (if data = []
      then if BUFFER_SAMPLES < dsamples st + dframesize st then Some (-1, st, g)
           else let (d, pcm) = decode_lost L (dec_state st)
                in Some (0, st\<lparr>dec_state := d, outbuf := blit (outbuf st) (2 * dsamples st) (take (2 * dframesize st) pcm),
                               dsamples := dsamples st + dframesize st\<rparr>, g)
      else decode_loop L (st\<lparr>dbits := bits_read_from L data (dbits st)\<rparr>) g)"

section \<open>Loading\<close>

datatype tr = Speextolin | Lintospeex

datatype tr_event = Register tr | Unregister tr

definition load_module :: "readers \<Rightarrow> (string \<times> string) list option \<Rightarrow> (tr \<Rightarrow> int) \<Rightarrow> config \<Rightarrow> config \<times> tr_event list \<times> int" where
  "load_module R cfg reg k =
     (let k = parse_config R cfg k; res = reg Speextolin
      in if res = 0 then (k, [Register Speextolin, Register Lintospeex], reg Lintospeex)
         else (k, [Register Speextolin, Unregister Speextolin], res))"

definition reload :: "readers \<Rightarrow> (string \<times> string) list option \<Rightarrow> config \<Rightarrow> config \<times> int" where
  "reload R cfg k = (parse_config R cfg k, 0)"

definition unload_module :: "(tr \<Rightarrow> int) \<Rightarrow> tr_event list \<times> int" where
  "unload_module unreg =
     ([Unregister Lintospeex, Unregister Speextolin], unreg Lintospeex OR unreg Speextolin)"

text \<open>The objects given back; the preprocessor is freed if the configuration asks for one now.\<close>

datatype freed = Free_pp | Free_encoder | Free_decoder | Free_bits

definition lintospeex_destroy :: "config \<Rightarrow> ('e, 'p, 'b) encoder \<Rightarrow> freed list option" where
  "lintospeex_destroy k st =
     (if preproc k \<noteq> 0 then (if pp st = None then None else Some [Free_pp, Free_encoder, Free_bits]) else Some [Free_encoder, Free_bits])"

definition speextolin_destroy :: "('d, 'b) decoder \<Rightarrow> freed list" where
  "speextolin_destroy st = [Free_decoder, Free_bits]"

section \<open>The encoder, abstractly\<close>

text \<open>Preprocessor and encoder work in place on a block of the samples it was given.\<close>

definition lib_ok :: "('e, 'p, 'd, 'b) speex_lib \<Rightarrow> bool" where
  "lib_ok L \<longleftrightarrow>
     (\<forall>p xs. length (snd (snd (preprocess L p xs))) = length xs) \<and> (\<forall>e xs b. length (fst (snd (snd (encode_int L e xs b)))) = length xs)"

text \<open>A block in the middle of a packet.\<close>

definition pp_step :: "('e, 'p, 'd, 'b) speex_lib \<Rightarrow> config \<Rightarrow> bool \<times> 'p option \<Rightarrow> u8 list \<Rightarrow> bool \<times> 'p option \<times> u8 list" where
  "pp_step L k = (\<lambda>(sp, p) blk.
     if preproc k \<noteq> 0 then (case p of None \<Rightarrow> (sp, p, blk) | Some q \<Rightarrow> let (r, q, blk) = preprocess L q blk in (r, Some q, blk)) else (sp, p, blk))"

definition spx_step ::
    "('e, 'p, 'd, 'b) speex_lib \<Rightarrow> config \<Rightarrow> bool \<times> 'e \<times> 'p option \<times> 'b \<Rightarrow> u8 list \<Rightarrow> (bool \<times> 'e \<times> 'p option \<times> 'b) \<times> unit list" where
  "spx_step L k = (\<lambda>(sp, e, p, b) blk.
     let (sp, p, blk) = pp_step L k (sp, p) blk
     in (if sp then let (r, e, _, b) = encode_int L e blk b in (r \<or> dtx k = 0, e, p, b) else (sp, e, p, bits_pack L 0 5 b), []))"

definition pending :: "('e, 'p, 'b) encoder \<Rightarrow> u8 list" where
  "pending st = take (2 * samples st) (buf st)"

definition enc_ok :: "config \<Rightarrow> ('e, 'p, 'b) encoder \<Rightarrow> bool" where
  "enc_ok k st \<longleftrightarrow> length (buf st) = 2 * BUFFER_SAMPLES \<and> 0 < framesize st \<and> samples st \<le> BUFFER_SAMPLES \<and> (preproc k \<noteq> 0 \<longrightarrow> pp st \<noteq> None)"

definition view :: "('e, 'p, 'b) encoder \<Rightarrow> 'e \<times> 'p option \<times> 'b" where
  "view st = (enc st, pp st, ebits st)"

definition frame_part :: "nat \<Rightarrow> ('e, 'p, 'b) encoder \<Rightarrow> u8 list" where
  "frame_part n st = take (2 * framesize st) (drop (2 * n) (buf st))"

text \<open>What one frame leaves alone: the sizes, and the samples behind it.\<close>

definition keeps :: "nat \<Rightarrow> config \<Rightarrow> ('e, 'p, 'b) encoder \<Rightarrow> ('e, 'p, 'b) encoder \<Rightarrow> bool" where
  "keeps n k st st' \<longleftrightarrow> length (buf st') = length (buf st) \<and>
     drop (2 * n + 2 * framesize st) (buf st') = drop (2 * n + 2 * framesize st) (buf st) \<and>
     framesize st' = framesize st \<and> silent_state st' = silent_state st \<and> samples st' = samples st \<and> (preproc k \<noteq> 0 \<longrightarrow> pp st' \<noteq> None)"

lemma keeps_blit:
  assumes "2 * n + 2 * framesize st \<le> length (buf st)" "length blk = 2 * framesize st"
  shows "length (blit (buf st) (2 * n) blk) = length (buf st)"
    "drop (2 * n + 2 * framesize st) (blit (buf st) (2 * n) blk) = drop (2 * n + 2 * framesize st) (buf st)"
    "take (2 * framesize st) (drop (2 * n) (blit (buf st) (2 * n) blk)) = blk"
  using length_blit[of "2 * n" blk "buf st"] drop_blit[of "2 * n" blk "buf st"] sub_blit[of "2 * n" "buf st" blk] assms by simp_all

lemma pp_part:
  assumes "lib_ok L" "2 * n + 2 * framesize st \<le> length (buf st)" "preproc k \<noteq> 0 \<longrightarrow> pp st \<noteq> None"
  shows "\<exists>sp' st'. (if preproc k \<noteq> 0
      then (case pp st of
              None \<Rightarrow> None
            | Some p \<Rightarrow> let (r, p, blk) = preprocess L p (take (2 * framesize st) (drop (2 * n) (buf st)))
                       in Some (r, st\<lparr>pp := Some p, buf := blit (buf st) (2 * n) blk\<rparr>))
      else Some (sp, st)) = Some (sp', st') \<and>
    pp_step L k (sp, pp st) (frame_part n st) = (sp', pp st', frame_part n st') \<and> keeps n k st st' \<and> enc st' = enc st \<and> ebits st' = ebits st"
proof (cases "preproc k \<noteq> 0")
  case True
  then obtain p where p: "pp st = Some p" using assms(3) by blast
  obtain r p' blk where b: "preprocess L p (frame_part n st) = (r, p', blk)" by (metis prod_cases3)
  have "length (frame_part n st) = 2 * framesize st" using assms(2) by (simp add: frame_part_def)
  then have l: "length blk = 2 * framesize st" using assms(1) b unfolding lib_ok_def by (metis snd_conv)
  show ?thesis using True p b keeps_blit[OF assms(2) l]
    by (simp add: pp_step_def keeps_def frame_part_def)
next
  case False
  then show ?thesis by (simp add: pp_step_def keeps_def)
qed

lemma code_frame_step:
  assumes "lib_ok L" "2 * n + 2 * framesize st \<le> length (buf st)" "preproc k \<noteq> 0 \<longrightarrow> pp st \<noteq> None"
  shows "\<exists>sp' st' g'. code_frame L k n sp st g = Some (sp', st', g') \<and>
    (sp', view st') = fst (spx_step L k (sp, view st) (frame_part n st)) \<and> keeps n k st st'"
proof -
  obtain sp1 st1 where 1: "(if preproc k \<noteq> 0
      then (case pp st of
              None \<Rightarrow> None
            | Some p \<Rightarrow> let (r, p, blk) = preprocess L p (take (2 * framesize st) (drop (2 * n) (buf st)))
                       in Some (r, st\<lparr>pp := Some p, buf := blit (buf st) (2 * n) blk\<rparr>))
      else Some (sp, st)) = Some (sp1, st1)"
    "pp_step L k (sp, pp st) (frame_part n st) = (sp1, pp st1, frame_part n st1)" "keeps n k st st1" "enc st1 = enc st" "ebits st1 = ebits st"
    using pp_part[OF assms, of sp] by blast
  have s: "framesize st1 = framesize st" "length (buf st1) = length (buf st)" using 1(3) by (simp_all add: keeps_def)
  obtain r e blk b where c: "encode_int L (enc st1) (frame_part n st1) (ebits st1) = (r, e, blk, b)" by (metis prod_cases4)
  have "length (frame_part n st1) = 2 * framesize st1" using assms(2) s by (simp add: frame_part_def)
  then have l: "length blk = 2 * framesize st1" using assms(1) c unfolding lib_ok_def by (metis fst_conv snd_conv)
  have a: "2 * n + 2 * framesize st1 \<le> length (buf st1)" using assms(2) s by simp
  note kb = keeps_blit[OF a l]
  have f: "code_frame L k n sp st g = Some (if sp1
       then let (r, e, blk, b) = encode_int L (enc st1) (take (2 * framesize st) (drop (2 * n) (buf st1))) (ebits st1)
            in (r \<or> dtx k = 0, st1\<lparr>enc := e, ebits := b, buf := blit (buf st1) (2 * n) blk\<rparr>, count_enc L g)
       else (sp1, st1\<lparr>ebits := bits_pack L 0 5 (ebits st1)\<rparr>, g))"
    unfolding code_frame_def Let_def[of "2 * n"] Let_def[of "2 * framesize st"] 1(1) using assms(2) by simp
  show ?thesis
  proof (cases sp1)
    case True
    then show ?thesis using 1(2-5) c kb s
      by (simp add: f spx_step_def view_def keeps_def flip: frame_part_def[of n st1, unfolded s])
  next
    case False
    then show ?thesis using 1(2-5) by (intro exI[of _ False]) (simp add: f spx_step_def view_def keeps_def)
  qed
qed

lemma spx_step_out: "snd (spx_step L k s blk) = []"
  by (simp add: spx_step_def split_beta Let_def)

text \<open>The loop codes the whole blocks of what is buffered.\<close>

lemma code_loop_blocks:
  assumes "lib_ok L" "0 < framesize st" "2 * n + 2 * samples st \<le> length (buf st)" "preproc k \<noteq> 0 \<longrightarrow> pp st \<noteq> None"
    and "xs = take (2 * samples st) (drop (2 * n) (buf st))"
  shows "\<exists>sp' st' g'. code_loop L k n sp st g = Some (n + framesize st * (samples st div framesize st), sp', st', g') \<and>
    (sp', view st') = fst (blocks (2 * framesize st) (spx_step L k) (sp, view st) xs) \<and> length (buf st') = length (buf st) \<and>
    take (2 * samples st') (drop (2 * (n + framesize st * (samples st div framesize st))) (buf st')) = left_over (2 * framesize st) xs \<and>
    framesize st' = framesize st \<and> silent_state st' = silent_state st \<and> samples st' = samples st mod framesize st \<and> (preproc k \<noteq> 0 \<longrightarrow> pp st' \<noteq> None)"
  using assms
proof (induction "samples st" arbitrary: n sp st g xs rule: less_induct)
  case less
  let ?f = "framesize st"
  have len: "length xs = 2 * samples st" using less.prems(3,5) by simp
  show ?case
  proof (cases "samples st < ?f")
    case True
    then show ?thesis using less.prems(4,5) len by (subst code_loop.simps) (simp add: blocks_short left_over_short)
  next
    case False
    have a: "2 * n + 2 * ?f \<le> length (buf st)" using less.prems(3) False by simp
    obtain sp1 st1 g1 where 1: "code_frame L k n sp st g = Some (sp1, st1, g1)"
      "(sp1, view st1) = fst (spx_step L k (sp, view st) (frame_part n st))" "keeps n k st st1"
      using code_frame_step[OF less.prems(1) a less.prems(4), of sp g] by blast
    define st2 where "st2 = st1\<lparr>samples := samples st - ?f\<rparr>"
    have run: "code_loop L k n sp st g = code_loop L k (n + ?f) sp1 st2 g1"
      using False less.prems(2) 1(1) by (subst code_loop.simps) (simp add: st2_def)
    have s2: "framesize st2 = ?f" "silent_state st2 = silent_state st" "samples st2 = samples st - ?f" "view st2 = view st1" "preproc k \<noteq> 0 \<longrightarrow> pp st2 \<noteq> None"
      "length (buf st2) = length (buf st)" "drop (2 * (n + ?f)) (buf st2) = drop (2 * (n + ?f)) (buf st)"
      using 1(3) by (auto simp: keeps_def st2_def view_def algebra_simps)
    let ?ys = "take (2 * samples st2) (drop (2 * (n + framesize st)) (buf st2))"
    have ys: "?ys = drop (2 * ?f) xs" unfolding s2(3,7) less.prems(5) by (simp add: drop_take algebra_simps)
    have tk: "take (2 * ?f) xs = frame_part n st" using False unfolding less.prems(5) by (simp add: frame_part_def min_def)
    have "spx_step L k (sp, view st) (take (2 * ?f) xs) = ((sp1, view st1), [])"
      unfolding tk using 1(2) spx_step_out[of L k "(sp, view st)" "frame_part n st"] by (simp add: prod_eq_iff)
    from blocks_step[of "2 * ?f" xs "spx_step L k" "(sp, view st)", OF _ _ this] have bl: "fst (blocks (2 * ?f) (spx_step L k) (sp, view st) xs) = fst (blocks (2 * ?f) (spx_step L k) (sp1, view st2) ?ys)"
      using less.prems(2) len False unfolding ys s2(4) by simp
    have lo: "left_over (2 * ?f) ?ys = left_over (2 * ?f) xs" unfolding ys using less.prems(2) len False by (intro left_over_step) auto
    have d: "samples st div ?f = Suc (samples st2 div ?f)" "samples st mod ?f = samples st2 mod ?f"
      unfolding s2(3) using False less.prems(2) by (simp_all add: le_div_geq le_mod_geq)
    have p: "samples st2 < samples st" "0 < framesize st2" "2 * (n + ?f) + 2 * samples st2 \<le> length (buf st2)"
      using False less.prems(2,3) by (simp_all add: s2)
    from less.hyps[OF p(1) less.prems(1) p(2,3) s2(5) refl, of sp1 g1] show ?thesis
      unfolding run bl lo[symmetric] d s2(1,2,6) by (simp add: add.assoc)
  qed
qed

section \<open>Packets\<close>

text \<open>The specification: what the encoder holds is the states of the library, whether silence has been announced, and the samples
  that did not fill a block.  A chunk of audio gives at most one packet.\<close>

type_synonym ('e, 'p, 'b) espec = "('e \<times> 'p option \<times> 'b) \<times> bool \<times> u8 list"

definition spec_feed :: "('e, 'p, 'd, 'b) speex_lib \<Rightarrow> config \<Rightarrow> nat \<Rightarrow> ('e, 'p, 'b) espec \<Rightarrow> u8 list \<Rightarrow> ('e, 'p, 'b) espec \<times> out" where
  "spec_feed L k fs = (\<lambda>((e, p, b), silent, pend) c.
     let xs = pend @ c
     in if length xs < 2 * fs then (((e, p, b), silent, xs), No_frame)
        else let (sp, e, p, b) = fst (blocks (2 * fs) (spx_step L k) (True, e, p, bits_reset L b) xs);
                 n = fs * (length xs div (2 * fs)); rest = left_over (2 * fs) xs
             in if sp then (((e, p, b), False, rest), Packet False (bits_write L (2 * BUFFER_SAMPLES) b) n)
                else if silent then (((e, p, b), True, rest), No_frame)
                else (((e, p, bits_reset L b), True, rest), Packet True (bits_write L (2 * BUFFER_SAMPLES) (bits_reset L b)) n))"

definition abs_enc :: "('e, 'p, 'b) encoder \<Rightarrow> ('e, 'p, 'b) espec" where
  "abs_enc st = (view st, silent_state st, pending st)"

text \<open>Asterisk's use of the translator: a frame of whole samples goes in, then the result is fetched.\<close>

definition feed_enc ::
    "('e, 'p, 'd, 'b) speex_lib \<Rightarrow> config \<Rightarrow> ('e, 'p, 'b) encoder \<times> stats \<Rightarrow> u8 list \<Rightarrow> (('e, 'p, 'b) encoder \<times> stats \<times> out) option" where
  "feed_enc L k = (\<lambda>(st, g) c. do { st \<leftarrow> lintospeex_framein c (length c) (length c div 2) st; lintospeex_frameout L k st g })"

lemma framein_pending:
  assumes "length (buf st) = 2 * BUFFER_SAMPLES" "samples st \<le> BUFFER_SAMPLES" "even (length c)" "2 * samples st + length c \<le> 2 * BUFFER_SAMPLES"
  shows "\<exists>st'. lintospeex_framein c (length c) (length c div 2) st = Some st' \<and> pending st' = pending st @ c \<and> view st' = view st \<and> pp st' = pp st \<and>
    silent_state st' = silent_state st \<and> framesize st' = framesize st \<and> length (buf st') = length (buf st) \<and> samples st' = samples st + length c div 2 \<and>
    ebits st' = ebits st"
proof -
  have "2 * (length c div 2) = length c" using assms(3) by simp
  then have e: "2 * (samples st + length c div 2) = 2 * samples st + length c" by simp
  show ?thesis using assms length_blit[of "2 * samples st" c "buf st"] take_blit[of "2 * samples st" "buf st" c]
    by (simp add: lintospeex_framein_def pending_def view_def e del: distrib_left_numeral)
qed

lemma frameout_spec:
  assumes "lib_ok L" "enc_ok k st"
  shows "\<exists>st' g' r. lintospeex_frameout L k st g = Some (st', g', r) \<and> spec_feed L k (framesize st) (abs_enc st) [] = (abs_enc st', r) \<and>
    enc_ok k st' \<and> framesize st' = framesize st \<and> samples st' < framesize st"
proof -
  have ok: "length (buf st) = 2 * BUFFER_SAMPLES" "0 < framesize st" "samples st \<le> BUFFER_SAMPLES" "preproc k \<noteq> 0 \<longrightarrow> pp st \<noteq> None"
    using assms(2) by (simp_all add: enc_ok_def)
  have pl: "length (pending st) = 2 * samples st" using ok by (simp add: pending_def)
  show ?thesis
  proof (cases "samples st < framesize st")
    case True
    then show ?thesis using assms(2) pl by (simp add: lintospeex_frameout_def spec_feed_def abs_enc_def view_def)
  next
    case False
    let ?st = "st\<lparr>ebits := bits_reset L (ebits st)\<rparr>" and ?f = "framesize st"
    let ?n = "?f * (samples st div ?f)"
    have c: "2 * 0 + 2 * samples ?st \<le> length (buf ?st)" "0 < framesize ?st" "preproc k \<noteq> 0 \<longrightarrow> pp ?st \<noteq> None" using ok by simp_all
    have x: "pending st = take (2 * samples ?st) (drop (2 * 0) (buf ?st))" by (simp add: pending_def)
    obtain sp st1 g1 where 1: "code_loop L k 0 True ?st g = Some (?n, sp, st1, g1)"
      "(sp, view st1) = fst (blocks (2 * ?f) (spx_step L k) (True, view ?st) (pending st))" "length (buf st1) = length (buf st)"
      "take (2 * samples st1) (drop (2 * ?n) (buf st1)) = left_over (2 * ?f) (pending st)"
      "framesize st1 = ?f" "silent_state st1 = silent_state st" "samples st1 = samples st mod ?f" "preproc k \<noteq> 0 \<longrightarrow> pp st1 \<noteq> None"
      using code_loop_blocks[OF assms(1) c(2,1,3) x, of True g] by auto
    define st2 where "st2 = (if samples st1 \<noteq> 0 then st1\<lparr>buf := blit (buf st1) 0 (take (2 * samples st1) (drop (2 * ?n) (buf st1)))\<rparr> else st1)"
    have lo: "length (left_over (2 * ?f) (pending st)) = 2 * samples st1" using ok(2) by (simp add: length_left_over pl 1(7) flip: mult_mod_right)
    have s1: "2 * samples st1 \<le> length (buf st1)" using ok 1(3,7) mod_less_eq_dividend[of "samples st" ?f] by linarith
    have 2: "pending st2 = left_over (2 * ?f) (pending st)" "view st2 = view st1" "length (buf st2) = length (buf st)" "framesize st2 = ?f"
      "silent_state st2 = silent_state st" "samples st2 = samples st mod ?f" "preproc k \<noteq> 0 \<longrightarrow> pp st2 \<noteq> None" "ebits st2 = ebits st1"
      using take_blit[of 0 "buf st1" "left_over (2 * ?f) (pending st)"] length_blit[of 0 "left_over (2 * ?f) (pending st)" "buf st1"] lo s1 1(3-8)
      by (auto simp: st2_def pending_def view_def)
    have m: "samples st mod ?f < ?f" "samples st mod ?f \<le> BUFFER_SAMPLES" using ok(2) le_trans[OF mod_less_eq_dividend ok(3)] by simp_all
    obtain e p b where v: "view st1 = (e, p, b)" by (cases "view st1")
    then have v2: "enc st2 = e" "pp st2 = p" "ebits st2 = b" using 2(2) by (simp_all add: view_def)
    have n: "length (pending st) div (2 * ?f) = samples st div ?f" by (simp add: pl)
    let ?w = "\<lambda>b. bits_write L (2 * BUFFER_SAMPLES) b"
    have fo: "lintospeex_frameout L k st g =
        (if sp then Some (st2\<lparr>silent_state := False\<rparr>, g1, Packet False (?w b) ?n)
         else if silent_state st then Some (st2, g1, No_frame)
         else Some (st2\<lparr>silent_state := True, ebits := bits_reset L b\<rparr>, g1, Packet True (?w (bits_reset L b)) ?n))"
      using False by (simp only: lintospeex_frameout_def 1(1) if_False bind.simps prod.case Let_def flip: st2_def) (simp add: v2 2(5))
    have "view ?st = (enc st, pp st, bits_reset L (ebits st))" by (simp add: view_def)
    then have bl: "fst (blocks (2 * ?f) (spx_step L k) (True, enc st, pp st, bits_reset L (ebits st)) (pending st)) = (sp, e, p, b)" using 1(2) v by simp
    have "spec_feed L k ?f (abs_enc st) [] =
        (if sp then (((e, p, b), False, pending st2), Packet False (?w b) ?n)
         else if silent_state st then (((e, p, b), True, pending st2), No_frame)
         else (((e, p, bits_reset L b), True, pending st2), Packet True (?w (bits_reset L b)) ?n))"
      using False pl n by (simp add: spec_feed_def abs_enc_def view_def 2(1) bl Let_def)
    then show ?thesis unfolding fo using m 2(3-7) v2 ok
      by (cases sp; cases "silent_state st") (simp_all add: abs_enc_def view_def enc_ok_def pending_def)
  qed
qed

lemma spec_feed_append: "spec_feed L k fs (v, s, pend) c = spec_feed L k fs (v, s, pend @ c) []"
  by (cases v) (simp add: spec_feed_def)

lemma feed_step:
  assumes "lib_ok L" "enc_ok k st" "samples st < framesize st" "even (length c)" "length c + 2 * framesize st \<le> 2 * BUFFER_SAMPLES + 2"
  shows "\<exists>st' g' r. feed_enc L k (st, g) c = Some (st', g', r) \<and> spec_feed L k (framesize st) (abs_enc st) c = (abs_enc st', r) \<and>
    enc_ok k st' \<and> framesize st' = framesize st \<and> samples st' < framesize st"
proof -
  have ok: "length (buf st) = 2 * BUFFER_SAMPLES" "0 < framesize st" "samples st \<le> BUFFER_SAMPLES" "preproc k \<noteq> 0 \<longrightarrow> pp st \<noteq> None"
    using assms(2) by (simp_all add: enc_ok_def)
  have b: "2 * samples st + length c \<le> 2 * BUFFER_SAMPLES" using assms(3,5) by linarith
  obtain st1 where 1: "lintospeex_framein c (length c) (length c div 2) st = Some st1" "pending st1 = pending st @ c" "view st1 = view st" "pp st1 = pp st"
    "silent_state st1 = silent_state st" "framesize st1 = framesize st" "length (buf st1) = length (buf st)" "samples st1 = samples st + length c div 2"
    using framein_pending[OF ok(1,3) assms(4) b] by blast
  have "samples st1 \<le> BUFFER_SAMPLES" unfolding 1(8) using b by linarith
  then have o1: "enc_ok k st1" using ok 1(4,6,7) by (simp add: enc_ok_def)
  have s: "spec_feed L k (framesize st) (abs_enc st) c = spec_feed L k (framesize st1) (abs_enc st1) []"
    using spec_feed_append[of L k "framesize st" "view st" "silent_state st" "pending st" c] 1(2,3,5,6) by (simp add: abs_enc_def)
  have f: "feed_enc L k (st, g) c = lintospeex_frameout L k st1 g" using 1(1) by (simp add: feed_enc_def)
  show ?thesis unfolding f s using frameout_spec[OF assms(1) o1, of g] unfolding 1(6) .
qed

fun feeds :: "('s \<Rightarrow> u8 list \<Rightarrow> ('s \<times> out) option) \<Rightarrow> 's \<Rightarrow> u8 list list \<Rightarrow> ('s \<times> out list) option" where
  "feeds f s [] = Some (s, [])"
| "feeds f s (c # cs) = do { (s, r) \<leftarrow> f s c; (s, rs) \<leftarrow> feeds f s cs; Some (s, r # rs) }"

definition encode_feed :: "('e, 'p, 'd, 'b) speex_lib \<Rightarrow> config \<Rightarrow> ('e, 'p, 'b) encoder \<times> stats \<Rightarrow> u8 list \<Rightarrow> ((('e, 'p, 'b) encoder \<times> stats) \<times> out) option" where
  "encode_feed L k s c = map_option (\<lambda>(st, g, r). ((st, g), r)) (feed_enc L k s c)"

lemma feeds_spec:
  assumes "lib_ok L" "enc_ok k st" "samples st < framesize st" "\<forall>c\<in>set cs. even (length c) \<and> length c + 2 * framesize st \<le> 2 * BUFFER_SAMPLES + 2"
  shows "\<exists>st' g' rs. feeds (encode_feed L k) (st, g) cs = Some ((st', g'), rs) \<and>
    feeds (\<lambda>s c. Some (spec_feed L k (framesize st) s c)) (abs_enc st) cs = Some (abs_enc st', rs) \<and> samples st' < framesize st"
  using assms
proof (induction cs arbitrary: st g)
  case (Cons c cs)
  obtain st1 g1 r where 1: "feed_enc L k (st, g) c = Some (st1, g1, r)" "spec_feed L k (framesize st) (abs_enc st) c = (abs_enc st1, r)"
    "enc_ok k st1" "framesize st1 = framesize st" "samples st1 < framesize st" using feed_step[OF Cons.prems(1-3), of c g] Cons.prems(4) by auto
  obtain st' g' rs where "feeds (encode_feed L k) (st1, g1) cs = Some ((st', g'), rs)"
    "feeds (\<lambda>s c. Some (spec_feed L k (framesize st) s c)) (abs_enc st1) cs = Some (abs_enc st', rs)" "samples st' < framesize st"
    using Cons.IH[OF Cons.prems(1) 1(3), of g1] 1(4,5) Cons.prems(4) by auto
  moreover have "encode_feed L k (st, g) c = Some ((st1, g1), r)" using 1(1) by (simp add: encode_feed_def)
  ultimately show ?case using 1(2) by simp
qed simp

text \<open>Discontinuous transmission without preprocessing: the packet as a whole counts as speech only if every block did.\<close>

definition result_step :: "('e, 'p, 'd, 'b) speex_lib \<Rightarrow> 'e \<times> 'b \<Rightarrow> u8 list \<Rightarrow> ('e \<times> 'b) \<times> bool list" where
  "result_step L = (\<lambda>(e, b) blk. let (r, e, _, b) = encode_int L e blk b in ((e, b), [r]))"

lemma silent_stays:
  assumes "preproc k = 0"
  shows "fst (fst (blocks n (spx_step L k) (False, v) xs)) = False"
proof (induction n "spx_step L k" "(False, v)" xs arbitrary: v rule: blocks.induct)
  case (1 n xs)
  obtain e p b where v: "v = (e, p, b)" by (cases v)
  show ?case
  proof (cases "n = 0 \<or> length xs < n")
    case False
    have s: "spx_step L k (False, v) (take n xs) = ((False, e, p, bits_pack L 0 5 b), [])" using assms by (simp add: v spx_step_def pp_step_def)
    show ?thesis using 1[OF False s[symmetric]] False s by (subst blocks.simps) (simp add: split_beta)
  qed (simp add: blocks.simps)
qed

lemma dtx_all_speech:
  assumes "preproc k = 0" "dtx k \<noteq> 0" "0 < n"
  shows "fst (fst (blocks n (spx_step L k) (True, e, p, b) xs)) \<longleftrightarrow> list_all id (snd (blocks n (result_step L) (e, b) xs))"
proof (induction "length xs" arbitrary: e b xs rule: less_induct)
  case less
  show ?case
  proof (cases "length xs < n")
    case False
    obtain r e1 blk b1 where c: "encode_int L e (take n xs) b = (r, e1, blk, b1)" by (metis prod_cases4)
    have s: "spx_step L k (True, e, p, b) (take n xs) = ((r, e1, p, b1), [])" using assms c by (simp add: spx_step_def pp_step_def)
    have t: "result_step L (e, b) (take n xs) = ((e1, b1), [r])" using c by (simp add: result_step_def)
    note st = blocks_step[of n xs "spx_step L k" "(True, e, p, b)", OF _ _ s] blocks_step[of n xs "result_step L" "(e, b)", OF _ _ t]
    show ?thesis
    proof (cases r)
      case True
      then show ?thesis using False assms(3) st less[of "drop n xs" e1 b1] by simp
    next
      case r: False
      then show ?thesis using False assms(3) st silent_stays[OF assms(1)] by simp
    qed
  qed (simp add: blocks_short)
qed

section \<open>The decoder, abstractly\<close>

text \<open>The frames that the library finds in a bit stream until it reports the end.\<close>

inductive decodes :: "('e, 'p, 'd, 'b) speex_lib \<Rightarrow> 'd \<times> 'b \<Rightarrow> u8 list list \<Rightarrow> 'd \<times> 'b \<Rightarrow> bool" for L where
  stop: "decode_int L d b = (res, d', b', pcm) \<Longrightarrow> res < 0 \<Longrightarrow> decodes L (d, b) [] (d', b')"
| more: "decode_int L d b = (res, d1, b1, pcm) \<Longrightarrow> \<not> res < 0 \<Longrightarrow> decodes L (d1, b1) pcms s \<Longrightarrow> decodes L (d, b) (pcm # pcms) s"

definition dec_ok :: "('d, 'b) decoder \<Rightarrow> bool" where
  "dec_ok st \<longleftrightarrow> length (outbuf st) = 2 * BUFFER_SAMPLES \<and> 0 < dframesize st \<and> dframesize st \<le> FOUT_SAMPLES \<and> dsamples st \<le> BUFFER_SAMPLES"

definition decoded :: "('d, 'b) decoder \<Rightarrow> u8 list" where
  "decoded st = take (2 * dsamples st) (outbuf st)"

lemma decode_loop_frames:
  assumes "decodes L s pcms s'" "s = (dec_state st, dbits st)" "dec_ok st" "\<forall>x\<in>set pcms. length x = 2 * dframesize st"
  shows "\<exists>st' g'. decode_loop L st g = Some (if dsamples st + dframesize st * length pcms \<le> BUFFER_SAMPLES then 0 else -1, st', g') \<and> dec_ok st' \<and>
    decoded st' = decoded st @ concat (take ((BUFFER_SAMPLES - dsamples st) div dframesize st) pcms) \<and>
    datalen st' + 2 * dsamples st = datalen st + 2 * dsamples st' \<and>
    (dsamples st + dframesize st * length pcms \<le> BUFFER_SAMPLES \<longrightarrow> (dec_state st', dbits st') = s')"
  using assms
proof (induction arbitrary: st g rule: decodes.induct)
  case (stop d b res d' b' pcm)
  then show ?case by (subst decode_loop.simps) (simp add: dec_ok_def decoded_def Let_def)
next
  case (more d b res d1 b1 pcm pcms s')
  let ?f = "dframesize st" and ?room = "(BUFFER_SAMPLES - dsamples st) div dframesize st"
  have ok: "length (outbuf st) = 2 * BUFFER_SAMPLES" "0 < ?f" "?f \<le> FOUT_SAMPLES" "dsamples st \<le> BUFFER_SAMPLES" using more.prems(2) by (simp_all add: dec_ok_def)
  have db: "decode_int L (dec_state st) (dbits st) = (res, d1, b1, pcm)" using more.hyps(1) more.prems(1) by simp
  show ?case
  proof (cases "BUFFER_SAMPLES < dsamples st + ?f")
    case True
    then have r: "?room = 0" using ok(4) by (simp add: div_eq_0_iff)
    have "decode_loop L st g = Some (-1, st\<lparr>dec_state := d1, dbits := b1\<rparr>, count_dec L g)"
      using True ok(3) db more.hyps(2) by (subst decode_loop.simps) (simp add: Let_def)
    moreover have "\<not> dsamples st + ?f * length (pcm # pcms) \<le> BUFFER_SAMPLES" using True by simp
    ultimately show ?thesis using more.prems(2) r by (simp add: dec_ok_def decoded_def)
  next
    case False
    define st1 where "st1 = st\<lparr>dec_state := d1, dbits := b1, outbuf := blit (outbuf st) (2 * dsamples st) (take (2 * ?f) pcm),
      dsamples := dsamples st + ?f, datalen := datalen st + 2 * ?f\<rparr>"
    have run: "decode_loop L st g = decode_loop L st1 (count_dec L g)"
      using False ok(2,3) db more.hyps(2) by (subst decode_loop.simps) (simp add: Let_def st1_def)
    have p: "length pcm = 2 * ?f" using more.prems(3) by simp
    have o1: "dec_ok st1" using False ok p length_blit[of "2 * dsamples st" pcm "outbuf st"] by (simp add: st1_def dec_ok_def)
    have d1: "decoded st1 = decoded st @ pcm" using False ok p take_blit[of "2 * dsamples st" "outbuf st" pcm] by (simp add: st1_def decoded_def)
    have rm: "?room = Suc ((BUFFER_SAMPLES - dsamples st1) div ?f)"
      using False ok(2) le_div_geq[of ?f "BUFFER_SAMPLES - dsamples st"] by (simp add: st1_def)
    have f1: "dframesize st1 = ?f" "(d1, b1) = (dec_state st1, dbits st1)" "dsamples st1 = dsamples st + ?f" "datalen st1 = datalen st + 2 * ?f" by (simp_all add: st1_def)
    from more.IH[OF f1(2) o1, of "count_dec L g"] more.prems(3) show ?thesis
      unfolding run rm f1(1) d1 f1(3,4) by (auto simp: algebra_simps)
  qed
qed

section \<open>Properties\<close>

lemma new_enc_ok:
  assumes "lintospeex_new L k = Some st" "0 < framesize st"
  shows "enc_ok k st" "samples st < framesize st" "abs_enc st = (view st, False, [])"
  using assms by (auto simp: lintospeex_new_def Let_def enc_ok_def abs_enc_def pending_def split: option.splits)

text \<open>A stand-in for the library: a block is coded as its first byte and counts as speech if that is not 0.\<close>

definition demo_lib :: "(nat, unit, unit, u8 list) speex_lib" where
  "demo_lib = \<lparr>encoder_init = Some 0, encoder_ctl = (\<lambda>_ e. e), encoder_frame_size = (\<lambda>_. 160), preprocess_state_init = (\<lambda>_ _. ()),
     preprocess_ctl = (\<lambda>_ p. p), preprocess = (\<lambda>p xs. (True, p, xs)), encode_int = (\<lambda>e xs b. (hd xs \<noteq> 0, e + 1, xs, b @ [hd xs])),
     decoder_init = Some (), decoder_set_enh = (\<lambda>_ d. d), decoder_frame_size = (\<lambda>_. 160),
     decode_int = (\<lambda>d b. case b of [] \<Rightarrow> (-1, d, [], []) | x # r \<Rightarrow> (0, d, r, replicate 320 x)), decode_lost = (\<lambda>d. (d, replicate 320 0)),
     bits_init = [], bits_reset = (\<lambda>_. []), bits_pack = (\<lambda>_ _ b. b @ [0]), bits_read_from = (\<lambda>xs _. xs), bits_write = take, cycles = of_nat\<rparr>"

definition demo_stats :: stats where
  "demo_stats = \<lparr>total_enc_cycles = 0, total_dec_cycles = 0, enc_calls = 0, dec_calls = 0, start_enc_cycles = 0, start_dec_cycles = 0, tk = 0\<rparr>"

definition demo_encoder :: "(nat, unit, u8 list) encoder" where
  "demo_encoder = \<lparr>enc = 0, ebits = [], framesize = 160, silent_state = False, pp = None, buf = replicate 16000 0, samples = 0\<rparr>"

lemma demo_lib_ok: "lib_ok demo_lib"
  by (simp add: lib_ok_def demo_lib_def)

lemma fold_ignore: "fold (\<lambda>_ x. x) ys z = z"
  by (induction ys) simp_all

lemma demo_new: "dtx k = 0 \<or> dtx k = 1 \<Longrightarrow> preproc k = 0 \<Longrightarrow> lintospeex_new demo_lib k = Some demo_encoder"
  by (simp add: lintospeex_new_def demo_lib_def demo_encoder_def BUFFER_SAMPLES_def fold_ignore)

text \<open>
  C25.  The encoder turns any sequence of chunks of audio into packets as specified, in every configuration: a new encoder, fed
  with chunks of whole samples that leave room for a part of a block, never overruns its buffer, always returns, and
  each chunk gives the packet the specification gives, which codes the whole blocks of the left-over of the chunks before and
  the new chunk, in order, and leaves less than a block.
\<close>

theorem speex_encoder_refines:
  assumes "lib_ok L" and "lintospeex_new L k = Some st" and "0 < framesize st"
    and "\<forall>c\<in>set cs. even (length c) \<and> length c + 2 * framesize st \<le> 2 * BUFFER_SAMPLES + 2"
  shows "\<exists>st' g' rs. feeds (encode_feed L k) (st, g) cs = Some ((st', g'), rs) \<and>
    feeds (\<lambda>s c. Some (spec_feed L k (framesize st) s c)) (view st, False, []) cs = Some (abs_enc st', rs) \<and> samples st' < framesize st"
  using feeds_spec[OF assms(1) new_enc_ok(1,2)[OF assms(2,3)] assms(4), of g] unfolding new_enc_ok(3)[OF assms(2,3)] .

theorem speex_encoder_refines_witness:
  "\<exists>s. feeds (encode_feed demo_lib default_config) (demo_encoder, demo_stats) [replicate 200 5, replicate 200 7] = Some (s, [No_frame, Packet False [5] 160])"
proof -
  have n: "lintospeex_new demo_lib default_config = Some demo_encoder" by (rule demo_new) (simp_all add: default_config_def)
  have b: "fst (blocks 320 (spx_step demo_lib default_config) (True, 0, None, []) (replicate 200 5 @ replicate 200 7)) = (True, 1, None, [5])"
    by (subst blocks.simps) (simp add: blocks_short spx_step_def pp_step_def default_config_def demo_lib_def)
  have r: "bits_reset demo_lib [] = []" "bits_write demo_lib 16000 [5] = [5]" by (simp_all add: demo_lib_def)
  have "\<exists>a. feeds (\<lambda>s c. Some (spec_feed demo_lib default_config 160 s c)) ((0, None, []), False, []) [replicate 200 5, replicate 200 7] =
      Some (a, [No_frame, Packet False [5] 160])"
    using b r by (simp add: spec_feed_def BUFFER_SAMPLES_def Let_def) blast
  then show ?thesis
    using speex_encoder_refines[OF demo_lib_ok n, of "[replicate 200 5, replicate 200 7]" demo_stats]
    by (auto simp: demo_encoder_def view_def BUFFER_SAMPLES_def)
qed



text \<open>
  Decoding.  For a payload in which the library finds frames of the stated size and then the end, \<open>speextolin_framein\<close> appends
  them to the output in order; if they do not fit into the buffer of 8000 samples it keeps those that fit and
  reports the failure, and otherwise it reports success and the library is at the end of the payload.  The
  count of bytes grows with the count of samples.
\<close>

lemma speex_decoder_frames:
  assumes "dec_ok st" and "data \<noteq> []" and "decodes L (dec_state st, bits_read_from L data (dbits st)) pcms s'"
    and "\<forall>x\<in>set pcms. length x = 2 * dframesize st"
  shows "\<exists>st' g'. speextolin_framein L data st g = Some (if dsamples st + dframesize st * length pcms \<le> BUFFER_SAMPLES then 0 else -1, st', g') \<and> dec_ok st' \<and>
    decoded st' = decoded st @ concat (take ((BUFFER_SAMPLES - dsamples st) div dframesize st) pcms) \<and>
    datalen st' + 2 * dsamples st = datalen st + 2 * dsamples st' \<and>
    (dsamples st + dframesize st * length pcms \<le> BUFFER_SAMPLES \<longrightarrow> (dec_state st', dbits st') = s')"
proof -
  let ?st = "st\<lparr>dbits := bits_read_from L data (dbits st)\<rparr>"
  have "dec_ok ?st" using assms(1) by (simp add: dec_ok_def)
  from decode_loop_frames[OF assms(3) _ this, of g] assms(2,4) show ?thesis by (simp add: speextolin_framein_def decoded_def)
qed

definition demo_decoder :: "(unit, u8 list) decoder" where
  "demo_decoder = \<lparr>dec_state = (), dbits = [], dframesize = 160, outbuf = replicate 16000 0, dsamples = 0, datalen = 0\<rparr>"

lemma decoder_demo:
  "\<exists>st' g'. speextolin_framein demo_lib [3, 4] demo_decoder demo_stats = Some (0, st', g') \<and> decoded st' = replicate 320 3 @ replicate 320 4"
proof -
  have ok: "dec_ok demo_decoder" by (simp add: dec_ok_def demo_decoder_def BUFFER_SAMPLES_def FOUT_SAMPLES_def)
  have "decodes demo_lib ((), []) [] ((), [])" by (rule decodes.stop[where res = "-1" and pcm = "[]"]) (simp_all add: demo_lib_def)
  then have "decodes demo_lib ((), [4]) [replicate 320 4] ((), [])" by (rule decodes.more[where res = 0, rotated 2]) (simp_all add: demo_lib_def)
  then have "decodes demo_lib ((), [3, 4]) [replicate 320 3, replicate 320 4] ((), [])" by (rule decodes.more[where res = 0, rotated 2]) (simp_all add: demo_lib_def)
  then have "decodes demo_lib (dec_state demo_decoder, bits_read_from demo_lib [3, 4] (dbits demo_decoder)) [replicate 320 3, replicate 320 4] ((), [])"
    by (simp add: demo_lib_def)
  from speex_decoder_frames[OF ok _ this, of demo_stats] show ?thesis
    by (auto simp: demo_decoder_def BUFFER_SAMPLES_def decoded_def[of "demo_decoder"] decoded_def[of "\<lparr>dec_state = _, dbits = _, dframesize = _, outbuf = _, dsamples = _, datalen = _\<rparr>"])
qed

text \<open>
  C27.  Settings keep their types.  Whatever configuration files are loaded, with whatever values, one after the other, the quality and
  complexity handed to the library are from 0 to 10, every switch is 0 or 1, the bit rate is a non-negative \<open>int\<close> and the
  levels are not negative.
\<close>

definition switch :: "int \<Rightarrow> bool" where
  "switch x \<longleftrightarrow> x = 0 \<or> x = 1"

definition valid_config :: "config \<Rightarrow> bool" where
  "valid_config k \<longleftrightarrow> 0 \<le> quality k \<and> quality k \<le> 10 \<and> 0 \<le> complexity k \<and> complexity k \<le> 10 \<and> 0 \<le> vbr_quality k \<and> vbr_quality k \<le> 10 \<and>
     0 \<le> abr k \<and> abr k < 2 ^ 31 \<and>
     list_all switch [enhancement k, vad k, vbr k, dtx k, preproc k, pp_vad k, pp_agc k, pp_denoise k, pp_dereverb k] \<and>
     0 \<le> pp_agc_level k \<and> 0 \<le> pp_dereverb_decay k \<and> 0 \<le> pp_dereverb_level k"

lemma abs_atoi_range: "abs_atoi v < 2 ^ 31"
  unfolding abs_atoi_def to_int_def using sint_less[of "of_int \<bar>atoi v\<bar> :: u32"] by simp

lemma switch_truth: "switch (truth R v)"
  by (simp add: switch_def truth_def)

lemma valid_ifI: "(b \<Longrightarrow> valid_config x) \<Longrightarrow> (\<not> b \<Longrightarrow> valid_config y) \<Longrightarrow> valid_config (if b then x else y)"
  by simp

lemma valid_scanI: "(\<And>r. valid_config (f r)) \<Longrightarrow> valid_config y \<Longrightarrow> valid_config (case x of Some r \<Rightarrow> f r | None \<Rightarrow> y)"
  by (cases x) simp_all

lemma set_variable_valid:
  assumes "valid_config k"
  shows "valid_config (set_variable R v k)"
proof -
  obtain name val where v: "v = (name, val)" by (cases v)
  show ?thesis
    using assms abs_atoi_range[of val] switch_truth[of R val] unfolding v set_variable_def prod.case Let_def
    by (intro valid_ifI valid_scanI) (simp_all add: valid_config_def)
qed

lemma parse_config_valid: "valid_config k \<Longrightarrow> valid_config (parse_config R cfg k)"
proof -
  have "valid_config (fold (set_variable R) vs k)" if "valid_config k" for vs
    using that by (induction vs arbitrary: k) (simp_all add: set_variable_valid)
  then show "valid_config k \<Longrightarrow> valid_config (parse_config R cfg k)" by (simp add: parse_config_def split: option.splits)
qed

theorem speex_config_valid: "valid_config (fold (\<lambda>(R, cfg) k. parse_config R cfg k) loads default_config)"
proof -
  have d: "valid_config default_config" by (simp add: valid_config_def default_config_def switch_def)
  have "valid_config (fold (\<lambda>(R, cfg) k. parse_config R cfg k) loads k)" if "valid_config k" for k
    using that by (induction loads arbitrary: k) (auto simp: parse_config_valid)
  then show ?thesis using d by blast
qed

section \<open>Weak points\<close>

text \<open>A chunk that does not fit is written past the buffer: there is no check.\<close>

lemma framein_overrun: "lintospeex_framein c (length c) n st = None \<longleftrightarrow> 2 * BUFFER_SAMPLES < 2 * samples st + length c"
  by (simp add: lintospeex_framein_def)

text \<open>Switching preprocessing on by a reload makes an encoder that exists use a preprocessor it does not have.\<close>

lemma reload_breaks_encoder:
  assumes "lintospeex_new L k = Some st" "preproc k = 0" "preproc k' \<noteq> 0" "0 < framesize st" "framesize st \<le> samples st'" "pp st' = pp st" "framesize st' = framesize st"
  shows "lintospeex_frameout L k' st' g = None" "lintospeex_destroy k' st' = None"
proof -
  have p: "pp st' = None" using assms(1,2,6) by (auto simp: lintospeex_new_def Let_def split: option.splits)
  then have "code_frame L k' 0 True (st'\<lparr>ebits := b\<rparr>) g = None" for b using assms(3) by (simp add: code_frame_def Let_def)
  then show "lintospeex_frameout L k' st' g = None" using assms(4,5,7) by (simp add: lintospeex_frameout_def code_loop.simps)
  show "lintospeex_destroy k' st' = None" using p assms(3) by (simp add: lintospeex_destroy_def)
qed

text \<open>A concealed loss adds samples but no bytes.\<close>

lemma loss_not_counted:
  assumes "dec_ok st" "dsamples st + dframesize st \<le> BUFFER_SAMPLES"
  shows "\<exists>st'. speextolin_framein L [] st g = Some (0, st', g) \<and> dsamples st' = dsamples st + dframesize st \<and> datalen st' = datalen st"
  using assms(2) by (simp add: speextolin_framein_def split_beta Let_def)

end
