(* ===== verification/Cdr.thy ===== *)
theory Cdr
  imports Cstr
begin

text \<open>
  The call record back end of Asterisk, \<open>src/src/cdr_sqlite3.c\<close>: module load and unload, and the function
  that stores one record.  Asterisk and the SQLite library are parameters: what a library call returns, given the
  calls before it.  The state is the sequence of calls made.  The switches \<open>LOG_UNIQUEID\<close> and
  \<open>LOG_USERFIELD\<close> are 0 as in the source.
\<close>

section \<open>Data\<close>

record ast_cdr =
  clid :: string
  src :: string
  dst :: string
  dcontext :: string
  channel :: string
  dstchannel :: string
  lastapp :: string
  lastdata :: string
  start_sec :: int
  answer_sec :: int
  end_sec :: int
  duration :: int
  billsec :: int
  disposition :: int
  amaflags :: int
  accountcode :: string

text \<open>The calls, in their order; a statement is absent when \<open>sqlite3_mprintf\<close> had no memory.\<close>

datatype call =
    Lock | Unlock | Exec "string option" | Usleep nat | Log_error string | Free_error | Free_sql
  | Open string | Close | Register string | Unregister string

text \<open>\<open>fmt_q\<close> is the conversion \<open>%q\<close>, \<open>fmt_time\<close> is \<open>ast_localtime\<close> with \<open>strftime\<close> and \<open>DATE_FORMAT\<close>;
  \<open>exec\<close> gives the result code and the error message, if one was allocated.\<close>

record services =
  fmt_q :: "string \<Rightarrow> string"
  fmt_time :: "int \<Rightarrow> string"
  mem_ok :: "call list \<Rightarrow> bool"
  exec :: "call list \<Rightarrow> int \<times> string option"
  open_ok :: "string \<Rightarrow> bool"
  cdr_register :: "call list \<Rightarrow> int"
  log_dir :: string

definition SQLITE_BUSY :: int where "SQLITE_BUSY = 5"
definition SQLITE_LOCKED :: int where "SQLITE_LOCKED = 6"

definition cdr_name :: string where "cdr_name = ''sqlite3_cdr''"
definition cdr_table :: string where "cdr_table = ''cdr''"

section \<open>Storing a record\<close>

definition show_int :: "int \<Rightarrow> string" where
  "show_int i = (if i < 0 then CHR ''-'' # dec (nat (- i)) else dec (nat i))"

definition SQ :: char where "SQ = CHR 0x27"

definition quoted :: "services \<Rightarrow> string \<Rightarrow> string" where
  "quoted S s = SQ # fmt_q S s @ [SQ]"

definition insert_head :: string where
  "insert_head = ''INSERT INTO '' @ cdr_table @ '' (clid,src,dst,dcontext,channel,dstchannel,lastapp,lastdata, start,answer,end,duration,billsec,disposition,amaflags, accountcode) VALUES (''"

definition insert_values :: "services \<Rightarrow> ast_cdr \<Rightarrow> string" where
  "insert_values S c =
     quoted S (clid c) @ '', '' @ quoted S (src c) @ '', '' @ quoted S (dst c) @ '', '' @ quoted S (dcontext c) @ '', '' @
     quoted S (channel c) @ '', '' @ quoted S (dstchannel c) @ '', '' @ quoted S (lastapp c) @ '', '' @ quoted S (lastdata c) @ '', '' @
     quoted S (fmt_time S (start_sec c)) @ '', '' @ quoted S (fmt_time S (answer_sec c)) @ '', '' @ quoted S (fmt_time S (end_sec c)) @ '', '' @
     show_int (duration c) @ '', '' @ show_int (billsec c) @ '', '' @ show_int (disposition c) @ '', '' @ show_int (amaflags c) @ '', '' @
     quoted S (accountcode c) @ '')''"

definition insert_sql :: "services \<Rightarrow> ast_cdr \<Rightarrow> string" where
  "insert_sql S c = insert_head @ insert_values S c"

text \<open>The loop \<open>for (count = 0; count < 5; count++)\<close>, with the attempts left; a message of an earlier attempt is
  overwritten.\<close>

fun exec_retry :: "services \<Rightarrow> string option \<Rightarrow> nat \<Rightarrow> int \<times> string option \<Rightarrow> call list \<Rightarrow> (int \<times> string option) \<times> call list" where
  "exec_retry S sql 0 res h = (res, h)"
| "exec_retry S sql (Suc n) res h =
     (let h = h @ [Exec sql]; res = exec S h
      in if fst res \<noteq> SQLITE_BUSY \<and> fst res \<noteq> SQLITE_LOCKED then (res, h)
         else exec_retry S sql n res (h @ [Usleep 200]))"

definition sqlite_log :: "services \<Rightarrow> ast_cdr \<Rightarrow> call list \<Rightarrow> int \<times> call list" where
  "sqlite_log S c h =
     (let h = h @ [Lock];
          sql = (if mem_ok S h then Some (insert_sql S c) else None);
          ((res, error), h) = exec_retry S sql 5 (0, None) h;
          h = (case error of None \<Rightarrow> h | Some m \<Rightarrow> h @ [Log_error (''cdr_sqlite: '' @ m @ [NL]), Free_error]);
          h = (if sql \<noteq> None then h @ [Free_sql] else h)
      in (res, h @ [Unlock]))"

section \<open>Load and unload\<close>

definition TAB :: char where "TAB = CHR 0x09"

definition column :: "string \<Rightarrow> nat \<Rightarrow> string \<Rightarrow> string" where
  "column n tabs ty = TAB # n @ replicate tabs TAB @ ty"

definition sql_create_table :: string where
  "sql_create_table = ''CREATE TABLE cdr ('' @
     column ''AcctId'' 2 ''INTEGER PRIMARY KEY,'' @ column ''clid'' 2 ''VARCHAR(80),'' @ column ''src'' 2 ''VARCHAR(80),'' @
     column ''dst'' 2 ''VARCHAR(80),'' @ column ''dcontext'' 1 ''VARCHAR(80),'' @ column ''channel'' 2 ''VARCHAR(80),'' @
     column ''dstchannel'' 1 ''VARCHAR(80),'' @ column ''lastapp'' 2 ''VARCHAR(80),'' @ column ''lastdata'' 1 ''VARCHAR(80),'' @
     column ''start'' 2 ''CHAR(19),'' @ column ''answer'' 2 ''CHAR(19),'' @ column ''end'' 2 ''CHAR(19),'' @
     column ''duration'' 1 ''INTEGER,'' @ column ''billsec'' 2 ''INTEGER,'' @ column ''disposition'' 1 ''INTEGER,'' @
     column ''amaflags'' 1 ''INTEGER,'' @ column ''accountcode'' 1 ''VARCHAR(20)'' @ '');''"

text \<open>The handle is \<open>NULL\<close>, open or closed; without a handle \<open>load_module\<close> prints and frees the unassigned pointer
  \<open>error\<close>, which is no computation: \<open>None\<close>.  The message pointer that \<open>CREATE TABLE\<close> leaves on failure is freed.\<close>

datatype handle = Null | Opened | Closed

record cdr_module =
  db :: handle
  calls :: "call list"

definition module_call :: "call \<Rightarrow> cdr_module \<Rightarrow> cdr_module" where
  "module_call x m = m\<lparr>calls := calls m @ [x]\<rparr>"

definition load_module :: "services \<Rightarrow> cdr_module \<Rightarrow> (int \<times> cdr_module) option" where
  "load_module S m =
     (let fn = log_dir S @ ''/master.db'';
          m = module_call (Open fn) (m\<lparr>db := (if open_ok S fn then Opened else Null)\<rparr>)
      in if db m = Null then None
         else
           let sql = (if mem_ok S (calls m) then Some (''SELECT COUNT(AcctId) FROM '' @ cdr_table @ '';'') else None);
               m = module_call (Exec sql) m;
               res = fst (exec S (calls m));
               m = (if sql \<noteq> None then module_call Free_sql m else m);
               (failed, m) =
                 (if res \<noteq> 0
                  then let m = module_call (Exec (Some sql_create_table)) m; (res, error) = exec S (calls m)
                       in if res \<noteq> 0
                          then (True, module_call Close (module_call Free_error
                                 (module_call (Log_error (''cdr_sqlite: Unable to create table '' @ cdr_table @ '': '' @ (case error of None \<Rightarrow> [] | Some x \<Rightarrow> x) @ [NL])) m)\<lparr>db := Closed\<rparr>))
                          else (False, m)
                  else (False, m))
           in if failed then Some (-1, m)
              else let m = module_call (Register cdr_name) m
                   in if cdr_register S (calls m) \<noteq> 0
                      then Some (-1, module_call (Log_error (''Unable to register SQLite CDR handling'' @ [NL])) m)
                      else Some (0, m))"

definition unload_module :: "cdr_module \<Rightarrow> int \<times> cdr_module" where
  "unload_module m =
     (let m = (if db m \<noteq> Null then module_call Close (m\<lparr>db := Closed\<rparr>) else m)
      in (0, module_call (Unregister cdr_name) m))"

section \<open>How the database reads a statement\<close>

text \<open>A reader of the value list, after SQL's literals: text stands between quotes and a doubled quote in it is one
  quote; numbers are decimal; the closing parenthesis ends the list and nothing may follow.\<close>

datatype sval = Text string | Number int

datatype rmode = Sep | Txt string | TxtQ string | Num bool nat | Stop | Bad

definition num_val :: "bool \<Rightarrow> nat \<Rightarrow> sval" where
  "num_val neg n = Number (if neg then - int n else int n)"

definition after_value :: "char \<Rightarrow> sval \<Rightarrow> sval list \<Rightarrow> rmode \<times> sval list" where
  "after_value c v vs = (if c = CHR '','' then (Sep, vs @ [v]) else if c = CHR '')'' then (Stop, vs @ [v]) else (Bad, vs))"

fun read_char :: "char \<Rightarrow> rmode \<times> sval list \<Rightarrow> rmode \<times> sval list" where
  "read_char c (Sep, vs) =
     (if c = CHR '' '' then Sep else if c = SQ then Txt [] else if c = CHR ''-'' then Num True 0
      else if isdigit c then Num False (code c - 48) else Bad, vs)"
| "read_char c (Txt a, vs) = (if c = SQ then TxtQ a else Txt (a @ [c]), vs)"
| "read_char c (TxtQ a, vs) = (if c = SQ then (Txt (a @ [SQ]), vs) else after_value c (Text a) vs)"
| "read_char c (Num neg n, vs) = (if isdigit c then (Num neg (10 * n + (code c - 48)), vs) else after_value c (num_val neg n) vs)"
| "read_char c (Stop, vs) = (Bad, vs)"
| "read_char c (Bad, vs) = (Bad, vs)"

definition read_insert :: "string \<Rightarrow> sval list option" where
  "read_insert s =
     (if take (length insert_head) s = insert_head
      then case fold read_char (drop (length insert_head) s) (Sep, []) of (Stop, vs) \<Rightarrow> Some vs | _ \<Rightarrow> None
      else None)"

definition record_values :: "services \<Rightarrow> ast_cdr \<Rightarrow> sval list" where
  "record_values S c =
     map Text [clid c, src c, dst c, dcontext c, channel c, dstchannel c, lastapp c, lastdata c,
       fmt_time S (start_sec c), fmt_time S (answer_sec c), fmt_time S (end_sec c)] @
     map Number [duration c, billsec c, disposition c, amaflags c] @ [Text (accountcode c)]"

text \<open>The documented meaning of \<open>%q\<close>: every quote is doubled.\<close>

definition doubles_quotes :: "services \<Rightarrow> bool" where
  "doubles_quotes S \<longleftrightarrow> (\<forall>s. fmt_q S s = concat (map (\<lambda>c. if c = SQ then [SQ, SQ] else [c]) s))"

lemma read_escaped: "fold read_char (concat (map (\<lambda>c. if c = SQ then [SQ, SQ] else [c]) s)) (Txt a, vs) = (Txt (a @ s), vs)"
  by (induction s arbitrary: a) auto

lemma read_quoted: "doubles_quotes S \<Longrightarrow> fold read_char (quoted S s) (Sep, vs) = (TxtQ s, vs)"
  by (simp add: quoted_def doubles_quotes_def read_escaped) (simp add: SQ_def)

lemma read_digits:
  "list_all isdigit ds \<Longrightarrow> fold read_char ds (Num neg n, vs) = (Num neg (fold (\<lambda>c n. 10 * n + (code c - 48)) ds n), vs)"
  by (induction ds arbitrary: n) auto

lemma read_int: "\<exists>neg n. fold read_char (show_int i) (Sep, vs) = (Num neg n, vs) \<and> num_val neg n = Number i"
proof (cases "i < 0")
  case True
  have "fold read_char (dec (nat (- i))) (Num True 0, vs) = (Num True (nat (- i)), vs)"
    using read_digits[OF dec_digits(1)] digits_val_dec[of "nat (- i)"] by (simp add: digits_val_def)
  then show ?thesis using True by (intro exI[of _ True] exI[of _ "nat (- i)"]) (simp add: show_int_def num_val_def SQ_def)
next
  case False
  obtain d ds where d: "dec (nat i) = d # ds" using dec_digits(2)[of "nat i"] by (cases "dec (nat i)") auto
  have a: "isdigit d" "list_all isdigit ds" using dec_digits(1)[of "nat i"] by (simp_all add: d)
  have n: "d \<noteq> CHR '' ''" "d \<noteq> SQ" "d \<noteq> CHR ''-''" using a(1) by (auto simp: isdigit_def code_def SQ_def)
  have v: "fold (\<lambda>c n. 10 * n + (code c - 48)) ds (code d - 48) = nat i"
    using digits_val_dec[of "nat i"] by (simp add: d digits_val_def)
  show ?thesis using False a n v by (intro exI[of _ False] exI[of _ "nat i"]) (simp add: show_int_def d read_digits num_val_def)
qed

lemma read_sep:
  "fold read_char '', '' (TxtQ a, vs) = (Sep, vs @ [Text a])" "fold read_char '', '' (Num neg n, vs) = (Sep, vs @ [num_val neg n])"
  by (simp_all add: after_value_def SQ_def isdigit_def code_def)

lemma read_text: "doubles_quotes S \<Longrightarrow> fold read_char (quoted S s @ '', '' @ r) (Sep, vs) = fold read_char r (Sep, vs @ [Text s])"
  by (simp only: fold_append comp_apply read_quoted read_sep)

lemma read_number: "fold read_char (show_int i @ '', '' @ r) (Sep, vs) = fold read_char r (Sep, vs @ [Number i])"
proof -
  obtain neg n where "fold read_char (show_int i) (Sep, vs) = (Num neg n, vs)" "num_val neg n = Number i" using read_int by blast
  then show ?thesis by (simp only: fold_append comp_apply read_sep)
qed

lemma read_insert_sql: "doubles_quotes S \<Longrightarrow> read_insert (insert_sql S c) = Some (record_values S c)"
proof -
  assume q: "doubles_quotes S"
  have l: "fold read_char (quoted S s @ '')'') (Sep, vs) = (Stop, vs @ [Text s])" for s vs
    using read_quoted[OF q, of s vs] by (simp add: after_value_def SQ_def)
  have "fold read_char (insert_values S c) (Sep, []) = (Stop, record_values S c)"
    unfolding insert_values_def read_text[OF q] read_number l by (simp add: record_values_def)
  then show ?thesis by (simp add: read_insert_def insert_sql_def)
qed

section \<open>Properties\<close>

text \<open>Attempt number \<open>i\<close>: the calls before it, and its result.\<close>

definition before_try :: "call list \<Rightarrow> string option \<Rightarrow> nat \<Rightarrow> call list" where
  "before_try h sql i = h @ concat (replicate i [Exec sql, Usleep 200])"

definition try_result :: "services \<Rightarrow> call list \<Rightarrow> string option \<Rightarrow> nat \<Rightarrow> int \<times> string option" where
  "try_result S h sql i = exec S (before_try h sql i @ [Exec sql])"

definition busy :: "int \<times> string option \<Rightarrow> bool" where
  "busy r \<longleftrightarrow> fst r = SQLITE_BUSY \<or> fst r = SQLITE_LOCKED"

lemma before_try_Suc: "before_try h sql (Suc i) = before_try (h @ [Exec sql, Usleep 200]) sql i"
  by (simp add: before_try_def)

lemma try_result_Suc: "try_result S h sql (Suc i) = try_result S (h @ [Exec sql, Usleep 200]) sql i"
  by (simp add: try_result_def before_try_Suc)

lemma exec_retry_run:
  "\<exists>k\<le>n. (\<forall>i<k. busy (try_result S h sql i)) \<and> (k < n \<longrightarrow> \<not> busy (try_result S h sql k)) \<and>
     exec_retry S sql (Suc n) res h =
       (try_result S h sql k, before_try h sql k @ [Exec sql] @ (if busy (try_result S h sql k) then [Usleep 200] else []))"
proof (induction n arbitrary: h res)
  case 0
  show ?case by (simp add: try_result_def before_try_def busy_def Let_def)
next
  case (Suc n)
  show ?case
  proof (cases "busy (try_result S h sql 0)")
    case False
    then show ?thesis by (intro exI[of _ 0]) (auto simp: try_result_def before_try_def busy_def Let_def)
  next
    case True
    let ?h = "h @ [Exec sql, Usleep 200]"
    obtain k where k: "k \<le> n" "\<forall>i<k. busy (try_result S ?h sql i)" "k < n \<longrightarrow> \<not> busy (try_result S ?h sql k)"
      "exec_retry S sql (Suc n) (try_result S h sql 0) ?h =
         (try_result S ?h sql k, before_try ?h sql k @ [Exec sql] @ (if busy (try_result S ?h sql k) then [Usleep 200] else []))"
      using Suc.IH[of ?h "try_result S h sql 0"] by blast
    have e: "exec_retry S sql (Suc (Suc n)) res h = exec_retry S sql (Suc n) (try_result S h sql 0) ?h"
      using True by (simp only: exec_retry.simps(2)[of S sql "Suc n"] Let_def) (auto simp: try_result_def before_try_def busy_def)
    show ?thesis
      using True k(1-3) unfolding e k(4)
      by (intro exI[of _ "Suc k"]) (auto simp: try_result_Suc before_try_Suc less_Suc_eq_0_disj)
  qed
qed

definition statement :: "services \<Rightarrow> ast_cdr \<Rightarrow> call list \<Rightarrow> string option" where
  "statement S c h = (if mem_ok S (h @ [Lock]) then Some (insert_sql S c) else None)"

definition cleanup :: "int \<times> string option \<Rightarrow> string option \<Rightarrow> call list" where
  "cleanup r sql = (case snd r of None \<Rightarrow> [] | Some m \<Rightarrow> [Log_error (''cdr_sqlite: '' @ m @ [NL]), Free_error]) @ (if sql \<noteq> None then [Free_sql] else []) @ [Unlock]"

lemma sqlite_log_calls:
  "\<exists>k\<le>4. (\<forall>i<k. busy (try_result S (h @ [Lock]) (statement S c h) i)) \<and> (k < 4 \<longrightarrow> \<not> busy (try_result S (h @ [Lock]) (statement S c h) k)) \<and>
    sqlite_log S c h = (fst (try_result S (h @ [Lock]) (statement S c h) k),
      before_try (h @ [Lock]) (statement S c h) k @ [Exec (statement S c h)] @
      (if busy (try_result S (h @ [Lock]) (statement S c h) k) then [Usleep 200] else []) @
      cleanup (try_result S (h @ [Lock]) (statement S c h) k) (statement S c h))"
proof -
  let ?s = "statement S c h"
  have five: "(5 :: nat) = Suc 4" by simp
  have 5: "sqlite_log S c h =
    (case exec_retry S ?s 5 (0, None) (h @ [Lock]) of ((res, error), h) \<Rightarrow>
      (res, (if ?s \<noteq> None then (case error of None \<Rightarrow> h | Some m \<Rightarrow> h @ [Log_error (''cdr_sqlite: '' @ m @ [NL]), Free_error]) @ [Free_sql]
             else (case error of None \<Rightarrow> h | Some m \<Rightarrow> h @ [Log_error (''cdr_sqlite: '' @ m @ [NL]), Free_error])) @ [Unlock]))"
    by (simp only: sqlite_log_def statement_def Let_def split_beta)
  obtain k where k: "k \<le> 4" "\<forall>i<k. busy (try_result S (h @ [Lock]) ?s i)" "k < 4 \<longrightarrow> \<not> busy (try_result S (h @ [Lock]) ?s k)"
    "exec_retry S ?s (Suc 4) (0, None) (h @ [Lock]) =
      (try_result S (h @ [Lock]) ?s k, before_try (h @ [Lock]) ?s k @ [Exec ?s] @ (if busy (try_result S (h @ [Lock]) ?s k) then [Usleep 200] else []))"
    using exec_retry_run[of 4 S "h @ [Lock]" ?s "(0, None)"] by blast
  obtain r m where r: "try_result S (h @ [Lock]) ?s k = (r, m)" by fastforce
  show ?thesis unfolding 5 five k(4) using k(1-3) r by (intro exI[of _ k]) (simp add: cleanup_def split: option.splits)
qed

text \<open>
  C23.  A record is stored as it is.  If \<open>%q\<close> doubles quotes, as its documentation says, every statement that
  \<open>sqlite_log\<close> hands to the database is read by it as one insertion of exactly the sixteen values of the
  record: no field, whatever it contains, can end its literal, add a value or add a statement.
\<close>

theorem cdr_reads_back:
  assumes "doubles_quotes S" and "sqlite_log S c h = (res, h @ h')"
  shows "\<forall>sql. Exec (Some sql) \<in> set h' \<longrightarrow> read_insert sql = Some (record_values S c)"
proof -
  let ?s = "statement S c h"
  obtain k where "sqlite_log S c h = (fst (try_result S (h @ [Lock]) ?s k), before_try (h @ [Lock]) ?s k @ [Exec ?s] @
      (if busy (try_result S (h @ [Lock]) ?s k) then [Usleep 200] else []) @ cleanup (try_result S (h @ [Lock]) ?s k) ?s)"
    using sqlite_log_calls[of S h c] by blast
  then have "h' = Lock # concat (replicate k [Exec ?s, Usleep 200]) @ [Exec ?s] @
      (if busy (try_result S (h @ [Lock]) ?s k) then [Usleep 200] else []) @ cleanup (try_result S (h @ [Lock]) ?s k) ?s"
    using assms(2) by (simp add: before_try_def)
  then have s: "?s = Some sql" if "Exec (Some sql) \<in> set h'" for sql
    using that by (auto simp: cleanup_def split: if_splits option.splits)
  have "sql = insert_sql S c" if "Exec (Some sql) \<in> set h'" for sql
    using s[OF that] by (simp add: statement_def split: if_splits)
  then show ?thesis using read_insert_sql[OF assms(1)] by blast
qed

definition demo_services :: services where
  "demo_services = \<lparr>fmt_q = (\<lambda>s. concat (map (\<lambda>c. if c = SQ then [SQ, SQ] else [c]) s)), fmt_time = (\<lambda>_. ''2009-05-16 12:00:00''),
     mem_ok = (\<lambda>_. True), exec = (\<lambda>h. if length h < 4 then (5, Some ''database is locked'') else (0, None)),
     open_ok = (\<lambda>_. True), cdr_register = (\<lambda>_. 0), log_dir = ''/var/log/asterisk''\<rparr>"

definition demo_cdr :: ast_cdr where
  "demo_cdr = \<lparr>clid = [SQ] @ '')); DROP TABLE cdr; --'', src = ''100'', dst = ''200'', dcontext = ''internal'', channel = ''Zap/1-1'',
     dstchannel = ''Zap/2-1'', lastapp = ''Dial'', lastdata = ''Zap/2'', start_sec = 0, answer_sec = 0, end_sec = 0,
     duration = 12, billsec = -3, disposition = 4, amaflags = 3, accountcode = []\<rparr>"

lemma demo_log:
  "sqlite_log demo_services demo_cdr [] = (0, [Lock, Exec (Some (insert_sql demo_services demo_cdr)), Usleep 200,
     Exec (Some (insert_sql demo_services demo_cdr)), Free_sql, Unlock])"
  by (simp add: sqlite_log_def demo_services_def Let_def numeral_eq_Suc[of "num.Bit1 (num.Bit0 num.One)"] SQLITE_BUSY_def SQLITE_LOCKED_def eval_nat_numeral(2,3))

theorem cdr_reads_back_witness:
  "doubles_quotes demo_services \<and>
   sqlite_log demo_services demo_cdr [] = (0, [] @ [Lock, Exec (Some (insert_sql demo_services demo_cdr)), Usleep 200,
     Exec (Some (insert_sql demo_services demo_cdr)), Free_sql, Unlock]) \<and>
   read_insert (insert_sql demo_services demo_cdr) = Some (record_values demo_services demo_cdr)"
proof -
  have d: "doubles_quotes demo_services" by (simp add: doubles_quotes_def demo_services_def)
  have l: "sqlite_log demo_services demo_cdr [] = (0, [] @ [Lock, Exec (Some (insert_sql demo_services demo_cdr)), Usleep 200,
     Exec (Some (insert_sql demo_services demo_cdr)), Free_sql, Unlock])" using demo_log by simp
  show ?thesis using cdr_reads_back[OF d l] d l by auto
qed

text \<open>
  C30.  A busy database.  \<open>sqlite_log\<close> tries the statement at most five times, 200 microseconds apart, and stops at the
  first attempt that is neither busy nor locked; it returns the code of the last attempt, reports the
  message of that attempt if there is one, frees it and the statement, and holds the lock from its first
  call to its last.
\<close>

theorem cdr_retries:
  "\<exists>k<5. let r = try_result S (h @ [Lock]) (statement S c h) in
    (\<forall>i<k. busy (r i)) \<and> (busy (r k) \<longrightarrow> k = 4) \<and>
    sqlite_log S c h = (fst (r k), h @ [Lock] @ concat (replicate k [Exec (statement S c h), Usleep 200]) @ [Exec (statement S c h)] @
      (if busy (r k) then [Usleep 200] else []) @
      (case snd (r k) of None \<Rightarrow> [] | Some m \<Rightarrow> [Log_error (''cdr_sqlite: '' @ m @ [NL]), Free_error]) @
      (if statement S c h \<noteq> None then [Free_sql] else []) @ [Unlock])"
proof -
  let ?r = "try_result S (h @ [Lock]) (statement S c h)"
  obtain k where k: "k \<le> 4" "\<forall>i<k. busy (?r i)" "k < 4 \<longrightarrow> \<not> busy (?r k)"
    "sqlite_log S c h = (fst (?r k), before_try (h @ [Lock]) (statement S c h) k @ [Exec (statement S c h)] @
      (if busy (?r k) then [Usleep 200] else []) @ cleanup (?r k) (statement S c h))"
    using sqlite_log_calls[of S h c] by blast
  then have "k < 5" "busy (?r k) \<longrightarrow> k = 4" by auto
  then show ?thesis using k(2,4) by (intro exI[of _ k]) (simp add: Let_def before_try_def cleanup_def)
qed

theorem cdr_retries_witness:
  "snd (sqlite_log demo_services demo_cdr []) = [Lock] @ concat (replicate 1 [Exec (statement demo_services demo_cdr []), Usleep 200]) @
     [Exec (statement demo_services demo_cdr []), Free_sql, Unlock]"
  using cdr_retries[of demo_services "[]" demo_cdr] demo_log
  by (simp add: statement_def demo_services_def)

text \<open>The messages of the attempts before the last are overwritten and never freed: here one of one.\<close>

lemma busy_message_leaks:
  "snd (try_result demo_services [Lock] (statement demo_services demo_cdr []) 0) \<noteq> None \<and>
   Free_error \<notin> set (snd (sqlite_log demo_services demo_cdr []))"
proof -
  have "sqlite_log demo_services demo_cdr [] = (0, [Lock, Exec (Some (insert_sql demo_services demo_cdr)), Usleep 200,
     Exec (Some (insert_sql demo_services demo_cdr)), Free_sql, Unlock])" by (rule demo_log)
  then show ?thesis by (simp add: try_result_def before_try_def demo_services_def)
qed

text \<open>What a load leaves behind.  On success the database is open and the back end registered last; after a failed
  \<open>CREATE TABLE\<close> it is closed; after a failed registration it stays open, and the module is not loaded.\<close>

lemma load_outcome:
  assumes "load_module S m = Some (r, m')"
  shows "(r = 0 \<and> db m' = Opened \<and> last (calls m') = Register cdr_name) \<or>
    (r = -1 \<and> db m' = Closed \<and> last (calls m') = Close) \<or>
    (r = -1 \<and> db m' = Opened \<and> Close \<notin> set (drop (length (calls m)) (calls m')))"
  using assms by (auto simp: load_module_def module_call_def Let_def split_beta split: if_splits)

text \<open>Unloading closes the database while the back end is still registered.\<close>

lemma unload_closes_first:
  "db m = Opened \<Longrightarrow> unload_module m = (0, m\<lparr>db := Closed, calls := calls m @ [Close, Unregister cdr_name]\<rparr>)"
  by (simp add: unload_module_def module_call_def)

end
