(* ===== verification/Ztscan.thy ===== *)
theory Ztscan
  imports Cstr
begin

unbundle bit_operations_syntax

text \<open>
  The program \<open>src/src/ztscan.c\<close>, which prints the spans and ports of the Zaptel driver as an Asterisk configuration file.
  The driver's answers and the constants of \<open>zaptel.h\<close> are parameters.  Channel numbers are far below the range of
  \<open>int\<close>.  \<open>None\<close> is a write outside the buffer \<open>buf\<close>.
\<close>

section \<open>Data\<close>

record zt_consts =
  MAX_SPANS :: nat
  ALARM_BLUE :: u32
  ALARM_YELLOW :: u32
  ALARM_RED :: u32
  ALARM_LOOPBACK :: u32
  ALARM_RECOVER :: u32
  ALARM_NOTOPEN :: u32
  SIG_DACS :: u32
  SIG_FXO :: u32
  SIG_FXS :: u32

record zt_spaninfo =
  alarms :: u32
  numchans :: nat
  totalchans :: nat
  syncsrc :: int
  desc :: string
  sname :: string

text \<open>\<open>ZT_SPANSTAT\<close> by span and \<open>ZT_GET_PARAMS\<close> by channel, where they succeed; of the parameters \<open>sigcap\<close>.\<close>

record zt_driver =
  ctl_open :: bool
  span_stat :: "nat \<Rightarrow> zt_spaninfo option"
  get_sigcap :: "nat \<Rightarrow> u32 option"

section \<open>Operations\<close>

text \<open>A format that ends in a line end.\<close>

definition line :: "string \<Rightarrow> string" where
  "line s = s @ [NL]"

definition alarm_list :: "zt_consts \<Rightarrow> u32 \<Rightarrow> string" where
  "alarm_list Z a =
     (if a AND ALARM_BLUE Z \<noteq> 0 then ''BLU/'' else []) @ (if a AND ALARM_YELLOW Z \<noteq> 0 then ''YEL/'' else []) @
     (if a AND ALARM_RED Z \<noteq> 0 then ''RED/'' else []) @ (if a AND ALARM_LOOPBACK Z \<noteq> 0 then ''LB/'' else []) @
     (if a AND ALARM_RECOVER Z \<noteq> 0 then ''REC/'' else []) @ (if a AND ALARM_NOTOPEN Z \<noteq> 0 then ''NOP/'' else [])"

definition alarm_text :: "zt_consts \<Rightarrow> zt_spaninfo \<Rightarrow> string" where
  "alarm_text Z s =
     (if alarms s \<noteq> 0
      then let a = alarm_list Z (alarms s); a = (if a = [] then ''UUU/'' else a) in butlast a
      else if numchans s \<noteq> 0 then ''OK'' else ''UNCONFIGURED'')"

definition span_header :: "zt_consts \<Rightarrow> nat \<Rightarrow> nat \<Rightarrow> zt_spaninfo \<Rightarrow> string" where
  "span_header Z x basechan s =
     line (''['' @ dec x @ '']'') @ line ''active=yes'' @ line (''alarms='' @ alarm_text Z s) @ line (''description='' @ desc s) @
     line (''name='' @ sname s) @ line ''manufacturer=Atcom'' @ line ''devicetype=IP04'' @ line ''location=Blackfin Motherboard'' @
     line (''basechan='' @ dec basechan) @ line (''totchans='' @ dec (totalchans s)) @ line (''irq='' @ dec 10)"

definition port_kind :: "zt_consts \<Rightarrow> u32 \<Rightarrow> string" where
  "port_kind Z cap =
     (let c = cap AND (SIG_FXO Z OR SIG_FXS Z) in if c = SIG_FXO Z then ''FXS'' else if c = SIG_FXS Z then ''FXO'' else ''none'')"

definition port_text :: "zt_consts \<Rightarrow> zt_driver \<Rightarrow> nat \<Rightarrow> string" where
  "port_text Z D y = ''port='' @ dec y @ '','' @ (case get_sigcap D y of None \<Rightarrow> ''unknown'' | Some cap \<Rightarrow> port_kind Z cap)"

text \<open>The branch for a digital span strips the last character of the empty string in \<open>buf\<close>: it writes to \<open>buf[-1]\<close>.\<close>

fun scan_spans :: "zt_consts \<Rightarrow> zt_driver \<Rightarrow> nat list \<Rightarrow> nat \<Rightarrow> string option" where
  "scan_spans Z D [] basechan = Some []"
| "scan_spans Z D (x # xs) basechan =
     (case span_stat D x of
        None \<Rightarrow> scan_spans Z D xs basechan
      | Some s \<Rightarrow>
          (case get_sigcap D basechan of
             None \<Rightarrow> map_option (\<lambda>r. span_header Z x basechan s @ r) (scan_spans Z D xs (basechan + totalchans s))
           | Some cap \<Rightarrow>
               if cap AND SIG_DACS Z \<noteq> 0 then None
               else map_option
                      (\<lambda>r. span_header Z x basechan s @ line ''type=analog'' @
                           concat (map (\<lambda>y. line (port_text Z D y)) [basechan..<basechan + totalchans s]) @ r)
                      (scan_spans Z D xs (basechan + totalchans s))))"

definition ztscan_main :: "zt_consts \<Rightarrow> zt_driver \<Rightarrow> (nat \<times> string) option" where
  "ztscan_main Z D = (if ctl_open D then map_option (Pair 0) (scan_spans Z D [1..<MAX_SPANS Z] 1) else Some (1, []))"

section \<open>What is printed\<close>

text \<open>The buffer for the alarms has 50 characters.\<close>

lemma alarm_text_fits: "length (alarm_text Z s) < 50"
proof -
  have "length (alarm_list Z a) \<le> 23" for a by (simp add: alarm_list_def)
  from this[of "alarms s"] show ?thesis by (auto simp: alarm_text_def Let_def)
qed

fun text_lines :: "string \<Rightarrow> string \<Rightarrow> string list" where
  "text_lines cur [] = (if cur = [] then [] else [cur])"
| "text_lines cur (c # cs) = (if c = NL then cur # text_lines [] cs else text_lines (cur @ [c]) cs)"

lemma text_lines_line: "NL \<notin> set l \<Longrightarrow> text_lines cur (line l @ r) = (cur @ l) # text_lines [] r"
  by (induction l arbitrary: cur) (auto simp: line_def)

definition is_port :: "string \<Rightarrow> bool" where
  "is_port l \<longleftrightarrow> take 5 l = ''port=''"

definition port_lines :: "string \<Rightarrow> string list" where
  "port_lines t = filter is_port (text_lines [] t)"

lemma port_lines_line: "NL \<notin> set l \<Longrightarrow> port_lines (line l @ r) = (if is_port l then [l] else []) @ port_lines r"
  by (simp add: port_lines_def text_lines_line)

lemma dec_no_NL: "NL \<notin> set (dec n)"
  using dec_digits(1)[of n] by (auto simp: list_all_iff NL_def isdigit_def code_def)

lemma lit_no_NL: "NL \<notin> set ''active=yes''" "NL \<notin> set ''type=analog''" "NL \<notin> set ''manufacturer=Atcom''" "NL \<notin> set ''devicetype=IP04''"
  "NL \<notin> set ''location=Blackfin Motherboard''"
  by (simp_all add: NL_def)

lemma alarm_no_NL: "NL \<notin> set (alarm_text Z s)"
proof -
  have "NL \<notin> set (alarm_list Z a)" for a by (simp add: alarm_list_def NL_def)
  from this[of "alarms s"] show ?thesis by (auto simp: alarm_text_def Let_def NL_def dest: in_set_butlastD split: if_splits)
qed

definition plain_names :: "zt_driver \<Rightarrow> bool" where
  "plain_names D \<longleftrightarrow> (\<forall>x s. span_stat D x = Some s \<longrightarrow> NL \<notin> set (desc s) \<and> NL \<notin> set (sname s))"

lemma header_ports:
  assumes "NL \<notin> set (desc s)" "NL \<notin> set (sname s)"
  shows "port_lines (span_header Z x b s @ r) = port_lines r"
proof -
  have n: "NL \<notin> set (''['' @ dec n @ '']'')" "NL \<notin> set (''alarms='' @ alarm_text Z s)" "NL \<notin> set (''description='' @ desc s)" "NL \<notin> set (''name='' @ sname s)"
    "NL \<notin> set (''basechan='' @ dec n)" "NL \<notin> set (''totchans='' @ dec n)" "NL \<notin> set (''irq='' @ dec n)" for n
    using assms dec_no_NL alarm_no_NL by (simp_all add: NL_def)
  show ?thesis
    unfolding span_header_def append_assoc port_lines_line[OF n(1)] port_lines_line[OF n(2)] port_lines_line[OF n(3)] port_lines_line[OF n(4)]
      port_lines_line[OF n(5)] port_lines_line[OF n(6)] port_lines_line[OF n(7)] lit_no_NL[THEN port_lines_line]
    by (simp add: is_port_def)
qed

lemma port_text_line: "NL \<notin> set (port_text Z D y)" "is_port (port_text Z D y)"
  using dec_no_NL[of y] by (auto simp: port_text_def port_kind_def is_port_def NL_def Let_def split: option.splits)

lemma ports_ports: "port_lines (concat (map (\<lambda>y. line (port_text Z D y)) ys) @ r) = map (port_text Z D) ys @ port_lines r"
  by (induction ys) (simp_all add: port_lines_line port_text_line)

text \<open>The channels that get a port line: those of the spans whose first channel answers, numbered through.\<close>

fun listed :: "zt_driver \<Rightarrow> nat list \<Rightarrow> nat \<Rightarrow> nat list" where
  "listed D [] b = []"
| "listed D (x # xs) b =
     (case span_stat D x of
        None \<Rightarrow> listed D xs b
      | Some s \<Rightarrow> (if get_sigcap D b = None then [] else [b..<b + totalchans s]) @ listed D xs (b + totalchans s))"

definition all_analog :: "zt_consts \<Rightarrow> zt_driver \<Rightarrow> bool" where
  "all_analog Z D \<longleftrightarrow> (\<forall>y cap. get_sigcap D y = Some cap \<longrightarrow> cap AND SIG_DACS Z = 0)"

lemma scan_spans_ports:
  assumes "plain_names D" "all_analog Z D"
  shows "\<exists>t. scan_spans Z D xs b = Some t \<and> port_lines t = map (port_text Z D) (listed D xs b)"
proof (induction xs arbitrary: b)
  case Nil
  then show ?case by (simp add: port_lines_def)
next
  case (Cons x xs)
  show ?case
  proof (cases "span_stat D x")
    case None
    then show ?thesis using Cons by simp
  next
    case (Some s)
    obtain t where t: "scan_spans Z D xs (b + totalchans s) = Some t" "port_lines t = map (port_text Z D) (listed D xs (b + totalchans s))"
      using Cons[of "b + totalchans s"] by blast
    have n: "NL \<notin> set (desc s)" "NL \<notin> set (sname s)" using assms(1) Some by (auto simp: plain_names_def)
    have a: "port_lines (line ''type=analog'' @ r) = port_lines r" for r
      unfolding port_lines_line[OF lit_no_NL(2)] by (simp add: is_port_def)
    show ?thesis
    proof (cases "get_sigcap D b")
      case None
      then show ?thesis using Some t header_ports[OF n] by simp
    next
      case (Some cap)
      then show ?thesis using \<open>span_stat D x = Some s\<close> t assms(2) header_ports[OF n] a ports_ports by (simp add: all_analog_def)
    qed
  qed
qed

lemma listed_bound: "y \<in> set (listed D xs b) \<Longrightarrow> b \<le> y"
  by (induction xs arbitrary: b) (auto split: option.splits if_splits dest: le_trans[OF le_add1])

lemma listed_sorted: "sorted_wrt (<) (listed D xs b)"
  by (induction xs arbitrary: b) (auto simp: sorted_wrt_append dest!: listed_bound split: option.splits)

text \<open>
  With analog spans only, the program prints its description and exits with 0; the port lines of the output, read
  back line by line, are those of the channels of the spans that answer, in ascending order, none twice, each
  with what the driver says of its signalling: FXS for FXO signalling and the other way round.
\<close>

lemma ztscan_ports:
  assumes "plain_names D" "all_analog Z D" "ctl_open D"
  shows "\<exists>t. ztscan_main Z D = Some (0, t) \<and> port_lines t = map (port_text Z D) (listed D [1..<MAX_SPANS Z] 1) \<and>
    sorted_wrt (<) (listed D [1..<MAX_SPANS Z] 1)"
  using scan_spans_ports[OF assms(1,2), of "[1..<MAX_SPANS Z]" 1] assms(3) listed_sorted by (auto simp: ztscan_main_def)

text \<open>A digital span, found before anything else, ends in the write to \<open>buf[-1]\<close>.\<close>

lemma digital_span_underrun:
  "span_stat D x = Some s \<Longrightarrow> get_sigcap D b = Some cap \<Longrightarrow> cap AND SIG_DACS Z \<noteq> 0 \<Longrightarrow> scan_spans Z D (x # xs) b = None"
  by simp

end
