(* ===== verification/Php_Sqlite.thy ===== *)
theory Php_Sqlite
  imports Cstr
begin

text \<open>
  The PHP extension \<open>src/files/sqlite3/php_sqlite3.c\<close>: every function it exports, the destructors of its two
  kinds of resources, and the callbacks from SQLite.  The Zend engine, SQLite and the PHP script are parameters.  The
  state has the structures the extension allocates, so that a use after \<open>efree\<close> is visible, and the calls into SQLite in
  their order.  A computation that ends the process, or has no meaning in C, stops with the reason.
\<close>

section \<open>Data\<close>

text \<open>A PHP value.  A double is its 64 bits; an array is the sequence of insertions made into it, each with its key, or without
  one for \<open>add_next_index_zval\<close>.\<close>

datatype zval = Null | Bool bool | Long int | Double "64 word" | Str string | Resource nat | Array "(string option \<times> zval) list"

datatype stop = Fatal string | Dangling | Null_pointer | Overread | Uninitialised | Not_a_string

text \<open>What the getters of SQLite return for one value: \<open>text\<close> and \<open>blob\<close> are the bytes at the pointer, if it is not null;
  a text has a terminator after its last byte, a blob has none.\<close>

record sqlite3_value =
  val_type :: int
  val_int :: int
  val_double :: "64 word"
  val_text :: "string option"
  val_blob :: "string option"

record php_sqlite3_resource =
  handle :: nat
  user_cb :: "string option"

record php_sqlite3_stmt_resource =
  sqlite3 :: nat
  stmt :: nat
  rsrc_id :: nat

record php_sqlite3_func_t =
  func_name :: string
  cb_name :: string
  cb_num_args :: int
  func_me :: nat

datatype bound = B_int int | B_double "64 word" | B_null | B_text string | B_blob string

datatype sql_call =
    S_open string | S_close nat | S_exec nat string bool | S_prepare nat string | S_step nat | S_finalize nat
  | S_bind nat int bound | S_create_function nat string int php_sqlite3_func_t

datatype le = Le_sqlite3 | Le_sqlite3_stmt

datatype call_result = Failure | Success "zval option"

record 'l world =
  rlist :: 'l
  dbs :: "nat \<rightharpoonup> php_sqlite3_resource"
  stmts :: "nat \<rightharpoonup> php_sqlite3_stmt_resource"
  next_addr :: nat
  pins :: "zval list"
  warnings :: "string list"
  sql_calls :: "sql_call list"

text \<open>The engine and the library.  \<open>answer\<close> is the result code of the last call of a history and \<open>new_handle\<close> the handle it
  created.  Steps and executions may run PHP code, so they act on the whole state.\<close>

record 'l php_env =
  parse :: "string \<Rightarrow> zval list \<Rightarrow> zval list option"
  rsrc_register :: "le \<Rightarrow> nat \<Rightarrow> 'l \<Rightarrow> nat \<times> 'l"
  rsrc_find :: "nat \<Rightarrow> 'l \<Rightarrow> (le \<times> nat) option"
  rsrc_delete :: "nat \<Rightarrow> 'l \<Rightarrow> (le \<times> nat) option \<times> 'l"
  call_user :: "string \<Rightarrow> zval list \<Rightarrow> 'l world \<Rightarrow> stop + call_result \<times> 'l world"
  answer :: "sql_call list \<Rightarrow> int"
  new_handle :: "sql_call list \<Rightarrow> nat"
  step :: "nat \<Rightarrow> 'l world \<Rightarrow> stop + int \<times> 'l world"
  exec_sql :: "nat \<Rightarrow> string \<Rightarrow> (string option list \<Rightarrow> string list \<Rightarrow> 'l world \<Rightarrow> stop + int \<times> 'l world) option \<Rightarrow> 'l world \<Rightarrow> stop + int \<times> 'l world"
  column_count :: "sql_call list \<Rightarrow> nat \<Rightarrow> nat"
  column_name :: "sql_call list \<Rightarrow> nat \<Rightarrow> int \<Rightarrow> string option"
  column :: "sql_call list \<Rightarrow> nat \<Rightarrow> int \<Rightarrow> sqlite3_value"
  errmsg :: "sql_call list \<Rightarrow> nat \<Rightarrow> string"
  changes :: "sql_call list \<Rightarrow> nat \<Rightarrow> int"
  last_insert_rowid :: "sql_call list \<Rightarrow> nat \<Rightarrow> int"
  libversion :: string

definition SQLITE_OK :: int where "SQLITE_OK = 0"
definition SQLITE_ERROR :: int where "SQLITE_ERROR = 1"
definition SQLITE_BUSY :: int where "SQLITE_BUSY = 5"
definition SQLITE_ROW :: int where "SQLITE_ROW = 100"
definition SQLITE_DONE :: int where "SQLITE_DONE = 101"
definition SQLITE_INTEGER :: int where "SQLITE_INTEGER = 1"
definition SQLITE_FLOAT :: int where "SQLITE_FLOAT = 2"
definition SQLITE_TEXT :: int where "SQLITE_TEXT = 3"
definition SQLITE_BLOB :: int where "SQLITE_BLOB = 4"
definition SQLITE_NULL :: int where "SQLITE_NULL = 5"

lemmas sqlite_codes [cdefs] = SQLITE_OK_def SQLITE_ERROR_def SQLITE_BUSY_def SQLITE_ROW_def SQLITE_DONE_def
lemmas sqlite_types [cdefs] = SQLITE_INTEGER_def SQLITE_FLOAT_def SQLITE_TEXT_def SQLITE_BLOB_def SQLITE_NULL_def

section \<open>Resources\<close>

definition sql :: "sql_call \<Rightarrow> 'l world \<Rightarrow> 'l world" where
  "sql c w = w\<lparr>sql_calls := sql_calls w @ [c]\<rparr>"

definition warn :: "string \<Rightarrow> 'l world \<Rightarrow> 'l world" where
  "warn m w = w\<lparr>warnings := warnings w @ [m]\<rparr>"

definition php_sqlite3_resource_destruction :: "nat \<Rightarrow> 'l world \<Rightarrow> stop + unit \<times> 'l world" where
  "php_sqlite3_resource_destruction p w =
     (case dbs w p of None \<Rightarrow> Inl Dangling
      | Some me \<Rightarrow> Inr ((), (sql (S_close (handle me)) w)\<lparr>dbs := (dbs w)(p := None)\<rparr>))"

definition php_sqlite3_stmt_resource_destruction :: "nat \<Rightarrow> 'l world \<Rightarrow> stop + unit \<times> 'l world" where
  "php_sqlite3_stmt_resource_destruction p w =
     (case stmts w p of None \<Rightarrow> Inl Dangling
      | Some me \<Rightarrow> Inr ((), (sql (S_finalize (stmt me)) w)\<lparr>stmts := (stmts w)(p := None)\<rparr>))"

text \<open>\<open>zend_list_delete\<close> with the destructors that \<open>PHP_MINIT\<close> registers.\<close>

definition destructor :: "le \<Rightarrow> nat \<Rightarrow> 'l world \<Rightarrow> stop + unit \<times> 'l world" where
  "destructor t = (case t of Le_sqlite3 \<Rightarrow> php_sqlite3_resource_destruction | Le_sqlite3_stmt \<Rightarrow> php_sqlite3_stmt_resource_destruction)"

definition list_delete :: "'l php_env \<Rightarrow> nat \<Rightarrow> 'l world \<Rightarrow> stop + unit \<times> 'l world" where
  "list_delete E i w =
     (case rsrc_delete E i (rlist w) of
        (None, l) \<Rightarrow> Inr ((), w\<lparr>rlist := l\<rparr>)
      | (Some (t, p), l) \<Rightarrow> destructor t p (w\<lparr>rlist := l\<rparr>))"

text \<open>A handle that is unknown or of the other kind makes the calling function return \<open>FALSE\<close>.\<close>

definition ZVAL_TO_S3_HANDLE :: "'l php_env \<Rightarrow> nat \<Rightarrow> 'l world \<Rightarrow> (nat \<Rightarrow> php_sqlite3_resource \<Rightarrow> stop + zval \<times> 'l world) \<Rightarrow> stop + zval \<times> 'l world" where
  "ZVAL_TO_S3_HANDLE E i w k =
     (case rsrc_find E i (rlist w) of
        Some (Le_sqlite3, p) \<Rightarrow> (case dbs w p of None \<Rightarrow> Inl Dangling | Some me \<Rightarrow> k p me)
      | _ \<Rightarrow> Inr (Bool False, w))"

definition ZVAL_TO_STMT :: "'l php_env \<Rightarrow> nat \<Rightarrow> 'l world \<Rightarrow> (nat \<Rightarrow> php_sqlite3_stmt_resource \<Rightarrow> stop + zval \<times> 'l world) \<Rightarrow> stop + zval \<times> 'l world" where
  "ZVAL_TO_STMT E i w k =
     (case rsrc_find E i (rlist w) of
        Some (Le_sqlite3_stmt, p) \<Rightarrow> (case stmts w p of None \<Rightarrow> Inl Dangling | Some me \<Rightarrow> k p me)
      | _ \<Rightarrow> Inr (Bool False, w))"

text \<open>C strings end at the first zero byte.  \<open>estrdup\<close> of a blob reads on until it finds one.\<close>

definition NUL :: char where "NUL = CHR 0x00"

definition cstring :: "string \<Rightarrow> string" where
  "cstring s = takeWhile (\<lambda>c. c \<noteq> NUL) s"

definition estrdup :: "string option \<Rightarrow> stop + string" where
  "estrdup s = (case s of None \<Rightarrow> Inl Null_pointer | Some s \<Rightarrow> Inr (cstring s))"

definition estrdup_blob :: "string option \<Rightarrow> stop + string" where
  "estrdup_blob b = (case b of None \<Rightarrow> Inl Null_pointer
     | Some b \<Rightarrow> if NUL \<in> set b then Inr (cstring b @ [NUL]) else Inl Overread)"

definition stringl :: "string \<Rightarrow> nat \<Rightarrow> stop + zval" where
  "stringl s n = (if n \<le> length s then Inr (Str (take n s)) else Inl Overread)"

section \<open>The exported functions\<close>

text \<open>In the order of the source.  \<open>WRONG_PARAM_COUNT\<close> and a failed \<open>zend_parse_parameters\<close> return with the value still
  \<open>NULL\<close>.\<close>

definition zif_sqlite3_libversion :: "'l php_env \<Rightarrow> zval list \<Rightarrow> 'l world \<Rightarrow> stop + zval \<times> 'l world" where
  "zif_sqlite3_libversion E args w = Inr (Str (cstring (libversion E)), w)"

definition zif_sqlite3_close :: "'l php_env \<Rightarrow> zval list \<Rightarrow> 'l world \<Rightarrow> stop + zval \<times> 'l world" where
  "zif_sqlite3_close E args w =
     (if length args \<noteq> 1 then Inr (Null, w)
      else case parse E ''r'' args of
        Some [Resource i] \<Rightarrow>
          ZVAL_TO_S3_HANDLE E i w (\<lambda>p me.
            let w = sql (S_close (handle me)) w; err = answer E (sql_calls w)
            in if err = SQLITE_OK then Inr (Bool True, w)
               else if err = SQLITE_BUSY
                    then Inr (Null, warn ''Closing a SQLite database with active query(ies) is not safe.'' w)
               else Inr (Bool False, w))
      | _ \<Rightarrow> Inr (Null, w))"

text \<open>\<open>zend_error\<close> with \<open>E_ERROR\<close> does not return.\<close>

definition zif_sqlite3_open :: "'l php_env \<Rightarrow> zval list \<Rightarrow> 'l world \<Rightarrow> stop + zval \<times> 'l world" where
  "zif_sqlite3_open E args w =
     (if length args \<noteq> 1 then Inr (Null, w)
      else case parse E ''s'' args of
        Some [Str dbpath] \<Rightarrow>
          let p = next_addr w;
              w = sql (S_open (cstring dbpath)) (w\<lparr>next_addr := p + 1\<rparr>);
              h = new_handle E (sql_calls w);
              w = w\<lparr>dbs := (dbs w)(p \<mapsto> \<lparr>handle = h, user_cb = None\<rparr>)\<rparr>
          in if answer E (sql_calls w) \<noteq> 0
             then Inl (Fatal (''Could not open database '' @ cstring dbpath @ '': '' @ cstring (errmsg E (sql_calls w) h)))
             else let (i, l) = rsrc_register E Le_sqlite3 p (rlist w) in Inr (Resource i, w\<lparr>rlist := l\<rparr>)
      | _ \<Rightarrow> Inr (Null, w))"

definition zif_sqlite3_error :: "'l php_env \<Rightarrow> zval list \<Rightarrow> 'l world \<Rightarrow> stop + zval \<times> 'l world" where
  "zif_sqlite3_error E args w =
     (if length args \<noteq> 1 then Inr (Null, w)
      else case parse E ''r'' args of
        Some [Resource i] \<Rightarrow> ZVAL_TO_S3_HANDLE E i w (\<lambda>p me. Inr (Str (cstring (errmsg E (sql_calls w) (handle me))), w))
      | _ \<Rightarrow> Inr (Null, w))"

text \<open>The callback of \<open>sqlite3_exec\<close>: the array named after the values is filled with the names, and the other way round.\<close>

fun add_strings :: "string option list \<Rightarrow> stop + (string option \<times> zval) list" where
  "add_strings [] = Inr []"
| "add_strings (s # ss) =
     (case s of None \<Rightarrow> Inl Null_pointer
      | Some s \<Rightarrow> (case add_strings ss of Inl e \<Rightarrow> Inl e | Inr a \<Rightarrow> Inr ((None, Str (cstring s)) # a)))"

definition php_sqlite3_callback :: "'l php_env \<Rightarrow> nat \<Rightarrow> string option list \<Rightarrow> string list \<Rightarrow> 'l world \<Rightarrow> stop + int \<times> 'l world" where
  "php_sqlite3_callback E p col_vals col_names w =
     (case dbs w p of None \<Rightarrow> Inl Dangling
      | Some me \<Rightarrow> (case user_cb me of None \<Rightarrow> Inl Null_pointer
      | Some cb \<Rightarrow> (case add_strings col_vals of Inl e \<Rightarrow> Inl e
      | Inr z_col_names \<Rightarrow> (case add_strings (map Some col_names) of Inl e \<Rightarrow> Inl e
      | Inr z_col_vals \<Rightarrow> (case call_user E cb [Array z_col_vals, Array z_col_names] w of Inl e \<Rightarrow> Inl e
      | Inr (Failure, w) \<Rightarrow>
          (case dbs w p of None \<Rightarrow> Inl Dangling
           | Some me \<Rightarrow> Inl (Fatal (''Function call to '' @ [CHR 0x27] @ (case user_cb me of None \<Rightarrow> [] | Some cb \<Rightarrow> cb) @ [CHR 0x27] @ '' failed'')))
      | Inr (Success None, w) \<Rightarrow> Inl Null_pointer
      | Inr (Success (Some v), w) \<Rightarrow> (case v of Long r \<Rightarrow> Inr (r, w) | _ \<Rightarrow> Inr (-1, w)))))))"

definition exec_result :: "stop + int \<times> 'l world \<Rightarrow> stop + zval \<times> 'l world" where
  "exec_result r = (case r of Inl e \<Rightarrow> Inl e | Inr (err, w) \<Rightarrow> Inr (Bool (err = 0), w))"

definition zif_sqlite3_exec :: "'l php_env \<Rightarrow> zval list \<Rightarrow> 'l world \<Rightarrow> stop + zval \<times> 'l world" where
  "zif_sqlite3_exec E args w =
     (if length args < 2 then Inr (Null, w)
      else case parse E ''rs|s'' args of
        Some (Resource i # Str q # opt) \<Rightarrow>
          ZVAL_TO_S3_HANDLE E i w (\<lambda>p me.
            if length args = 2
            then exec_result (exec_sql E (handle me) (cstring q) None (sql (S_exec (handle me) (cstring q) False) w))
            else if length args = 3
            then (case opt of
                    [Str cb] \<Rightarrow>
                      let w = w\<lparr>dbs := (dbs w)(p \<mapsto> me\<lparr>user_cb := Some (cstring cb)\<rparr>)\<rparr>
                      in exec_result (exec_sql E (handle me) (cstring q) (Some (php_sqlite3_callback E p))
                           (sql (S_exec (handle me) (cstring q) True) w))
                  | _ \<Rightarrow> Inr (Null, w))
            else Inr (Null, w))
      | _ \<Rightarrow> Inr (Null, w))"

text \<open>Binding.  A text or blob is bound without a copy; the reference taken for it is in \<open>pins\<close>.  The engine does not
  convert the value: \<open>Z_STRVAL_P\<close> of anything but a string is no pointer.\<close>

definition bind_sql :: "'l php_env \<Rightarrow> nat \<Rightarrow> int \<Rightarrow> bound \<Rightarrow> 'l world \<Rightarrow> stop + zval \<times> 'l world" where
  "bind_sql E s idx b w =
     (let w = sql (S_bind s idx b) w in Inr (Bool (answer E (sql_calls w) = SQLITE_OK), w))"

definition zif_sqlite3_bind_int :: "'l php_env \<Rightarrow> zval list \<Rightarrow> 'l world \<Rightarrow> stop + zval \<times> 'l world" where
  "zif_sqlite3_bind_int E args w =
     (if length args \<noteq> 3 then Inr (Null, w)
      else case parse E ''rll'' args of
        Some [Resource i, Long idx, Long v] \<Rightarrow> ZVAL_TO_STMT E i w (\<lambda>p st. bind_sql E (stmt st) idx (B_int v) w)
      | _ \<Rightarrow> Inr (Null, w))"

definition zif_sqlite3_bind_double :: "'l php_env \<Rightarrow> zval list \<Rightarrow> 'l world \<Rightarrow> stop + zval \<times> 'l world" where
  "zif_sqlite3_bind_double E args w =
     (if length args \<noteq> 3 then Inr (Null, w)
      else case parse E ''rld'' args of
        Some [Resource i, Long idx, Double v] \<Rightarrow> ZVAL_TO_STMT E i w (\<lambda>p st. bind_sql E (stmt st) idx (B_double v) w)
      | _ \<Rightarrow> Inr (Null, w))"

definition zif_sqlite3_bind_null :: "'l php_env \<Rightarrow> zval list \<Rightarrow> 'l world \<Rightarrow> stop + zval \<times> 'l world" where
  "zif_sqlite3_bind_null E args w =
     (if length args \<noteq> 2 then Inr (Null, w)
      else case parse E ''rl'' args of
        Some [Resource i, Long idx] \<Rightarrow> ZVAL_TO_STMT E i w (\<lambda>p st. bind_sql E (stmt st) idx B_null w)
      | _ \<Rightarrow> Inr (Null, w))"

definition bind_static :: "'l php_env \<Rightarrow> (string \<Rightarrow> bound) \<Rightarrow> zval list \<Rightarrow> 'l world \<Rightarrow> stop + zval \<times> 'l world" where
  "bind_static E B args w =
     (if length args \<noteq> 3 then Inr (Null, w)
      else case parse E ''rlz'' args of
        Some [Resource i, Long idx, z] \<Rightarrow>
          ZVAL_TO_STMT E i w (\<lambda>p st.
            let w = w\<lparr>pins := pins w @ [z]\<rparr>
            in case z of Str v \<Rightarrow> bind_sql E (stmt st) idx (B v) w | _ \<Rightarrow> Inl Not_a_string)
      | _ \<Rightarrow> Inr (Null, w))"

definition zif_sqlite3_bind_text :: "'l php_env \<Rightarrow> zval list \<Rightarrow> 'l world \<Rightarrow> stop + zval \<times> 'l world" where
  "zif_sqlite3_bind_text E = bind_static E B_text"

definition zif_sqlite3_bind_blob :: "'l php_env \<Rightarrow> zval list \<Rightarrow> 'l world \<Rightarrow> stop + zval \<times> 'l world" where
  "zif_sqlite3_bind_blob E = bind_static E B_blob"

text \<open>The structure of a statement that could not be prepared stays allocated.\<close>

definition zif_sqlite3_query :: "'l php_env \<Rightarrow> zval list \<Rightarrow> 'l world \<Rightarrow> stop + zval \<times> 'l world" where
  "zif_sqlite3_query E args w =
     (if length args \<noteq> 2 then Inr (Null, w)
      else case parse E ''rs'' args of
        Some [Resource i, Str q] \<Rightarrow>
          ZVAL_TO_S3_HANDLE E i w (\<lambda>p me.
            let a = next_addr w;
                w = sql (S_prepare (handle me) q) (w\<lparr>next_addr := a + 1\<rparr>);
                st = \<lparr>sqlite3 = p, stmt = new_handle E (sql_calls w), rsrc_id = 0\<rparr>
            in if answer E (sql_calls w) \<noteq> 0 then Inr (Bool False, w\<lparr>stmts := (stmts w)(a \<mapsto> st)\<rparr>)
               else let (j, l) = rsrc_register E Le_sqlite3_stmt a (rlist w)
                    in Inr (Resource j, w\<lparr>rlist := l, stmts := (stmts w)(a \<mapsto> st\<lparr>rsrc_id := j\<rparr>)\<rparr>))
      | _ \<Rightarrow> Inr (Null, w))"

text \<open>\<open>sqlite3_step\<close>, after which the caller may use the structure again: it must still be there.\<close>

definition stepped :: "'l php_env \<Rightarrow> php_sqlite3_stmt_resource \<Rightarrow> 'l world \<Rightarrow> (int \<Rightarrow> 'l world \<Rightarrow> stop + zval \<times> 'l world) \<Rightarrow> stop + zval \<times> 'l world" where
  "stepped E st w k = (case step E (stmt st) (sql (S_step (stmt st)) w) of Inl e \<Rightarrow> Inl e | Inr (err, w) \<Rightarrow> k err w)"

definition zif_sqlite3_query_exec :: "'l php_env \<Rightarrow> zval list \<Rightarrow> 'l world \<Rightarrow> stop + zval \<times> 'l world" where
  "zif_sqlite3_query_exec E args w =
     (if length args < 1 then Inr (Null, w)
      else case parse E ''r|b'' args of
        Some (Resource i # opt) \<Rightarrow>
          let dofree = (case opt of [Bool b] \<Rightarrow> b | _ \<Rightarrow> True)
          in ZVAL_TO_STMT E i w (\<lambda>p st. stepped E st w (\<lambda>err w.
               case (if dofree
                     then (case stmts w p of None \<Rightarrow> Inl Dangling | Some st \<Rightarrow> list_delete E (rsrc_id st) w)
                     else Inr ((), w)) of
                 Inl e \<Rightarrow> Inl e
               | Inr (_, w) \<Rightarrow> Inr (Bool (err = SQLITE_DONE \<or> err = SQLITE_ROW), w)))
      | _ \<Rightarrow> Inr (Null, w))"

section \<open>Fetching\<close>

definition column_zval :: "sqlite3_value \<Rightarrow> stop + zval" where
  "column_zval v =
     (if val_type v = SQLITE_INTEGER then Inr (Long (val_int v))
      else if val_type v = SQLITE_FLOAT then Inr (Double (val_double v))
      else if val_type v = SQLITE_TEXT then (case estrdup (val_text v) of Inl e \<Rightarrow> Inl e | Inr s \<Rightarrow> Inr (Str s))
      else if val_type v = SQLITE_BLOB
           then (case estrdup_blob (val_blob v) of Inl e \<Rightarrow> Inl e
                 | Inr s \<Rightarrow> stringl s (length (case val_blob v of None \<Rightarrow> [] | Some b \<Rightarrow> b)))
      else if val_type v = SQLITE_NULL then Inr Null
      else Inl Uninitialised)"

text \<open>A column of an unexpected type is warned about and inserted as a value whose type was never set: that is the stop
  \<open>Uninitialised\<close>.\<close>

datatype fetch_mode = FETCH_ASSOC | FETCH_INDEX

definition fetch_column :: "'l php_env \<Rightarrow> fetch_mode \<Rightarrow> sql_call list \<Rightarrow> nat \<Rightarrow> nat \<Rightarrow> stop + string option \<times> zval" where
  "fetch_column E mode h s col =
     (case column_zval (column E h s (int col)) of Inl e \<Rightarrow> Inl e
      | Inr v \<Rightarrow> (case mode of
          FETCH_ASSOC \<Rightarrow> (case estrdup (column_name E h s (int col)) of Inl e \<Rightarrow> Inl e | Inr n \<Rightarrow> Inr (Some n, v))
        | FETCH_INDEX \<Rightarrow> Inr (None, v)))"

fun fetch_columns :: "'l php_env \<Rightarrow> fetch_mode \<Rightarrow> sql_call list \<Rightarrow> nat \<Rightarrow> nat list \<Rightarrow> stop + (string option \<times> zval) list" where
  "fetch_columns E mode h s [] = Inr []"
| "fetch_columns E mode h s (col # cols) =
     (case fetch_column E mode h s col of Inl e \<Rightarrow> Inl e
      | Inr x \<Rightarrow> (case fetch_columns E mode h s cols of Inl e \<Rightarrow> Inl e | Inr xs \<Rightarrow> Inr (x # xs)))"

definition php_sqlite_fetch_result :: "'l php_env \<Rightarrow> php_sqlite3_stmt_resource \<Rightarrow> fetch_mode \<Rightarrow> 'l world \<Rightarrow> stop + zval \<times> 'l world" where
  "php_sqlite_fetch_result E st mode w =
     (case fetch_columns E mode (sql_calls w) (stmt st) [0..<column_count E (sql_calls w) (stmt st)] of
        Inl e \<Rightarrow> Inl e | Inr a \<Rightarrow> Inr (Array a, w))"

definition fetch_fn :: "'l php_env \<Rightarrow> fetch_mode \<Rightarrow> zval list \<Rightarrow> 'l world \<Rightarrow> stop + zval \<times> 'l world" where
  "fetch_fn E mode args w =
     (if length args \<noteq> 1 then Inr (Null, w)
      else case parse E ''r'' args of
        Some [Resource i] \<Rightarrow>
          ZVAL_TO_STMT E i w (\<lambda>p st. stepped E st w (\<lambda>err w.
            if err \<noteq> SQLITE_ROW then Inr (Bool False, w)
            else case stmts w p of None \<Rightarrow> Inl Dangling | Some st \<Rightarrow> php_sqlite_fetch_result E st mode w))
      | _ \<Rightarrow> Inr (Null, w))"

definition zif_sqlite3_fetch :: "'l php_env \<Rightarrow> zval list \<Rightarrow> 'l world \<Rightarrow> stop + zval \<times> 'l world" where
  "zif_sqlite3_fetch E = fetch_fn E FETCH_INDEX"

definition zif_sqlite3_fetch_array :: "'l php_env \<Rightarrow> zval list \<Rightarrow> 'l world \<Rightarrow> stop + zval \<times> 'l world" where
  "zif_sqlite3_fetch_array E = fetch_fn E FETCH_ASSOC"

definition zif_sqlite3_column_count :: "'l php_env \<Rightarrow> zval list \<Rightarrow> 'l world \<Rightarrow> stop + zval \<times> 'l world" where
  "zif_sqlite3_column_count E args w =
     (if length args \<noteq> 1 then Inr (Null, w)
      else case parse E ''r'' args of
        Some [Resource i] \<Rightarrow> ZVAL_TO_STMT E i w (\<lambda>p st. Inr (Long (int (column_count E (sql_calls w) (stmt st))), w))
      | _ \<Rightarrow> Inr (Null, w))"

definition zif_sqlite3_column_name :: "'l php_env \<Rightarrow> zval list \<Rightarrow> 'l world \<Rightarrow> stop + zval \<times> 'l world" where
  "zif_sqlite3_column_name E args w =
     (if length args \<noteq> 2 then Inr (Null, w)
      else case parse E ''rl'' args of
        Some [Resource i, Long col] \<Rightarrow>
          ZVAL_TO_STMT E i w (\<lambda>p st.
            case estrdup (column_name E (sql_calls w) (stmt st) col) of Inl e \<Rightarrow> Inl e | Inr n \<Rightarrow> Inr (Str n, w))
      | _ \<Rightarrow> Inr (Null, w))"

definition zif_sqlite3_column_type :: "'l php_env \<Rightarrow> zval list \<Rightarrow> 'l world \<Rightarrow> stop + zval \<times> 'l world" where
  "zif_sqlite3_column_type E args w =
     (if length args \<noteq> 2 then Inr (Null, w)
      else case parse E ''rl'' args of
        Some [Resource i, Long col] \<Rightarrow> ZVAL_TO_STMT E i w (\<lambda>p st. Inr (Long (val_type (column E (sql_calls w) (stmt st) col)), w))
      | _ \<Rightarrow> Inr (Null, w))"

definition zif_sqlite3_query_close :: "'l php_env \<Rightarrow> zval list \<Rightarrow> 'l world \<Rightarrow> stop + zval \<times> 'l world" where
  "zif_sqlite3_query_close E args w =
     (if length args \<noteq> 1 then Inr (Null, w)
      else case parse E ''r'' args of
        Some [Resource i] \<Rightarrow>
          ZVAL_TO_STMT E i w (\<lambda>p st.
            let w = sql (S_finalize (stmt st)) w; err = answer E (sql_calls w)
            in case list_delete E i w of Inl e \<Rightarrow> Inl e | Inr (_, w) \<Rightarrow> Inr (Bool (err = 0), w))
      | _ \<Rightarrow> Inr (Null, w))"

definition zif_sqlite3_last_insert_rowid :: "'l php_env \<Rightarrow> zval list \<Rightarrow> 'l world \<Rightarrow> stop + zval \<times> 'l world" where
  "zif_sqlite3_last_insert_rowid E args w =
     (if length args \<noteq> 1 then Inr (Null, w)
      else case parse E ''r'' args of
        Some [Resource i] \<Rightarrow> ZVAL_TO_S3_HANDLE E i w (\<lambda>p me. Inr (Long (to_int (last_insert_rowid E (sql_calls w) (handle me))), w))
      | _ \<Rightarrow> Inr (Null, w))"

definition zif_sqlite3_changes :: "'l php_env \<Rightarrow> zval list \<Rightarrow> 'l world \<Rightarrow> stop + zval \<times> 'l world" where
  "zif_sqlite3_changes E args w =
     (if length args \<noteq> 1 then Inr (Null, w)
      else case parse E ''r'' args of
        Some [Resource i] \<Rightarrow> ZVAL_TO_S3_HANDLE E i w (\<lambda>p me. Inr (Long (changes E (sql_calls w) (handle me)), w))
      | _ \<Rightarrow> Inr (Null, w))"

section \<open>SQL functions written in PHP\<close>

datatype sql_result = R_null | R_int int | R_double "64 word" | R_text string | R_error string

definition cb_param :: "sqlite3_value \<Rightarrow> stop + zval" where
  "cb_param v =
     (if val_type v = SQLITE_INTEGER then Inr (Long (val_int v))
      else if val_type v = SQLITE_FLOAT then Inr (Double (val_double v))
      else if val_type v = SQLITE_TEXT then (case estrdup (val_text v) of Inl e \<Rightarrow> Inl e | Inr s \<Rightarrow> Inr (Str s))
      else Inr Null)"

fun cb_params :: "sqlite3_value list \<Rightarrow> stop + zval list" where
  "cb_params [] = Inr []"
| "cb_params (v # vs) =
     (case cb_param v of Inl e \<Rightarrow> Inl e | Inr z \<Rightarrow> (case cb_params vs of Inl e \<Rightarrow> Inl e | Inr zs \<Rightarrow> Inr (z # zs)))"

definition return_sql :: "zval \<Rightarrow> sql_result" where
  "return_sql z = (case z of Null \<Rightarrow> R_null | Long i \<Rightarrow> R_int i | Double d \<Rightarrow> R_double d | Str s \<Rightarrow> R_text s
     | _ \<Rightarrow> R_error ''invalid return type.'')"

definition php_sqlite3_user_function_cb :: "'l php_env \<Rightarrow> php_sqlite3_func_t \<Rightarrow> sqlite3_value list \<Rightarrow> 'l world \<Rightarrow> stop + sql_result \<times> 'l world" where
  "php_sqlite3_user_function_cb E func vals w =
     (case cb_params vals of Inl e \<Rightarrow> Inl e
      | Inr zs \<Rightarrow> (case call_user E (cb_name func) zs w of Inl e \<Rightarrow> Inl e
        | Inr (Failure, w) \<Rightarrow> Inr (R_error ''function called failed.'', w)
        | Inr (Success None, w) \<Rightarrow> Inl Null_pointer
        | Inr (Success (Some z), w) \<Rightarrow> Inr (return_sql z, w)))"

definition zif_sqlite3_create_function :: "'l php_env \<Rightarrow> zval list \<Rightarrow> 'l world \<Rightarrow> stop + zval \<times> 'l world" where
  "zif_sqlite3_create_function E args w =
     (if length args \<noteq> 4 then Inr (Null, w)
      else case parse E ''rsls'' args of
        Some [Resource i, Str f, Long n, Str cb] \<Rightarrow>
          ZVAL_TO_S3_HANDLE E i w (\<lambda>p me.
            let func = \<lparr>func_name = cstring f, cb_name = cstring cb, cb_num_args = n, func_me = p\<rparr>;
                w = sql (S_create_function (handle me) (cstring f) n func) w
            in Inr (Bool (answer E (sql_calls w) \<noteq> SQLITE_ERROR), w))
      | _ \<Rightarrow> Inr (Null, w))"

section \<open>The function table\<close>

definition sqlite3_functions :: "'l php_env \<Rightarrow> (string \<times> (zval list \<Rightarrow> 'l world \<Rightarrow> stop + zval \<times> 'l world)) list" where
  "sqlite3_functions E =
     [(''sqlite3_libversion'', zif_sqlite3_libversion E), (''sqlite3_open'', zif_sqlite3_open E), (''sqlite3_close'', zif_sqlite3_close E),
      (''sqlite3_error'', zif_sqlite3_error E), (''sqlite3_exec'', zif_sqlite3_exec E), (''sqlite3_query'', zif_sqlite3_query E),
      (''sqlite3_changes'', zif_sqlite3_changes E), (''sqlite3_bind_int'', zif_sqlite3_bind_int E),
      (''sqlite3_bind_double'', zif_sqlite3_bind_double E), (''sqlite3_bind_text'', zif_sqlite3_bind_text E),
      (''sqlite3_bind_blob'', zif_sqlite3_bind_blob E), (''sqlite3_bind_null'', zif_sqlite3_bind_null E),
      (''sqlite3_query_exec'', zif_sqlite3_query_exec E), (''sqlite3_fetch'', zif_sqlite3_fetch E),
      (''sqlite3_fetch_array'', zif_sqlite3_fetch_array E), (''sqlite3_column_count'', zif_sqlite3_column_count E),
      (''sqlite3_column_name'', zif_sqlite3_column_name E), (''sqlite3_column_type'', zif_sqlite3_column_type E),
      (''sqlite3_query_close'', zif_sqlite3_query_close E), (''sqlite3_last_insert_rowid'', zif_sqlite3_last_insert_rowid E),
      (''sqlite3_create_function'', zif_sqlite3_create_function E)]"

text \<open>A script: calls of these functions, and variables that go away.\<close>

datatype cmd = Call string "zval list" | Release nat

definition run_cmd :: "'l php_env \<Rightarrow> cmd \<Rightarrow> 'l world \<Rightarrow> stop + zval \<times> 'l world" where
  "run_cmd E c w = (case c of
     Call f args \<Rightarrow> (case map_of (sqlite3_functions E) f of None \<Rightarrow> Inl (Fatal (''Call to undefined function '' @ f)) | Some g \<Rightarrow> g args w)
   | Release i \<Rightarrow> (case list_delete E i w of Inl e \<Rightarrow> Inl e | Inr (_, w) \<Rightarrow> Inr (Null, w)))"

fun run_script :: "'l php_env \<Rightarrow> cmd list \<Rightarrow> 'l world \<Rightarrow> stop + zval list \<times> 'l world" where
  "run_script E [] w = Inr ([], w)"
| "run_script E (c # cs) w = (case run_cmd E c w of Inl e \<Rightarrow> Inl e
     | Inr (v, w) \<Rightarrow> (case run_script E cs w of Inl e \<Rightarrow> Inl e | Inr (vs, w) \<Rightarrow> Inr (v # vs, w)))"

section \<open>What the engine and the library promise\<close>

text \<open>The resource list of the engine, seen through \<open>V\<close>: for each number the resource and its reference count.
  \<open>zend_list_delete\<close> hands the resource to its destructor when the last reference goes.\<close>

type_synonym 'l view = "'l \<Rightarrow> nat \<rightharpoonup> (le \<times> nat) \<times> nat"

definition zend_list :: "'l php_env \<Rightarrow> 'l view \<Rightarrow> bool" where
  "zend_list E V \<longleftrightarrow>
     (\<forall>i l. rsrc_find E i l = map_option fst (V l i)) \<and>
     (\<forall>t p l. V l (fst (rsrc_register E t p l)) = None \<and>
        V (snd (rsrc_register E t p l)) = (V l)(fst (rsrc_register E t p l) \<mapsto> ((t, p), 1))) \<and>
     (\<forall>i l. case V l i of
        None \<Rightarrow> fst (rsrc_delete E i l) = None \<and> V (snd (rsrc_delete E i l)) = V l
      | Some (r, n) \<Rightarrow>
          if n \<le> 1 then fst (rsrc_delete E i l) = Some r \<and> V (snd (rsrc_delete E i l)) = (V l)(i := None)
          else fst (rsrc_delete E i l) = None \<and> V (snd (rsrc_delete E i l)) = (V l)(i \<mapsto> (r, n - 1)))"

text \<open>The invariant: every resource in the list has its structure, no two share one, and memory above
  \<open>next_addr\<close> is unused.\<close>

definition has_struct :: "'l world \<Rightarrow> nat \<Rightarrow> le \<times> nat \<Rightarrow> bool" where
  "has_struct w i r = (case r of
     (Le_sqlite3, p) \<Rightarrow> dbs w p \<noteq> None
   | (Le_sqlite3_stmt, p) \<Rightarrow> map_option rsrc_id (stmts w p) = Some i)"

definition conforms :: "'l view \<Rightarrow> 'l world \<Rightarrow> bool" where
  "conforms V w \<longleftrightarrow>
     (\<forall>i r n. V (rlist w) i = Some (r, n) \<longrightarrow> has_struct w i r) \<and>
     (\<forall>i j r m n. V (rlist w) i = Some (r, m) \<and> V (rlist w) j = Some (r, n) \<longrightarrow> i = j) \<and>
     (\<forall>p\<ge>next_addr w. dbs w p = None \<and> stmts w p = None)"

text \<open>The PHP code that runs inside a call keeps the invariant and releases none of the structures the call works on.\<close>

definition extends :: "'l world \<Rightarrow> 'l world \<Rightarrow> bool" where
  "extends w w' \<longleftrightarrow> (\<forall>p. stmts w p \<noteq> None \<longrightarrow> stmts w' p = stmts w p) \<and> (\<forall>p. dbs w p \<noteq> None \<longrightarrow> dbs w' p \<noteq> None)"

definition harmless :: "'l view \<Rightarrow> 'l world \<Rightarrow> stop + 'a \<times> 'l world \<Rightarrow> bool" where
  "harmless V w r = (case r of Inl e \<Rightarrow> e \<noteq> Dangling | Inr (_, w') \<Rightarrow> conforms V w' \<and> extends w w')"

definition nested_calls_harmless :: "'l php_env \<Rightarrow> 'l view \<Rightarrow> bool" where
  "nested_calls_harmless E V \<longleftrightarrow>
     (\<forall>f args w. conforms V w \<longrightarrow> harmless V w (call_user E f args w)) \<and>
     (\<forall>s w. conforms V w \<longrightarrow> harmless V w (step E s w)) \<and>
     (\<forall>h q w. conforms V w \<longrightarrow> harmless V w (exec_sql E h q None w)) \<and>
     (\<forall>h q cb w. conforms V w \<and> (\<forall>vs ns w'. conforms V w' \<and> extends w w' \<longrightarrow> harmless V w' (cb vs ns w')) \<longrightarrow>
        harmless V w (exec_sql E h q (Some cb) w))"

section \<open>No function touches freed memory\<close>

definition safe :: "'l view \<Rightarrow> stop + 'a \<times> 'l world \<Rightarrow> bool" where
  "safe V r = (case r of Inl e \<Rightarrow> e \<noteq> Dangling | Inr (_, w) \<Rightarrow> conforms V w)"

lemma safe_simps [simp]: "safe V (Inl e) \<longleftrightarrow> e \<noteq> Dangling" "safe V (Inr (v, w)) \<longleftrightarrow> conforms V w"
  by (simp_all add: safe_def)

lemma safe_map: "safe V (case r of Inl e \<Rightarrow> Inl e | Inr (x, w) \<Rightarrow> Inr (g x, w)) = safe V r"
  by (simp add: safe_def split: sum.split)

lemma harmless_safe: "harmless V w r \<Longrightarrow> safe V r"
  by (auto simp: harmless_def safe_def split: sum.splits)

lemma conforms_frame [simp]:
  "conforms V (sql c w) = conforms V w" "conforms V (warn m w) = conforms V w" "conforms V (w\<lparr>pins := z\<rparr>) = conforms V w"
  by (simp_all add: conforms_def has_struct_def sql_def warn_def cong: prod.case_cong le.case_cong)

lemma sql_fields [simp]:
  "rlist (sql c w) = rlist w" "dbs (sql c w) = dbs w" "stmts (sql c w) = stmts w" "next_addr (sql c w) = next_addr w"
  "sql_calls (sql c w) = sql_calls w @ [c]" "pins (sql c w) = pins w" "warnings (sql c w) = warnings w"
  by (simp_all add: sql_def)

lemma conforms_struct: "conforms V w \<Longrightarrow> V (rlist w) i = Some (r, n) \<Longrightarrow> has_struct w i r"
  unfolding conforms_def by blast

lemma conforms_inj: "conforms V w \<Longrightarrow> V (rlist w) i = Some (r, m) \<Longrightarrow> V (rlist w) j = Some (r, n) \<Longrightarrow> i = j"
  unfolding conforms_def by blast

lemma conforms_fresh: "conforms V w \<Longrightarrow> next_addr w \<le> p \<Longrightarrow> dbs w p = None \<and> stmts w p = None"
  unfolding conforms_def by blast

lemma safe_handle:
  assumes "zend_list E V" "conforms V w"
    and "\<And>p me n. V (rlist w) i = Some ((Le_sqlite3, p), n) \<Longrightarrow> dbs w p = Some me \<Longrightarrow> safe V (k p me)"
  shows "safe V (ZVAL_TO_S3_HANDLE E i w k)"
proof -
  have "rsrc_find E i (rlist w) = map_option fst (V (rlist w) i)" using assms(1) by (simp add: zend_list_def)
  then show ?thesis using assms(2,3) conforms_struct[OF assms(2), of i]
    by (auto simp: ZVAL_TO_S3_HANDLE_def has_struct_def split: option.splits le.splits)
qed

lemma safe_stmt:
  assumes "zend_list E V" "conforms V w"
    and "\<And>p st n. V (rlist w) i = Some ((Le_sqlite3_stmt, p), n) \<Longrightarrow> stmts w p = Some st \<Longrightarrow> rsrc_id st = i \<Longrightarrow> safe V (k p st)"
  shows "safe V (ZVAL_TO_STMT E i w k)"
proof -
  have "rsrc_find E i (rlist w) = map_option fst (V (rlist w) i)" using assms(1) by (simp add: zend_list_def)
  then show ?thesis using assms(2,3) conforms_struct[OF assms(2), of i]
    by (auto simp: ZVAL_TO_STMT_def has_struct_def split: option.splits le.splits)
qed

text \<open>Deleting a resource: a structure is freed together with the only entry that names it.\<close>

lemma has_struct_rlist [simp]: "has_struct (w\<lparr>rlist := l\<rparr>) i r = has_struct w i r"
  by (simp add: has_struct_def split: prod.split le.split)

lemma conforms_sublist:
  assumes c: "conforms V w" and sub: "\<And>j r n. V l j = Some (r, n) \<Longrightarrow> \<exists>m. V (rlist w) j = Some (r, m)"
  shows "conforms V (w\<lparr>rlist := l\<rparr>)"
proof -
  have "has_struct w i r" if "V l i = Some (r, n)" for i r n
    using sub[OF that] conforms_struct[OF c] by blast
  moreover have "i = j" if "V l i = Some (r, m)" "V l j = Some (r, n)" for i j r m n
    using sub[OF that(1)] sub[OF that(2)] conforms_inj[OF c] by blast
  ultimately show ?thesis using conforms_fresh[OF c] unfolding conforms_def by simp
qed

lemma conforms_free:
  assumes c: "conforms V w"
  shows "(\<And>j n. V (rlist w) j \<noteq> Some ((Le_sqlite3, p), n)) \<Longrightarrow> conforms V (w\<lparr>dbs := (dbs w)(p := None)\<rparr>)"
    and "(\<And>j n. V (rlist w) j \<noteq> Some ((Le_sqlite3_stmt, p), n)) \<Longrightarrow> conforms V (w\<lparr>stmts := (stmts w)(p := None)\<rparr>)"
proof -
  show "conforms V (w\<lparr>dbs := (dbs w)(p := None)\<rparr>)" if n: "\<And>j n. V (rlist w) j \<noteq> Some ((Le_sqlite3, p), n)"
  proof -
    have "has_struct (w\<lparr>dbs := (dbs w)(p := None)\<rparr>) i r" if "V (rlist w) i = Some (r, m)" for i r m
      using conforms_struct[OF c that] n[of i m] that by (cases r; cases "fst r") (auto simp: has_struct_def)
    then show ?thesis using conforms_inj[OF c] conforms_fresh[OF c] unfolding conforms_def by auto
  qed
  show "conforms V (w\<lparr>stmts := (stmts w)(p := None)\<rparr>)" if n: "\<And>j n. V (rlist w) j \<noteq> Some ((Le_sqlite3_stmt, p), n)"
  proof -
    have "has_struct (w\<lparr>stmts := (stmts w)(p := None)\<rparr>) i r" if "V (rlist w) i = Some (r, m)" for i r m
      using conforms_struct[OF c that] n[of i m] that by (cases r; cases "fst r") (auto simp: has_struct_def)
    then show ?thesis using conforms_inj[OF c] conforms_fresh[OF c] unfolding conforms_def by auto
  qed
qed

lemma sql_dbs [simp]: "(sql c w)\<lparr>dbs := d\<rparr> = sql c (w\<lparr>dbs := d\<rparr>)" "(sql c w)\<lparr>stmts := s\<rparr> = sql c (w\<lparr>stmts := s\<rparr>)"
  by (simp_all add: sql_def)

lemma safe_destructor:
  assumes "conforms V w" "has_struct w i (t, p)" "\<And>j n. V (rlist w) j \<noteq> Some ((t, p), n)"
  shows "safe V (destructor t p w)"
  using assms conforms_free[OF assms(1), of p]
  by (cases t) (auto simp: destructor_def has_struct_def php_sqlite3_resource_destruction_def php_sqlite3_stmt_resource_destruction_def split: option.splits)

lemma safe_list_delete:
  assumes "zend_list E V" "conforms V w"
  shows "safe V (list_delete E i w)"
proof -
  obtain x l where d: "rsrc_delete E i (rlist w) = (x, l)" by fastforce
  have "case V (rlist w) i of None \<Rightarrow> fst (rsrc_delete E i (rlist w)) = None \<and> V (snd (rsrc_delete E i (rlist w))) = V (rlist w)
      | Some (r, n) \<Rightarrow> if n \<le> 1 then fst (rsrc_delete E i (rlist w)) = Some r \<and> V (snd (rsrc_delete E i (rlist w))) = (V (rlist w))(i := None)
          else fst (rsrc_delete E i (rlist w)) = None \<and> V (snd (rsrc_delete E i (rlist w))) = (V (rlist w))(i \<mapsto> (r, n - 1))"
    using assms(1) unfolding zend_list_def by blast
  then have doc: "case V (rlist w) i of None \<Rightarrow> x = None \<and> V l = V (rlist w)
      | Some (r, n) \<Rightarrow> if n \<le> 1 then x = Some r \<and> V l = (V (rlist w))(i := None) else x = None \<and> V l = (V (rlist w))(i \<mapsto> (r, n - 1))"
    by (simp only: d fst_conv snd_conv)
  have c: "conforms V (w\<lparr>rlist := l\<rparr>)"
    by (rule conforms_sublist[OF assms(2)]) (use doc in \<open>auto split: option.splits if_splits\<close>)
  show ?thesis
  proof (cases x)
    case None then show ?thesis using c by (simp add: list_delete_def d)
  next
    case (Some r)
    then obtain n where V: "V (rlist w) i = Some (r, n)" "V l = (V (rlist w))(i := None)"
      using doc by (auto split: option.splits if_splits)
    have "V l j \<noteq> Some (r, m)" for j m using V(2) conforms_inj[OF assms(2) V(1), of j m] by auto
    then show ?thesis using safe_destructor[OF c, of i "fst r" "snd r"] conforms_struct[OF assms(2) V(1)]
      by (cases r) (simp add: list_delete_def d Some)
  qed
qed

text \<open>Registering a new structure.\<close>

lemma conforms_register:
  assumes "zend_list E V" "conforms V w" "rsrc_register E t p l = (i, l')" "l = rlist w" "p = next_addr w"
    and u: "next_addr u = p + 1" "rlist u = l'" "has_struct u i (t, p)"
      "\<And>q. q \<noteq> p \<Longrightarrow> dbs u q = dbs w q \<and> stmts u q = stmts w q"
  shows "conforms V u"
proof -
  have r: "V l i = None" "V l' = (V l)(i \<mapsto> ((t, p), 1))"
    using assms(1,3) unfolding zend_list_def by (metis fst_conv snd_conv)+
  have old: "q \<noteq> p" if "V (rlist w) j = Some ((s, q), n)" for j s q n
    using conforms_struct[OF assms(2) that] conforms_fresh[OF assms(2), of p] assms(5) by (cases s) (auto simp: has_struct_def)
  have "has_struct u j (s, q)" if "V l' j = Some ((s, q), n)" for j s q n
  proof (cases "j = i")
    case False
    with that r assms(4) have V: "V (rlist w) j = Some ((s, q), n)" by simp
    show ?thesis using conforms_struct[OF assms(2) V] u(4)[OF old[OF V]] by (cases s) (simp_all add: has_struct_def)
  qed (use that r u(3) in simp)
  moreover have "j = k" if "V l' j = Some ((s, q), m)" "V l' k = Some ((s, q), n)" for j k s q m n
    using that r assms(4) old conforms_inj[OF assms(2)] by (auto split: if_splits)
  moreover have "dbs u q = None \<and> stmts u q = None" if "next_addr u \<le> q" for q
    using that u conforms_fresh[OF assms(2), of q] assms(5) by auto
  ultimately show ?thesis using u(2) unfolding conforms_def by (metis surj_pair)
qed

text \<open>Every function of the table.\<close>

lemma safe_args:
  "conforms V w \<Longrightarrow> (\<And>i. args = Some [Resource i] \<Longrightarrow> safe V (f i)) \<Longrightarrow>
     safe V (case args of Some [Resource i] \<Rightarrow> f i | _ \<Rightarrow> Inr (Null, w))"
  by (auto split: option.splits list.splits zval.splits)

lemma safe_args2:
  "conforms V w \<Longrightarrow> (\<And>i n. args = Some [Resource i, Long n] \<Longrightarrow> safe V (f i n)) \<Longrightarrow>
     safe V (case args of Some [Resource i, Long n] \<Rightarrow> f i n | _ \<Rightarrow> Inr (Null, w))"
  by (auto split: option.splits list.splits zval.splits)

lemma safe_close: "zend_list E V \<Longrightarrow> conforms V w \<Longrightarrow> safe V (zif_sqlite3_close E args w)"
  unfolding zif_sqlite3_close_def by (auto intro!: safe_args safe_handle simp: Let_def)

lemma safe_error: "zend_list E V \<Longrightarrow> conforms V w \<Longrightarrow> safe V (zif_sqlite3_error E args w)"
  unfolding zif_sqlite3_error_def by (auto intro!: safe_args safe_handle simp: Let_def)

lemma safe_changes: "zend_list E V \<Longrightarrow> conforms V w \<Longrightarrow> safe V (zif_sqlite3_changes E args w)"
  unfolding zif_sqlite3_changes_def by (auto intro!: safe_args safe_handle)

lemma safe_rowid: "zend_list E V \<Longrightarrow> conforms V w \<Longrightarrow> safe V (zif_sqlite3_last_insert_rowid E args w)"
  unfolding zif_sqlite3_last_insert_rowid_def by (auto intro!: safe_args safe_handle)

lemma safe_column_count: "zend_list E V \<Longrightarrow> conforms V w \<Longrightarrow> safe V (zif_sqlite3_column_count E args w)"
  unfolding zif_sqlite3_column_count_def by (auto intro!: safe_args safe_stmt)

lemma safe_column_type: "zend_list E V \<Longrightarrow> conforms V w \<Longrightarrow> safe V (zif_sqlite3_column_type E args w)"
  unfolding zif_sqlite3_column_type_def by (auto intro!: safe_args2 safe_stmt)

lemma estrdup_stop: "estrdup s = Inl e \<Longrightarrow> e = Null_pointer"
  by (simp add: estrdup_def split: option.splits)

lemma safe_column_name: "zend_list E V \<Longrightarrow> conforms V w \<Longrightarrow> safe V (zif_sqlite3_column_name E args w)"
  unfolding zif_sqlite3_column_name_def by (auto intro!: safe_args2 safe_stmt dest: estrdup_stop split: sum.split)

lemma safe_query_close: "zend_list E V \<Longrightarrow> conforms V w \<Longrightarrow> safe V (zif_sqlite3_query_close E args w)"
  unfolding zif_sqlite3_query_close_def
  by (auto intro!: safe_args safe_stmt safe_list_delete simp: Let_def safe_map)

lemma safe_bind_sql [simp]: "safe V (bind_sql E s idx b w) = conforms V w"
  by (simp add: bind_sql_def Let_def)

lemma safe_bind_null: "zend_list E V \<Longrightarrow> conforms V w \<Longrightarrow> safe V (zif_sqlite3_bind_null E args w)"
  unfolding zif_sqlite3_bind_null_def by (auto intro!: safe_args2 safe_stmt)

lemma safe_bind_int: "zend_list E V \<Longrightarrow> conforms V w \<Longrightarrow> safe V (zif_sqlite3_bind_int E args w)"
  unfolding zif_sqlite3_bind_int_def by (auto intro!: safe_stmt split: option.split list.split zval.split)

lemma safe_bind_double: "zend_list E V \<Longrightarrow> conforms V w \<Longrightarrow> safe V (zif_sqlite3_bind_double E args w)"
  unfolding zif_sqlite3_bind_double_def by (auto intro!: safe_stmt split: option.split list.split zval.split)

lemma safe_bind_static: "zend_list E V \<Longrightarrow> conforms V w \<Longrightarrow> safe V (bind_static E B args w)"
  unfolding bind_static_def Let_def by (auto intro!: safe_stmt split: option.split list.split zval.split)

lemma safe_create_function: "zend_list E V \<Longrightarrow> conforms V w \<Longrightarrow> safe V (zif_sqlite3_create_function E args w)"
  unfolding zif_sqlite3_create_function_def Let_def by (auto intro!: safe_handle split: option.split list.split zval.split)

lemma safe_open:
  assumes "zend_list E V" "conforms V w"
  shows "safe V (zif_sqlite3_open E args w)"
proof -
  let ?u = "\<lambda>q h l. w\<lparr>next_addr := next_addr w + 1, sql_calls := sql_calls w @ [S_open q], dbs := (dbs w)(next_addr w \<mapsto> \<lparr>handle = h, user_cb = None\<rparr>), rlist := l\<rparr>"
  have "conforms V (?u q h l)" if "rsrc_register E Le_sqlite3 (next_addr w) (rlist w) = (i, l)" for q h i l
    by (rule conforms_register[OF assms that refl refl]) (simp_all add: has_struct_def)
  then show ?thesis using assms(2)
    by (auto simp: zif_sqlite3_open_def Let_def sql_def split: option.split list.split zval.split prod.split)
qed

lemma safe_query:
  assumes "zend_list E V" "conforms V w"
  shows "safe V (zif_sqlite3_query E args w)"
proof -
  let ?u = "\<lambda>q st l. w\<lparr>next_addr := next_addr w + 1, sql_calls := sql_calls w @ [q], rlist := l, stmts := (stmts w)(next_addr w \<mapsto> st)\<rparr>"
  have ok: "conforms V (?u q \<lparr>sqlite3 = p, stmt = s, rsrc_id = i\<rparr> l)"
    if "rsrc_register E Le_sqlite3_stmt (next_addr w) (rlist w) = (i, l)" for q p s i l
    by (rule conforms_register[OF assms that refl refl]) (simp_all add: has_struct_def)
  have failed: "conforms V (w\<lparr>next_addr := next_addr w + 1, sql_calls := h, stmts := (stmts w)(next_addr w \<mapsto> st)\<rparr>)" for h st
  proof -
    have "has_struct (w\<lparr>next_addr := next_addr w + 1, sql_calls := h, stmts := (stmts w)(next_addr w \<mapsto> st)\<rparr>) i r" if "V (rlist w) i = Some (r, n)" for i r n
      using conforms_struct[OF assms(2) that] conforms_fresh[OF assms(2), of "next_addr w"]
      by (cases r; cases "fst r") (auto simp: has_struct_def)
    then show ?thesis using conforms_inj[OF assms(2)] conforms_fresh[OF assms(2)] by (auto simp: conforms_def)
  qed
  show ?thesis
    unfolding zif_sqlite3_query_def using assms ok failed
    by (auto intro!: safe_handle simp: Let_def sql_def split: option.split list.split zval.split prod.split)
qed

lemma harmless_stmt: "harmless V w (Inr (x, w')) \<Longrightarrow> stmts w p = Some st \<Longrightarrow> stmts w' p = Some st"
  by (simp add: harmless_def extends_def)

lemma safe_stepped:
  assumes "nested_calls_harmless E V" "conforms V w" "stmts w p = Some st"
    and "\<And>err w'. conforms V w' \<Longrightarrow> stmts w' p = Some st \<Longrightarrow> safe V (k err w')"
  shows "safe V (stepped E st w k)"
proof -
  have h: "harmless V (sql (S_step (stmt st)) w) (step E (stmt st) (sql (S_step (stmt st)) w))"
    using assms(1,2) by (simp add: nested_calls_harmless_def)
  show ?thesis
  proof (cases "step E (stmt st) (sql (S_step (stmt st)) w)")
    case (Inr r)
    then show ?thesis using h assms(3,4) by (cases r) (auto simp: stepped_def harmless_def extends_def)
  qed (use h in \<open>simp add: stepped_def harmless_def\<close>)
qed

lemma safe_query_exec:
  assumes "zend_list E V" "nested_calls_harmless E V" "conforms V w"
  shows "safe V (zif_sqlite3_query_exec E args w)"
proof -
  have s: "safe V (ZVAL_TO_STMT E i w (\<lambda>p st. stepped E st w (\<lambda>err w.
               case (if dofree
                     then (case stmts w p of None \<Rightarrow> Inl Dangling | Some st \<Rightarrow> list_delete E (rsrc_id st) w)
                     else Inr ((), w)) of
                 Inl e \<Rightarrow> Inl e
               | Inr (_, w) \<Rightarrow> Inr (Bool (err = SQLITE_DONE \<or> err = SQLITE_ROW), w))))" for i dofree
    by (intro safe_stmt[OF assms(1,3)] safe_stepped[OF assms(2,3)]) (auto simp: safe_map intro: safe_list_delete[OF assms(1)])
  show ?thesis using assms(3) s s[of _ True, simplified] s[of _ False, simplified]
    by (auto simp: zif_sqlite3_query_exec_def Let_def split: option.split list.split zval.split)
qed

lemma column_stop: "fetch_column E m h s c = Inl e \<Longrightarrow> e \<noteq> Dangling"
  by (auto simp: fetch_column_def column_zval_def estrdup_def estrdup_blob_def stringl_def split: sum.splits option.splits if_splits fetch_mode.splits)

lemma columns_stop: "fetch_columns E m h s cs = Inl e \<Longrightarrow> e \<noteq> Dangling"
  by (induction cs) (auto split: sum.splits dest: column_stop)

lemma safe_fetch:
  assumes "zend_list E V" "nested_calls_harmless E V" "conforms V w"
  shows "safe V (fetch_fn E m args w)"
proof -
  have "safe V (ZVAL_TO_STMT E i w (\<lambda>p st. stepped E st w (\<lambda>err w.
            if err \<noteq> SQLITE_ROW then Inr (Bool False, w)
            else case stmts w p of None \<Rightarrow> Inl Dangling | Some st \<Rightarrow> php_sqlite_fetch_result E st m w)))" for i
    by (intro safe_stmt[OF assms(1,3)] safe_stepped[OF assms(2,3)])
      (auto simp: php_sqlite_fetch_result_def dest: columns_stop split: sum.split)
  then show ?thesis using assms(3) by (auto simp: fetch_fn_def intro: safe_args)
qed

lemma strings_stop: "add_strings ss = Inl e \<Longrightarrow> e = Null_pointer"
  by (induction ss) (auto split: option.splits sum.splits)

lemma harmless_callback:
  assumes "nested_calls_harmless E V" "conforms V w" "dbs w p \<noteq> None"
  shows "harmless V w (php_sqlite3_callback E p vs ns w)"
proof -
  have h: "harmless V w (call_user E f args w)" for f args using assms(1,2) by (simp add: nested_calls_harmless_def)
  show ?thesis
  proof (cases "\<exists>cb a b. user_cb (the (dbs w p)) = Some cb \<and> add_strings vs = Inr a \<and> add_strings (map Some ns) = Inr b")
    case True
    then obtain cb a b where "user_cb (the (dbs w p)) = Some cb" "add_strings vs = Inr a" "add_strings (map Some ns) = Inr b" by blast
    then show ?thesis using assms(3) h[of cb "[Array b, Array a]"]
      by (auto simp: php_sqlite3_callback_def harmless_def extends_def split: sum.splits call_result.splits option.splits zval.splits)
  next
    case False
    then show ?thesis using assms(3)
      by (auto simp: php_sqlite3_callback_def harmless_def split: sum.splits option.splits dest: strings_stop)
  qed
qed

lemma exec_result_safe: "safe V r \<Longrightarrow> safe V (exec_result r)"
  by (auto simp: exec_result_def split: sum.split)

lemma conforms_user_cb:
  assumes "conforms V w" "dbs w p = Some me"
  shows "conforms V (w\<lparr>dbs := (dbs w)(p \<mapsto> me')\<rparr>)"
proof -
  have "has_struct (w\<lparr>dbs := (dbs w)(p \<mapsto> me')\<rparr>) i r" if "V (rlist w) i = Some (r, n)" for i r n
    using conforms_struct[OF assms(1) that] by (cases r; cases "fst r") (auto simp: has_struct_def)
  then show ?thesis
    using conforms_inj[OF assms(1)] conforms_fresh[OF assms(1)] assms(2) by (auto simp: conforms_def)
qed

lemma safe_exec_sql:
  assumes "nested_calls_harmless E V" "conforms V w"
  shows "safe V (exec_sql E h q None w)"
    and "dbs w p \<noteq> None \<Longrightarrow> safe V (exec_sql E h q (Some (php_sqlite3_callback E p)) w)"
proof -
  show "safe V (exec_sql E h q None w)"
    using assms unfolding nested_calls_harmless_def by (blast intro: harmless_safe)
  assume p: "dbs w p \<noteq> None"
  have "harmless V w' (php_sqlite3_callback E p vs ns w')" if "conforms V w'" "extends w w'" for vs ns w'
    using that p harmless_callback[OF assms(1)] by (simp add: extends_def)
  then show "safe V (exec_sql E h q (Some (php_sqlite3_callback E p)) w)"
    using assms unfolding nested_calls_harmless_def by (blast intro: harmless_safe)
qed

lemma safe_exec:
  assumes "zend_list E V" "nested_calls_harmless E V" "conforms V w"
  shows "safe V (zif_sqlite3_exec E args w)"
proof -
  have "safe V (exec_result (exec_sql E h q None (sql c w)))" for h q c
    using assms(3) by (intro exec_result_safe safe_exec_sql[OF assms(2)]) simp
  moreover have "safe V (exec_result (exec_sql E h q (Some (php_sqlite3_callback E p)) (sql c (w\<lparr>dbs := (dbs w)(p \<mapsto> me')\<rparr>))))"
    if "dbs w p = Some me" for h q c p me me'
    using conforms_user_cb[OF assms(3) that] by (intro exec_result_safe safe_exec_sql[OF assms(2)]) simp_all
  ultimately show ?thesis using assms(3) unfolding zif_sqlite3_exec_def
    by (auto intro!: safe_handle[OF assms(1)] simp: Let_def split: option.split list.split zval.split)
qed

lemma safe_functions:
  assumes "zend_list E V" "nested_calls_harmless E V" "conforms V w" "(f, g) \<in> set (sqlite3_functions E)"
  shows "safe V (g args w)"
  using assms(4) unfolding sqlite3_functions_def
  by (auto simp: zif_sqlite3_libversion_def zif_sqlite3_fetch_def zif_sqlite3_fetch_array_def zif_sqlite3_bind_text_def
      zif_sqlite3_bind_blob_def
      intro: assms(3) safe_close[OF assms(1,3)] safe_error[OF assms(1,3)] safe_changes[OF assms(1,3)] safe_rowid[OF assms(1,3)]
        safe_column_count[OF assms(1,3)] safe_column_type[OF assms(1,3)] safe_column_name[OF assms(1,3)] safe_query_close[OF assms(1,3)]
        safe_bind_null[OF assms(1,3)] safe_bind_int[OF assms(1,3)] safe_bind_double[OF assms(1,3)] safe_bind_static[OF assms(1,3)]
        safe_create_function[OF assms(1,3)] safe_open[OF assms(1,3)] safe_query[OF assms(1,3)]
        safe_query_exec[OF assms(1,2,3)] safe_fetch[OF assms(1,2,3)] safe_exec[OF assms(1,2,3)])

lemma safe_run_cmd:
  assumes "zend_list E V" "nested_calls_harmless E V" "conforms V w"
  shows "safe V (run_cmd E c w)"
proof (cases c)
  case (Call f args)
  then show ?thesis
    by (auto simp: run_cmd_def split: option.split dest!: map_of_SomeD intro: safe_functions[OF assms])
next
  case (Release i)
  then show ?thesis using safe_list_delete[OF assms(1,3), of i] by (simp add: run_cmd_def safe_map)
qed

lemma safe_script:
  assumes "zend_list E V" "nested_calls_harmless E V"
  shows "conforms V w \<Longrightarrow> safe V (run_script E cs w)"
proof (induction cs arbitrary: w)
  case (Cons c cs)
  have s: "safe V (run_cmd E c w)" by (rule safe_run_cmd[OF assms Cons.prems])
  show ?case
  proof (cases "run_cmd E c w")
    case (Inr r)
    obtain v w' where r: "r = (v, w')" by fastforce
    then show ?thesis using Cons.IH[of w'] s Inr safe_map[of V "\<lambda>vs. v # vs" "run_script E cs w'"] by simp
  qed (use s in simp)
qed simp

section \<open>Rows reach the script\<close>

text \<open>The documented getters: an integer is read by its low 32 bits, an empty blob as a null pointer.\<close>

datatype sql_value = V_int int | V_float "64 word" | V_text string | V_blob string | V_null

definition presents :: "sqlite3_value \<Rightarrow> sql_value \<Rightarrow> bool" where
  "presents v x = (case x of
     V_int i \<Rightarrow> val_type v = SQLITE_INTEGER \<and> val_int v = to_int i
   | V_float d \<Rightarrow> val_type v = SQLITE_FLOAT \<and> val_double v = d
   | V_text s \<Rightarrow> val_type v = SQLITE_TEXT \<and> val_text v = Some s
   | V_blob b \<Rightarrow> val_type v = SQLITE_BLOB \<and> val_blob v = (if b = [] then None else Some b)
   | V_null \<Rightarrow> val_type v = SQLITE_NULL)"

fun php_value :: "sql_value \<Rightarrow> zval" where
  "php_value (V_int i) = Long i"
| "php_value (V_float d) = Double d"
| "php_value (V_text s) = Str s"
| "php_value (V_blob b) = Str b"
| "php_value V_null = Null"

text \<open>The values that arrive unchanged: a text must not contain a zero byte, a blob must have exactly one, at its end.\<close>

fun carried :: "sql_value \<Rightarrow> bool" where
  "carried (V_int i) \<longleftrightarrow> to_int i = i"
| "carried (V_text s) \<longleftrightarrow> NUL \<notin> set s"
| "carried (V_blob b) \<longleftrightarrow> b \<noteq> [] \<and> last b = NUL \<and> NUL \<notin> set (butlast b)"
| "carried _ \<longleftrightarrow> True"

lemma cstring_id [simp]: "cstring s = s \<longleftrightarrow> NUL \<notin> set s"
  by (auto simp: cstring_def takeWhile_eq_all_conv)

lemma length_cstring: "length (cstring b) \<le> length b"
  by (simp add: cstring_def length_takeWhile_le)

lemma blob_carried:
  "(case estrdup_blob (Some b) of Inl e \<Rightarrow> Inl e | Inr s \<Rightarrow> stringl s (length b)) = Inr (Str b) \<longleftrightarrow> carried (V_blob b)"
proof (cases "NUL \<in> set b")
  case True
  then obtain xs ys where b: "b = xs @ NUL # ys" "NUL \<notin> set xs" by (metis split_list_first)
  then have c: "cstring b = xs" by (simp add: cstring_def takeWhile_append)
  have "carried (V_blob b) \<longleftrightarrow> ys = []" using b by (cases ys rule: rev_cases) (auto simp: butlast_append)
  then show ?thesis using True b c by (auto simp: estrdup_blob_def stringl_def)
next
  case False
  then have "\<not> carried (V_blob b)" by (metis carried.simps(3) last_in_set)
  then show ?thesis using False by (simp add: estrdup_blob_def)
qed

lemma column_carried:
  assumes "presents v x"
  shows "column_zval v = Inr (php_value x) \<longleftrightarrow> carried x"
proof (cases x)
  case (V_blob b)
  then show ?thesis using assms blob_carried[of b]
    by (cases "b = []"; cases "NUL \<in> set b") (simp_all add: presents_def column_zval_def sqlite_types estrdup_blob_def)
qed (use assms in \<open>auto simp: presents_def column_zval_def sqlite_types estrdup_def\<close>)

text \<open>A statement as a cursor: after the calls \<open>h\<close>, the \<open>n\<close>th step is on the \<open>n\<close>th row, until there are no more.\<close>

definition cursor :: "'l php_env \<Rightarrow> sql_call list \<Rightarrow> nat \<Rightarrow> string list \<Rightarrow> sql_value list list \<Rightarrow> bool" where
  "cursor E h s names rows \<longleftrightarrow>
     (\<forall>n w. sql_calls w = h @ replicate n (S_step s) \<and> 0 < n \<longrightarrow>
        step E s w = Inr (if n \<le> length rows then SQLITE_ROW else SQLITE_DONE, w) \<and>
        (n \<le> length rows \<longrightarrow> column_count E (sql_calls w) s = length names \<and>
           (\<forall>c<length names. presents (column E (sql_calls w) s (int c)) (rows ! (n - 1) ! c) \<and>
              column_name E (sql_calls w) s (int c) = Some (names ! c))))"

definition row_array :: "fetch_mode \<Rightarrow> string list \<Rightarrow> sql_value list \<Rightarrow> zval" where
  "row_array m names row = Array (map2 (\<lambda>n x. (case m of FETCH_ASSOC \<Rightarrow> Some n | FETCH_INDEX \<Rightarrow> None, php_value x)) names row)"

definition fetch_name :: "fetch_mode \<Rightarrow> string" where
  "fetch_name m = (case m of FETCH_ASSOC \<Rightarrow> ''sqlite3_fetch_array'' | FETCH_INDEX \<Rightarrow> ''sqlite3_fetch'')"

lemma fetch_columns_ok:
  "(\<And>c. c \<in> set cs \<Longrightarrow> fetch_column E m h s c = Inr (f c)) \<Longrightarrow> fetch_columns E m h s cs = Inr (map f cs)"
  by (induction cs) simp_all

lemma fetch_result_row:
  fixes E :: "'l php_env" and w :: "'l world"
  assumes cur: "cursor E h s names rows" and n: "0 < n" "n \<le> length rows" and w: "sql_calls w = h @ replicate n (S_step s)"
    and row: "length (rows ! (n - 1)) = length names" "list_all carried (rows ! (n - 1))" "list_all (\<lambda>x. NUL \<notin> set x) names"
  shows "fetch_columns E m (sql_calls w) s [0..<column_count E (sql_calls w) s] =
    Inr (map2 (\<lambda>n x. (case m of FETCH_ASSOC \<Rightarrow> Some n | FETCH_INDEX \<Rightarrow> None, php_value x)) names (rows ! (n - 1)))"
proof -
  let ?f = "\<lambda>c. (case m of FETCH_ASSOC \<Rightarrow> Some (names ! c) | FETCH_INDEX \<Rightarrow> None, php_value (rows ! (n - 1) ! c))"
  have q: "column_count E (sql_calls w) s = length names"
    and c: "\<And>c. c < length names \<Longrightarrow> presents (column E (sql_calls w) s (int c)) (rows ! (n - 1) ! c) \<and>
              column_name E (sql_calls w) s (int c) = Some (names ! c)"
    using cur[unfolded cursor_def, rule_format, OF conjI[OF w n(1)]] n(2) by simp_all
  have "fetch_column E m (sql_calls w) s c = Inr (?f c)" if "c < length names" for c
    using c[OF that] column_carried[of "column E (sql_calls w) s (int c)" "rows ! (n - 1) ! c"] row that
    by (cases m) (simp_all add: fetch_column_def estrdup_def list_all_length)
  then have "fetch_columns E m (sql_calls w) s [0..<length names] = Inr (map ?f [0..<length names])"
    by (intro fetch_columns_ok) simp
  moreover have "map ?f [0..<length names] = map2 (\<lambda>n x. (case m of FETCH_ASSOC \<Rightarrow> Some n | FETCH_INDEX \<Rightarrow> None, php_value x)) names (rows ! (n - 1))"
    using row(1) by (intro nth_equalityI) (simp_all add: nth_upt split: fetch_mode.split)
  ultimately show ?thesis using q by simp
qed

lemma fetch_fn_name: "map_of (sqlite3_functions E) (fetch_name m) = Some (fetch_fn E m)"
  by (cases m) (simp_all add: sqlite3_functions_def fetch_name_def zif_sqlite3_fetch_def zif_sqlite3_fetch_array_def)

lemma fetch_once:
  assumes cur: "cursor E h s names rows" and w: "sql_calls w = h @ replicate n (S_step s)"
    and res: "parse E ''r'' [Resource i] = Some [Resource i]" "rsrc_find E i (rlist w) = Some (Le_sqlite3_stmt, p)"
      "stmts w p = Some st" "stmt st = s"
    and rows: "list_all (\<lambda>r. length r = length names \<and> list_all carried r) rows" "list_all (\<lambda>x. NUL \<notin> set x) names"
  shows "run_cmd E (Call (fetch_name m) [Resource i]) w =
    Inr (if n < length rows then row_array m names (rows ! n) else Bool False, sql (S_step s) w)"
proof -
  have sn: "sql_calls (sql (S_step s) w) = h @ replicate (Suc n) (S_step s)"
    using w by (simp add: replicate_append_same)
  have st: "step E s (sql (S_step s) w) = Inr (if Suc n \<le> length rows then SQLITE_ROW else SQLITE_DONE, sql (S_step s) w)"
    using cur[unfolded cursor_def, rule_format, OF conjI[OF sn]] by simp
  have "fetch_columns E m (sql_calls (sql (S_step s) w)) s [0..<column_count E (sql_calls (sql (S_step s) w)) s] =
      Inr (map2 (\<lambda>n x. (case m of FETCH_ASSOC \<Rightarrow> Some n | FETCH_INDEX \<Rightarrow> None, php_value x)) names (rows ! n))" if "n < length rows"
    using fetch_result_row[OF cur _ _ sn, of m] that rows by (simp add: list_all_length)
  then show ?thesis
    using res st
    by (simp add: run_cmd_def fetch_fn_name fetch_fn_def ZVAL_TO_STMT_def stepped_def php_sqlite_fetch_result_def row_array_def sqlite_codes)
qed

lemma fetch_rest:
  assumes cur: "cursor E h s names rows"
    and parse: "parse E ''r'' [Resource i] = Some [Resource i]"
    and rows: "list_all (\<lambda>r. length r = length names \<and> list_all carried r) rows" "list_all (\<lambda>x. NUL \<notin> set x) names"
  shows "rsrc_find E i (rlist w) = Some (Le_sqlite3_stmt, p) \<Longrightarrow> stmts w p = Some st \<Longrightarrow> stmt st = s \<Longrightarrow>
    sql_calls w = h @ replicate n (S_step s) \<Longrightarrow> n + k = length rows \<Longrightarrow>
    run_script E (replicate (Suc k) (Call (fetch_name m) [Resource i])) w =
      Inr (map (row_array m names) (drop n rows) @ [Bool False], w\<lparr>sql_calls := h @ replicate (n + Suc k) (S_step s)\<rparr>)"
proof (induction k arbitrary: n w)
  case 0
  then show ?case using fetch_once[OF cur 0(4) parse 0(1,2,3) rows, of m]
    by (simp add: sql_def replicate_append_same)
next
  case (Suc k)
  have "drop n rows = rows ! n # drop (Suc n) rows" using Suc.prems(5) by (simp add: Cons_nth_drop_Suc)
  then show ?case
    using fetch_once[OF cur Suc.prems(4) parse Suc.prems(1,2,3) rows, of m] Suc.IH[of "sql (S_step s) w" "Suc n"] Suc.prems(1-4)
    by (simp add: replicate_append_same sql_def flip: Suc.prems(5))
qed

section \<open>Calls from the library\<close>

definition sql_image :: "zval \<Rightarrow> sql_value option" where
  "sql_image z = (case z of Null \<Rightarrow> Some V_null | Long i \<Rightarrow> Some (V_int i) | Double d \<Rightarrow> Some (V_float d) | Str s \<Rightarrow> Some (V_text s) | _ \<Rightarrow> None)"

fun result_value :: "sql_result \<Rightarrow> sql_value option" where
  "result_value R_null = Some V_null"
| "result_value (R_int i) = Some (V_int i)"
| "result_value (R_double d) = Some (V_float d)"
| "result_value (R_text s) = Some (V_text s)"
| "result_value (R_error m) = None"

lemma cb_param_carried:
  "presents v x \<Longrightarrow> carried x \<Longrightarrow> \<nexists>b. x = V_blob b \<Longrightarrow> cb_param v = Inr (php_value x)"
  "presents v (V_blob b) \<Longrightarrow> cb_param v = Inr Null"
  by (cases x) (auto simp: presents_def cb_param_def sqlite_types estrdup_def)

text \<open>An SQL function written in PHP gets its arguments, and the value it returns gets back; blobs arrive as
  \<open>NULL\<close>.\<close>

lemma user_function_call:
  assumes "list_all2 presents vals xs" "list_all (\<lambda>x. carried x \<and> (\<nexists>b. x = V_blob b)) xs"
    and "call_user E (cb_name func) (map php_value xs) w = Inr (Success (Some z), w')"
  shows "php_sqlite3_user_function_cb E func vals w = Inr (return_sql z, w') \<and> result_value (return_sql z) = sql_image z"
proof -
  have "cb_params vals = Inr (map php_value xs)"
    using assms(1,2) by (induction vals xs rule: list_all2_induct) (simp_all add: cb_param_carried(1))
  then show ?thesis using assms(3)
    by (simp add: php_sqlite3_user_function_cb_def return_sql_def sql_image_def split: zval.split)
qed

text \<open>The callback of \<open>sqlite3_exec\<close> gets the names of the columns first and the values second; a column that is
  \<open>NULL\<close> ends the process.\<close>

lemma add_strings_ok: "add_strings (map Some ss) = Inr (map (\<lambda>s. (None, Str (cstring s))) ss)"
  by (induction ss) simp_all

lemma exec_callback_swapped:
  assumes "dbs w p = Some me" "user_cb me = Some cb"
    and "call_user E cb [Array (map (\<lambda>s. (None, Str (cstring s))) names), Array (map (\<lambda>s. (None, Str (cstring s))) vals)] w =
      Inr (Success (Some (Long r)), w')"
  shows "php_sqlite3_callback E p (map Some vals) names w = Inr (r, w')"
  using assms by (simp add: php_sqlite3_callback_def add_strings_ok)

lemma exec_null_column:
  assumes "dbs w p = Some me" "None \<in> set vals"
  shows "php_sqlite3_callback E p vals names w = Inl Null_pointer"
proof -
  have "add_strings vals = Inl Null_pointer" using assms(2)
    by (induction vals) (auto split: option.split sum.split dest: strings_stop)
  then show ?thesis using assms(1) by (simp add: php_sqlite3_callback_def split: option.split)
qed

section \<open>Defects\<close>

text \<open>A blob without a zero byte exactly at its end is read past the end of a buffer.\<close>

lemma blob_overread:
  assumes "presents v (V_blob b)" "b \<noteq> []" "\<not> carried (V_blob b)"
  shows "column_zval v = Inl Overread"
proof (cases "NUL \<in> set b")
  case True
  then obtain xs ys where b: "b = xs @ NUL # ys" "NUL \<notin> set xs" by (metis split_list_first)
  then have "ys \<noteq> []" "cstring b = xs" using assms(3) by (auto simp: cstring_def takeWhile_append)
  then show ?thesis using assms(1,2) True b(1)
    by (simp add: presents_def column_zval_def sqlite_types estrdup_blob_def stringl_def)
qed (use assms(1,2) in \<open>simp add: presents_def column_zval_def sqlite_types estrdup_blob_def\<close>)

lemma zend_delete_last:
  "zend_list E V \<Longrightarrow> V l i = Some (r, 1) \<Longrightarrow> \<exists>l'. rsrc_delete E i l = (Some r, l') \<and> V l' = (V l)(i := None)"
  unfolding zend_list_def by (elim conjE, erule_tac x = i in allE)+ (auto simp: prod_eq_iff dest: spec[of _ l])

text \<open>\<open>sqlite3_query_close\<close> finalises the statement, and the destructor it triggers does so again.\<close>

lemma query_close_finalizes_twice:
  assumes z: "zend_list E V" and i: "V (rlist w) i = Some ((Le_sqlite3_stmt, p), 1)"
    and pa: "parse E ''r'' [Resource i] = Some [Resource i]" and st: "stmts w p = Some st"
  shows "\<exists>w'. zif_sqlite3_query_close E [Resource i] w = Inr (Bool (answer E (sql_calls w @ [S_finalize (stmt st)]) = 0), w') \<and>
    sql_calls w' = sql_calls w @ [S_finalize (stmt st), S_finalize (stmt st)]"
proof -
  obtain l' where d: "rsrc_delete E i (rlist w) = (Some (Le_sqlite3_stmt, p), l')" using zend_delete_last[OF z i] by blast
  have f: "rsrc_find E i (rlist w) = Some (Le_sqlite3_stmt, p)" using z i by (simp add: zend_list_def)
  show ?thesis using d f pa st
    by (simp add: zif_sqlite3_query_close_def ZVAL_TO_STMT_def list_delete_def destructor_def
        php_sqlite3_stmt_resource_destruction_def Let_def)
qed

text \<open>\<open>sqlite3_close\<close> leaves the resource in the list: when its variable goes away the same handle is closed again.\<close>

lemma closed_twice:
  assumes z: "zend_list E V" and i: "V (rlist w) i = Some ((Le_sqlite3, p), 1)"
    and pa: "parse E ''r'' [Resource i] = Some [Resource i]" and me: "dbs w p = Some me"
    and ok: "answer E (sql_calls w @ [S_close (handle me)]) = SQLITE_OK"
  shows "\<exists>w'. run_script E [Call ''sqlite3_close'' [Resource i], Release i] w = Inr ([Bool True, Null], w') \<and>
    sql_calls w' = sql_calls w @ [S_close (handle me), S_close (handle me)]"
proof -
  obtain l' where d: "rsrc_delete E i (rlist w) = (Some (Le_sqlite3, p), l')" using zend_delete_last[OF z i] by blast
  have f: "rsrc_find E i (rlist w) = Some (Le_sqlite3, p)" using z i by (simp add: zend_list_def)
  show ?thesis using d f pa me ok
    by (simp add: run_cmd_def sqlite3_functions_def zif_sqlite3_close_def ZVAL_TO_S3_HANDLE_def list_delete_def destructor_def
        php_sqlite3_resource_destruction_def Let_def)
qed

text \<open>An SQL function in PHP that closes the statement being fetched.\<close>

lemma fetch_after_nested_close:
  assumes "parse E ''r'' [Resource i] = Some [Resource i]" "rsrc_find E i (rlist w) = Some (Le_sqlite3_stmt, p)" "stmts w p = Some st"
    and "step E (stmt st) (sql (S_step (stmt st)) w) = Inr (SQLITE_ROW, w')" "stmts w' p = None"
  shows "zif_sqlite3_fetch E [Resource i] w = Inl Dangling"
  using assms by (simp add: zif_sqlite3_fetch_def fetch_fn_def ZVAL_TO_STMT_def stepped_def)

section \<open>Properties\<close>

text \<open>An engine and a library for the examples: one column with one row.\<close>

type_synonym demo_list = "(nat \<times> (le \<times> nat) \<times> nat) list"

definition demo_delete :: "nat \<Rightarrow> demo_list \<Rightarrow> (le \<times> nat) option \<times> demo_list" where
  "demo_delete i l = (case map_of l i of None \<Rightarrow> (None, l)
     | Some (r, n) \<Rightarrow> if n \<le> 1 then (Some r, filter (\<lambda>e. fst e \<noteq> i) l) else (None, (i, (r, n - 1)) # l))"

definition demo_register :: "le \<Rightarrow> nat \<Rightarrow> demo_list \<Rightarrow> nat \<times> demo_list" where
  "demo_register t p l = (let i = Suc (sum_list (map fst l)) in (i, (i, (t, p), 1) # l))"

definition demo_step :: "nat \<Rightarrow> demo_list world \<Rightarrow> stop + int \<times> demo_list world" where
  "demo_step s w = Inr (if length (filter (\<lambda>c. c = S_step s) (sql_calls w)) \<le> 1 then SQLITE_ROW else SQLITE_DONE, w)"

definition demo_env :: "demo_list php_env" where
  "demo_env = \<lparr>parse = \<lambda>spec args. Some args, rsrc_register = demo_register, rsrc_find = \<lambda>i l. map_option fst (map_of l i),
     rsrc_delete = demo_delete, call_user = \<lambda>f args w. Inr (Success (Some (Long 0)), w), answer = \<lambda>h. 0, new_handle = length,
     step = demo_step, exec_sql = \<lambda>h q cb w. (case cb of None \<Rightarrow> Inr (0, w) | Some f \<Rightarrow> f [Some ''7''] [''id''] w),
     column_count = \<lambda>h s. 1, column_name = \<lambda>h s c. Some ''id'',
     column = \<lambda>h s c. \<lparr>val_type = SQLITE_INTEGER, val_int = 7, val_double = 0, val_text = None, val_blob = None\<rparr>,
     errmsg = \<lambda>h d. [], changes = \<lambda>h d. 0, last_insert_rowid = \<lambda>h d. 0, libversion = ''3.2.27''\<rparr>"

definition demo_start :: "demo_list world" where
  "demo_start = \<lparr>rlist = [], dbs = Map.empty, stmts = Map.empty, next_addr = 0, pins = [], warnings = [], sql_calls = []\<rparr>"

lemma demo_register_fresh: "map_of l (Suc (sum_list (map fst l))) = None"
proof -
  have "x \<in> set l \<Longrightarrow> fst x \<le> sum_list (map fst l)" for x :: "nat \<times> 'a" and l
    by (simp add: member_le_sum_list)
  then show ?thesis by (fastforce simp: map_of_eq_None_iff)
qed

lemma demo_zend: "zend_list demo_env map_of"
  unfolding zend_list_def
proof (intro conjI allI)
  fix i and l :: demo_list
  have "map_of (filter (\<lambda>e. fst e \<noteq> i) l) = (map_of l)(i := None)"
    by (induction l) auto
  then show "case map_of l i of None \<Rightarrow> fst (rsrc_delete demo_env i l) = None \<and> map_of (snd (rsrc_delete demo_env i l)) = map_of l
      | Some (r, n) \<Rightarrow> if n \<le> 1 then fst (rsrc_delete demo_env i l) = Some r \<and> map_of (snd (rsrc_delete demo_env i l)) = (map_of l)(i := None)
          else fst (rsrc_delete demo_env i l) = None \<and> map_of (snd (rsrc_delete demo_env i l)) = (map_of l)(i \<mapsto> (r, n - 1))"
    by (auto simp: demo_env_def demo_delete_def split: option.split)
qed (simp_all add: demo_env_def demo_register_def Let_def demo_register_fresh)

lemma demo_harmless: "nested_calls_harmless demo_env V"
  by (auto simp: nested_calls_harmless_def demo_env_def demo_step_def harmless_def extends_def)

lemma demo_conforms: "conforms map_of demo_start"
  by (simp add: demo_start_def conforms_def)




definition demo_fetch :: "demo_list world" where
  "demo_fetch = demo_start\<lparr>rlist := [(2, (Le_sqlite3_stmt, 1), 1)], stmts := [1 \<mapsto> \<lparr>sqlite3 = 0, stmt = 2, rsrc_id = 2\<rparr>]\<rparr>"

lemma demo_cursor: "cursor demo_env [] 2 [''id''] [[V_int 7]]"
  by (auto simp: cursor_def demo_env_def demo_step_def presents_def to_int_small filter_replicate)


end
