(* ===== verification/Ip01.thy ===== *)
theory Ip01
  imports Wcfxs_Ctl Zapscan
begin

text \<open>
  What the variant for the IP01, under \<open>src/src/zaptel-ip01\<close>, changes: one line card that sits on the bus without a
  multiplexer, a LED on a pin of the processor, one poll of the card per interrupt, other countdowns, and other
  signalling.  \<open>bfsi.c\<close> and the initialisation of the cards are the same text as in the main drivers.  \<open>NUM_CARDS\<close> is 1, so
  the card is 0 and each array of the union \<open>mod\<close> is one word.
\<close>

section \<open>State and LED (fx.c)\<close>

record ip01 =
  drv_wc :: wc
  fio_dir :: u16
  fio_flag :: u16

definition on_wc :: "(wc \<Rightarrow> wc) \<Rightarrow> ip01 \<Rightarrow> ip01" where
  "on_wc f s = s\<lparr>drv_wc := f (drv_wc s)\<rparr>"

definition PF_FXS_LED :: nat where "PF_FXS_LED = 6"
definition PF_SYS_LED :: nat where "PF_SYS_LED = 7"
definition LED_OFF :: u32 where "LED_OFF = 0"
definition LED_ON :: u32 where "LED_ON = 1"
definition IP01_LED_RED :: u32 where "IP01_LED_RED = 1"
definition IP01_LED_GREEN :: u32 where "IP01_LED_GREEN = 1"

lemmas led_consts [cdefs] = PF_FXS_LED_def PF_SYS_LED_def LED_OFF_def LED_ON_def IP01_LED_RED_def IP01_LED_GREEN_def

text \<open>\<open>FIO_FLAG_S\<close> sets the pins of the mask, \<open>FIO_FLAG_C\<close> clears them.\<close>

definition ip01_FLAG_S :: "u16 \<Rightarrow> ip01 \<Rightarrow> ip01" where
  "ip01_FLAG_S m s = s\<lparr>fio_flag := fio_flag s OR m\<rparr>"

definition ip01_FLAG_C :: "u16 \<Rightarrow> ip01 \<Rightarrow> ip01" where
  "ip01_FLAG_C m s = s\<lparr>fio_flag := fio_flag s AND NOT m\<rparr>"

definition ip01_set_led :: "nat \<Rightarrow> u32 \<Rightarrow> ip01 \<Rightarrow> ip01" where
  "ip01_set_led port state s =
     (if LED_ON = state then ip01_FLAG_S (push_bit PF_FXS_LED 1) s else ip01_FLAG_C (push_bit PF_FXS_LED 1) s)"

definition ip01_read_fxo :: "env \<Rightarrow> nat \<Rightarrow> wc \<Rightarrow> u8 \<times> wc" where
  "ip01_read_fxo e port w = rx e (tx NCSA 0x02 (tx NCSA 0x60 w))"

definition ip01_read_fxs :: "env \<Rightarrow> nat \<Rightarrow> u8 \<Rightarrow> wc \<Rightarrow> u8 \<times> wc" where
  "ip01_read_fxs e port bits w = rx e (tx NCSA (bits OR 0x80) w)"

definition ip01_detect_port :: "env \<Rightarrow> nat \<Rightarrow> nat \<Rightarrow> ip01 \<Rightarrow> port_type_t \<times> ip01" where
  "ip01_detect_port e bit_reset i s =
     (let (reg, w) = ip01_read_fxo e (i + 1) (bus_reset bit_reset (drv_wc s)); s = s\<lparr>drv_wc := w\<rparr>
      in if reg = 0x3 then (OPort, ip01_set_led (i + 1) IP01_LED_RED s)
         else let (reg, w) = ip01_read_fxs e (i + 1) 0 (bus_reset bit_reset (drv_wc s)); s = s\<lparr>drv_wc := w\<rparr>
              in if reg = 0x5 then (SPort, ip01_set_led (i + 1) IP01_LED_GREEN s)
                 else let (reg, w) = ip01_read_fxs e (i + 1) 0x1 (bus_reset bit_reset (drv_wc s)); s = s\<lparr>drv_wc := w\<rparr>
                      in if reg AND 0xC0 = 0x80 then (SPort, ip01_set_led (i + 1) IP01_LED_GREEN s) else (NoPort, s))"

definition IP01_MAX_PORTS :: nat where "IP01_MAX_PORTS = 1"

fun ip01_detect_from :: "env \<Rightarrow> nat \<Rightarrow> nat list \<Rightarrow> ip01 \<Rightarrow> port_type_t list \<times> ip01" where
  "ip01_detect_from e bit_reset [] s = ([], s)"
| "ip01_detect_from e bit_reset (i # is) s =
     (let (p, s) = ip01_detect_port e bit_reset i s; (ps, s) = ip01_detect_from e bit_reset is s in (p # ps, s))"

definition ip01_auto_detect :: "env \<Rightarrow> nat \<Rightarrow> ip01 \<Rightarrow> port_type_t list \<times> ip01" where
  "ip01_auto_detect e bit_reset s =
     (let s = s\<lparr>fio_dir := fio_dir s OR push_bit PF_FXS_LED 1 OR push_bit PF_SYS_LED 1\<rparr>;
          s = ip01_FLAG_S (push_bit PF_SYS_LED 1) s;
          s = on_wc (bus_reset bit_reset) s
      in ip01_detect_from e bit_reset [0..<IP01_MAX_PORTS] s)"

section \<open>Register access (wcfxs.c)\<close>

definition ip01_setcard :: "nat \<Rightarrow> wc \<Rightarrow> wc" where
  "ip01_setcard crd w = (if curcard w \<noteq> int crd then w\<lparr>curcard := int crd\<rparr> else w)"

definition ip01_setreg :: "nat \<Rightarrow> u8 \<Rightarrow> u8 \<Rightarrow> wc \<Rightarrow> wc" where
  "ip01_setreg crd reg v w =
     (let w = ip01_setcard crd w;
          w = (if modtype w crd = MOD_TYPE_FXO then tx NCSA (reg AND 0x7f) (tx NCSA 0x20 w)
               else tx NCSA (reg AND 0x7f) w)
      in tx NCSA v w)"

definition ip01_getreg :: "env \<Rightarrow> nat \<Rightarrow> u8 \<Rightarrow> wc \<Rightarrow> u8 \<times> wc" where
  "ip01_getreg e crd reg w =
     (let w = ip01_setcard crd w;
          w = (if modtype w crd = MOD_TYPE_FXO then tx NCSA (reg AND 0x7f) (tx NCSA 0x60 w)
               else tx NCSA (reg OR 0x80) w)
      in rx e w)"

definition ip01_wcfxs_set_led :: "nat \<Rightarrow> u32 \<Rightarrow> ip01 \<Rightarrow> ip01" where
  "ip01_wcfxs_set_led port colour s = ip01_set_led port colour s"

definition ip01_reset_spi :: "nat \<Rightarrow> wc \<Rightarrow> wc" where
  "ip01_reset_spi crd w = ip01_setcard crd w"

section \<open>The union\<close>

definition ip_wasringing :: nat where "ip_wasringing = 0"
definition ip_ringdebounce :: nat where "ip_ringdebounce = 1"
definition ip_offhook :: nat where "ip_offhook = 2"
definition ip_battdebounce :: nat where "ip_battdebounce = 3"
definition ip_nobatttimer :: nat where "ip_nobatttimer = 4"
definition ip_battery :: nat where "ip_battery = 5"
definition ip_lastpol :: nat where "ip_lastpol = 6"
definition ip_polarity :: nat where "ip_polarity = 7"
definition ip_polaritydebounce :: nat where "ip_polaritydebounce = 8"
definition ip_ohttimer :: nat where "ip_ohttimer = 4"
definition ip_idletxhookstate :: nat where "ip_idletxhookstate = 5"
definition ip_lasttxhook :: nat where "ip_lasttxhook = 6"

lemmas ip_offsets = ip_wasringing_def ip_ringdebounce_def ip_offhook_def ip_battdebounce_def ip_nobatttimer_def ip_battery_def
  ip_lastpol_def ip_polarity_def ip_polaritydebounce_def ip_ohttimer_def ip_idletxhookstate_def ip_lasttxhook_def

definition ipm :: "ip01 \<Rightarrow> nat \<Rightarrow> u32" where
  "ipm s i = mem (drv_wc s) i"

definition ipset :: "nat \<Rightarrow> u32 \<Rightarrow> ip01 \<Rightarrow> ip01" where
  "ipset i v s = on_wc (setm i v) s"

definition ip_hooksig :: "rxsig \<Rightarrow> ip01 \<Rightarrow> ip01" where
  "ip_hooksig x s = on_wc (zt_hooksig 0 x) s"

section \<open>The FXO poll\<close>

definition IP01_NUM_CARDS :: nat where "IP01_NUM_CARDS = 1"

definition ip01_ring_poll :: "env \<Rightarrow> ip01 \<Rightarrow> ip01" where
  "ip01_ring_poll e s =
     (if ipm s ip_offhook = 0
      then let (res, w) = ip01_getreg e 0 5 (drv_wc s); s = s\<lparr>drv_wc := w\<rparr>
           in if res AND 0x60 \<noteq> 0 \<and> ipm s ip_battery \<noteq> 0
              then let s = ipset ip_ringdebounce (ipm s ip_ringdebounce + of_nat (ZT_CHUNKSIZE * IP01_NUM_CARDS)) s
                   in if int (ZT_CHUNKSIZE * 64) \<le> sint (ipm s ip_ringdebounce)
                      then let s = (if ipm s ip_wasringing = 0
                                    then ip01_wcfxs_set_led 1 IP01_LED_GREEN (ip_hooksig RXSIG_RING (ipset ip_wasringing 1 s))
                                    else s)
                           in ipset ip_ringdebounce (of_nat (ZT_CHUNKSIZE * 64)) s
                      else s
              else let s = ipset ip_ringdebounce (ipm s ip_ringdebounce - of_nat ZT_CHUNKSIZE) s
                   in if sint (ipm s ip_ringdebounce) \<le> 0
                      then let s = (if ipm s ip_wasringing \<noteq> 0
                                    then on_wc (\<lambda>w. w\<lparr>curcard := -1\<rparr>)
                                      (ip01_wcfxs_set_led 1 IP01_LED_RED (ip_hooksig RXSIG_OFFHOOK (ipset ip_wasringing 0 s)))
                                    else s)
                           in ipset ip_ringdebounce 0 s
                      else s
      else s)"

definition ip01_batt_poll :: "int \<Rightarrow> ip01 \<Rightarrow> ip01" where
  "ip01_batt_poll b s =
     (if \<bar>b\<bar> < BATT_THRESH
      then let s = ipset ip_nobatttimer (ipm s ip_nobatttimer + 1) s
           in if ipm s ip_battery \<noteq> 0 \<and> ipm s ip_battdebounce = 0
              then ipset ip_battdebounce BATT_DEBOUNCE (ip_hooksig RXSIG_ONHOOK (ipset ip_battery 0 s))
              else if ipm s ip_battery = 0 then ipset ip_battdebounce BATT_DEBOUNCE s else s
      else if BATT_THRESH < \<bar>b\<bar>
      then let s = (if ipm s ip_battery = 0 \<and> ipm s ip_battdebounce = 0
                    then ipset ip_battdebounce BATT_DEBOUNCE (ipset ip_nobatttimer 0 (ipset ip_battery 1 (ip_hooksig RXSIG_OFFHOOK s)))
                    else if ipm s ip_battery \<noteq> 0 then ipset ip_battdebounce BATT_DEBOUNCE s else s);
               s = (if 0 \<le> sint (ipm s ip_lastpol) \<and> b < 0
                    then ipset ip_polaritydebounce POLARITY_DEBOUNCE (ipset ip_lastpol (-1) s) else s)
           in if sint (ipm s ip_lastpol) \<le> 0 \<and> 0 < b
              then ipset ip_polaritydebounce POLARITY_DEBOUNCE (ipset ip_lastpol 1 s) else s
      else ipset ip_battdebounce BATT_DEBOUNCE s)"

definition ip01_count_poll :: "ip01 \<Rightarrow> ip01" where
  "ip01_count_poll s =
     (let s = (if ipm s ip_battdebounce \<noteq> 0 then ipset ip_battdebounce (ipm s ip_battdebounce - 1) s else s)
      in if ipm s ip_polaritydebounce \<noteq> 0
         then let s = ipset ip_polaritydebounce (ipm s ip_polaritydebounce - 1) s
              in if sint (ipm s ip_polaritydebounce) < 1 \<and> ipm s ip_lastpol \<noteq> ipm s ip_polarity
                 then let s = (if ipm s ip_polarity \<noteq> 0 then on_wc (zt_qevent_polarity 0) s else s)
                      in ipset ip_polarity (ipm s ip_lastpol) s
                 else s
         else s)"

definition ip01_voicedaa_check_hook :: "env \<Rightarrow> ip01 \<Rightarrow> ip01" where
  "ip01_voicedaa_check_hook e s =
     (let s = ip01_ring_poll e s; (b, w) = ip01_getreg e 0 29 (drv_wc s)
      in ip01_count_poll (ip01_batt_poll (sint b) (s\<lparr>drv_wc := w\<rparr>)))"

text \<open>The card that \<open>regular_interrupt_processing\<close> polls.\<close>

definition ip01_polled :: "u32 \<Rightarrow> nat" where
  "ip01_polled n = unat (n mod of_nat IP01_NUM_CARDS)"

section \<open>Signalling, ioctl, release\<close>

definition ip01_hooksig_state :: "zsig \<Rightarrow> txsig \<Rightarrow> ip01 \<Rightarrow> ip01" where
  "ip01_hooksig_state sig txsig s =
     (case txsig of
        TXSIG_ONHOOK \<Rightarrow>
          let s = ip01_wcfxs_set_led 1 IP01_LED_GREEN s
          in if sig \<in> {SIG_EM, SIG_FXOKS, SIG_FXOLS} then ipset ip_lasttxhook 1 s
             else if sig = SIG_FXOGS then ipset ip_lasttxhook 3 s else s
      | TXSIG_OFFHOOK \<Rightarrow>
          let s = ip01_wcfxs_set_led 1 IP01_LED_GREEN s
          in if sig = SIG_EM then ipset ip_lasttxhook 5 s else ipset ip_lasttxhook (ipm s ip_idletxhookstate) s
      | TXSIG_START \<Rightarrow> ipset ip_lasttxhook 4 (ip01_wcfxs_set_led 1 IP01_LED_RED s)
      | TXSIG_KEWL \<Rightarrow> ipset ip_lasttxhook 0 s
      | TXSIG_OTHER \<Rightarrow> s)"

definition ip01_hooksig :: "env \<Rightarrow> params \<Rightarrow> zsig \<Rightarrow> txsig \<Rightarrow> ip01 \<Rightarrow> int \<times> ip01" where
  "ip01_hooksig e k sig txsig s =
     (if modtype (drv_wc s) 0 = MOD_TYPE_FXO
      then (0, case txsig of
          TXSIG_START \<Rightarrow> on_wc (ip01_setreg 0 5 0x9) (ipset ip_offhook 1 s)
        | TXSIG_OFFHOOK \<Rightarrow> on_wc (ip01_setreg 0 5 0x9) (ipset ip_offhook 1 s)
        | TXSIG_ONHOOK \<Rightarrow> on_wc (ip01_setreg 0 5 0x8) (ipset ip_offhook 0 s)
        | _ \<Rightarrow> s)
      else let s = ip01_hooksig_state sig txsig s;
               s = (if debug k \<noteq> 0 then on_wc (\<lambda>w. snd (ip01_getreg e 0 64 w)) s else s)
           in (0, on_wc (ip01_setreg 0 64 (ucast (ipm s ip_lasttxhook))) s))"

text \<open>The ioctl \<open>ZT_ONHOOKTRANSFER\<close>, with \<open>DR_DISABLE\<close> not defined; \<open>None\<close> when the argument cannot be read.\<close>

definition ip01_onhooktransfer :: "int option \<Rightarrow> ip01 \<Rightarrow> (errno + unit) \<times> ip01" where
  "ip01_onhooktransfer arg s =
     (if modtype (drv_wc s) 0 \<noteq> MOD_TYPE_FXS then (Inl EINVAL, s)
      else (case arg of None \<Rightarrow> (Inl EFAULT, s) | Some x \<Rightarrow> (Inr (), ipset ip_ohttimer (push_bit 3 (of_int x)) s)))"

definition ip01_release :: "bool \<Rightarrow> ip01 \<Rightarrow> ip01" where
  "ip01_release wcfxs_init_ok s =
     (let s = (if wcfxs_init_ok
               then ip01_set_led 1 LED_OFF (on_wc (\<lambda>w. kcore Kfree (kcore Zt_unregister (kcore Sport_close w))) s) else s)
      in on_wc (kcore Remove_proc) s)"

section \<open>Configuration generator (zapscan.c)\<close>

definition ip01_zapscan :: "access \<Rightarrow> cap list \<Rightarrow> conf \<Rightarrow> nat \<times> conf" where
  "ip01_zapscan a cs f =
     (let zt = strip_lines (tmp_ok a) ''fxoks='' ''fxsks='' (zaptel_conf f);
          za = strip_lines (tmp_ok a) ''signalling ='' ''channel =>'' (zapata_conf f);
          zt = append_to (zdc_ok a) [] zt;
          zs = (if zsc_ok a then Some [] else zapscan_conf f);
          za = append_to (zap_ok a) [] za
      in if \<not> dev_ok a then (1, \<lparr>zaptel_conf = zt, zapscan_conf = zs, zapata_conf = za\<rparr>)
         else let (d, s, p) = scan_channels (-1) 1 cs
              in (0, \<lparr>zaptel_conf = append_to (zdc_ok a) d zt, zapscan_conf = append_to (zsc_ok a) s zs, zapata_conf = append_to (zap_ok a) p za\<rparr>))"

section \<open>The board: one chip on the bus\<close>

record 'x one_board =
  okind :: modtype_t
  ophase :: phase
  ochip :: 'x

fun one_step :: "'x chip_if \<Rightarrow> bev \<Rightarrow> 'x one_board \<Rightarrow> 'x one_board" where
  "one_step ch (Tx NCSB b) s = s"
| "one_step ch (Tx NCSA b) s =
     (case card_byte (okind s) (ophase s) b of
        (p, None) \<Rightarrow> s\<lparr>ophase := p\<rparr>
      | (p, Some (a, v)) \<Rightarrow> s\<lparr>ophase := p, ochip := cwrite ch a v (ochip s)\<rparr>)"
| "one_step ch Rx s =
     (case fetch_addr (ophase s) of None \<Rightarrow> s\<lparr>ophase := Idle\<rparr>
      | Some a \<Rightarrow> s\<lparr>ophase := Idle, ochip := cfetch ch a (ochip s)\<rparr>)"
| "one_step ch (Bus_reset n) s = s\<lparr>ophase := Idle\<rparr>"

definition one_val :: "'x chip_if \<Rightarrow> 'x one_board \<Rightarrow> u8" where
  "one_val ch s = (case fetch_addr (ophase s) of None \<Rightarrow> 0xff | Some a \<Rightarrow> cread ch a (ochip s))"

definition one_of :: "'x chip_if \<Rightarrow> 'x one_board \<Rightarrow> bev list \<Rightarrow> 'x one_board" where
  "one_of ch b0 es = fold (one_step ch) es b0"

lemma one_of_simps [hw]: "one_of ch b0 [] = b0" "one_of ch b0 (es @ es') = one_of ch (one_of ch b0 es) es'"
  "one_of ch b0 (x # es) = one_of ch (one_step ch x b0) es"
  by (simp_all add: one_of_def)

definition on_one :: "env \<Rightarrow> 'x chip_if \<Rightarrow> 'x one_board \<Rightarrow> bool" where
  "on_one e ch b0 \<longleftrightarrow> (\<forall>es. rxv e es = one_val ch (one_of ch b0 es))"

definition one_ok :: "'x chip_if \<Rightarrow> 'x one_board \<Rightarrow> wc \<Rightarrow> bool" where
  "one_ok ch b0 w \<longleftrightarrow> okind (one_of ch b0 (bus w)) = modtype w 0 \<and> ophase (one_of ch b0 (bus w)) = Idle"

lemma ip01_setcard_frame [simp]: "bus (ip01_setcard c w) = bus w" "modtype (ip01_setcard c w) = modtype w"
  "mem (ip01_setcard c w) = mem w" "zt (ip01_setcard c w) = zt w"
  by (simp_all add: ip01_setcard_def)

lemma ip01_setreg_board:
  assumes "one_ok ch b0 w"
  shows "one_of ch b0 (bus (ip01_setreg 0 r v w)) =
      (one_of ch b0 (bus w))\<lparr>ochip := cwrite ch (r AND 0x7f) v (ochip (one_of ch b0 (bus w)))\<rparr>"
    "one_ok ch b0 (ip01_setreg 0 r v w)"
proof -
  show s: "one_of ch b0 (bus (ip01_setreg 0 r v w)) =
      (one_of ch b0 (bus w))\<lparr>ochip := cwrite ch (r AND 0x7f) v (ochip (one_of ch b0 (bus w)))\<rparr>"
    using assms by (cases "modtype w 0") (simp_all add: ip01_setreg_def one_ok_def Let_def hw and_7f_bit7)
  have "modtype (ip01_setreg 0 r v w) = modtype w" by (simp add: ip01_setreg_def Let_def)
  then show "one_ok ch b0 (ip01_setreg 0 r v w)" using assms unfolding one_ok_def s by simp
qed

lemma ip01_getreg_board:
  assumes "one_ok ch b0 w"
  shows "one_of ch b0 (bus (snd (ip01_getreg e 0 r w))) =
      (one_of ch b0 (bus w))\<lparr>ochip := cfetch ch (r AND 0x7f) (ochip (one_of ch b0 (bus w)))\<rparr>"
    "one_ok ch b0 (snd (ip01_getreg e 0 r w))"
    "on_one e ch b0 \<Longrightarrow> fst (ip01_getreg e 0 r w) = cread ch (r AND 0x7f) (ochip (one_of ch b0 (bus w)))"
proof -
  show s: "one_of ch b0 (bus (snd (ip01_getreg e 0 r w))) =
      (one_of ch b0 (bus w))\<lparr>ochip := cfetch ch (r AND 0x7f) (ochip (one_of ch b0 (bus w)))\<rparr>"
    using assms by (cases "modtype w 0") (simp_all add: ip01_getreg_def one_ok_def Let_def hw and_7f_bit7)
  have "modtype (snd (ip01_getreg e 0 r w)) = modtype w" by (simp add: ip01_getreg_def Let_def)
  then show "one_ok ch b0 (snd (ip01_getreg e 0 r w))" using assms unfolding one_ok_def s by simp
  show "fst (ip01_getreg e 0 r w) = cread ch (r AND 0x7f) (ochip (one_of ch b0 (bus w)))" if "on_one e ch b0"
    using assms that
    by (cases "modtype w 0") (simp_all add: ip01_getreg_def one_ok_def Let_def hw and_7f_bit7 on_one_def one_val_def)
qed

interpretation ip01bus: chip_bus ip01_setreg "ip01_getreg e" "\<lambda>w. on_one e ch b0 \<and> one_ok ch b0 w"
    "\<lambda>w c. if c = 0 then ochip (one_of ch b0 (bus w)) else undefined" ch 1 for e ch b0
  by unfold_locales (auto simp: ip01_setreg_board ip01_getreg_board fun_eq_iff)

interpretation ip01regs: register_file ip01_setreg "ip01_getreg e" "\<lambda>w. on_one e plain b0 \<and> one_ok plain b0 w"
    "\<lambda>w c. if c = 0 then ochip (one_of plain b0 (bus w)) else undefined" 1 for e b0
  by unfold_locales

section \<open>One chip and one LED\<close>

record 'x ip_spec =
  ichip :: 'x
  lit :: bool

fun ip_op_ok :: "op \<Rightarrow> bool" where
  "ip_op_ok (SetReg c r v) = (c = 0)"
| "ip_op_ok (GetReg c r) = (c = 0)"
| "ip_op_ok (SetLed p st) = True"
| "ip_op_ok (ResetSpi c) = (c = 0)"

fun ip_spec_op :: "'x chip_if \<Rightarrow> op \<Rightarrow> 'x ip_spec \<Rightarrow> u8 list \<times> 'x ip_spec" where
  "ip_spec_op ch (SetReg c r v) a = ([], a\<lparr>ichip := cwrite ch (r AND 0x7f) v (ichip a)\<rparr>)"
| "ip_spec_op ch (GetReg c r) a = ([cread ch (r AND 0x7f) (ichip a)], a\<lparr>ichip := cfetch ch (r AND 0x7f) (ichip a)\<rparr>)"
| "ip_spec_op ch (SetLed p st) a = ([], a\<lparr>lit := (st = LED_ON)\<rparr>)"
| "ip_spec_op ch (ResetSpi c) a = ([], a)"

fun ip_run_op :: "env \<Rightarrow> op \<Rightarrow> ip01 \<Rightarrow> u8 list \<times> ip01" where
  "ip_run_op e (SetReg c r v) s = ([], on_wc (ip01_setreg c r v) s)"
| "ip_run_op e (GetReg c r) s = (case ip01_getreg e c r (drv_wc s) of (x, w) \<Rightarrow> ([x], s\<lparr>drv_wc := w\<rparr>))"
| "ip_run_op e (SetLed p st) s = ([], ip01_wcfxs_set_led p st s)"
| "ip_run_op e (ResetSpi c) s = ([], on_wc (ip01_reset_spi c) s)"

definition ip_sim :: "'x chip_if \<Rightarrow> 'x one_board \<Rightarrow> u16 \<Rightarrow> ip01 \<Rightarrow> 'x ip_spec \<Rightarrow> bool" where
  "ip_sim ch b0 f0 s a \<longleftrightarrow> one_ok ch b0 (drv_wc s) \<and> ochip (one_of ch b0 (bus (drv_wc s))) = ichip a \<and>
     lit a = bit (fio_flag s) PF_FXS_LED \<and> (\<forall>n. n \<noteq> PF_FXS_LED \<longrightarrow> bit (fio_flag s) n = bit f0 n)"

lemma led_pin:
  "bit (fio_flag (ip01_set_led p st s)) n = (if n = PF_FXS_LED then st = LED_ON else bit (fio_flag s) n)"
  "drv_wc (ip01_set_led p st s) = drv_wc s" "fio_dir (ip01_set_led p st s) = fio_dir s"
proof -
  have p: "PF_FXS_LED < 16" by (simp add: PF_FXS_LED_def)
  show "bit (fio_flag (ip01_set_led p st s)) n = (if n = PF_FXS_LED then st = LED_ON else bit (fio_flag s) n)"
    using p by (auto simp: ip01_set_led_def ip01_FLAG_S_def ip01_FLAG_C_def bit_or_iff bit_and_iff bit_not_iff
      simp del: push_bit_of_1 dest: bit_imp_le_length)
qed (simp_all add: ip01_set_led_def ip01_FLAG_S_def ip01_FLAG_C_def)

lemma on_wc_simps [simp]: "drv_wc (on_wc f s) = f (drv_wc s)" "fio_flag (on_wc f s) = fio_flag s" "fio_dir (on_wc f s) = fio_dir s"
  by (simp_all add: on_wc_def)

lemma ip_sim_step:
  assumes "ip_sim ch b0 f0 s a" "on_one e ch b0" "ip_op_ok x"
  shows "fst (ip_run_op e x s) = fst (ip_spec_op ch x a) \<and> ip_sim ch b0 f0 (snd (ip_run_op e x s)) (snd (ip_spec_op ch x a))"
proof -
  note a = assms(1)[unfolded ip_sim_def]
  show ?thesis
  proof (cases x)
    case (SetReg c r v)
    then show ?thesis using a assms(3) ip01_setreg_board[of ch b0 "drv_wc s" r v] by (auto simp: ip_sim_def)
  next
    case (GetReg c r)
    then show ?thesis using a assms(2,3) ip01_getreg_board[of ch b0 "drv_wc s" e r] by (auto simp: ip_sim_def split_beta)
  next
    case (SetLed p st)
    then show ?thesis using a by (simp add: ip_sim_def ip01_wcfxs_set_led_def led_pin)
  next
    case (ResetSpi c)
    then show ?thesis using a by (simp add: ip_sim_def ip01_reset_spi_def one_ok_def)
  qed
qed

lemma ip_sim_runs:
  "ip_sim ch b0 f0 s a \<Longrightarrow> on_one e ch b0 \<Longrightarrow> list_all ip_op_ok xs \<Longrightarrow>
   fst (runs (ip_run_op e) xs s) = fst (runs (ip_spec_op ch) xs a) \<and>
   ip_sim ch b0 f0 (snd (runs (ip_run_op e) xs s)) (snd (runs (ip_spec_op ch) xs a))"
proof (induction xs arbitrary: s a)
  case (Cons x xs)
  then show ?case
    using ip_sim_step[of ch b0 f0 s a e x] Cons.IH[of "snd (ip_run_op e x s)" "snd (ip_spec_op ch x a)"] by (simp add: split_beta)
qed simp

section \<open>Detection\<close>

definition one_class :: "(u8 \<Rightarrow> u8) one_board \<Rightarrow> port_type_t" where
  "one_class b = (case okind b of
       MOD_TYPE_FXO \<Rightarrow> if ochip b 2 = 3 then OPort else NoPort
     | MOD_TYPE_FXS \<Rightarrow> if ochip b 0 = 5 \<or> ochip b 1 AND 0xC0 = 0x80 then SPort else NoPort)"

text \<open>As on the larger boards, probing an FXS card as FXO writes its register \<open>0x60\<close>.\<close>

definition one_probed :: "(u8 \<Rightarrow> u8) one_board \<Rightarrow> (u8 \<Rightarrow> u8) one_board \<Rightarrow> bool" where
  "one_probed b b' \<longleftrightarrow> okind b' = okind b \<and> ophase b' = Idle \<and> (\<forall>a. a \<noteq> 0x60 \<longrightarrow> ochip b' a = ochip b a)"

lemma one_probed_trans: "one_probed a b \<Longrightarrow> one_probed b c \<Longrightarrow> one_probed a c"
  by (simp add: one_probed_def)

lemma one_read_fxo:
  assumes "on_one e plain b0"
  shows "one_probed (one_of plain b0 (bus w)) (one_of plain b0 (bus (snd (ip01_read_fxo e p (bus_reset n w)))))"
    "fst (ip01_read_fxo e p (bus_reset n w)) =
      (if okind (one_of plain b0 (bus w)) = MOD_TYPE_FXO then ochip (one_of plain b0 (bus w)) 2 else 0xff)"
  using assms
  by (cases "okind (one_of plain b0 (bus w))"; auto simp: ip01_read_fxo_def one_probed_def hw on_one_def one_val_def plain_def)+

lemma one_read_fxs:
  assumes "on_one e plain b0" "bits = 0 \<or> bits = 1"
  shows "one_probed (one_of plain b0 (bus w)) (one_of plain b0 (bus (snd (ip01_read_fxs e p bits (bus_reset n w)))))"
    "fst (ip01_read_fxs e p bits (bus_reset n w)) =
      (if okind (one_of plain b0 (bus w)) = MOD_TYPE_FXS then ochip (one_of plain b0 (bus w)) bits else 0xff)"
proof -
  have b: "bit (bits OR 0x80) 7" "(bits OR 0x80) AND 0x7f = bits" using assms(2) and_7f_bit7(3,4)[of bits] by auto
  have n: "bits OR 0x80 \<noteq> 0x20" "bits OR 0x80 \<noteq> 0x60" using assms(2) by auto
  show "one_probed (one_of plain b0 (bus w)) (one_of plain b0 (bus (snd (ip01_read_fxs e p bits (bus_reset n w)))))"
    "fst (ip01_read_fxs e p bits (bus_reset n w)) =
      (if okind (one_of plain b0 (bus w)) = MOD_TYPE_FXS then ochip (one_of plain b0 (bus w)) bits else 0xff)"
    using assms(1) b n
    by (cases "okind (one_of plain b0 (bus w))"; auto simp: ip01_read_fxs_def one_probed_def hw on_one_def one_val_def plain_def)+
qed

lemma ip01_detect_port_board:
  assumes "on_one e plain b0"
  shows "fst (ip01_detect_port e n i s) = one_class (one_of plain b0 (bus (drv_wc s)))"
    "one_probed (one_of plain b0 (bus (drv_wc s))) (one_of plain b0 (bus (drv_wc (snd (ip01_detect_port e n i s)))))"
    "bit (fio_flag (snd (ip01_detect_port e n i s))) m =
      (bit (fio_flag s) m \<or> m = PF_FXS_LED \<and> fst (ip01_detect_port e n i s) \<noteq> NoPort)"
proof -
  let ?B = "\<lambda>w. one_of plain b0 (bus w)"
  let ?w1 = "snd (ip01_read_fxo e (Suc i) (bus_reset n (drv_wc s)))"
  let ?w2 = "snd (ip01_read_fxs e (Suc i) 0 (bus_reset n ?w1))"
  let ?w3 = "snd (ip01_read_fxs e (Suc i) 1 (bus_reset n ?w2))"
  note r1 = one_read_fxo[OF assms, where w = "drv_wc s" and p = "Suc i" and n = n]
    and r2 = one_read_fxs[OF assms, where bits = 0 and w = ?w1 and p = "Suc i" and n = n]
    and r3 = one_read_fxs[OF assms, where bits = 1 and w = ?w2 and p = "Suc i" and n = n]
  have p2: "one_probed (?B (drv_wc s)) (?B ?w2)" using one_probed_trans[OF r1(1) r2(1)] by simp
  have p3: "one_probed (?B (drv_wc s)) (?B ?w3)" using one_probed_trans[OF p2 r3(1)] by simp
  show "one_probed (?B (drv_wc s)) (?B (drv_wc (snd (ip01_detect_port e n i s))))"
    using r1(1) p2 p3 by (simp add: ip01_detect_port_def Let_def split_beta led_pin(2))
  have k: "okind (?B ?w1) = okind (?B (drv_wc s))" "okind (?B ?w2) = okind (?B (drv_wc s))"
    "ochip (?B ?w1) 0 = ochip (?B (drv_wc s)) 0" "ochip (?B ?w2) 1 = ochip (?B (drv_wc s)) 1"
    using r1(1) p2 by (simp_all add: one_probed_def)
  show "fst (ip01_detect_port e n i s) = one_class (?B (drv_wc s))"
    using r1(2) r2(2) r3(2) k
    by (cases "okind (?B (drv_wc s))") (simp_all add: ip01_detect_port_def Let_def split_beta one_class_def)
  show "bit (fio_flag (snd (ip01_detect_port e n i s))) m =
      (bit (fio_flag s) m \<or> m = PF_FXS_LED \<and> fst (ip01_detect_port e n i s) \<noteq> NoPort)"
    by (auto simp: ip01_detect_port_def Let_def split_beta led_pin(1) IP01_LED_RED_def IP01_LED_GREEN_def LED_ON_def)
qed

lemma ip01_detects:
  assumes "on_one e plain b0"
  shows "fst (ip01_auto_detect e n s) = [one_class (one_of plain b0 (bus (drv_wc s)))]"
    "one_class (one_of plain b0 (bus (drv_wc s))) \<noteq> NoPort \<Longrightarrow> bit (fio_flag (snd (ip01_auto_detect e n s))) PF_FXS_LED"
proof -
  have c: "one_class (one_of plain b0 (bus (bus_reset n w))) = one_class (one_of plain b0 (bus w))" for w
    by (simp add: hw one_class_def)
  show "fst (ip01_auto_detect e n s) = [one_class (one_of plain b0 (bus (drv_wc s)))]"
    using ip01_detect_port_board(1)[OF assms] c
    by (simp add: ip01_auto_detect_def IP01_MAX_PORTS_def Let_def split_beta ip01_FLAG_S_def)
  show "bit (fio_flag (snd (ip01_auto_detect e n s))) PF_FXS_LED" if "one_class (one_of plain b0 (bus (drv_wc s))) \<noteq> NoPort"
    using ip01_detect_port_board[OF assms] c that
    by (simp add: ip01_auto_detect_def IP01_MAX_PORTS_def Let_def split_beta ip01_FLAG_S_def)
qed

section \<open>The line monitors\<close>

text \<open>A ringing reading adds one unit, any other takes one away; the battery changes on the 64th contrary reading.\<close>

definition ip_ring_step :: "bool \<Rightarrow> bucket \<Rightarrow> bucket" where
  "ip_ring_step r d =
     (if r then if 64 \<le> level d + 1 then \<lparr>ringing = True, level = 64\<rparr> else d\<lparr>level := level d + 1\<rparr>
      else if level d \<le> 1 then \<lparr>ringing = False, level = 0\<rparr> else d\<lparr>level := level d - 1\<rparr>)"

definition ip_batt_step :: "volt \<Rightarrow> batt_mon \<Rightarrow> batt_mon" where
  "ip_batt_step v d =
     (if v = (if on d then Low else High)
      then if contrary d = 63 then \<lparr>on = \<not> on d, contrary = 0\<rparr> else d\<lparr>contrary := Suc (contrary d)\<rparr>
      else d\<lparr>contrary := 0\<rparr>)"

definition ip_contrary_word :: "nat \<Rightarrow> u32" where
  "ip_contrary_word n = of_nat (63 - n)"

definition ip_ring_abs :: "(nat \<Rightarrow> u32) \<Rightarrow> bucket \<Rightarrow> bool" where
  "ip_ring_abs m d \<longleftrightarrow> m ip_wasringing = of_bool (ringing d) \<and> m ip_ringdebounce = level_word (level d) \<and> level d \<le> 64"

definition ip_batt_abs :: "(nat \<Rightarrow> u32) \<Rightarrow> batt_mon \<Rightarrow> bool" where
  "ip_batt_abs m d \<longleftrightarrow> m ip_battery = of_bool (on d) \<and> m ip_battdebounce = ip_contrary_word (contrary d) \<and> contrary d \<le> 63"

definition ip_pol_abs :: "(nat \<Rightarrow> u32) \<Rightarrow> pol_mon \<Rightarrow> bool" where
  "ip_pol_abs m d \<longleftrightarrow> m ip_lastpol = of_int (cand d) \<and> m ip_polarity = of_int (known d) \<and>
     m ip_polaritydebounce = of_nat (pwait d) \<and> pwait d \<le> 64 \<and> cand d \<in> {-1, 0, 1} \<and> known d \<in> {-1, 0, 1}"

lemma ip_state_simps [simp]:
  "drv_wc (ipset i v s) = setm i v (drv_wc s)" "drv_wc (ip_hooksig x s) = zt_hooksig 0 x (drv_wc s)"
  "drv_wc (ip01_wcfxs_set_led p y s) = drv_wc s" "ipm s i = mem (drv_wc s) i"
  by (simp_all add: ipset_def ip_hooksig_def ip01_wcfxs_set_led_def led_pin ipm_def)

lemma ip01_regs_frame [simp]: "mem (snd (ip01_getreg e c r w)) = mem w" "zt (snd (ip01_getreg e c r w)) = zt w"
  by (simp_all add: ip01_getreg_def Let_def tx_def rx_def)

lemma ip_level_word:
  assumes "n \<le> 64"
  shows "level_word n + 8 = level_word (Suc n)" "sint (level_word (Suc n)) = int (8 * Suc n)"
  using level_word_facts(2)[of "Suc n"] assms by (simp_all add: level_word_def)

lemma ip_ring_refines:
  assumes "ip_ring_abs (mem (drv_wc s)) d"
    "r = (fst (ip01_getreg e 0 5 (drv_wc s)) AND 0x60 \<noteq> 0 \<and> mem (drv_wc s) ip_battery \<noteq> 0)"
    "d' = (if mem (drv_wc s) ip_offhook = 0 then ip_ring_step r d else d)"
  shows "ip_ring_abs (mem (drv_wc (ip01_ring_poll e s))) d'" "zt (drv_wc (ip01_ring_poll e s)) = zt (drv_wc s) @ ring_events 0 d d'"
    "i \<noteq> ip_wasringing \<Longrightarrow> i \<noteq> ip_ringdebounce \<Longrightarrow> mem (drv_wc (ip01_ring_poll e s)) i = mem (drv_wc s) i"
proof -
  note a = assms(1)[unfolded ip_ring_abs_def]
  have w: "ip_wasringing \<noteq> ip_ringdebounce" "ip_battery \<noteq> ip_ringdebounce" by (simp_all add: ip_offsets)
  note up = ip_level_word[of "level d"]
  have dn: "sint (level_word (level d) - 8) \<le> 0 \<longleftrightarrow> level d \<le> 1"
    "\<not> level d \<le> 1 \<Longrightarrow> level_word (level d) - 8 = level_word (level d - 1)"
    using level_word_down[of "level d"] level_word_facts(3)[of "level d"] a by simp_all
  note run = ip01_ring_poll_def Let_def split_beta ZT_CHUNKSIZE_def IP01_NUM_CARDS_def
  have "ip_ring_abs (mem (drv_wc (ip01_ring_poll e s))) d' \<and> zt (drv_wc (ip01_ring_poll e s)) = zt (drv_wc s) @ ring_events 0 d d'"
  proof (cases "mem (drv_wc s) ip_offhook = 0")
    case False
    then show ?thesis using assms by (simp add: run ring_events_def)
  next
    case True
    show ?thesis
    proof (cases r)
      case r: True
      then have "fst (ip01_getreg e 0 5 (drv_wc s)) AND 0x60 \<noteq> 0" "mem (drv_wc s) ip_battery \<noteq> 0" using assms(2) by simp_all
      then show ?thesis using True r assms(3) a w up level_word_ends
        by (cases "64 \<le> level d + 1") (simp_all add: run ip_ring_abs_def ip_ring_step_def ring_events_def)
    next
      case r: False
      then have "fst (ip01_getreg e 0 5 (drv_wc s)) AND 0x60 = 0 \<or> mem (drv_wc s) ip_battery = 0" using assms(2) by blast
      then show ?thesis using True r assms(3) a w dn level_word_ends
        by (cases "level d \<le> 1") (auto simp: run ip_ring_abs_def ip_ring_step_def ring_events_def)
    qed
  qed
  then show "ip_ring_abs (mem (drv_wc (ip01_ring_poll e s))) d'" "zt (drv_wc (ip01_ring_poll e s)) = zt (drv_wc s) @ ring_events 0 d d'" by blast+
  show "i \<noteq> ip_wasringing \<Longrightarrow> i \<noteq> ip_ringdebounce \<Longrightarrow> mem (drv_wc (ip01_ring_poll e s)) i = mem (drv_wc s) i"
    by (simp add: ip01_ring_poll_def Let_def split_beta)
qed

lemma ip_contrary_facts:
  "ip_contrary_word 0 = 63" "n \<le> 63 \<Longrightarrow> ip_contrary_word n = 0 \<longleftrightarrow> n = 63" "n < 63 \<Longrightarrow> ip_contrary_word n - 1 = ip_contrary_word (Suc n)"
proof -
  show "n \<le> 63 \<Longrightarrow> ip_contrary_word n = 0 \<longleftrightarrow> n = 63"
    unfolding ip_contrary_word_def by (subst of_nat_u32(2)) auto
  assume "n < 63"
  then have "63 - n = Suc (63 - Suc n)" by simp
  then show "ip_contrary_word n - 1 = ip_contrary_word (Suc n)" by (simp add: ip_contrary_word_def)
qed (simp add: ip_contrary_word_def)

definition ip_batt_words :: "nat set" where
  "ip_batt_words = {ip_battdebounce, ip_nobatttimer, ip_battery, ip_lastpol, ip_polarity, ip_polaritydebounce}"

lemma ip_batt_reading:
  assumes "ip_batt_abs (mem (drv_wc s)) d" "v = volt_of b"
  shows "mem (drv_wc (ip01_batt_poll b s)) ip_battery = of_bool (on (ip_batt_step v d))"
    "mem (drv_wc (ip01_batt_poll b s)) ip_battdebounce =
       (if v = (if on d then Low else High) \<and> contrary d \<noteq> 63 then ip_contrary_word (contrary d) else 64)"
    "zt (drv_wc (ip01_batt_poll b s)) = zt (drv_wc s) @ batt_events 0 d (ip_batt_step v d)"
proof -
  note a = assms(1)[unfolded ip_batt_abs_def ip_offsets]
  have z: "ip_contrary_word (contrary d) = 0 \<longleftrightarrow> contrary d = 63" using ip_contrary_facts(2) a by simp
  note run = ip01_batt_poll_def Let_def BATT_DEBOUNCE_def POLARITY_DEBOUNCE_def ip_batt_step_def batt_events_def ip_offsets
  have "mem (drv_wc (ip01_batt_poll b s)) ip_battery = of_bool (on (ip_batt_step v d)) \<and>
    mem (drv_wc (ip01_batt_poll b s)) ip_battdebounce =
       (if v = (if on d then Low else High) \<and> contrary d \<noteq> 63 then ip_contrary_word (contrary d) else 64) \<and>
    zt (drv_wc (ip01_batt_poll b s)) = zt (drv_wc s) @ batt_events 0 d (ip_batt_step v d)"
  proof (cases v)
    case Low
    then have "\<bar>b\<bar> < BATT_THRESH" using assms(2) volt_of_cases by metis
    then show ?thesis using Low a z by (cases "on d") (auto simp: run)
  next
    case Mid
    then have "\<bar>b\<bar> = BATT_THRESH" using assms(2) volt_of_cases by metis
    then show ?thesis using Mid a z by (cases "on d") (auto simp: run)
  next
    case High
    then have "BATT_THRESH < \<bar>b\<bar>" using assms(2) volt_of_cases by metis
    then show ?thesis using High a z by (cases "on d") (auto simp: run)
  qed
  then show "mem (drv_wc (ip01_batt_poll b s)) ip_battery = of_bool (on (ip_batt_step v d))"
    "mem (drv_wc (ip01_batt_poll b s)) ip_battdebounce =
       (if v = (if on d then Low else High) \<and> contrary d \<noteq> 63 then ip_contrary_word (contrary d) else 64)"
    "zt (drv_wc (ip01_batt_poll b s)) = zt (drv_wc s) @ batt_events 0 d (ip_batt_step v d)" by blast+
qed

lemma ip_pol_reading:
  assumes "ip_pol_abs (mem (drv_wc s)) p" "v = volt_of b"
  shows "ip_pol_abs (mem (drv_wc (ip01_batt_poll b s))) (pol_cand v b p)"
    "i \<notin> ip_batt_words \<Longrightarrow> mem (drv_wc (ip01_batt_poll b s)) i = mem (drv_wc s) i"
proof -
  note a = assms(1)[unfolded ip_pol_abs_def ip_offsets]
  have l: "sint (mem (drv_wc s) 6) = cand p" using a pol_word by simp
  note run = ip01_batt_poll_def Let_def BATT_DEBOUNCE_def POLARITY_DEBOUNCE_def pol_cand_def ip_pol_abs_def ip_offsets
  show "ip_pol_abs (mem (drv_wc (ip01_batt_poll b s))) (pol_cand v b p)"
  proof (cases v)
    case Low
    then have "\<bar>b\<bar> < BATT_THRESH" using assms(2) volt_of_cases by metis
    then show ?thesis using Low a by (simp add: run)
  next
    case Mid
    then have "\<bar>b\<bar> = BATT_THRESH" using assms(2) volt_of_cases by metis
    then show ?thesis using Mid a by (simp add: run)
  next
    case High
    then have h: "BATT_THRESH < \<bar>b\<bar>" using assms(2) volt_of_cases by metis
    then have "b \<noteq> 0" by (auto simp: BATT_THRESH_def)
    then show ?thesis using High h a l by (auto simp: run sgn_if)
  qed
  show "i \<notin> ip_batt_words \<Longrightarrow> mem (drv_wc (ip01_batt_poll b s)) i = mem (drv_wc s) i"
    by (simp add: ip01_batt_poll_def Let_def ip_batt_words_def)
qed

lemma ip_count_batt:
  "mem (drv_wc (ip01_count_poll s)) ip_battdebounce =
     (if mem (drv_wc s) ip_battdebounce = 0 then 0 else mem (drv_wc s) ip_battdebounce - 1)"
  "mem (drv_wc (ip01_count_poll s)) ip_battery = mem (drv_wc s) ip_battery"
  "i \<notin> ip_batt_words \<Longrightarrow> mem (drv_wc (ip01_count_poll s)) i = mem (drv_wc s) i"
  by (simp_all add: ip01_count_poll_def Let_def ip_batt_words_def ip_offsets zt_qevent_polarity_def)

lemma ip_count_pol:
  assumes "ip_pol_abs (mem (drv_wc s)) p"
  shows "ip_pol_abs (mem (drv_wc (ip01_count_poll s))) (pol_tick p)"
    "zt (drv_wc (ip01_count_poll s)) = zt (drv_wc s) @ pol_events 0 p (pol_tick p)"
proof -
  note a = assms[unfolded ip_pol_abs_def ip_offsets]
  have m: "mem (drv_wc s) 6 = of_int (cand p)" "mem (drv_wc s) 7 = of_int (known p)" "mem (drv_wc s) 8 = of_nat (pwait p)"
    and r: "pwait p \<le> 64" "cand p \<in> {-1, 0, 1}" "known p \<in> {-1, 0, 1}" using a by blast+
  have e: "(of_int (cand p) :: u32) = of_int (known p) \<longleftrightarrow> cand p = known p" "(of_int (known p) :: u32) = 0 \<longleftrightarrow> known p = 0"
    using pol_word_eq[OF r(2,3)] pol_word_eq[OF r(3), of 0] by simp_all
  note run = ip01_count_poll_def Let_def ip_offsets ip_pol_abs_def pol_tick_def pol_events_def
  have "ip_pol_abs (mem (drv_wc (ip01_count_poll s))) (pol_tick p) \<and>
      zt (drv_wc (ip01_count_poll s)) = zt (drv_wc s) @ pol_events 0 p (pol_tick p)"
  proof (cases "pwait p")
    case 0
    then show ?thesis using m r by (simp add: run)
  next
    case (Suc q)
    have z: "(of_nat (Suc q) :: u32) \<noteq> 0" "sint (of_nat q :: u32) = int q"
      using of_nat_u32(1)[of q] of_nat_u32(2)[of "Suc q"] r(1) Suc by simp_all
    have w: "mem (drv_wc s) 8 = of_nat (Suc q)" "(of_nat (Suc q) :: u32) - 1 = of_nat q" using m(3) Suc by simp_all
    show ?thesis
    proof (cases "q = 0 \<and> cand p \<noteq> known p")
      case True
      then show ?thesis using m(1,2) e r(2,3) Suc z w(1)
        by (cases "known p = 0") (simp_all add: run zt_qevent_polarity_def)
    next
      case False
      then have "\<not> (int q < 1 \<and> cand p \<noteq> known p)" by auto
      then show ?thesis using False m(1,2) e r Suc z w
        by (cases "q = 0") (simp_all add: run del: of_nat_Suc)
    qed
  qed
  then show "ip_pol_abs (mem (drv_wc (ip01_count_poll s))) (pol_tick p)"
    "zt (drv_wc (ip01_count_poll s)) = zt (drv_wc s) @ pol_events 0 p (pol_tick p)" by blast+
qed

lemma ip_batt_refines:
  assumes "ip_batt_abs (mem (drv_wc s)) d" "v = volt_of b"
  shows "ip_batt_abs (mem (drv_wc (ip01_count_poll (ip01_batt_poll b s)))) (ip_batt_step v d)"
proof -
  note a = assms(1)[unfolded ip_batt_abs_def]
  note p = ip_batt_reading[OF assms] and n = ip_count_batt(1,2)[of "ip01_batt_poll b s"]
  show ?thesis
  proof (cases "v = (if on d then Low else High) \<and> contrary d \<noteq> 63")
    case True
    then have "contrary d < 63" "ip_contrary_word (contrary d) \<noteq> 0" using a ip_contrary_facts(2)[of "contrary d"] by auto
    then show ?thesis using True p n ip_contrary_facts(3)[of "contrary d"] by (simp add: ip_batt_abs_def ip_batt_step_def)
  next
    case False
    then show ?thesis using p n by (auto simp: ip_batt_abs_def ip_batt_step_def ip_contrary_facts(1))
  qed
qed

definition ip_line_abs :: "(nat \<Rightarrow> u32) \<Rightarrow> line_mon \<Rightarrow> bool" where
  "ip_line_abs m l \<longleftrightarrow> ip_ring_abs m (m_ring l) \<and> ip_batt_abs m (m_batt l) \<and> ip_pol_abs m (m_pol l)"

definition ip_line_step :: "bool \<Rightarrow> bool \<Rightarrow> int \<Rightarrow> line_mon \<Rightarrow> line_mon" where
  "ip_line_step offhook r b l =
     \<lparr>m_ring = (if offhook then m_ring l else ip_ring_step (r \<and> on (m_batt l)) (m_ring l)),
      m_batt = ip_batt_step (volt_of b) (m_batt l), m_pol = pol_step (volt_of b) b (m_pol l)\<rparr>"

definition ip_ring_bits :: "env \<Rightarrow> ip01 \<Rightarrow> bool" where
  "ip_ring_bits e s \<longleftrightarrow> fst (ip01_getreg e 0 5 (drv_wc s)) AND 0x60 \<noteq> 0"

definition ip_line_volt :: "env \<Rightarrow> ip01 \<Rightarrow> int" where
  "ip_line_volt e s = sint (fst (ip01_getreg e 0 29 (drv_wc (ip01_ring_poll e s))))"

definition ip_daa_words :: "nat set" where
  "ip_daa_words = {ip_wasringing, ip_ringdebounce} \<union> ip_batt_words"

lemma ip_poll_refines:
  assumes "ip_line_abs (mem (drv_wc s)) l"
    and "l' = ip_line_step (mem (drv_wc s) ip_offhook \<noteq> 0) (ip_ring_bits e s) (ip_line_volt e s) l"
  shows "ip_line_abs (mem (drv_wc (ip01_voicedaa_check_hook e s))) l'"
    "zt (drv_wc (ip01_voicedaa_check_hook e s)) = zt (drv_wc s) @ line_events 0 l l'"
    "i \<notin> ip_daa_words \<Longrightarrow> mem (drv_wc (ip01_voicedaa_check_hook e s)) i = mem (drv_wc s) i"
proof -
  let ?s1 = "ip01_ring_poll e s" and ?b = "ip_line_volt e s"
  let ?s2 = "?s1\<lparr>drv_wc := snd (ip01_getreg e 0 29 (drv_wc ?s1))\<rparr>"
  let ?s3 = "ip01_batt_poll ?b ?s2"
  have run: "ip01_voicedaa_check_hook e s = ip01_count_poll ?s3"
    by (simp add: ip01_voicedaa_check_hook_def Let_def split_beta ip_line_volt_def)
  have l: "ip_ring_abs (mem (drv_wc s)) (m_ring l)" "ip_batt_abs (mem (drv_wc s)) (m_batt l)" "ip_pol_abs (mem (drv_wc s)) (m_pol l)"
    using assms(1) by (simp_all add: ip_line_abs_def)
  have on: "mem (drv_wc s) ip_battery \<noteq> 0 \<longleftrightarrow> on (m_batt l)" using l(2) by (simp add: ip_batt_abs_def)
  note r = ip_ring_refines[OF l(1) refl refl, where e = e]
  have R: "(if mem (drv_wc s) ip_offhook = 0
      then ip_ring_step (fst (ip01_getreg e 0 5 (drv_wc s)) AND 0x60 \<noteq> 0 \<and> mem (drv_wc s) ip_battery \<noteq> 0) (m_ring l)
      else m_ring l) = m_ring l'"
    using on by (simp add: assms(2) ip_line_step_def ip_ring_bits_def)
  note rr = r(1,2)[unfolded R]
  have k2: "mem (drv_wc ?s2) i = mem (drv_wc s) i" if "i \<noteq> ip_wasringing" "i \<noteq> ip_ringdebounce" for i
    using r(3) that by simp
  have B: "ip_batt_abs (mem (drv_wc ?s2)) (m_batt l)" "ip_pol_abs (mem (drv_wc ?s2)) (m_pol l)"
    using l(2,3) k2 by (simp_all add: ip_batt_abs_def ip_pol_abs_def ip_offsets)
  note b = ip_batt_reading[OF B(1) refl, where b = ?b] and p = ip_pol_reading[OF B(2) refl, where b = ?b]
  note q = ip_count_pol[OF p(1)]
  have "ip_ring_abs (mem (drv_wc (ip01_count_poll ?s3))) (m_ring l')"
    using rr(1) p(2) ip_count_batt(3)[of _ ?s3] by (simp add: ip_ring_abs_def ip_offsets ip_batt_words_def)
  moreover have "ip_batt_abs (mem (drv_wc (ip01_count_poll ?s3))) (m_batt l')"
    using ip_batt_refines[OF B(1) refl, where b = ?b] by (simp add: assms(2) ip_line_step_def)
  moreover have "ip_pol_abs (mem (drv_wc (ip01_count_poll ?s3))) (m_pol l')"
    using q(1) by (simp add: assms(2) ip_line_step_def pol_step_def)
  ultimately show "ip_line_abs (mem (drv_wc (ip01_voicedaa_check_hook e s))) l'" by (simp add: run ip_line_abs_def)
  have "pol_events 0 (pol_cand (volt_of ?b) ?b (m_pol l)) (m_pol l') = pol_events 0 (m_pol l) (m_pol l')"
    by (simp add: pol_events_def pol_cand_def)
  then show "zt (drv_wc (ip01_voicedaa_check_hook e s)) = zt (drv_wc s) @ line_events 0 l l'"
    using q(2) b(3) rr(2)
    by (simp add: run line_events_def) (simp add: assms(2) ip_line_step_def pol_step_def)
  show "i \<notin> ip_daa_words \<Longrightarrow> mem (drv_wc (ip01_voicedaa_check_hook e s)) i = mem (drv_wc s) i"
    using ip_count_batt(3)[of i ?s3] p(2)[of i] k2[of i] by (simp add: run ip_daa_words_def)
qed

text \<open>A ring signal seen in every second reading is noticed by the larger boards and never by the IP01.\<close>

lemma intermittent_ring:
  "fold ip_ring_step (concat (replicate n [True, False])) \<lparr>ringing = False, level = 0\<rparr> = \<lparr>ringing = False, level = 0\<rparr>"
  "ringing (fold ring_step (concat (replicate 9 [True, False])) \<lparr>ringing = False, level = 0\<rparr>)"
  by (induction n) (simp_all add: ip_ring_step_def ring_step_def numeral_eq_Suc)

text \<open>Every interrupt polls the card, so that counts of readings are milliseconds.\<close>

lemma ip01_polls_each_time: "ip01_polled n = 0"
  by (simp add: ip01_polled_def IP01_NUM_CARDS_def)

text \<open>Both colours are the same value: once a card was found its LED stays on, whatever the line does, until the
  module is released.\<close>

lemma led_never_off:
  assumes "bit (fio_flag s) PF_FXS_LED"
  shows "bit (fio_flag (ip01_voicedaa_check_hook e s)) PF_FXS_LED" "bit (fio_flag (snd (ip01_hooksig e k sig t s))) PF_FXS_LED"
    "\<not> bit (fio_flag (ip01_release True s)) PF_FXS_LED"
proof -
  have f [simp]: "fio_flag (ipset i v s) = fio_flag s" "fio_flag (ip_hooksig x s) = fio_flag s" for i v x s
    by (simp_all add: ipset_def ip_hooksig_def)
  have g [simp]: "bit (fio_flag (ip01_wcfxs_set_led p IP01_LED_GREEN s)) PF_FXS_LED" "bit (fio_flag (ip01_wcfxs_set_led p IP01_LED_RED s)) PF_FXS_LED" for p s
    by (simp_all add: ip01_wcfxs_set_led_def led_pin IP01_LED_GREEN_def IP01_LED_RED_def LED_ON_def)
  have i: "fio_flag (if P then x else y) = (if P then fio_flag x else fio_flag y)" for P x y by simp
  have "bit (fio_flag (ip01_ring_poll e s)) PF_FXS_LED" using assms
    unfolding ip01_ring_poll_def Let_def split_beta by (simp add: i)
  moreover have "fio_flag (ip01_batt_poll b u) = fio_flag u" "fio_flag (ip01_count_poll u) = fio_flag u" for b u
    unfolding ip01_batt_poll_def ip01_count_poll_def Let_def by (simp_all only: i f on_wc_simps if_cancel)
  ultimately show "bit (fio_flag (ip01_voicedaa_check_hook e s)) PF_FXS_LED"
    by (simp add: ip01_voicedaa_check_hook_def Let_def split_beta)
  show "bit (fio_flag (snd (ip01_hooksig e k sig t s))) PF_FXS_LED"
    using assms by (simp add: ip01_hooksig_def ip01_hooksig_state_def Let_def split: txsig.split)
  show "\<not> bit (fio_flag (ip01_release True s)) PF_FXS_LED"
    by (simp add: ip01_release_def Let_def led_pin LED_OFF_def LED_ON_def)
qed

text \<open>What an FXS card is told: on hook is always state 1, so that the idle state an on-hook transfer needs is not
  restored; the ioctl itself reaches no register.\<close>

lemma ip01_hooksig_effect:
  assumes "modtype (drv_wc s) 0 = MOD_TYPE_FXS" "one_ok plain b0 (drv_wc s)"
    and "v = (if t = TXSIG_ONHOOK \<and> sig \<in> {SIG_EM, SIG_FXOKS, SIG_FXOLS} then 1
      else tx_state sig t (mem (drv_wc s) ip_idletxhookstate) (mem (drv_wc s) ip_lasttxhook))"
  shows "mem (drv_wc (snd (ip01_hooksig e k sig t s))) ip_lasttxhook = v"
    "ochip (one_of plain b0 (bus (drv_wc (snd (ip01_hooksig e k sig t s))))) =
      (ochip (one_of plain b0 (bus (drv_wc s))))(64 := ucast v)"
proof -
  let ?s = "ip01_hooksig_state sig t s"
  let ?u = "if debug k \<noteq> 0 then on_wc (\<lambda>w. snd (ip01_getreg e 0 64 w)) ?s else ?s"
  have s: "mem (drv_wc ?s) ip_lasttxhook = v" "bus (drv_wc ?s) = bus (drv_wc s)" "modtype (drv_wc ?s) = modtype (drv_wc s)"
    using assms(3) by (auto simp: ip01_hooksig_state_def tx_state_def Let_def setm_def ip_offsets split: txsig.split)
  have ok: "one_ok plain b0 (drv_wc ?s)" using assms(2) by (simp add: one_ok_def s)
  have u: "mem (drv_wc ?u) ip_lasttxhook = v" "one_ok plain b0 (drv_wc ?u)"
    "ochip (one_of plain b0 (bus (drv_wc ?u))) = ochip (one_of plain b0 (bus (drv_wc s)))"
    using s ok ip01_getreg_board(1,2)[OF ok, of e 64] by (simp_all add: plain_def)
  have run: "snd (ip01_hooksig e k sig t s) = on_wc (ip01_setreg 0 64 (ucast v)) ?u"
    using assms(1) u(1) by (simp add: ip01_hooksig_def Let_def)
  have m: "mem (ip01_setreg 0 r x w) = mem w" for r x w by (simp add: ip01_setreg_def Let_def tx_def)
  show "mem (drv_wc (snd (ip01_hooksig e k sig t s))) ip_lasttxhook = v" unfolding run using u(1) by (simp add: m)
  show "ochip (one_of plain b0 (bus (drv_wc (snd (ip01_hooksig e k sig t s))))) =
      (ochip (one_of plain b0 (bus (drv_wc s))))(64 := ucast v)"
    unfolding run using ip01_setreg_board(1)[OF u(2), of 64 "ucast v"] u(3) by (simp add: plain_def)
qed

lemma ip01_onhooktransfer_silent: "bus (drv_wc (snd (ip01_onhooktransfer arg s))) = bus (drv_wc s)"
  by (simp add: ip01_onhooktransfer_def setm_def split: option.split)

text \<open>The lines the web interface writes, with a space before the sign, survive the scan of the IP01.\<close>

lemma ip01_keeps_gui_lines:
  "snd (ip01_zapscan \<lparr>dev_ok = False, tmp_ok = True, zdc_ok = True, zsc_ok = True, zap_ok = True\<rparr> cs
     \<lparr>zaptel_conf = Some (''fxoks =1'' @ [NL]), zapscan_conf = Some [], zapata_conf = Some []\<rparr>) =
   \<lparr>zaptel_conf = Some (''fxoks =1'' @ [NL]), zapscan_conf = Some [], zapata_conf = Some []\<rparr>"
proof -
  have l: "list_all line_ok [''fxoks =1'' @ [NL]]" "list_all line_ok []" by (simp_all add: line_ok_def LINE_MAX_def NL_def)
  have "keep zt_sel [''fxoks =1'' @ [NL]] = [''fxoks =1'' @ [NL]]" "keep za_sel [] = []"
    by (simp_all add: zt_sel_def sel_def begins_def)
  then show ?thesis using strip_lines_keep[OF _ _ l(1), of "''fxoks=''" "''fxsks=''"] strip_za[OF l(2)]
    by (simp add: ip01_zapscan_def append_to_def zt_sel_def)
qed

text \<open>Any sequence of register accesses and LED changes works on one chip and one LED, and moves no other pin.\<close>

lemma ip01_board_refines:
  assumes "ip_sim ch b0 f0 s a" and "on_one e ch b0" and "list_all ip_op_ok xs"
  shows "fst (runs (ip_run_op e) xs s) = fst (runs (ip_spec_op ch) xs a) \<and>
    ip_sim ch b0 f0 (snd (runs (ip_run_op e) xs s)) (snd (runs (ip_spec_op ch) xs a))"
  by (rule ip_sim_runs[OF assms])

section \<open>Properties\<close>

definition demo_ip01 :: ip01 where
  "demo_ip01 = \<lparr>drv_wc = demo_wc, fio_dir = 0, fio_flag = 0\<rparr>"

definition ip_fresh_line :: line_mon where
  "ip_fresh_line = fresh_line\<lparr>m_batt := \<lparr>on = False, contrary = 63\<rparr>\<rparr>"

lemma ip_fresh_abs: "ip_line_abs (mem (drv_wc demo_ip01)) ip_fresh_line"
  by (simp add: ip_line_abs_def ip_fresh_line_def fresh_line_def demo_ip01_def demo_wc_def ip_ring_abs_def ip_batt_abs_def ip_pol_abs_def
      level_word_def ip_contrary_word_def)

lemma ip_volt_reads: "ip_line_volt (volt_env x) s = sint x" "ip_ring_bits (volt_env x) s = (x AND 0x60 \<noteq> 0)"
  by (simp_all add: ip_line_volt_def ip_ring_bits_def ip01_getreg_def Let_def volt_env_def)

text \<open>
  C28.  On the IP01 the FXO poll implements three line monitors with other constants than on the larger boards: ringing is a
  level that each ringing reading raises and each other reading lowers by one, reported at 64 and withdrawn
  at 0; the battery changes on the 64th contrary reading in a row; the polarity as before.
  After one poll the words of the union hold their next state, exactly their changes go to the
  Zaptel core, and no other word is touched.
\<close>

theorem ip01_poll_monitors:
  assumes "ip_line_abs (mem (drv_wc s)) l"
    and "l' = ip_line_step (mem (drv_wc s) ip_offhook \<noteq> 0) (ip_ring_bits e s) (ip_line_volt e s) l"
  shows "ip_line_abs (mem (drv_wc (ip01_voicedaa_check_hook e s))) l' \<and>
    zt (drv_wc (ip01_voicedaa_check_hook e s)) = zt (drv_wc s) @ line_events 0 l l' \<and>
    (\<forall>i. i \<notin> ip_daa_words \<longrightarrow> mem (drv_wc (ip01_voicedaa_check_hook e s)) i = mem (drv_wc s) i)"
  using ip_poll_refines[OF assms] by blast

theorem ip01_poll_monitors_witness:
  "zt (drv_wc (ip01_voicedaa_check_hook (volt_env 40) demo_ip01)) = [Hooksig 0 RXSIG_OFFHOOK]"
  using ip01_poll_monitors[OF ip_fresh_abs refl, of "volt_env 40"]
  by (simp add: ip_volt_reads line_events_def ip_line_step_def ip_fresh_line_def fresh_line_def ip_ring_step_def ip_batt_step_def
      pol_step_def pol_tick_def pol_cand_def ring_events_def batt_events_def pol_events_def volt_of_def demo_ip01_def demo_wc_def)

end
