(* ===== verification/Gsm_Bfsi.thy ===== *)
theory Gsm_Bfsi
  imports Bfsi_Sport
begin

text \<open>
  The SPORT half of \<open>src/src/zaptel-gsm/bfsi.c\<close>, as far as it differs from \<open>src/src/bfsi.c\<close>: the audio buffers come from
  whichever data bank has room, and the first serial port sends its frame one bit later.
\<close>

section \<open>Set-up and shut-down\<close>

definition gsm_init_sport0 :: "bfin_hdr \<Rightarrow> bool \<Rightarrow> trace \<Rightarrow> trace" where
  "gsm_init_sport0 h ic =
     seq ((if ic then [wr16 (SPORT_RCLKDIV 0) 24, wr16 (SPORT_RFSDIV 0) 255] else [wr16 (SPORT_RFSDIV 0) 255]) @
       [wr16 (SPORT_TCR2 0) 7, wr16 (SPORT_TCR1 0) 0, wr16 (SPORT_RCR2 0) 7,
        wr16 (SPORT_RCR1 0) (if ic then IRFS h OR IRCLK h else IRFS h),
        wr (SPORT_MTCS0 0) 0xFF, wr (SPORT_MRCS0 0) 0xFF, wr16 (SPORT_MCMC1 0) 0, wr16 (SPORT_MCMC2 0) 0x101c])"

definition gsm_alloc_chunks :: "l1_cfg \<Rightarrow> kernel \<Rightarrow> int \<Rightarrow> bfsi \<Rightarrow> u32 \<times> bfsi" where
  "gsm_alloc_chunks c kern cur s =
     (let sz = 2 * samples_per_chunk s * 8
      in if L1_DATA_A_LENGTH c \<noteq> 0 \<or> L1_DATA_B_LENGTH c \<noteq> 0
         then case l1_data_sram_alloc c sz (l1m s) cur of (a, m) \<Rightarrow> (a, s\<lparr>l1m := m\<rparr>)
         else (kern (btr s) ''dma_alloc_coherent'', bdo (kcall ''dma_alloc_coherent'' [sz]) s))"

definition gsm_init_dma_wc ::
    "bfin_hdr \<Rightarrow> board \<Rightarrow> l1_cfg \<Rightarrow> device \<Rightarrow> kernel \<Rightarrow> int \<Rightarrow> bfsi \<Rightarrow> bfsi" where
  "gsm_init_dma_wc h b c dev kern cur s =
     (let s = bdo (seq [wr16 (DMA_PERIPHERAL_MAP (rx_dma b)) (rx_map b), wr_or dev (DMA_IRQ_STATUS (rx_dma b)) 2]) s;
          (rxb, s) = gsm_alloc_chunks c kern cur s;
          s = s\<lparr>iRxBuffer1 := rxb\<rparr>;
          s = bdo (seq [dma_2d (rx_dma b) rxb (samples_per_chunk s),
                wr16 (DMA_CONFIG (rx_dma b)) (WNR h OR WDSIZE_8 h OR DI_EN h OR 0x1000 OR DI_SEL h OR DMA2D h),
                wr16 (DMA_PERIPHERAL_MAP (tx_dma b)) (tx_map b),
                wr16 (DMA_CONFIG (tx_dma b)) (WDSIZE_8 h OR 0x1000 OR DMA2D h)]) s;
          (txb, s) = gsm_alloc_chunks c kern cur s;
          s = s\<lparr>iTxBuffer1 := txb\<rparr>
      in bdo (dma_2d (tx_dma b) txb (samples_per_chunk s)) s)"

definition gsm_bfsi_sport_init ::
    "bfin_hdr \<Rightarrow> board \<Rightarrow> l1_cfg \<Rightarrow> device \<Rightarrow> kernel \<Rightarrow> int \<Rightarrow> u32 \<Rightarrow> bool \<Rightarrow> bfsi \<Rightarrow> int \<times> bfsi" where
  "gsm_bfsi_sport_init h b c dev kern cur samples debug s =
     (let s = (if debug then bdo (seq [kcall ''create_proc_read_entry'' [0], kcall ''create_proc_read_entry'' [1],
                 kcall ''create_proc_read_entry'' [2]]) (s\<lparr>bfsi_debug := True\<rparr>) else s);
          s = s\<lparr>samples_per_chunk := samples\<rparr>;
          s = bdo (case b of BF533 \<Rightarrow> gsm_init_sport0 h (internalclock s) | BF537 \<Rightarrow> init_sport1 h dev (internalclock s)) s;
          s = gsm_init_dma_wc h b c dev kern cur s;
          s = bdo (enable_dma_sport h b dev) s;
          (r, s) = init_sport_interrupts b dev kern s
      in if r \<noteq> 0 then (0, s\<lparr>init_ok := False\<rparr>) else (1, s\<lparr>init_ok := True\<rparr>))"

definition gsm_release_chunks :: "l1_cfg \<Rightarrow> u32 \<Rightarrow> bfsi \<Rightarrow> bfsi" where
  "gsm_release_chunks c a s =
     (if L1_DATA_A_LENGTH c \<noteq> 0 \<or> L1_DATA_B_LENGTH c \<noteq> 0 then s\<lparr>l1m := snd (l1_data_sram_free c a (l1m s))\<rparr>
      else bdo (kcall ''dma_free_coherent'' [2 * samples_per_chunk s * 8, a]) s)"

definition gsm_bfsi_sport_close :: "bfin_hdr \<Rightarrow> board \<Rightarrow> l1_cfg \<Rightarrow> device \<Rightarrow> bfsi \<Rightarrow> bfsi" where
  "gsm_bfsi_sport_close h b c dev s =
     (let s = bdo (disable_sport h b dev) s;
          s = (if init_ok s then bdo (kcall ''free_irq'' [of_nat (sport_no b)]) s else s);
          s = gsm_release_chunks c (iTxBuffer1 s) s;
          s = gsm_release_chunks c (iRxBuffer1 s) s
      in bdo (seq [kcall ''remove_proc_entry'' [0], kcall ''remove_proc_entry'' [1], kcall ''remove_proc_entry'' [2]]) s)"

section \<open>Two banks as one allocator\<close>

definition data_blocks :: "l1_state \<Rightarrow> (nat \<times> nat) set" where
  "data_blocks s = blocks (bget DATA_A s) \<union> blocks (bget DATA_B s)"

lemma balloc_other:
  "balloc k c sz s cur = (a, s') \<Longrightarrow> sys_ok c s \<Longrightarrow> j \<noteq> k \<Longrightarrow> bget j s' = bget j s"
  by (erule balloc_split) auto

lemma bfree_other: "bfree k c a s = (r, s') \<Longrightarrow> sys_ok c s \<Longrightarrow> j \<noteq> k \<Longrightarrow> bget j s' = bget j s"
  by (auto simp: bfree_bank sys_ok_def split: prod.splits)

text \<open>A block of one bank lies on one side of every block of another.\<close>

lemma banks_apart:
  assumes "sys_ok c s" "(l, h) \<in> blocks (bget j s)" "(l', h') \<in> blocks (bget k s)" "j \<noteq> k"
  shows "h \<le> l' \<or> h' \<le> l"
proof -
  have "bhi c j \<le> unat (bstart k c) \<or> bhi c k \<le> unat (bstart j c)"
    using assms(1,4) unfolding sys_ok_def cfg_ok_def by blast
  then show ?thesis using block_in_bank[OF assms(1,2)] block_in_bank[OF assms(1,3)] by (auto simp: blo_def)
qed

lemma data_alloc:
  assumes "l1_data_sram_alloc c sz s cur = (a, s')" "sys_ok c s" "ok_size sz"
  obtains (none) "a = 0" "s' = s"
    | (some) j k where "a \<noteq> 0" "balloc k c sz s cur = (a, s')" "{j, k} = {DATA_A, DATA_B}" "j \<noteq> k"
proof -
  obtain x s1 where A: "balloc DATA_A c sz s cur = (x, s1)" by fastforce
  show thesis
  proof (cases "x = 0")
    case False
    then show thesis using some[of DATA_A DATA_B] assms(1) A by (simp add: l1_data_sram_alloc_def insert_commute)
  next
    case True
    then have s1: "s1 = s" using bk.alloc_fail[OF _ assms(2,3), of DATA_A cur] A by simp
    then have B: "balloc DATA_B c sz s cur = (a, s')" using assms(1) A True by (simp add: l1_data_sram_alloc_def)
    show thesis
    proof (cases "a = 0")
      case True
      then show thesis using none bk.alloc_fail[OF _ assms(2,3), of DATA_B cur] B by simp
    next
      case False
      then show thesis using some[of DATA_B DATA_A] B by simp
    qed
  qed
qed

lemma data_blocks_two: "{j, k} = {DATA_A, DATA_B} \<Longrightarrow> data_blocks s = blocks (bget j s) \<union> blocks (bget k s)"
  unfolding data_blocks_def by (metis (no_types, lifting) doubleton_eq_iff sup_commute)

interpretation data: l1_allocator "l1_data_sram_alloc c" "l1_data_sram_free c" "sys_ok c" data_blocks for c
proof
  show "s' = s" if "l1_data_sram_alloc c sz s cur = (0, s')" "sys_ok c s" "ok_size sz" for sz s cur s'
    using data_alloc[OF that] by blast
  show "sys_ok c s'" if "l1_data_sram_alloc c sz s cur = (a, s')" "sys_ok c s" "ok_size sz" for sz s cur a s'
    using data_alloc[OF that] bk.alloc_keeps[OF _ that(2,3)] that(2) by metis
  show "\<exists>h\<ge>unat a + unat sz. data_blocks s' = insert (unat a, h) (data_blocks s) \<and> (\<forall>(l, r)\<in>data_blocks s. r \<le> unat a \<or> h \<le> l)"
    if al: "l1_data_sram_alloc c sz s cur = (a, s')" "a \<noteq> 0" "sys_ok c s" "ok_size sz" for sz s cur a s'
  proof (cases rule: data_alloc[OF al(1,3,4)])
    case (2 j k)
    obtain h where h: "unat a + unat sz \<le> h" "blocks (bget k s') = insert (unat a, h) (blocks (bget k s))"
      "\<forall>(l, r)\<in>blocks (bget k s). r \<le> unat a \<or> h \<le> l" using bk.alloc_block[OF 2(2) al(2,3,4)] by blast
    have o: "bget j s' = bget j s" by (rule balloc_other[OF 2(2) al(3) 2(4)])
    have s': "sys_ok c s'" by (rule bk.alloc_keeps[OF 2(2) al(3,4)])
    have "\<forall>(l, r)\<in>blocks (bget j s). r \<le> unat a \<or> h \<le> l"
      using banks_apart[OF s' _ _ 2(4), of _ _ "unat a" h] h(2) o by auto
    then show ?thesis using h o data_blocks_two[OF 2(3), of s] data_blocks_two[OF 2(3), of s'] by auto
  qed (use al in simp)
  show "h = h'" if "sys_ok c s" "(l, h) \<in> data_blocks s" "(l, h') \<in> data_blocks s" for s l h h'
    using that l1_blocks_inj[OF that(1)] unfolding data_blocks_def l1_blocks_iff by blast
  show "l < h" if "sys_ok c s" "(l, h) \<in> data_blocks s" for s l h
    using that bk.block_pos[OF that(1)] unfolding data_blocks_def by blast
  show "\<exists>s'. l1_data_sram_free c a s = (0, s') \<and> sys_ok c s' \<and> data_blocks s' = {(l, r) \<in> data_blocks s. l \<noteq> unat a}"
    if f: "sys_ok c s" "(unat a, h) \<in> data_blocks s" for s a h
  proof (cases "(unat a, h) \<in> blocks (bget DATA_A s)")
    case True
    obtain s' where s': "bfree DATA_A c a s = (0, s')" "sys_ok c s'" "blocks (bget DATA_A s') = {(l, r) \<in> blocks (bget DATA_A s). l \<noteq> unat a}"
      using bk.free_hit[OF f(1) True] by blast
    have "\<forall>(l, r)\<in>blocks (bget DATA_B s). l \<noteq> unat a" using block_bank_unique[OF f(1) True] by blast
    moreover have "bget DATA_B s' = bget DATA_B s" using bfree_other[OF s'(1) f(1), of DATA_B] by simp
    ultimately show ?thesis using s' by (auto simp: l1_data_sram_free_def data_blocks_def)
  next
    case False
    then have B: "(unat a, h) \<in> blocks (bget DATA_B s)" using f(2) by (simp add: data_blocks_def)
    have n: "\<nexists>h. (unat a, h) \<in> blocks (bget DATA_A s)" using block_bank_unique[OF f(1) B] by blast
    have m: "bfree DATA_A c a s = (-1, s)" by (rule bk.free_miss[OF f(1) n])
    obtain s' where s': "bfree DATA_B c a s = (0, s')" "sys_ok c s'" "blocks (bget DATA_B s') = {(l, r) \<in> blocks (bget DATA_B s). l \<noteq> unat a}"
      using bk.free_hit[OF f(1) B] by blast
    moreover have "bget DATA_A s' = bget DATA_A s" using bfree_other[OF s'(1) f(1), of DATA_A] by simp
    ultimately show ?thesis using m n by (auto simp: l1_data_sram_free_def data_blocks_def)
  qed
  show "l1_data_sram_free c a s = (-1, s)" if f: "sys_ok c s" "\<nexists>h. (unat a, h) \<in> data_blocks s" for s a
    using bk.free_miss[OF f(1), of a DATA_A] bk.free_miss[OF f(1), of a DATA_B] f(2) by (simp add: l1_data_sram_free_def data_blocks_def)
qed

section \<open>Buffers are taken and given back\<close>

lemma gsm_init_l1:
  assumes "L1_DATA_A_LENGTH c \<noteq> 0" "l1_data_sram_alloc c (16 * samples) (l1m s) cur = (a, m1)"
    "l1_data_sram_alloc c (16 * samples) m1 cur = (d, m2)"
    "gsm_bfsi_sport_init h b c dev kern cur samples dbg s = (r, s')"
  shows "l1m s' = m2 \<and> iRxBuffer1 s' = a \<and> iTxBuffer1 s' = d"
proof -
  have dma: "l1m (gsm_init_dma_wc h b c dev kern cur u) = m2" "iRxBuffer1 (gsm_init_dma_wc h b c dev kern cur u) = a"
    "iTxBuffer1 (gsm_init_dma_wc h b c dev kern cur u) = d" if "samples_per_chunk u = samples" "l1m u = l1m s" for u
    using assms(1-3) that by (simp_all add: gsm_init_dma_wc_def gsm_alloc_chunks_def Let_def split_beta mult.commute)
  define s0 where "s0 = (if dbg then bdo (seq [kcall ''create_proc_read_entry'' [0], kcall ''create_proc_read_entry'' [1],
    kcall ''create_proc_read_entry'' [2]]) (s\<lparr>bfsi_debug := True\<rparr>) else s)\<lparr>samples_per_chunk := samples\<rparr>"
  define s1 where "s1 = bdo (case b of BF533 \<Rightarrow> gsm_init_sport0 h (internalclock s0) | BF537 \<Rightarrow> init_sport1 h dev (internalclock s0)) s0"
  have s1: "samples_per_chunk s1 = samples" "l1m s1 = l1m s" by (simp_all add: s1_def s0_def)
  have "(r, s') = (let (r, s) = init_sport_interrupts b dev kern (bdo (enable_dma_sport h b dev) (gsm_init_dma_wc h b c dev kern cur s1))
      in if r \<noteq> 0 then (0, s\<lparr>init_ok := False\<rparr>) else (1, s\<lparr>init_ok := True\<rparr>))"
    using assms(4) unfolding gsm_bfsi_sport_init_def Let_def s1_def s0_def by (rule sym)
  then show ?thesis using dma[OF s1] by (auto simp: init_sport_interrupts_def Let_def split: if_splits)
qed

text \<open>Set-up takes two disjoint buffers, from either bank, and shut-down turns the DMA channels off and gives back exactly
  these: both data banks are as before.\<close>

lemma gsm_sport_init_close:
  assumes "sys_ok c (l1m s)" and "ok_size (16 * samples)"
    and "l1_data_sram_alloc c (16 * samples) (l1m s) cur = (a, m1)" and "a \<noteq> 0"
    and "l1_data_sram_alloc c (16 * samples) m1 cur = (d, m2)" and "d \<noteq> 0"
    and "gsm_bfsi_sport_init h b c dev kern cur samples dbg s = (r, s1)" and "s2 = gsm_bfsi_sport_close h b c dev s1"
  shows "(unat (iRxBuffer1 s1) + unat (16 * samples) \<le> unat (iTxBuffer1 s1) \<or>
      unat (iTxBuffer1 s1) + unat (16 * samples) \<le> unat (iRxBuffer1 s1)) \<and>
    data_blocks (l1m s2) = data_blocks (l1m s) \<and>
    (\<exists>v. last_written (DMA_CONFIG (rx_dma b)) (btr s2) = Some v \<and> v AND ucast (DMAEN h) = 0) \<and>
    (\<exists>v. last_written (DMA_CONFIG (tx_dma b)) (btr s2) = Some v \<and> v AND ucast (DMAEN h) = 0)"
proof -
  have l: "L1_DATA_A_LENGTH c \<noteq> 0" using cfg_ok_lengths assms(1) by (simp add: sys_ok_def)
  have i: "l1m s1 = m2" "iRxBuffer1 s1 = a" "iTxBuffer1 s1 = d" using gsm_init_l1[OF l assms(3,5,7)] by auto
  have "(unat a + unat (16 * samples) \<le> unat d \<or> unat d + unat (16 * samples) \<le> unat a) \<and>
      (\<exists>m3 m4. l1_data_sram_free c d m2 = (0, m3) \<and> l1_data_sram_free c a m3 = (0, m4) \<and> sys_ok c m4 \<and>
        data_blocks m4 = data_blocks (l1m s))"
    by (rule data.two_buffers[OF assms(3,4,5,6,1,2)])
  moreover have "l1m s2 = snd (l1_data_sram_free c a (snd (l1_data_sram_free c d m2)))"
    using l i by (simp add: assms(8) gsm_bfsi_sport_close_def gsm_release_chunks_def Let_def)
  moreover have "last_written r (btr s2) = last_written r (disable_sport h b dev (btr s1))" for r
    using l by (simp add: assms(8) gsm_bfsi_sport_close_def gsm_release_chunks_def Let_def kcall_def)
  ultimately show ?thesis using i disable_sport_off[of b h dev "btr s1"] by auto
qed

end
