(* ===== verification/Spec2Isabelle.thy ===== *)
theory Spec2Isabelle
  imports L1_Banks Bfsi_Sport Sport_If Wcfxs_Ctl Vercmp Zeropad G729 Procwatch Zapscan Leds
    Gsm_Tdm Gsm_Sport Speex Cdr Ztscan Php_Sqlite Ip01 Gsm_Bfsi
begin

text \<open>
  Verification of the programs of BAPS, the Blackfin Asterisk package system: telephony
  drivers for the IP04 and its relatives, a codec for Asterisk, and the tools of the
  package system.

  \<^bold>\<open>The parts and how they interact.\<close>  The board carries up to eight FXS or FXO line cards on a
  byte-wide serial bus.  The driver \<open>wcfxs.c\<close> programs their chips through \<open>fx.c\<close> and one of two
  bus implementations: the SPI half of \<open>bfsi.c\<close>, or \<open>sport_interface.c\<close>, which runs the
  same protocol over a serial port.  Audio travels through the other serial port by DMA, set up
  and served by the SPORT half of \<open>bfsi.c\<close>, whose buffers come from the on-chip memory managed
  by \<open>blackfin_sram.c\<close>.  Each DMA interrupt calls back into \<open>wcfxs.c\<close>, which moves the samples
  between the DMA chunk and the Zaptel channels and polls one card for hook or ring
  changes.  The variant under \<open>zaptel-gsm\<close> adds a GSM module in one of the ports: a modem behind a
  bus-to-serial converter and a codec on the audio lines.  The one under \<open>zaptel-ip01\<close> serves a board with one card and no
  multiplexer.  Above that, \<open>codec_g729.c\<close> and \<open>codec_speex.c\<close> translate audio for Asterisk, \<open>cdr_sqlite3.c\<close> stores its call records, which
  PHP scripts read through \<open>php_sqlite3.c\<close>; \<open>procwatch.c\<close> feeds the
  hardware watchdog while the processes live, \<open>zapscan.c\<close> and \<open>ztscan.c\<close> write the channel configuration,
  \<open>leds.c\<close> drives the front panel, \<open>zeropad.c\<close> pads images and \<open>ipkg-compare-versions.c\<close> decides
  which package is newer.

  \<^bold>\<open>The theories.\<close>  Sources are under \<open>src/src\<close> unless a path is given.

  \<^item> \<open>Prelude\<close>: machine integers, first-match search, facts on lists and words.
  \<^item> \<open>Cstr\<close>: the C library's string and number functions used by the tools.
  \<^item> \<open>Sram\<close>: the piece table of \<open>blackfin_sram.c\<close>.  A bank is the list of its pieces; allocation,
    largest-block allocation and release with merging are functions on it.  The invariant says
    that pieces are disjoint, cover the region, are aligned and merged.  The locale
    \<open>l1_allocator\<close> is the contract of an allocator; the bank implements it.
  \<^item> \<open>L1_Banks\<close>: scratchpad, data and instruction banks, the release by address, the per-process
    lists, with reachability as an inductive relation.  The contract is interpreted again on
    every bank of the whole state.
  \<^item> \<open>Byte_Bus\<close>: the locale \<open>byte_bus\<close>, what the line-card driver requires of a bus.
  \<^item> \<open>Bfsi_Spi\<close>, \<open>Sport_If\<close>: the two buses, register access by register access.  The hardware is
    a function from the history of accesses to the value read.  Both implement \<open>byte_bus\<close>.
  \<^item> \<open>Bfsi_Sport\<close>: serial port and DMA set-up, interrupt bookkeeping, double buffering.
  \<^item> \<open>Wcfxs_Regs\<close>: the driver state, card selection, LEDs, port detection and register
    access, against a model of the board (multiplexer and chips).  The locales \<open>chip_bus\<close> and
    \<open>register_file\<close> are the view the rest of the driver uses.
  \<^item> \<open>Wcfxs_Indirect\<close>, \<open>Wcfxs_Init\<close>: indirect registers, power-up, calibration, initialisation.
  \<^item> \<open>Wcfxs_Hook\<close>, \<open>Wcfxs_Daa\<close>: polling of FXS and FXO lines and the debouncers they implement.
  \<^item> \<open>Wcfxs_Tdm\<close>: timeslots in both directions, echo cancelling, the interrupt handler.
  \<^item> \<open>Wcfxs_Ctl\<close>: signalling, ioctls, open and close, module load and unload.
  \<^item> \<open>Gsm_Uart\<close>: \<open>zaptel-gsm/gsm_module.c\<close> up to the initialisation of the module; \<open>Gsm_Chip\<close> sets it against a
    model of the converter, the codec and the modem.
  \<^item> \<open>Gsm_Call\<close>: the call state machine of \<open>gsm_module.c\<close> and the signalling of \<open>zaptel-gsm/wcfxs.c\<close>, as a
    step relation over interleaved events, and the call machine it refines.
  \<^item> \<open>Gsm_Tdm\<close>: the changed initialisation, audio path and interrupt handler of \<open>zaptel-gsm/wcfxs.c\<close>.
  \<^item> \<open>Gsm_Sport\<close>: \<open>zaptel-gsm/sport_interface.c\<close> and the word transfers; the locale \<open>word_bus\<close> is what
    \<open>Gsm_Uart\<close> requires of the bus.
  \<^item> \<open>Gsm_Bfsi\<close>: what \<open>zaptel-gsm/bfsi.c\<close> changes in set-up and shut-down of the audio port; the two data banks
    together implement \<open>l1_allocator\<close>.
  \<^item> \<open>Ip01\<close>: the functions of \<open>zaptel-ip01\<close> that differ from the main driver, on a board with one chip; \<open>chip_bus\<close> is
    interpreted on it too.
  \<^item> \<open>Vercmp\<close>: \<open>src/scripts/ipkg-utils/ipkg-compare-versions.c\<close>, with the locale \<open>version_order\<close>.
  \<^item> \<open>Zeropad\<close>, \<open>Zapscan\<close>, \<open>Leds\<close>: the programs of these names.
  \<^item> \<open>G729\<close>: \<open>codec_g729.c\<close> and the inline part of \<open>g729ab_codec.h\<close>; the locale \<open>translator\<close> is
    what Asterisk relies on, implemented by encoder and decoder.
  \<^item> \<open>Framing\<close>: coding a stream block by block, shared by the translators.
  \<^item> \<open>Speex\<close>: \<open>codec_speex.c\<close>, with its configuration and the packets it makes as a specification.
  \<^item> \<open>Cdr\<close>: \<open>cdr_sqlite3.c\<close>, against a reader of the SQL statements.
  \<^item> \<open>Ztscan\<close>: \<open>ztscan.c\<close>, with what its output says.
  \<^item> \<open>Php_Sqlite\<close>: \<open>src/files/sqlite3/php_sqlite3.c\<close>, with the structures behind its resources as a heap; the
    predicates \<open>zend_list\<close> and \<open>cursor\<close> say what is documented of the engine and of SQLite.
  \<^item> \<open>Procwatch\<close>: options, start-up, the scan of \<open>/proc\<close>, the main loop round by round.

  \<^bold>\<open>What is shown.\<close>

  \<^item> Memory: allocation returns an aligned block disjoint from all blocks in use or changes
    nothing; release gives back exactly the block; no bytes are lost over any sequence of calls;
    the per-process lists own exactly the blocks in use.
  \<^item> Buses: what appears on the wire for each transfer, and that both drivers implement the byte
    bus, other devices on the lines left idle.
  \<^item> Registers: through card selection, LED writes and port detection every register behaves as
    a memory cell of its card; indirect registers likewise; the initialisation programs what
    its tables say on each branch; a fast re-initialisation restores the saved calibration.
  \<^item> Audio: the interrupt handler never works on the half of the buffer that the DMA uses; sent
    samples arrive in their channels; the handler returns and touches only the polled card.
  \<^item> Supervision: the hook, ring, battery and polarity polls implement explicit debouncers, with
    the exact number of readings after which an event is reported, also with the changed constants of the IP01.
  \<^item> Control: use counts balance, signalling and ioctls have their documented effect, and what
    happens when no card is found.
  \<^item> GSM: bytes and words share the port without disturbing each other; the module comes up, with the
    registers of its chips as the tables say; what is read for any answer of the modem; calls
    follow an explicit machine over any interleaving, and when a hang-up reaches the network; timeslots are distinct and
    inside the frame, and audio through them is transparent.
  \<^item> Codec: any cutting of the streams gives the same audio, no buffer is overrun.
  \<^item> Asterisk modules: the Speex encoder's packets, and what discontinuous transmission drops; settings keep their ranges; a
    call record reaches the database unchanged whatever it contains, with at most five attempts.
  \<^item> PHP: no sequence of calls makes the extension use a freed structure, and every row arrives, with the exact conditions
    on its values.
  \<^item> Tools: version comparison is the lexicographic order of tokens; the watchdog is fed exactly
    while every process seen so far is running; a second configuration scan changes nothing; what
    the padding consists of.

  \<^bold>\<open>Hardware, bounds and fuel.\<close>  Devices, clocks and kernel services are parameters.  A driver loop
  that waits for hardware takes a number of rounds as fuel and yields \<open>None\<close> without
  enough; theorems that use such a loop name the hardware assumption (\<open>responsive\<close>,
  \<open>sport_live\<close>, \<open>gsport_live\<close>: the device answers within \<open>fuel\<close> polls) and then state that there is a result.
  The loops over cards, pieces, table entries and buffers are structural or have termination
  proofs.  The one loop of the tools that can run for ever, the reader of \<open>procwatch.c\<close>, is a
  partial function, with a theorem for both cases.  The modem's retry loops without bound take
  fuel; one round is shown to be enough for a modem that accepts the command, and no number for one that does not.  Machine arithmetic is at its width wherever
  it can wrap; \<open>int\<close>, \<open>long\<close> and pointers have 32 bits on the target.

  \<^bold>\<open>Not modelled.\<close>  Printing and logging, apart from register reads made for it and the programs whose purpose is their
  output.  What \<open>zaptel-ip01\<close> and \<open>zaptel-gsm\<close> leave unchanged are copies of the drivers above.
  \<open>src/squid-2.7.STABLE9\<close> is a vendored proxy
  that is only built.  Spin locks and interrupt masking are not modelled: an operation runs to its end.
  The chip-select pins that \<open>zaptel-gsm/bfsi.c\<close> drives on the BF536 and BF537 are left out.
\<close>

end
